(* ===== verification/Sha256.thy ===== *)
theory Sha256
  imports Dnsid_Prelude
begin

unbundle bit_operations_syntax

text \<open>
  The digest the sources take from \<^verbatim>\<open>hashlib\<close> (FIPS 180-4 SHA-256), as an executable function
  on byte lists, and \<^verbatim>\<open>sha256(*chunks)\<close> of \<^verbatim>\<open>c2sp_tlog/merkle.py\<close> on top of it. Theorems of
  the other theories use only the digest's length; collision resistance is never assumed: a
  security statement concludes "or two different byte strings have this digest"
  (\<open>sha_collision\<close>).
\<close>

type_synonym word32 = "32 word"
type_synonym sha_state = "word32 \<times> word32 \<times> word32 \<times> word32 \<times> word32 \<times> word32 \<times> word32 \<times> word32"

definition sha_rotr :: "nat \<Rightarrow> word32 \<Rightarrow> word32" where
  "sha_rotr n w = drop_bit n w OR push_bit (32 - n) w"

definition sha_k :: "word32 list" where
  "sha_k =
    [0x428a2f98, 0x71374491, 0xb5c0fbcf, 0xe9b5dba5, 0x3956c25b, 0x59f111f1, 0x923f82a4, 0xab1c5ed5,
     0xd807aa98, 0x12835b01, 0x243185be, 0x550c7dc3, 0x72be5d74, 0x80deb1fe, 0x9bdc06a7, 0xc19bf174,
     0xe49b69c1, 0xefbe4786, 0x0fc19dc6, 0x240ca1cc, 0x2de92c6f, 0x4a7484aa, 0x5cb0a9dc, 0x76f988da,
     0x983e5152, 0xa831c66d, 0xb00327c8, 0xbf597fc7, 0xc6e00bf3, 0xd5a79147, 0x06ca6351, 0x14292967,
     0x27b70a85, 0x2e1b2138, 0x4d2c6dfc, 0x53380d13, 0x650a7354, 0x766a0abb, 0x81c2c92e, 0x92722c85,
     0xa2bfe8a1, 0xa81a664b, 0xc24b8b70, 0xc76c51a3, 0xd192e819, 0xd6990624, 0xf40e3585, 0x106aa070,
     0x19a4c116, 0x1e376c08, 0x2748774c, 0x34b0bcb5, 0x391c0cb3, 0x4ed8aa4a, 0x5b9cca4f, 0x682e6ff3,
     0x748f82ee, 0x78a5636f, 0x84c87814, 0x8cc70208, 0x90befffa, 0xa4506ceb, 0xbef9a3f7, 0xc67178f2]"

definition sha_init :: sha_state where
  "sha_init = (0x6a09e667, 0xbb67ae85, 0x3c6ef372, 0xa54ff53a,
               0x510e527f, 0x9b05688c, 0x1f83d9ab, 0x5be0cd19)"

text \<open>Big-endian conversion between bytes and 32-bit words.\<close>

fun be_words :: "bytes \<Rightarrow> word32 list" where
  "be_words (a # b # c # d # xs) =
     word_of_nat (((unat a * 256 + unat b) * 256 + unat c) * 256 + unat d) # be_words xs"
| "be_words _ = []"

definition be_bytes :: "word32 \<Rightarrow> bytes" where
  "be_bytes w = (let n = unat w in
     [word_of_nat (n div 16777216 mod 256), word_of_nat (n div 65536 mod 256),
      word_of_nat (n div 256 mod 256), word_of_nat (n mod 256)])"

text \<open>Big-endian integers of a fixed width: \<^verbatim>\<open>n.to_bytes(k, "big")\<close> and \<^verbatim>\<open>int.from_bytes\<close>.\<close>

fun to_bytes_be :: "nat \<Rightarrow> nat \<Rightarrow> bytes" where
  "to_bytes_be 0 n = []"
| "to_bytes_be (Suc k) n = to_bytes_be k (n div 256) @ [word_of_nat (n mod 256)]"

definition from_bytes_be :: "bytes \<Rightarrow> nat" where
  "from_bytes_be bs = foldl (\<lambda>n b. 256 * n + unat b) 0 bs"

definition sha_pad :: "bytes \<Rightarrow> bytes" where
  "sha_pad m = m @ [0x80] @ replicate ((119 - length m mod 64) mod 64) 0 @ to_bytes_be 8 (8 * length m)"

text \<open>
  The message schedule. The list holds the words computed so far, newest first, so that
  word \<open>t - k\<close> is at position \<open>k - 1\<close>.
\<close>

definition sha_sched_word :: "word32 list \<Rightarrow> word32" where
  "sha_sched_word ws =
     (let w2 = ws ! 1; w7 = ws ! 6; w15 = ws ! 14; w16 = ws ! 15;
          s0 = sha_rotr 7 w15 XOR sha_rotr 18 w15 XOR drop_bit 3 w15;
          s1 = sha_rotr 17 w2 XOR sha_rotr 19 w2 XOR drop_bit 10 w2
      in w16 + s0 + w7 + s1)"

fun sha_schedule :: "nat \<Rightarrow> word32 list \<Rightarrow> word32 list" where
  "sha_schedule 0 ws = ws"
| "sha_schedule (Suc n) ws = sha_schedule n (sha_sched_word ws # ws)"

fun sha_round :: "sha_state \<Rightarrow> word32 \<times> word32 \<Rightarrow> sha_state" where
  "sha_round (a, b, c, d, e, f, g, h) (k, w) =
     (let s1 = sha_rotr 6 e XOR sha_rotr 11 e XOR sha_rotr 25 e;
          ch = (e AND f) XOR (NOT e AND g);
          t1 = h + s1 + ch + k + w;
          s0 = sha_rotr 2 a XOR sha_rotr 13 a XOR sha_rotr 22 a;
          maj = (a AND b) XOR (a AND c) XOR (b AND c);
          t2 = s0 + maj
      in (t1 + t2, a, b, c, d + t1, e, f, g))"

fun sha_add :: "sha_state \<Rightarrow> sha_state \<Rightarrow> sha_state" where
  "sha_add (a, b, c, d, e, f, g, h) (a', b', c', d', e', f', g', h') =
     (a + a', b + b', c + c', d + d', e + e', f + f', g + g', h + h')"

definition sha_block :: "sha_state \<Rightarrow> bytes \<Rightarrow> sha_state" where
  "sha_block s blk =
     (let ws = rev (sha_schedule 48 (rev (be_words blk)))
      in sha_add s (foldl sha_round s (zip sha_k ws)))"

function sha_blocks :: "sha_state \<Rightarrow> bytes \<Rightarrow> sha_state" where
  "sha_blocks s m = (if m = [] then s else sha_blocks (sha_block s (take 64 m)) (drop 64 m))"
  by pat_completeness auto
termination
  by (relation "measure (\<lambda>(s, m). length m)") auto

declare sha_blocks.simps [simp del]

fun sha_output :: "sha_state \<Rightarrow> bytes" where
  "sha_output (a, b, c, d, e, f, g, h) = concat (map be_bytes [a, b, c, d, e, f, g, h])"

definition sha256_digest :: "bytes \<Rightarrow> bytes" where
  "sha256_digest m = sha_output (sha_blocks sha_init (sha_pad m))"

text \<open>\<^verbatim>\<open>sha256(*chunks)\<close>: the digest of the concatenation of the chunks.\<close>

definition sha256 :: "bytes list \<Rightarrow> bytes" where
  "sha256 chunks = sha256_digest (concat chunks)"

definition sha_collision :: "bytes \<Rightarrow> bytes \<Rightarrow> bool" where
  "sha_collision x y \<longleftrightarrow> x \<noteq> y \<and> sha256_digest x = sha256_digest y"

text \<open>
  Two of the given strings collide. Collisions exist, because digests are shorter than messages;
  the statements below therefore speak of a collision among the finitely many strings that two
  concrete computations hash.
\<close>

definition collides :: "bytes set \<Rightarrow> bool" where
  "collides A \<longleftrightarrow> (\<exists>x \<in> A. \<exists>y \<in> A. sha_collision x y)"

section \<open>Facts\<close>

lemma length_be_bytes [simp]: "length (be_bytes w) = 4"
  by (simp add: be_bytes_def Let_def)

lemma length_sha_output [simp]: "length (sha_output s) = 32"
  by (cases s rule: sha_output.cases) simp

lemma length_sha256_digest [simp, len_simps]: "length (sha256_digest m) = 32"
  by (simp add: sha256_digest_def)

lemma length_sha256 [simp, len_simps]: "length (sha256 chunks) = 32"
  by (simp add: sha256_def)

lemma length_to_bytes_be [simp, len_simps]: "length (to_bytes_be k n) = k"
  by (induction k arbitrary: n) auto

lemma from_bytes_be_snoc: "from_bytes_be (bs @ [b]) = 256 * from_bytes_be bs + unat b"
  by (simp add: from_bytes_be_def)

lemma unat_byte_mod [simp]: "unat (word_of_nat (n mod 256) :: byte) = n mod 256"
  by (simp add: unat_of_nat)

lemma from_to_bytes_be: "from_bytes_be (to_bytes_be k n) = n mod 256 ^ k"
proof (induction k arbitrary: n)
  case 0
  then show ?case by (simp add: from_bytes_be_def)
next
  case (Suc k)
  have "from_bytes_be (to_bytes_be (Suc k) n) = 256 * (n div 256 mod 256 ^ k) + n mod 256"
    by (simp add: from_bytes_be_snoc Suc.IH)
  also have "\<dots> = n mod (256 * 256 ^ k)"
    by (simp add: mod_mult2_eq)
  finally show ?case by simp
qed

lemma byte_of_unat [simp]: "word_of_nat (unat (b :: byte)) = b"
  by simp

lemma unat_byte_less: "unat (b :: byte) < 256"
  using unsigned_less [of b, where ?'a = nat] by simp

lemma to_from_bytes_be: "to_bytes_be (length bs) (from_bytes_be bs) = bs"
proof (induction bs rule: rev_induct)
  case Nil
  then show ?case by simp
next
  case (snoc b bs)
  have "(256 * from_bytes_be bs + unat b) div 256 = from_bytes_be bs"
    "(256 * from_bytes_be bs + unat b) mod 256 = unat b"
    by (simp_all add: mod_less unat_byte_less)
  with snoc show ?case by (simp add: from_bytes_be_snoc)
qed

lemma from_bytes_be_less: "from_bytes_be bs < 256 ^ length bs"
proof (induction bs rule: rev_induct)
  case Nil
  then show ?case by (simp add: from_bytes_be_def)
next
  case (snoc b bs)
  have "unat b < 256" by (rule unat_byte_less)
  moreover from snoc have "256 * (from_bytes_be bs + 1) \<le> 256 * 256 ^ length bs"
    by simp
  moreover have "u < 256 \<Longrightarrow> 256 * (p + 1) \<le> q \<Longrightarrow> 256 * p + u < q" for u p q :: nat
    by arith
  ultimately have "256 * from_bytes_be bs + unat b < 256 * 256 ^ length bs"
    by blast
  then show ?case by (simp add: from_bytes_be_snoc)
qed

lemma sha256_eq_collision:
  "sha256 xs = sha256 ys \<Longrightarrow> concat xs = concat ys \<or> sha_collision (concat xs) (concat ys)"
  by (auto simp: sha_collision_def sha256_def)

end
