(* ===== verification/Dnsid_Errors.thy ===== *)
theory Dnsid_Errors
  imports Dnsid_Prelude
begin

text \<open>
  The enumerations of \<^verbatim>\<open>dnsid/enums.py\<close> and the exception classes of \<^verbatim>\<open>dnsid/exceptions.py\<close>
  and \<^verbatim>\<open>dnsid/c2sp_tlog/errors.py\<close>. One datatype \<open>exn\<close> has a constructor for each class that
  the modelled code raises, with the attributes a handler reads. A message is its constant text;
  values interpolated into it are left out except where a handler inspects them.
\<close>

datatype DNSSECState = UNSIGNED | VALID | FAILED | UNKNOWN

datatype DNSSECMode = AUTO | VALIDATED | REQUIRED

datatype VerificationCode =
    DNS_RESOLUTION | DNSSEC_FAILED | RECORD_INVALID | SIGNATURE_INVALID | TLS_ERROR
  | KEY_AGE_EXCEEDED | STATUS_NOT_ACTIVE | STATUS_UNAVAILABLE | LOG_ERROR
  | COUNTERPARTY_NOT_ACCEPTED | RECORD_NOT_FOUND | DEADLINE_EXCEEDED | KEY_NOT_FOUND

datatype EventType = ISSUANCE | KEY_ROTATION | REVOCATION | RETIREMENT | MIGRATION | DELEGATION

datatype LogSignerRole =
  ENTITY | OPERATIONAL | OPERATIONAL_COUNTERSIGNATURE | PREVIOUS_OPERATIONAL

datatype C2spLifecycleErrorCategory =
    CHAIN_CONTINUITY | C_DUPLICATE_ISSUANCE | INVALID_EVIDENCE | INCOMPLETE_STREAM
  | C_INVALID_MIGRATION | C_KEY_CONTINUITY | C_TERMINAL_STATE | LOG_ROLLBACK | LOG_FORK
  | LOG_INCONSISTENT | CHECKPOINT_STORE_ERROR

datatype LifecycleErrorCategory =
    GENESIS_REQUIRED | DUPLICATE_ISSUANCE | INVALID_ISSUANCE | TERMINAL_STATE | DOMAIN_MISMATCH
  | KEY_CONTINUITY | INVALID_REVOCATION_REASON | INVALID_MIGRATION | SNAPSHOT_EMPTY
  | SNAPSHOT_NON_PREFIX | UNSUPPORTED_EVENT

text \<open>\<^verbatim>\<open>str(event_type)\<close> of the string enumeration \<^verbatim>\<open>EventType\<close>.\<close>

fun event_type_name :: "EventType \<Rightarrow> string" where
  "event_type_name ISSUANCE = ''ISSUANCE''"
| "event_type_name KEY_ROTATION = ''KEY_ROTATION''"
| "event_type_name REVOCATION = ''REVOCATION''"
| "event_type_name RETIREMENT = ''RETIREMENT''"
| "event_type_name MIGRATION = ''MIGRATION''"
| "event_type_name DELEGATION = ''DELEGATION''"

text \<open>The values of \<^verbatim>\<open>RevocationReason\<close> and \<^verbatim>\<open>AgentState\<close>.\<close>

definition RevocationReason :: "pystr list" where
  "RevocationReason =
     [str ''keyCompromise'', str ''policyViolation'', str ''superseded'',
      str ''cessationOfOperation'']"

definition AgentState :: "pystr list" where
  "AgentState =
     [str ''PENDING'', str ''PROVISIONING'', str ''VERIFYING'', str ''ACTIVE'', str ''RETIRED'',
      str ''REVOKED'']"

text \<open>
  \<open>C2spCheckpointConsistencyError\<close> carries, after its category, the attributes its constructor
  copies: the origin, the trusted and the observed tree size, the trusted and the observed root.
\<close>

datatype exn =
    C2spTlogParseError string
  | C2spTlogVerificationError string "C2spLifecycleErrorCategory option" "int option"
  | C2spTlogResourceLimitError string
  | C2spCheckpointConsistencyError string C2spLifecycleErrorCategory pystr int int bytes bytes
  | C2spCheckpointStoreError string
  | C2spTlogTransportError string bool "int option"
  | VerificationError VerificationCode string bool
  | LifecycleVerificationError LifecycleErrorCategory string "nat option"
  | ParseError string
  | ValidationError string
  | ArgumentError string
  | NoActiveSigningKeyError string
  | DNSidError string
  | ValueError string
  | KeyError string
  | TypeError string
  | RuntimeError string
  | OverflowError string
  | AttributeError string

type_synonym 'a res = "exn + 'a"

abbreviation parse_err :: "string \<Rightarrow> 'a res" where
  "parse_err m \<equiv> Inl (C2spTlogParseError m)"

abbreviation verif_err :: "string \<Rightarrow> 'a res" where
  "verif_err m \<equiv> Inl (C2spTlogVerificationError m None None)"

text \<open>
  The class hierarchy as the handlers see it: \<^verbatim>\<open>except C2spTlogVerificationError\<close> also catches
  the resource-limit and the consistency error, \<^verbatim>\<open>except VerificationError\<close> also the lifecycle
  error.
\<close>

fun is_C2spTlogVerificationError :: "exn \<Rightarrow> bool" where
  "is_C2spTlogVerificationError (C2spTlogVerificationError _ _ _) = True"
| "is_C2spTlogVerificationError (C2spTlogResourceLimitError _) = True"
| "is_C2spTlogVerificationError (C2spCheckpointConsistencyError _ _ _ _ _ _ _) = True"
| "is_C2spTlogVerificationError _ = False"

fun is_C2spTlogResourceLimitError :: "exn \<Rightarrow> bool" where
  "is_C2spTlogResourceLimitError (C2spTlogResourceLimitError _) = True"
| "is_C2spTlogResourceLimitError _ = False"

fun is_VerificationError :: "exn \<Rightarrow> bool" where
  "is_VerificationError (VerificationError _ _ _) = True"
| "is_VerificationError (LifecycleVerificationError _ _ _) = True"
| "is_VerificationError _ = False"

text \<open>The attribute \<^verbatim>\<open>category\<close> of an error, where its class has one.\<close>

fun exn_category :: "exn \<Rightarrow> C2spLifecycleErrorCategory option" where
  "exn_category (C2spTlogVerificationError _ c _) = c"
| "exn_category (C2spTlogResourceLimitError _) = Some INVALID_EVIDENCE"
| "exn_category (C2spCheckpointConsistencyError _ c _ _ _ _ _) = Some c"
| "exn_category (C2spCheckpointStoreError _) = Some CHECKPOINT_STORE_ERROR"
| "exn_category (C2spTlogTransportError _ _ _) = Some INVALID_EVIDENCE"
| "exn_category _ = None"

text \<open>\<^verbatim>\<open>str(exc)\<close>; \<^verbatim>\<open>VerificationError.__str__\<close> prefixes the name of its code.\<close>

fun code_name :: "VerificationCode \<Rightarrow> string" where
  "code_name DNS_RESOLUTION = ''DNS_RESOLUTION''"
| "code_name DNSSEC_FAILED = ''DNSSEC_FAILED''"
| "code_name RECORD_INVALID = ''RECORD_INVALID''"
| "code_name SIGNATURE_INVALID = ''SIGNATURE_INVALID''"
| "code_name TLS_ERROR = ''TLS_ERROR''"
| "code_name KEY_AGE_EXCEEDED = ''KEY_AGE_EXCEEDED''"
| "code_name STATUS_NOT_ACTIVE = ''STATUS_NOT_ACTIVE''"
| "code_name STATUS_UNAVAILABLE = ''STATUS_UNAVAILABLE''"
| "code_name LOG_ERROR = ''LOG_ERROR''"
| "code_name COUNTERPARTY_NOT_ACCEPTED = ''COUNTERPARTY_NOT_ACCEPTED''"
| "code_name RECORD_NOT_FOUND = ''RECORD_NOT_FOUND''"
| "code_name DEADLINE_EXCEEDED = ''DEADLINE_EXCEEDED''"
| "code_name KEY_NOT_FOUND = ''KEY_NOT_FOUND''"

fun exn_text :: "exn \<Rightarrow> string" where
  "exn_text (C2spTlogParseError m) = m"
| "exn_text (C2spTlogVerificationError m _ _) = m"
| "exn_text (C2spTlogResourceLimitError m) = m"
| "exn_text (C2spCheckpointConsistencyError m _ _ _ _ _ _) = m"
| "exn_text (C2spCheckpointStoreError m) = m"
| "exn_text (C2spTlogTransportError m _ _) = m"
| "exn_text (VerificationError c m _) = ''['' @ code_name c @ ''] '' @ m"
| "exn_text (LifecycleVerificationError _ m _) = ''[LOG_ERROR] '' @ m"
| "exn_text (ParseError m) = m"
| "exn_text (ValidationError m) = m"
| "exn_text (ArgumentError m) = m"
| "exn_text (NoActiveSigningKeyError m) = m"
| "exn_text (DNSidError m) = m"
| "exn_text (ValueError m) = m"
| "exn_text (KeyError m) = m"
| "exn_text (TypeError m) = m"
| "exn_text (RuntimeError m) = m"
| "exn_text (OverflowError m) = m"
| "exn_text (AttributeError m) = m"

end
