(* ===== verification/Tiles.thy ===== *)
theory Tiles
  imports Sha256 Dnsid_Errors
begin

text \<open>
  \<^verbatim>\<open>dnsid/c2sp_tlog/tiles.py\<close>: the fetch paths of a tiled log and the codec of entry bundles.
  The bundle decoder and encoder are inverse to each other on their domains, so a bundle has one
  reading and an entry list has one encoding; distinct tiles have distinct paths.
\<close>

section \<open>The code\<close>

definition checkpoint_path :: "pystr \<Rightarrow> pystr" where
  "checkpoint_path prefix = prefix @ str ''/checkpoint''"

text \<open>\<^verbatim>\<open>s.zfill(w)\<close> on a string without a sign, and the split into groups of three.\<close>

definition zfill :: "pystr \<Rightarrow> nat \<Rightarrow> pystr" where
  "zfill s w = replicate (w - length s) 48 @ s"

fun groups3 :: "pystr \<Rightarrow> pystr list" where
  "groups3 [] = []"
| "groups3 [a] = [[a]]"
| "groups3 [a, b] = [[a, b]]"
| "groups3 (a # b # c # rest) = [a, b, c] # groups3 rest"

fun mark_groups :: "pystr list \<Rightarrow> pystr list" where
  "mark_groups [] = []"
| "mark_groups [g] = [g]"
| "mark_groups (g # gs) = (120 # g) # mark_groups gs"

definition tile_n :: "int \<Rightarrow> pystr res" where
  "tile_n n =
     (if n < 0 then parse_err ''invalid C2SP tile number''
      else
        (let digits = dec_of_nat (nat n);
             padded = zfill digits ((length digits + 2) div 3 * 3)
         in Inr (join_with [47] (mark_groups (groups3 padded)))))"

definition width_suffix :: "int option \<Rightarrow> pystr" where
  "width_suffix width = (case width of None \<Rightarrow> [] | Some w \<Rightarrow> str ''.p/'' @ dec_of_int w)"

definition tile_path :: "pystr \<Rightarrow> int \<Rightarrow> int \<Rightarrow> int option \<Rightarrow> pystr res" where
  "tile_path prefix level n width =
     rbind (tile_n n) (\<lambda>t.
       Inr (prefix @ str ''/tile/'' @ dec_of_int level @ [47] @ t @ width_suffix width))"

definition entry_bundle_path :: "pystr \<Rightarrow> int \<Rightarrow> int option \<Rightarrow> pystr res" where
  "entry_bundle_path prefix n width =
     rbind (tile_n n) (\<lambda>t. Inr (prefix @ str ''/tile/entries/'' @ t @ width_suffix width))"

text \<open>The loop of \<^verbatim>\<open>parse_entry_bundle\<close>; the argument is \<^verbatim>\<open>data[off:]\<close>.\<close>

function parse_entry_bundle :: "bytes \<Rightarrow> bytes list res" where
  "parse_entry_bundle [] = Inr []"
| "parse_entry_bundle [a] = parse_err ''truncated entry bundle length''"
| "parse_entry_bundle (a # b # rest) =
     (let len = unat a * 256 + unat b in
      if length rest < len then parse_err ''truncated entry bundle entry''
      else rbind (parse_entry_bundle (drop len rest)) (\<lambda>out. Inr (take len rest # out)))"
  by pat_completeness auto
termination
  by (relation "measure length") auto

fun encode_entry_bundle :: "bytes list \<Rightarrow> bytes res" where
  "encode_entry_bundle [] = Inr []"
| "encode_entry_bundle (e # es) =
     (if length e > 65535 then parse_err ''entry too large for bundle''
      else rbind (encode_entry_bundle es) (\<lambda>out. Inr (to_bytes_be 2 (length e) @ e @ out)))"

section \<open>The bundle codec\<close>

lemma to_bytes_be_2: "to_bytes_be 2 n = [word_of_nat (n div 256 mod 256), word_of_nat (n mod 256)]"
  by (simp add: numeral_2_eq_2)

lemma prefix_value:
  assumes "n \<le> 65535"
  shows "unat (word_of_nat (n div 256 mod 256) :: byte) * 256 + unat (word_of_nat (n mod 256) :: byte) = n"
proof -
  have "n div 256 < 256" using assms by simp
  then show ?thesis unfolding unat_byte_mod by simp
qed

lemma length_prefix_bytes:
  fixes a b :: byte
  shows "to_bytes_be 2 (unat a * 256 + unat b) = [a, b]" "unat a * 256 + unat b \<le> 65535"
proof -
  have *: "unat b < 256" "unat a < 256" using unat_byte_less by auto
  then have "(unat a * 256 + unat b) div 256 mod 256 = unat a" "(unat a * 256 + unat b) mod 256 = unat b"
    by simp_all
  with * show "to_bytes_be 2 (unat a * 256 + unat b) = [a, b]" "unat a * 256 + unat b \<le> 65535"
    by (simp_all only: to_bytes_be_2 byte_of_unat)
qed

lemma parse_encode_bundle: "encode_entry_bundle es = Inr data \<Longrightarrow> parse_entry_bundle data = Inr es"
proof (induction es arbitrary: data)
  case (Cons e es)
  then obtain out where "length e \<le> 65535" "encode_entry_bundle es = Inr out"
    "data = to_bytes_be 2 (length e) @ e @ out"
    by (auto simp: res_simps split: if_splits)
  with Cons.IH show ?case by (simp only: to_bytes_be_2 append.simps parse_entry_bundle.simps prefix_value) simp
qed simp

lemma encode_parse_bundle: "parse_entry_bundle data = Inr es \<Longrightarrow> encode_entry_bundle es = Inr data"
proof (induction data arbitrary: es rule: parse_entry_bundle.induct)
  case (3 a b rest)
  let ?n = "unat a * 256 + unat b"
  from "3.prems" obtain out where "?n \<le> length rest" "parse_entry_bundle (drop ?n rest) = Inr out"
    "es = take ?n rest # out" by (auto simp: res_simps Let_def split: if_splits)
  with "3.IH" length_prefix_bytes [of a b] show ?case by simp
qed auto

lemma encode_entry_bundle_ok: "(\<forall>e \<in> set es. length e \<le> 65535) \<longleftrightarrow> is_ok (encode_entry_bundle es)"
  by (induction es) (auto simp: is_ok_iff rbind_Inr_iff split: if_splits)

section \<open>Tile numbers\<close>

lemma concat_groups3 [simp]: "concat (groups3 s) = s"
  by (induction s rule: groups3.induct) auto

lemma digits_mark:
  "(\<And>g c. g \<in> set gs \<Longrightarrow> c \<in> set g \<Longrightarrow> is_digit c) \<Longrightarrow>
   filter is_digit (join_with [47] (mark_groups gs)) = concat gs"
proof (induction gs rule: mark_groups.induct)
  case (3 g g' gs)
  have "filter is_digit g = g" using "3.prems" [of g] by (auto simp: filter_id_conv)
  moreover have "\<not> is_digit 47" "\<not> is_digit 120" by (simp_all add: is_digit_def)
  moreover obtain h hs where "mark_groups (g' # gs) = h # hs"
    by (cases gs) auto
  moreover have "filter is_digit (join_with [47] (mark_groups (g' # gs))) = concat (g' # gs)"
    by (rule "3.IH") (use "3.prems" in auto)
  ultimately show ?case by simp
qed (auto simp: filter_id_conv)

lemma nat_of_dec_zfill: "nat_of_dec (replicate k 48 @ s) = nat_of_dec s"
  by (induction k) (auto simp: nat_of_dec_def)

lemma tile_n_decode:
  assumes "tile_n n = Inr t"
  shows "0 \<le> n" "int (nat_of_dec (filter is_digit t)) = n"
proof -
  from assms show "0 \<le> n" by (auto simp: tile_n_def split: if_splits)
  then obtain k where padded:
    "t = join_with [47] (mark_groups (groups3 (replicate k 48 @ dec_of_nat (nat n))))"
    using assms by (auto simp: tile_n_def zfill_def Let_def)
  let ?s = "replicate k 48 @ dec_of_nat (nat n)"
  have "is_digit c" if "g \<in> set (groups3 ?s)" "c \<in> set g" for g c
  proof -
    from that have "c \<in> set (concat (groups3 ?s))" unfolding set_concat by blast
    then have "c \<in> set ?s" by (simp only: concat_groups3)
    then show ?thesis by (auto simp: is_digit_def dest: dec_of_nat_digits split: if_splits)
  qed
  then have "filter is_digit t = concat (groups3 ?s)"
    unfolding padded by (rule digits_mark)
  with \<open>0 \<le> n\<close> show "int (nat_of_dec (filter is_digit t)) = n"
    by (simp add: nat_of_dec_zfill)
qed

lemma mark_groups_chars:
  "c \<in> set (join_with [47] (mark_groups gs)) \<Longrightarrow> c = 47 \<or> c = 120 \<or> (\<exists>g \<in> set gs. c \<in> set g)"
proof (induction gs rule: mark_groups.induct)
  case (3 g g' gs)
  obtain h hs where "mark_groups (g' # gs) = h # hs" by (cases gs) auto
  with 3 show ?case by auto
qed auto

lemma tile_n_chars: "tile_n n = Inr t \<Longrightarrow> c \<in> set t \<Longrightarrow> is_digit c \<or> c = 47 \<or> c = 120"
proof -
  assume "tile_n n = Inr t" "c \<in> set t"
  then obtain k where "c \<in> set (join_with [47] (mark_groups (groups3 (replicate k 48 @ dec_of_nat (nat n)))))"
    by (auto simp: tile_n_def zfill_def Let_def split: if_splits)
  from mark_groups_chars [OF this] show ?thesis
  proof (elim disjE bexE)
    fix g assume "g \<in> set (groups3 (replicate k 48 @ dec_of_nat (nat n)))" "c \<in> set g"
    then have "c \<in> set (concat (groups3 (replicate k 48 @ dec_of_nat (nat n))))"
      unfolding set_concat by blast
    then have "c \<in> set (replicate k 48 @ dec_of_nat (nat n))" by (simp only: concat_groups3)
    then show ?thesis by (auto simp: is_digit_def dest: dec_of_nat_digits split: if_splits)
  qed auto
qed

lemma dec_of_int_no_slash: "47 \<notin> set (dec_of_int i)"
  using dec_of_nat_digits [of 47] by (auto simp: dec_of_int_def is_digit_def)

lemma width_suffix_split:
  assumes "46 \<notin> set t" "46 \<notin> set t'" "t @ width_suffix w = t' @ width_suffix w'"
  shows "t = t' \<and> w = w'"
proof -
  have "width_suffix w = [] \<or> (\<exists>i. w = Some i \<and> width_suffix w = 46 # (str ''p/'' @ dec_of_int i))" for w
    by (auto simp: width_suffix_def split: option.splits)
  then consider "w = None" "w' = None"
    | i where "w = Some i" "w' = None" | i where "w = None" "w' = Some i" | i j where "w = Some i" "w' = Some j"
    by (cases w; cases w') auto
  then show ?thesis
  proof cases
    case 4
    with assms(3) have "t @ 46 # (str ''p/'' @ dec_of_int i) = t' @ 46 # (str ''p/'' @ dec_of_int j)"
      by (simp add: width_suffix_def)
    from split_first [OF assms(1,2) this] 4 show ?thesis by (auto dest: dec_of_int_inj)
  qed (use assms in \<open>auto simp: width_suffix_def\<close>)
qed

lemma tile_path_unique:
  assumes "tile_path prefix l n w = Inr p" "tile_path prefix l' n' w' = Inr p"
  shows "l = l' \<and> n = n' \<and> w = w'"
proof -
  from assms obtain t t' where t: "tile_n n = Inr t" "tile_n n' = Inr t'"
    and eq: "dec_of_int l @ 47 # (t @ width_suffix w) = dec_of_int l' @ 47 # (t' @ width_suffix w')"
    by (auto simp: tile_path_def res_simps)
  from split_first [OF dec_of_int_no_slash dec_of_int_no_slash eq]
  have "l = l'" "t @ width_suffix w = t' @ width_suffix w'" by (auto dest: dec_of_int_inj)
  moreover have "46 \<notin> set t" "46 \<notin> set t'"
    using tile_n_chars [OF t(1), of 46] tile_n_chars [OF t(2), of 46] by (auto simp: is_digit_def)
  ultimately have "t = t'" "w = w'" using width_suffix_split by blast+
  with \<open>l = l'\<close> tile_n_decode(2) [OF t(1)] tile_n_decode(2) [OF t(2)] show ?thesis by simp
qed

section \<open>Properties\<close>

text \<open>
  C23: the entry-bundle codec is exact. A byte string decodes to an entry list if and only if it is
  the encoding of that list, so no two entry lists share a bundle and no bundle has two readings.
\<close>

theorem entry_bundle_codec_exact:
  "parse_entry_bundle data = Inr es \<longleftrightarrow> encode_entry_bundle es = Inr data"
  using parse_encode_bundle encode_parse_bundle by blast

text \<open>
  Under one prefix the path of a hash tile determines its level, its number and its width.
\<close>

theorem tile_path_injective:
  assumes "tile_path prefix level n width = Inr p" and "tile_path prefix level' n' width' = Inr p"
  shows "level = level' \<and> n = n' \<and> width = width'"
  using assms by (rule tile_path_unique)

theorem tile_path_injective_witness:
  "tile_path [] 0 1234067 (Some 3) = Inr (str ''/tile/0/x001/x234/067.p/3'')
   \<and> ((0 :: int) = 0 \<and> (1234067 :: int) = 1234067 \<and> Some (3 :: int) = Some 3)"
proof
  have "dec_of_nat 1234067 = [49, 50, 51, 52, 48, 54, 55]" "dec_of_nat 3 = [51]"
    by (simp_all add: dec_of_nat.simps)
  then show *: "tile_path [] 0 1234067 (Some 3) = Inr (str ''/tile/0/x001/x234/067.p/3'')"
    by (simp add: tile_path_def tile_n_def dec_of_int_def zfill_def width_suffix_def numeral_2_eq_2)
  show "(0 :: int) = 0 \<and> (1234067 :: int) = 1234067 \<and> Some (3 :: int) = Some 3"
    by (rule tile_path_injective [OF * *])
qed

end
