(* ===== verification/Dnsid_Utils.thy ===== *)
theory Dnsid_Utils
  imports Dnsid_Errors
begin

text \<open>
  \<^verbatim>\<open>dnsid/_utils.py\<close>: the regular-expression guards, domain-name normalisation, key identifiers,
  base64 in its standard and URL-safe forms, and ledger references.

  The base64 decoder is the non-strict automaton of CPython's \<^verbatim>\<open>binascii.a2b_base64\<close>, which skips
  characters outside the alphabet and stops at the first complete padding; the helpers of the
  repository inherit that leniency. The \<^verbatim>\<open>idna\<close> package is the parameter \<open>idna\<close>: \<open>None\<close> where
  \<^verbatim>\<open>idna.encode(label, uts46=True)\<close> raises.
\<close>

section \<open>Tables and guards\<close>

definition parse_ka_duration :: "pystr \<Rightarrow> int res" where
  "parse_ka_duration ka =
     (if ka = str ''24h'' then Inr 1 else if ka = str ''7d'' then Inr 7
      else if ka = str ''30d'' then Inr 30 else if ka = str ''90d'' then Inr 90
      else Inl (KeyError ''ka''))"

definition PERMITTED_KA_VALUES :: "pystr list" where
  "PERMITTED_KA_VALUES = [str ''24h'', str ''7d'', str ''30d'', str ''90d'']"

definition APPLICATION_JOSE_ALGS :: "pystr list" where
  "APPLICATION_JOSE_ALGS = [str ''EdDSA'', str ''ES256'']"

definition KNOWN_DERIVED_COMPONENTS :: "pystr list" where
  "KNOWN_DERIVED_COMPONENTS =
     [str ''@method'', str ''@authority'', str ''@target-uri'', str ''@path'', str ''@query'',
      str ''@query-param'', str ''@status'', str ''@request-target'', str ''@scheme'']"

definition is_valid_tag_name :: "pystr \<Rightarrow> bool" where
  "is_valid_tag_name name =
     (case name of [] \<Rightarrow> False | c # cs \<Rightarrow> is_alpha c \<and> (\<forall>x \<in> set cs. is_alnum x \<or> x = 95))"

definition is_valid_tag_value :: "pystr \<Rightarrow> bool" where
  "is_valid_tag_value v = (\<forall>c \<in> set v. (33 \<le> c \<and> c \<le> 58) \<or> (60 \<le> c \<and> c \<le> 126))"

definition is_valid_ledger_method :: "pystr \<Rightarrow> bool" where
  "is_valid_ledger_method m =
     (case m of [] \<Rightarrow> False
      | c # cs \<Rightarrow> is_lower c \<and> (\<forall>x \<in> set cs. is_lower x \<or> is_digit x \<or> x = 45))"

definition is_lowercase_http_field_name :: "pystr \<Rightarrow> bool" where
  "is_lowercase_http_field_name name =
     (case name of [] \<Rightarrow> False
      | c # cs \<Rightarrow> is_lower c \<and>
          (\<forall>x \<in> set cs. is_lower x \<or> is_digit x \<or> x \<in> set (str ''!#$%&*+-.^_`|~'') \<or> x = 39))"

definition jose_alg_to_http_sig_alg :: "pystr \<Rightarrow> pystr res" where
  "jose_alg_to_http_sig_alg alg =
     (if alg = str ''EdDSA'' then Inr (str ''ed25519'')
      else if alg = str ''ES256'' then Inr (str ''ecdsa-p256-sha256'')
      else Inl (ArgumentError ''no RFC 9421 algorithm''))"

section \<open>Domain names\<close>

definition normalize_fqdn :: "(pystr \<Rightarrow> pystr option) \<Rightarrow> pystr \<Rightarrow> bool \<Rightarrow> pystr res" where
  "normalize_fqdn idna name agent_fqdn =
     (if name = [] then Inl (ValidationError ''FQDN cannot be empty'')
      else
        (let without_dot = (if last name = 46 then butlast name else name) in
         if without_dot = [] then
           Inl (ValidationError ''FQDN cannot be empty after removing trailing dot'')
         else
           rbind (mapR (\<lambda>label.
                if label = [] then Inl (ValidationError ''FQDN contains empty label'')
                else (case idna label of
                        None \<Rightarrow> Inl (ValidationError ''Invalid FQDN label'')
                      | Some l \<Rightarrow> Inr l)) (split_on 46 without_dot))
             (\<lambda>normalized.
                if \<exists>l \<in> set normalized. length l > 63
                then Inl (ValidationError ''DNS label exceeds 63 octets'')
                else
                  (let result = rstrip_chars [46] (join_with [46] normalized) in
                   if length result > 253
                   then Inl (ValidationError ''FQDN exceeds 253-octet DNS presentation limit'')
                   else if agent_fqdn \<and> length result > 246
                   then Inl (ValidationError ''Agent FQDN exceeds 246-octet DNSid limit'')
                   else Inr result))))"

definition domain_label :: "pystr \<Rightarrow> bool" where
  "domain_label l \<longleftrightarrow> l \<noteq> [] \<and> is_alnum (hd l) \<and> is_alnum (last l)
     \<and> (\<forall>c \<in> set l. is_alnum c \<or> c = 45)"

definition is_domain_name :: "pystr \<Rightarrow> bool" where
  "is_domain_name s =
     (let v = (if s \<noteq> [] \<and> last s = 46 then butlast s else s) in
      (\<forall>l \<in> set (split_on 46 v). domain_label l)
      \<and> \<not> (\<forall>c \<in> set (last (split_on 46 v)). is_digit c))"

definition parse_key_id :: "(pystr \<Rightarrow> pystr option) \<Rightarrow> pystr \<Rightarrow> (pystr \<times> pystr) res" where
  "parse_key_id idna key_id =
     (if 35 \<notin> set key_id then Inl (ArgumentError ''key ID has no # separator'')
      else
        (let (domain_part, kid_part) = partition_char key_id 35 in
         if domain_part = [] then Inl (ArgumentError ''key ID has empty domain side'')
         else if kid_part = [] then Inl (ArgumentError ''key ID has empty kid side'')
         else if 35 \<in> set kid_part then Inl (ArgumentError ''key ID kid side must not contain #'')
         else rbind (normalize_fqdn idna domain_part False) (\<lambda>domain. Inr (domain, kid_part))))"

definition parse_ledger_ref :: "pystr \<Rightarrow> (pystr \<times> pystr) res" where
  "parse_ledger_ref lr =
     (if 58 \<notin> set lr then Inl (ParseError ''ledger ref has no : separator'')
      else
        (let (method, entry_ref) = partition_char lr 58 in
         if method = [] then Inl (ParseError ''ledger ref has empty method'')
         else if \<not> is_valid_ledger_method method
         then Inl (ParseError ''ledger ref method violates the grammar'')
         else Inr (method, entry_ref)))"

section \<open>Base64\<close>

text \<open>The two alphabets: value to character and, for the standard one, back.\<close>

definition b64_std_char :: "nat \<Rightarrow> nat" where
  "b64_std_char v =
     (if v < 26 then v + 65 else if v < 52 then v + 71 else if v < 62 then v - 4
      else if v = 62 then 43 else 47)"

definition b64_url_char :: "nat \<Rightarrow> nat" where
  "b64_url_char v =
     (if v < 26 then v + 65 else if v < 52 then v + 71 else if v < 62 then v - 4
      else if v = 62 then 45 else 95)"

definition b64_std_val :: "nat \<Rightarrow> nat option" where
  "b64_std_val c =
     (if is_upper c then Some (c - 65) else if is_lower c then Some (c - 71)
      else if is_digit c then Some (c + 4) else if c = 43 then Some 62
      else if c = 47 then Some 63 else None)"

text \<open>\<^verbatim>\<open>base64.b64encode\<close> for an alphabet, with padding.\<close>

fun b64_enc :: "(nat \<Rightarrow> nat) \<Rightarrow> bytes \<Rightarrow> pystr" where
  "b64_enc ch [] = []"
| "b64_enc ch [a] = [ch (unat a div 4), ch (unat a mod 4 * 16), 61, 61]"
| "b64_enc ch [a, b] =
     [ch (unat a div 4), ch (unat a mod 4 * 16 + unat b div 16), ch (unat b mod 16 * 4), 61]"
| "b64_enc ch (a # b # c # rest) =
     ch (unat a div 4) # ch (unat a mod 4 * 16 + unat b div 16)
     # ch (unat b mod 16 * 4 + unat c div 64) # ch (unat c mod 64) # b64_enc ch rest"

text \<open>
  \<^verbatim>\<open>binascii.a2b_base64(data, strict_mode=False)\<close>: \<open>q\<close> is \<^verbatim>\<open>quad_pos\<close>, \<open>p\<close> is \<^verbatim>\<open>pads\<close>, \<open>left\<close>
  the bits kept from the previous character; \<open>None\<close> is \<^verbatim>\<open>binascii.Error\<close>.
\<close>

fun a2b_base64 :: "nat \<Rightarrow> nat \<Rightarrow> nat \<Rightarrow> pystr \<Rightarrow> bytes option" where
  "a2b_base64 q p left [] = (if q = 0 then Some [] else None)"
| "a2b_base64 q p left (c # cs) =
     (if c = 61 then
        (if q \<ge> 2 then (if q + Suc p \<ge> 4 then Some [] else a2b_base64 q (Suc p) left cs)
         else a2b_base64 q p left cs)
      else
        (case b64_std_val c of
           None \<Rightarrow> a2b_base64 q p left cs
         | Some v \<Rightarrow>
             if q = 0 then a2b_base64 1 0 v cs
             else if q = 1 then
               map_option (\<lambda>bs. word_of_nat (left * 4 + v div 16) # bs) (a2b_base64 2 0 (v mod 16) cs)
             else if q = 2 then
               map_option (\<lambda>bs. word_of_nat (left * 16 + v div 4) # bs) (a2b_base64 3 0 (v mod 4) cs)
             else map_option (\<lambda>bs. word_of_nat (left * 64 + v) # bs) (a2b_base64 0 0 0 cs)))"

definition base64_b64decode :: "pystr \<Rightarrow> bytes res" where
  "base64_b64decode s =
     (if \<exists>c \<in> set s. c \<ge> 128
      then Inl (ValueError ''string argument should contain only ASCII characters'')
      else (case a2b_base64 0 0 0 s of None \<Rightarrow> Inl (ValueError ''binascii.Error'') | Some b \<Rightarrow> Inr b))"

definition url_translate :: "nat \<Rightarrow> nat" where
  "url_translate c = (if c = 45 then 43 else if c = 95 then 47 else c)"

definition base64_urlsafe_b64decode :: "pystr \<Rightarrow> bytes res" where
  "base64_urlsafe_b64decode s = base64_b64decode (map url_translate s)"

definition pad4 :: "pystr \<Rightarrow> pystr" where
  "pad4 s = s @ replicate ((4 - length s mod 4) mod 4) 61"

definition b64url_encode :: "bytes \<Rightarrow> bool \<Rightarrow> pystr" where
  "b64url_encode data padding =
     (let encoded = b64_enc b64_url_char data in
      if padding then encoded else rstrip_chars [61] encoded)"

definition b64url_decode :: "pystr \<Rightarrow> bytes res" where
  "b64url_decode s = base64_urlsafe_b64decode (pad4 s)"

definition b64url_strict_char :: "nat \<Rightarrow> bool" where
  "b64url_strict_char c \<longleftrightarrow> is_alnum c \<or> c = 95 \<or> c = 45"

definition b64url_decode_strict :: "pystr \<Rightarrow> bytes res" where
  "b64url_decode_strict s =
     (if s = [] \<or> \<not> (\<forall>c \<in> set s. b64url_strict_char c)
      then Inl (ValueError ''not valid unpadded base64url'')
      else base64_urlsafe_b64decode (pad4 s))"

definition b64_std_encode :: "bytes \<Rightarrow> pystr" where
  "b64_std_encode data = b64_enc b64_std_char data"

definition b64_std_decode :: "pystr \<Rightarrow> bytes res" where
  "b64_std_decode s = base64_b64decode (pad4 s)"

section \<open>Lemmas on base64\<close>

lemma b64_std_val_char [simp]: "v < 64 \<Longrightarrow> b64_std_val (b64_std_char v) = Some v"
  by (auto simp: b64_std_val_def b64_std_char_def is_upper_def is_lower_def is_digit_def)

lemma b64_std_char_less: "v < 64 \<Longrightarrow> b64_std_char v < 128 \<and> b64_std_char v \<noteq> 61"
  by (auto simp: b64_std_char_def)

lemma url_translate_char [simp]: "v < 64 \<Longrightarrow> url_translate (b64_url_char v) = b64_std_char v"
  by (auto simp: url_translate_def b64_url_char_def b64_std_char_def)

lemma b64_url_char_strict [simp]: "v < 64 \<Longrightarrow> b64url_strict_char (b64_url_char v)"
  by (auto simp: b64url_strict_char_def b64_url_char_def is_alnum_def is_alpha_def is_upper_def
      is_lower_def is_digit_def)

lemma b64url_strict_not_pad: "b64url_strict_char c \<Longrightarrow> c \<noteq> 61 \<and> c < 128"
  by (auto simp: b64url_strict_char_def is_alnum_def is_alpha_def is_upper_def is_lower_def is_digit_def)

lemma unat_byte_bound: "unat (b :: byte) < 256"
  using unsigned_less [of b, where ?'a = nat] by simp

lemma sextet_bounds:
  fixes a b c :: byte
  shows "unat a div 4 < 64" "unat a mod 4 * 16 + unat b div 16 < 64"
    "unat b mod 16 * 4 + unat c div 64 < 64" "unat c mod 64 < 64" "unat a mod 4 * 16 < 64"
    "unat b mod 16 * 4 < 64"
proof -
  have *: "unat a < 256" "unat b < 256" "unat c < 256" by (rule unat_byte_bound)+
  have m: "unat a mod 4 < 4" "unat b mod 16 < 16" by simp_all
  have d: "unat a div 4 < 64" "unat b div 16 < 16" "unat c div 64 < 4"
    using * by (simp_all add: less_mult_imp_div_less)
  show "unat a div 4 < 64" "unat a mod 4 * 16 + unat b div 16 < 64"
    "unat b mod 16 * 4 + unat c div 64 < 64" "unat c mod 64 < 64" "unat a mod 4 * 16 < 64"
    "unat b mod 16 * 4 < 64"
    using d m by simp_all
qed

lemma sextet_join:
  fixes a b c :: byte
  shows "word_of_nat (unat a div 4 * 4 + (unat a mod 4 * 16 + unat b div 16) div 16) = a"
    "word_of_nat (unat a div 4 * 4 + (unat a mod 4 * 16) div 16) = a"
    "word_of_nat ((unat a mod 4 * 16 + unat b div 16) mod 16 * 16 + (unat b mod 16 * 4 + unat c div 64) div 4) = b"
    "word_of_nat ((unat a mod 4 * 16 + unat b div 16) mod 16 * 16 + (unat b mod 16 * 4) div 4) = b"
    "word_of_nat ((unat b mod 16 * 4 + unat c div 64) mod 4 * 64 + unat c mod 64) = c"
proof -
  have *: "unat b div 16 < 16" "unat c div 64 < 4"
    using unat_byte_bound [of b] unat_byte_bound [of c] by (simp_all add: less_mult_imp_div_less)
  have "(unat a mod 4 * 16 + unat b div 16) div 16 = unat a mod 4"
    "(unat a mod 4 * 16 + unat b div 16) mod 16 = unat b div 16"
    "(unat b mod 16 * 4 + unat c div 64) div 4 = unat b mod 16"
    "(unat b mod 16 * 4 + unat c div 64) mod 4 = unat c div 64"
    using * by simp_all
  then show "word_of_nat (unat a div 4 * 4 + (unat a mod 4 * 16 + unat b div 16) div 16) = a"
    "word_of_nat (unat a div 4 * 4 + (unat a mod 4 * 16) div 16) = a"
    "word_of_nat ((unat a mod 4 * 16 + unat b div 16) mod 16 * 16 + (unat b mod 16 * 4 + unat c div 64) div 4) = b"
    "word_of_nat ((unat a mod 4 * 16 + unat b div 16) mod 16 * 16 + (unat b mod 16 * 4) div 4) = b"
    "word_of_nat ((unat b mod 16 * 4 + unat c div 64) mod 4 * 64 + unat c mod 64) = c"
    by (simp_all only: nonzero_mult_div_cancel_right div_mult_mod_eq word_nat_cases rel_simps) simp_all
qed

lemma a2b_base64_quad:
  assumes "v1 < 64" "v2 < 64" "v3 < 64" "v4 < 64"
    and "word_of_nat (v1 * 4 + v2 div 16) = a" "word_of_nat (v2 mod 16 * 16 + v3 div 4) = b"
      "word_of_nat (v3 mod 4 * 64 + v4) = c"
  shows "a2b_base64 0 p l (b64_std_char v1 # b64_std_char v2 # b64_std_char v3 # b64_std_char v4 # cs) =
    map_option (\<lambda>bs. a # b # c # bs) (a2b_base64 0 0 0 cs)"
  unfolding assms(5-7) [symmetric] using assms(1-4)
  by (simp add: b64_std_char_less option.map_comp comp_def del: of_nat_add of_nat_mult)

lemma a2b_base64_enc: "a2b_base64 0 p l (b64_enc b64_std_char bs) = Some bs"
proof (induction b64_std_char bs arbitrary: p l rule: b64_enc.induct)
  case (4 a b c rest)
  show ?case
    unfolding b64_enc.simps
    by (subst a2b_base64_quad [OF sextet_bounds(1-4) sextet_join(1,3,5)]) (simp add: 4)
next
  case (3 a b)
  have "a2b_base64 0 p l [b64_std_char v1, b64_std_char v2, b64_std_char v3, 61] =
      Some [word_of_nat (v1 * 4 + v2 div 16), word_of_nat (v2 mod 16 * 16 + v3 div 4)]"
    if "v1 < 64" "v2 < 64" "v3 < 64" for v1 v2 v3
    using that by (simp add: b64_std_char_less del: of_nat_add of_nat_mult)
  from this [OF sextet_bounds(1) [of a] sextet_bounds(2) [of a b] sextet_bounds(6) [of b]] show ?case
    unfolding b64_enc.simps sextet_join(1,4) .
qed (simp_all add: sextet_bounds sextet_join b64_std_char_less)

lemma b64_enc_ascii: "c \<in> set (b64_enc b64_std_char bs) \<Longrightarrow> c < 128"
  by (induction b64_std_char bs rule: b64_enc.induct)
    (auto simp: sextet_bounds b64_std_char_less)

lemma b64_enc_length [simp]: "length (b64_enc ch bs) mod 4 = 0"
  by (induction ch bs rule: b64_enc.induct) (auto simp: mod_Suc)

lemma pad4_enc [simp]: "pad4 (b64_enc ch bs) = b64_enc ch bs"
  by (simp add: pad4_def)

lemma b64decode_enc: "base64_b64decode (b64_enc b64_std_char bs) = Inr bs"
  by (auto simp: base64_b64decode_def a2b_base64_enc dest: b64_enc_ascii)

lemma url_enc: "map url_translate (b64_enc b64_url_char bs) = b64_enc b64_std_char bs"
  by (induction b64_url_char bs rule: b64_enc.induct)
    (simp_all add: sextet_bounds, simp_all add: url_translate_def)

lemma rstrip_pad:
  "61 \<notin> set s \<Longrightarrow> rstrip_chars [61] (s @ replicate k 61) = (s :: pystr)"
proof -
  assume "61 \<notin> set s"
  then have "dropWhile (\<lambda>x. x \<in> set [61]) (replicate k 61 @ rev s) = rev s"
    by (cases s rule: rev_cases) (auto simp: dropWhile_append)
  then show ?thesis by (simp add: rstrip_chars_def)
qed

lemma b64_enc_url_shape:
  "\<exists>s k. b64_enc b64_url_char bs = s @ replicate k 61 \<and> (\<forall>c \<in> set s. b64url_strict_char c)
     \<and> k = (4 - length s mod 4) mod 4 \<and> (bs \<noteq> [] \<longrightarrow> s \<noteq> [])"
proof (induction b64_url_char bs rule: b64_enc.induct)
  case 1
  then show ?case by (intro exI [of _ "[]"] exI [of _ 0]) simp
next
  case (2 a)
  then show ?case
    by (intro exI [of _ "[b64_url_char (unat a div 4), b64_url_char (unat a mod 4 * 16)]"] exI [of _ 2])
      (simp add: sextet_bounds numeral_2_eq_2)
next
  case (3 a b)
  then show ?case
    by (intro exI [of _ "[b64_url_char (unat a div 4), b64_url_char (unat a mod 4 * 16 + unat b div 16),
          b64_url_char (unat b mod 16 * 4)]"] exI [of _ 1])
      (simp add: sextet_bounds)
next
  case (4 a b c rest)
  then obtain s k where "b64_enc b64_url_char rest = s @ replicate k 61"
    "\<forall>c \<in> set s. b64url_strict_char c" "k = (4 - length s mod 4) mod 4" by blast
  then show ?case
    by (intro exI [of _ "b64_url_char (unat a div 4) # b64_url_char (unat a mod 4 * 16 + unat b div 16)
        # b64_url_char (unat b mod 16 * 4 + unat c div 64) # b64_url_char (unat c mod 64) # s"] exI [of _ k])
      (simp add: sextet_bounds)
qed

lemma b64_std_roundtrip: "b64_std_decode (b64_std_encode bs) = Inr bs"
  by (simp add: b64_std_decode_def b64_std_encode_def b64decode_enc)

lemma b64url_unpadded:
  "pad4 (b64url_encode bs False) = b64_enc b64_url_char bs
   \<and> (\<forall>c \<in> set (b64url_encode bs False). b64url_strict_char c)
   \<and> (bs \<noteq> [] \<longrightarrow> b64url_encode bs False \<noteq> [])"
proof -
  from b64_enc_url_shape [of bs] obtain s k where
    s: "b64_enc b64_url_char bs = s @ replicate k 61" "\<forall>c \<in> set s. b64url_strict_char c"
    "k = (4 - length s mod 4) mod 4" "bs \<noteq> [] \<longrightarrow> s \<noteq> []" by blast
  from s(2) have "61 \<notin> set s" by (blast dest: b64url_strict_not_pad)
  then have "b64url_encode bs False = s"
    by (simp add: b64url_encode_def s(1) rstrip_pad)
  with s show ?thesis by (simp add: pad4_def)
qed

lemma urlsafe_b64decode_enc: "base64_urlsafe_b64decode (b64_enc b64_url_char bs) = Inr bs"
  by (simp add: base64_urlsafe_b64decode_def url_enc b64decode_enc)

lemma b64url_roundtrip: "b64url_decode (b64url_encode bs padding) = Inr bs"
proof (cases padding)
  case True
  then show ?thesis by (simp add: b64url_decode_def b64url_encode_def urlsafe_b64decode_enc)
next
  case False
  with b64url_unpadded [of bs] show ?thesis by (simp add: b64url_decode_def urlsafe_b64decode_enc)
qed

lemma b64url_encode_inj: "b64url_encode a padding = b64url_encode b padding \<Longrightarrow> a = b"
proof -
  assume "b64url_encode a padding = b64url_encode b padding"
  then have "b64url_decode (b64url_encode a padding) = b64url_decode (b64url_encode b padding)" by (rule arg_cong)
  then show "a = b" by (simp only: b64url_roundtrip sum.inject)
qed

lemma b64url_strict_roundtrip: "bs \<noteq> [] \<Longrightarrow> b64url_decode_strict (b64url_encode bs False) = Inr bs"
  using b64url_unpadded [of bs] by (simp add: b64url_decode_strict_def urlsafe_b64decode_enc)

section \<open>Lemmas on names\<close>

lemma rstrip_chars_last: "rstrip_chars cs s \<noteq> [] \<Longrightarrow> last (rstrip_chars cs s) \<notin> set cs"
  by (metis (no_types, lifting) hd_dropWhile last_rev rev_is_Nil_conv rstrip_chars_def)

lemma normalize_fqdn_bounds:
  assumes "normalize_fqdn idna name agent = Inr r"
  shows "length r \<le> 253" "agent \<Longrightarrow> length r \<le> 246" "r \<noteq> [] \<Longrightarrow> last r \<noteq> 46"
  using assms rstrip_chars_last [of "[46]"]
  by (auto simp: normalize_fqdn_def Let_def res_simps split: if_splits)

lemma parse_key_id_ok:
  "parse_key_id idna key_id = Inr (domain, kid) \<longleftrightarrow>
     (\<exists>d. key_id = d @ 35 # kid \<and> d \<noteq> [] \<and> kid \<noteq> [] \<and> 35 \<notin> set d \<and> 35 \<notin> set kid
        \<and> normalize_fqdn idna d False = Inr domain)"
proof
  assume a: "parse_key_id idna key_id = Inr (domain, kid)"
  obtain d k where dk: "partition_char key_id 35 = (d, k)" by force
  from a have "35 \<in> set key_id" by (auto simp: parse_key_id_def split: if_splits)
  with dk have "key_id = d @ 35 # k" "35 \<notin> set d" by (auto dest: partition_char_eq)
  with a dk show "\<exists>d. key_id = d @ 35 # kid \<and> d \<noteq> [] \<and> kid \<noteq> [] \<and> 35 \<notin> set d \<and> 35 \<notin> set kid
        \<and> normalize_fqdn idna d False = Inr domain"
    by (auto simp: parse_key_id_def res_simps split: if_splits)
qed (auto simp: parse_key_id_def partition_char_append)

lemma parse_ledger_ref_ok:
  "parse_ledger_ref lr = Inr (method, entry_ref) \<longleftrightarrow>
     lr = method @ 58 # entry_ref \<and> is_valid_ledger_method method"
proof
  assume a: "parse_ledger_ref lr = Inr (method, entry_ref)"
  then have "58 \<in> set lr" by (auto simp: parse_ledger_ref_def split: if_splits)
  with a show "lr = method @ 58 # entry_ref \<and> is_valid_ledger_method method"
    by (auto simp: parse_ledger_ref_def split: if_splits prod.splits dest: partition_char_eq)
next
  assume a: "lr = method @ 58 # entry_ref \<and> is_valid_ledger_method method"
  then have "58 \<notin> set method" "method \<noteq> []"
    by (auto simp: is_valid_ledger_method_def is_lower_def is_digit_def split: list.splits)
  with a show "parse_ledger_ref lr = Inr (method, entry_ref)"
    by (simp add: parse_ledger_ref_def partition_char_append)
qed

end
