(* ===== verification/Utf8.thy ===== *)
theory Utf8
  imports Dnsid_Prelude
begin

text \<open>
  \<^verbatim>\<open>str.encode("utf-8")\<close> and \<^verbatim>\<open>bytes.hex\<close>. A surrogate code point cannot be encoded (Python raises
  \<^verbatim>\<open>UnicodeEncodeError\<close>, a \<^verbatim>\<open>ValueError\<close>); \<open>None\<close> stands for that. Encoding is injective, which
  is what makes a signature over the encoded text a signature over the text.
\<close>

definition utf8_char :: "nat \<Rightarrow> bytes option" where
  "utf8_char c =
     (if c < 128 then Some [word_of_nat c]
      else if c < 2048 then Some [word_of_nat (192 + c div 64), word_of_nat (128 + c mod 64)]
      else if 55296 \<le> c \<and> c \<le> 57343 then None
      else if c < 65536 then
        Some [word_of_nat (224 + c div 4096), word_of_nat (128 + c div 64 mod 64),
              word_of_nat (128 + c mod 64)]
      else if c < 1114112 then
        Some [word_of_nat (240 + c div 262144), word_of_nat (128 + c div 4096 mod 64),
              word_of_nat (128 + c div 64 mod 64), word_of_nat (128 + c mod 64)]
      else None)"

fun utf8_encode :: "pystr \<Rightarrow> bytes option" where
  "utf8_encode [] = Some []"
| "utf8_encode (c # cs) =
     (case utf8_char c of None \<Rightarrow> None
      | Some b \<Rightarrow> (case utf8_encode cs of None \<Rightarrow> None | Some bs \<Rightarrow> Some (b @ bs)))"

text \<open>A left inverse on one character, by the leading byte.\<close>

fun utf8_step :: "bytes \<Rightarrow> (nat \<times> bytes) option" where
  "utf8_step [] = None"
| "utf8_step (b # bs) =
     (if unat b < 128 then Some (unat b, bs)
      else if unat b < 224 then
        (case bs of b1 # r \<Rightarrow> Some ((unat b - 192) * 64 + (unat b1 - 128), r) | _ \<Rightarrow> None)
      else if unat b < 240 then
        (case bs of b1 # b2 # r \<Rightarrow>
           Some ((unat b - 224) * 4096 + (unat b1 - 128) * 64 + (unat b2 - 128), r) | _ \<Rightarrow> None)
      else
        (case bs of b1 # b2 # b3 # r \<Rightarrow>
           Some ((unat b - 240) * 262144 + (unat b1 - 128) * 4096 + (unat b2 - 128) * 64
                 + (unat b3 - 128), r) | _ \<Rightarrow> None))"

lemma unat_small: "n < 256 \<Longrightarrow> unat (word_of_nat n :: byte) = n"
  by (simp add: unat_of_nat)

lemma split_base64_digits:
  "(c :: nat) div 4096 * 4096 + c div 64 mod 64 * 64 + c mod 64 = c"
  "(c :: nat) div 262144 * 262144 + c div 4096 mod 64 * 4096 + c div 64 mod 64 * 64 + c mod 64 = c"
proof -
  have q: "c div 4096 = c div 64 div 64" "c div 262144 = c div 4096 div 64"
    by (simp_all add: div_mult2_eq [symmetric])
  have c: "c div 64 * 64 + c mod 64 = c" "c div 64 div 64 * 64 + c div 64 mod 64 = c div 64"
    "c div 4096 div 64 * 64 + c div 4096 mod 64 = c div 4096"
    by (rule div_mult_mod_eq)+
  have "c div 4096 * 4096 = c div 64 div 64 * 64 * 64" by (simp add: q(1))
  then show three: "c div 4096 * 4096 + c div 64 mod 64 * 64 + c mod 64 = c"
    using c(1,2) by (metis add_mult_distrib)
  have "c div 262144 * 262144 = c div 4096 div 64 * 64 * 4096" by (simp add: q(2))
  then have "c div 262144 * 262144 + c div 4096 mod 64 * 4096 = c div 4096 * 4096"
    using c(3) by (metis add_mult_distrib)
  with three show "c div 262144 * 262144 + c div 4096 mod 64 * 4096 + c div 64 mod 64 * 64 + c mod 64 = c"
    by simp
qed

lemma utf8_step_char: "utf8_char c = Some b \<Longrightarrow> utf8_step (b @ r) = Some (c, r)"
proof -
  assume a: "utf8_char c = Some b"
  then have "c < 1114112" by (auto simp: utf8_char_def split: if_splits)
  then have d: "c < 2048 \<Longrightarrow> c div 64 < 32" "c < 65536 \<Longrightarrow> c div 4096 < 16" "c div 262144 < 5"
    by auto
  have m: "c mod 64 < 64" "c div 64 mod 64 < 64" "c div 4096 mod 64 < 64" by simp_all
  consider "c < 128" | "128 \<le> c" "c < 2048" | "2048 \<le> c" "c < 65536" | "65536 \<le> c" by linarith
  then show ?thesis
  proof cases
    case 1
    with a show ?thesis by (auto simp: utf8_char_def unat_small)
  next
    case 2
    with a d m have b: "b = [word_of_nat (192 + c div 64), word_of_nat (128 + c mod 64)]"
      and u: "unat (word_of_nat (192 + c div 64) :: byte) = 192 + c div 64"
        "unat (word_of_nat (128 + c mod 64) :: byte) = 128 + c mod 64"
      by (auto simp: utf8_char_def simp del: of_nat_add intro!: unat_small)
    have "c div 64 < 32" using d(1) 2 by simp
    then show ?thesis unfolding b by (simp add: u del: of_nat_add)
  next
    case 3
    with a d m have b: "b = [word_of_nat (224 + c div 4096), word_of_nat (128 + c div 64 mod 64),
        word_of_nat (128 + c mod 64)]"
      and u: "unat (word_of_nat (224 + c div 4096) :: byte) = 224 + c div 4096"
        "unat (word_of_nat (128 + c div 64 mod 64) :: byte) = 128 + c div 64 mod 64"
        "unat (word_of_nat (128 + c mod 64) :: byte) = 128 + c mod 64"
      by (auto simp: utf8_char_def simp del: of_nat_add split: if_splits intro!: unat_small)
    from 3 d(2) show ?thesis unfolding b
      by (simp add: u split_base64_digits del: of_nat_add)
  next
    case 4
    with a d m have b: "b = [word_of_nat (240 + c div 262144), word_of_nat (128 + c div 4096 mod 64),
        word_of_nat (128 + c div 64 mod 64), word_of_nat (128 + c mod 64)]"
      and u: "unat (word_of_nat (240 + c div 262144) :: byte) = 240 + c div 262144"
        "unat (word_of_nat (128 + c div 4096 mod 64) :: byte) = 128 + c div 4096 mod 64"
        "unat (word_of_nat (128 + c div 64 mod 64) :: byte) = 128 + c div 64 mod 64"
        "unat (word_of_nat (128 + c mod 64) :: byte) = 128 + c mod 64"
      by (auto simp: utf8_char_def simp del: of_nat_add split: if_splits intro!: unat_small)
    from 4 d(3) show ?thesis unfolding b
      by (simp add: u split_base64_digits del: of_nat_add)
  qed
qed

lemma utf8_char_not_Nil: "utf8_char c \<noteq> Some []"
  by (auto simp: utf8_char_def)

lemma utf8_encode_inj: "utf8_encode s = Some b \<Longrightarrow> utf8_encode t = Some b \<Longrightarrow> s = t"
proof (induction s arbitrary: t b)
  case Nil
  then show ?case
    by (cases t) (auto simp: utf8_char_not_Nil split: option.splits)
next
  case (Cons c cs)
  then obtain b1 b2 where b: "utf8_char c = Some b1" "utf8_encode cs = Some b2" "b = b1 @ b2"
    by (auto split: option.splits)
  from b(1,3) have "b \<noteq> []" using utf8_char_not_Nil by fastforce
  with Cons.prems(2) obtain d ds where t: "t = d # ds"
    by (cases t) auto
  with Cons.prems(2) obtain d1 d2 where d: "utf8_char d = Some d1" "utf8_encode ds = Some d2" "b = d1 @ d2"
    by (auto split: option.splits)
  from utf8_step_char [OF b(1), of b2] utf8_step_char [OF d(1), of d2] b(3) d(3)
  have "c = d" "b2 = d2" by auto
  with Cons.IH b(2) d(2) t show ?case by simp
qed

lemma utf8_encode_ascii:
  "(\<And>c. c \<in> set s \<Longrightarrow> c < 128) \<Longrightarrow> utf8_encode s = Some (map word_of_nat s)"
  by (induction s) (auto simp: utf8_char_def)

text \<open>
  \<^verbatim>\<open>bytes.decode("utf-8")\<close> in strict mode accepts exactly the encodings: a decoded character must
  encode to the bytes it was read from.
\<close>

function utf8_decode :: "bytes \<Rightarrow> pystr option" where
  "utf8_decode bs =
     (if bs = [] then Some []
      else
        (case utf8_step bs of
           None \<Rightarrow> None
         | Some (c, rest) \<Rightarrow>
             (case utf8_char c of
                None \<Rightarrow> None
              | Some pre \<Rightarrow>
                  if pre \<noteq> [] \<and> bs = pre @ rest
                  then map_option ((#) c) (utf8_decode rest) else None)))"
  by pat_completeness auto
termination
  by (relation "measure length") auto

declare utf8_decode.simps [simp del]

lemma utf8_decode_encode: "utf8_encode s = Some b \<Longrightarrow> utf8_decode b = Some s"
proof (induction s arbitrary: b)
  case Nil
  then show ?case by (simp add: utf8_decode.simps)
next
  case (Cons c cs)
  then obtain b1 b2 where b: "utf8_char c = Some b1" "utf8_encode cs = Some b2" "b = b1 @ b2"
    by (auto split: option.splits)
  moreover from b(1) have "b1 \<noteq> []" using utf8_char_not_Nil by auto
  ultimately show ?case
    using Cons.IH [OF b(2)] utf8_step_char [OF b(1), of b2] by (subst utf8_decode.simps) simp
qed

lemma utf8_encode_decode: "utf8_decode b = Some s \<Longrightarrow> utf8_encode s = Some b"
proof (induction b arbitrary: s rule: utf8_decode.induct)
  case (1 bs)
  show ?case
  proof (cases "bs = []")
    case True
    with 1 show ?thesis by (simp add: utf8_decode.simps)
  next
    case False
    from "1.prems" [unfolded utf8_decode.simps [of bs]] False obtain c rest pre t where
      "utf8_step bs = Some (c, rest)" "utf8_char c = Some pre" "pre \<noteq> [] \<and> bs = pre @ rest"
      "utf8_decode rest = Some t" "s = c # t"
      by (auto split: option.splits if_splits)
    with "1.IH" [OF False] show ?thesis by simp
  qed
qed

lemma utf8_decode_iff: "utf8_decode b = Some s \<longleftrightarrow> utf8_encode s = Some b"
  using utf8_decode_encode utf8_encode_decode by blast

section \<open>Hexadecimal\<close>

definition hex_digit :: "nat \<Rightarrow> nat" where
  "hex_digit n = (if n < 10 then 48 + n else 87 + n)"

fun hex_encode :: "bytes \<Rightarrow> pystr" where
  "hex_encode [] = []"
| "hex_encode (b # bs) = hex_digit (unat b div 16) # hex_digit (unat b mod 16) # hex_encode bs"

text \<open>\<^verbatim>\<open>bytes.fromhex(s)\<close> on a string of an even number of hexadecimal digits.\<close>

fun hex_decode :: "pystr \<Rightarrow> bytes" where
  "hex_decode (a # b # rest) = word_of_nat (hex_val a * 16 + hex_val b) # hex_decode rest"
| "hex_decode _ = []"

lemma hex_val_digit [simp]: "n < 16 \<Longrightarrow> hex_val (hex_digit n) = n"
  by (auto simp: hex_val_def hex_digit_def is_digit_def)

lemma is_hex_digit [simp]: "n < 16 \<Longrightarrow> is_hex (hex_digit n)"
  by (auto simp: is_hex_def hex_digit_def is_digit_def)

lemma unat_byte_div16: "unat (b :: byte) div 16 < 16"
  using unsigned_less [of b, where ?'a = nat] by (simp add: less_mult_imp_div_less)

lemma hex_decode_encode [simp]: "hex_decode (hex_encode bs) = bs"
proof (induction bs)
  case (Cons b bs)
  have "hex_val (hex_digit (unat b div 16)) * 16 + hex_val (hex_digit (unat b mod 16)) = unat b"
    by (simp add: unat_byte_div16)
  with Cons show ?case by simp
qed simp

lemma hex_encode_inj [simp]: "hex_encode a = hex_encode b \<longleftrightarrow> a = b"
  by (metis hex_decode_encode)

lemma hex_encode_chars: "c \<in> set (hex_encode bs) \<Longrightarrow> is_hex c"
  by (induction bs) (auto simp: unat_byte_div16)

end
