(* ===== verification/Signed_Note.thy ===== *)
theory Signed_Note
  imports Sha256 Dnsid_Utils Utf8
begin

text \<open>
  \<^verbatim>\<open>dnsid/c2sp_tlog/checkpoint.py\<close> and \<^verbatim>\<open>dnsid/c2sp_tlog/signed_note.py\<close>: parsing of signed-note
  checkpoints and of verifier keys, and verification of signature lines. Ed25519 verification is
  the parameter \<open>ed_verify public_key signature message\<close>; the sources call it only with a 32-byte
  key, for which \<^verbatim>\<open>from_public_bytes\<close> does not raise.
\<close>

section \<open>Checkpoints\<close>

record NoteSignature =
  ns_name :: pystr
  ns_signature :: bytes
  ns_key_hash :: "bytes option"
  ns_raw :: pystr

record Checkpoint =
  ck_origin :: pystr
  ck_tree_size :: int
  ck_root_hash :: bytes
  ck_signatures :: "NoteSignature list"
  ck_signed_text :: pystr

text \<open>
  \<^verbatim>\<open>int(s)\<close> on a decimal string that a regular expression has admitted. Python refuses more than
  4300 digits with a \<^verbatim>\<open>ValueError\<close>.
\<close>

definition py_int :: "pystr \<Rightarrow> int res" where
  "py_int s =
     (if length (rstrip_chars [10] s) > 4300
      then Inl (ValueError ''Exceeds the limit for integer string conversion'')
      else Inr (int_of_dec s))"

text \<open>\<^verbatim>\<open>text.replace("\r\n", "\n")\<close>\<close>

fun replace_crlf :: "pystr \<Rightarrow> pystr" where
  "replace_crlf [] = []"
| "replace_crlf [c] = [c]"
| "replace_crlf (c # d # cs) =
     (if c = 13 \<and> d = 10 then 10 # replace_crlf cs else c # replace_crlf (d # cs))"

text \<open>\<^verbatim>\<open>except Exception as exc: raise C2spTlogParseError(...)\<close> around a decoding call.\<close>

definition or_parse_err :: "string \<Rightarrow> 'a res \<Rightarrow> 'a res" where
  "or_parse_err m r = (case r of Inl _ \<Rightarrow> parse_err m | Inr x \<Rightarrow> Inr x)"

text \<open>
  The body of \<^verbatim>\<open>_SIG_RE\<close> after its prefix: \<^verbatim>\<open>(\S+)\s+([A-Za-z0-9+/=]+)$\<close>. The three parts are
  determined by the first run of spaces, because neither group contains a space.
\<close>

definition b64_line_char :: "nat \<Rightarrow> bool" where
  "b64_line_char c \<longleftrightarrow> is_alnum c \<or> c = 43 \<or> c = 47 \<or> c = 61"

definition match_sig_body :: "pystr \<Rightarrow> (pystr \<times> pystr) option" where
  "match_sig_body s =
     (let name = takeWhile (\<lambda>c. \<not> py_space c) s;
          rest = dropWhile (\<lambda>c. \<not> py_space c) s;
          tail = dropWhile py_space rest;
          b = (if tail \<noteq> [] \<and> last tail = 10 then butlast tail else tail)
      in if name \<noteq> [] \<and> rest \<noteq> [] \<and> b \<noteq> [] \<and> (\<forall>c \<in> set b. b64_line_char c)
         then Some (name, b) else None)"

definition match_sig_line :: "pystr \<Rightarrow> (pystr \<times> pystr) option" where
  "match_sig_line line =
     (if startswith line [8212, 32] then match_sig_body (drop 2 line)
      else if startswith line [45, 45, 32] then match_sig_body (drop 3 line)
      else None)"

definition parse_note_signature :: "pystr \<Rightarrow> NoteSignature res" where
  "parse_note_signature line =
     (case match_sig_line line of
        None \<Rightarrow> parse_err ''invalid signed-note signature line''
      | Some (name, b) \<Rightarrow>
          rbind (or_parse_err ''invalid signed-note signature base64'' (b64_std_decode b))
            (\<lambda>raw_bytes.
               if length raw_bytes > 4
               then Inr \<lparr>ns_name = name, ns_signature = drop 4 raw_bytes,
                         ns_key_hash = Some (take 4 raw_bytes), ns_raw = line\<rparr>
               else Inr \<lparr>ns_name = name, ns_signature = raw_bytes,
                         ns_key_hash = None, ns_raw = line\<rparr>))"

definition parse_body :: "pystr \<Rightarrow> (pystr \<times> int \<times> bytes) res" where
  "parse_body signed_text =
     (let body = split_on 10 (rstrip_chars [10] signed_text) in
      if length body < 3
      then parse_err ''checkpoint must contain origin, size, and root hash''
      else if body ! 0 = [] then parse_err ''checkpoint missing origin''
      else if \<not> re_dollar canonical_dec (body ! 1)
      then parse_err ''checkpoint has invalid tree size''
      else
        rbind (py_int (body ! 1)) (\<lambda>tree_size.
        rbind (or_parse_err ''checkpoint root hash is not base64'' (b64_std_decode (body ! 2)))
          (\<lambda>root_hash.
             if length root_hash \<noteq> 32
             then parse_err ''checkpoint root hash must be SHA-256 sized''
             else Inr (body ! 0, tree_size, root_hash))))"

definition signature_lines :: "pystr \<Rightarrow> pystr list" where
  "signature_lines sig_text = (if sig_text = [] then [] else filter (\<lambda>l. l \<noteq> []) (split_on 10 sig_text))"

definition parse_checkpoint :: "pystr \<Rightarrow> Checkpoint res" where
  "parse_checkpoint text =
     (let normalized = replace_crlf text;
          sig_start = find_sub normalized [10, 10];
          signed_text = (case sig_start of None \<Rightarrow> py_rstrip normalized @ [10]
                                         | Some i \<Rightarrow> take (i + 1) normalized);
          sig_text = (case sig_start of None \<Rightarrow> [] | Some i \<Rightarrow> py_strip (drop (i + 2) normalized))
      in rbind (parse_body signed_text) (\<lambda>(origin, tree_size, root_hash).
         rbind (mapR parse_note_signature (signature_lines sig_text)) (\<lambda>signatures.
           Inr \<lparr>ck_origin = origin, ck_tree_size = tree_size, ck_root_hash = root_hash,
                ck_signatures = signatures, ck_signed_text = signed_text\<rparr>)))"

section \<open>Verifier keys\<close>

record SignedNoteKey =
  sk_name :: pystr
  sk_key_bytes :: bytes
  sk_kind :: pystr
  sk_key_id :: "bytes option"
  sk_signature_type :: "bytes option"

definition MAX_COSIG_TIMESTAMP :: int where
  "MAX_COSIG_TIMESTAMP = 0x7FFFFFFFFFFFFFFF"

definition decode_key :: "pystr \<Rightarrow> (bytes \<times> bytes option) res" where
  "decode_key s =
     rbind (or_parse_err ''invalid verifier key base64'' (b64_std_decode s)) (\<lambda>b.
       if length b = 32 then Inr (b, None)
       else if length b = 33 then Inr (drop 1 b, Some (take 1 b))
       else parse_err ''Ed25519 verifier key must contain a signature type and 32-byte key'')"

text \<open>
  \<^verbatim>\<open>_HEX_RE.match\<close> then \<^verbatim>\<open>bytes.fromhex\<close>, which skips the trailing newline that \<^verbatim>\<open>$\<close> admits.
\<close>

definition hex_pairs :: "pystr \<Rightarrow> bool" where
  "hex_pairs s \<longleftrightarrow> s \<noteq> [] \<and> even (length s) \<and> (\<forall>c \<in> set s. is_hex c)"

definition from_hex :: "pystr \<Rightarrow> bytes res" where
  "from_hex s =
     (if \<not> re_dollar hex_pairs s then parse_err ''invalid signed-note key ID''
      else Inr (hex_decode (rstrip_chars [10] s)))"

definition ascii_lower :: "pystr \<Rightarrow> pystr" where
  "ascii_lower s = map (\<lambda>c. if is_upper c then c + 32 else c) s"

definition note_key :: "pystr \<Rightarrow> bytes option \<Rightarrow> bytes \<times> bytes option \<Rightarrow> SignedNoteKey" where
  "note_key name key_id k =
     \<lparr>sk_name = name, sk_key_bytes = fst k, sk_kind = str ''ed25519'', sk_key_id = key_id,
      sk_signature_type = snd k\<rparr>"

definition parse_signed_note_verifier_key :: "pystr \<Rightarrow> SignedNoteKey res" where
  "parse_signed_note_verifier_key text =
     (let trimmed = py_strip text;
          parts = split_ws trimmed;
          plain =
            (if length parts = 2
             then rbind (decode_key (parts ! 1)) (\<lambda>k. Inr (note_key (parts ! 0) None k))
             else if length parts = 3 \<and> ascii_lower (parts ! 1) = str ''ed25519''
             then rbind (decode_key (parts ! 2)) (\<lambda>k. Inr (note_key (parts ! 0) None k))
             else parse_err ''unsupported signed-note verifier key'')
      in (case find_sub trimmed [43] of
            None \<Rightarrow> plain
          | Some first_plus \<Rightarrow>
              (case find_sub (drop (first_plus + 1) trimmed) [43] of
                 None \<Rightarrow> plain
               | Some gap \<Rightarrow>
                   if first_plus > 0 \<and> gap > 0 then
                     rbind (from_hex (take gap (drop (first_plus + 1) trimmed))) (\<lambda>key_id.
                       if length key_id \<noteq> 4
                       then parse_err ''signed-note key ID must be four bytes''
                       else rbind (decode_key (drop (first_plus + gap + 2) trimmed))
                              (\<lambda>k. Inr (note_key (take first_plus trimmed) (Some key_id) k)))
                   else plain)))"

section \<open>Verification\<close>

definition key_id_matches :: "NoteSignature \<Rightarrow> SignedNoteKey \<Rightarrow> bool" where
  "key_id_matches sig key =
     (case sk_key_id key of
        None \<Rightarrow> True
      | Some i \<Rightarrow> (case ns_key_hash sig of None \<Rightarrow> False | Some h \<Rightarrow> h = i))"

definition cosignature_message :: "int \<Rightarrow> pystr \<Rightarrow> pystr" where
  "cosignature_message timestamp message =
     str ''cosignature/v1'' @ [10] @ str ''time '' @ dec_of_int timestamp @ [10] @ message"

text \<open>
  \<^verbatim>\<open>public_key.verify(signature, signed_message.encode("utf-8"))\<close>; text that cannot be encoded is a
  \<^verbatim>\<open>ValueError\<close>, which the handler turns into \<^verbatim>\<open>False\<close>.
\<close>

definition verify_text :: "(bytes \<Rightarrow> bytes \<Rightarrow> bytes \<Rightarrow> bool) \<Rightarrow> bytes \<Rightarrow> bytes \<Rightarrow> pystr \<Rightarrow> bool" where
  "verify_text ed_verify pub sig message =
     (case utf8_encode message of None \<Rightarrow> False | Some m \<Rightarrow> ed_verify pub sig m)"

definition verify_note_signature ::
  "(bytes \<Rightarrow> bytes \<Rightarrow> bytes \<Rightarrow> bool) \<Rightarrow> pystr \<Rightarrow> NoteSignature \<Rightarrow> SignedNoteKey \<Rightarrow> bool" where
  "verify_note_signature ed_verify message sig key =
     (if sk_kind key \<noteq> str ''ed25519'' \<or> length (sk_key_bytes key) \<noteq> 32 then False
      else if (case sk_signature_type key of None \<Rightarrow> False | Some t \<Rightarrow> length t \<noteq> 1) then False
      else
        (let signature_type = (case sk_signature_type key of None \<Rightarrow> 1 | Some t \<Rightarrow> hd t);
             signature = ns_signature sig
         in if signature_type = 1 then
              length signature = 64 \<and> verify_text ed_verify (sk_key_bytes key) signature message
            else if signature_type = 4 then
              (let timestamp = int (from_bytes_be (take 8 signature)) in
               length signature = 72 \<and> timestamp \<le> MAX_COSIG_TIMESTAMP
               \<and> verify_text ed_verify (sk_key_bytes key) (drop 8 signature)
                   (cosignature_message timestamp message))
            else False))"

definition verify_checkpoint_signature ::
  "(bytes \<Rightarrow> bytes \<Rightarrow> bytes \<Rightarrow> bool) \<Rightarrow> Checkpoint \<Rightarrow> SignedNoteKey \<Rightarrow> bool" where
  "verify_checkpoint_signature ed_verify checkpoint key =
     (\<exists>sig \<in> set (ck_signatures checkpoint).
        ns_name sig = sk_name key \<and> key_id_matches sig key
        \<and> verify_note_signature ed_verify (ck_signed_text checkpoint) sig key)"

fun first_timestamp ::
  "(bytes \<Rightarrow> bytes \<Rightarrow> bytes \<Rightarrow> bool) \<Rightarrow> pystr \<Rightarrow> SignedNoteKey \<Rightarrow> NoteSignature list \<Rightarrow> int option" where
  "first_timestamp ed_verify signed_text key [] = None"
| "first_timestamp ed_verify signed_text key (sig # sigs) =
     (if ns_name sig \<noteq> sk_name key \<or> \<not> key_id_matches sig key
         \<or> \<not> verify_note_signature ed_verify signed_text sig key
         \<or> length (ns_signature sig) \<noteq> 72
      then first_timestamp ed_verify signed_text key sigs
      else
        (let timestamp = int (from_bytes_be (take 8 (ns_signature sig))) in
         if timestamp \<le> MAX_COSIG_TIMESTAMP then Some timestamp
         else first_timestamp ed_verify signed_text key sigs))"

definition verified_cosignature_timestamp ::
  "(bytes \<Rightarrow> bytes \<Rightarrow> bytes \<Rightarrow> bool) \<Rightarrow> Checkpoint \<Rightarrow> SignedNoteKey \<Rightarrow> int option" where
  "verified_cosignature_timestamp ed_verify checkpoint key =
     (if sk_signature_type key \<noteq> Some [4] then None
      else first_timestamp ed_verify (ck_signed_text checkpoint) key (ck_signatures checkpoint))"

section \<open>Lemmas\<close>

lemma or_parse_err_Inr_iff [res_simps]: "or_parse_err m r = Inr x \<longleftrightarrow> r = Inr x"
  by (cases r) (auto simp: or_parse_err_def)

lemma py_int_Inr_iff [res_simps]:
  "py_int s = Inr i \<longleftrightarrow> length (rstrip_chars [10] s) \<le> 4300 \<and> i = int_of_dec s"
  by (auto simp: py_int_def)

lemma parse_checkpoint_body:
  "parse_checkpoint text = Inr c \<Longrightarrow>
   parse_body (ck_signed_text c) = Inr (ck_origin c, ck_tree_size c, ck_root_hash c)"
  by (auto simp: parse_checkpoint_def Let_def res_simps)

lemma parse_body_fields:
  assumes "parse_body t = Inr (origin, n, rt)"
  shows "origin \<noteq> []" "10 \<notin> set origin" "0 \<le> n" "length rt = 32"
proof -
  have len: "3 \<le> length (split_on 10 (rstrip_chars [10] t))" and
    o: "origin = split_on 10 (rstrip_chars [10] t) ! 0"
    using assms by (auto simp: parse_body_def Let_def res_simps split: if_splits)
  then have "origin \<in> set (split_on 10 (rstrip_chars [10] t))" by auto
  then show "10 \<notin> set origin" by (rule split_on_parts)
  from assms show "origin \<noteq> []" "0 \<le> n" "length rt = 32"
    by (auto simp: parse_body_def Let_def res_simps split: if_splits)
qed

lemma first_timestamp_sound:
  "first_timestamp ed_verify text key sigs = Some t \<Longrightarrow>
   \<exists>sig \<in> set sigs. ns_name sig = sk_name key \<and> key_id_matches sig key
     \<and> verify_note_signature ed_verify text sig key \<and> length (ns_signature sig) = 72
     \<and> t = int (from_bytes_be (take 8 (ns_signature sig))) \<and> t \<le> MAX_COSIG_TIMESTAMP"
  by (induction sigs) (auto simp: Let_def split: if_splits)

lemma cosignature_verified:
  assumes "verified_cosignature_timestamp ed_verify c key = Some t"
  shows "\<exists>sig m. sig \<in> set (ck_signatures c)
    \<and> utf8_encode (cosignature_message t (ck_signed_text c)) = Some m
    \<and> ed_verify (sk_key_bytes key) (drop 8 (ns_signature sig)) m
    \<and> ns_name sig = sk_name key \<and> length (sk_key_bytes key) = 32 \<and> 0 \<le> t \<and> t \<le> MAX_COSIG_TIMESTAMP"
proof -
  from assms have ty: "sk_signature_type key = Some [4]"
    and ft: "first_timestamp ed_verify (ck_signed_text c) key (ck_signatures c) = Some t"
    by (auto simp: verified_cosignature_timestamp_def split: if_splits)
  from first_timestamp_sound [OF ft] obtain sig where sig: "sig \<in> set (ck_signatures c)"
    "ns_name sig = sk_name key" "verify_note_signature ed_verify (ck_signed_text c) sig key"
    "t = int (from_bytes_be (take 8 (ns_signature sig)))" "t \<le> MAX_COSIG_TIMESTAMP" by blast
  then show ?thesis
    using ty by (auto simp: verify_note_signature_def verify_text_def Let_def split: if_splits option.splits)
qed

lemma cosignature_verified_kind:
  "verified_cosignature_timestamp ed_verify c key = Some t \<Longrightarrow> sk_kind key = str ''ed25519''"
  by (auto simp: verified_cosignature_timestamp_def verify_note_signature_def split: if_splits
      dest!: first_timestamp_sound)

text \<open>A log signature and a cosignature never sign the same text.\<close>

lemma cosignature_message_inj:
  assumes "cosignature_message t m = cosignature_message t' m'"
  shows "t = t' \<and> m = m'"
proof -
  have n: "10 \<notin> set (dec_of_int i)" for i
    using dec_of_nat_digits [of 10] by (auto simp: dec_of_int_def is_digit_def)
  from assms have "dec_of_int t @ 10 # m = dec_of_int t' @ 10 # m'"
    by (simp add: cosignature_message_def)
  then have "dec_of_int t = dec_of_int t'" "m = m'"
    using split_first [OF n n] by auto
  then show ?thesis using dec_of_int_inj by auto
qed

end
