(* ===== verification/Policy.thy ===== *)
theory Policy
  imports Signed_Note "HOL-Library.Product_Lexorder" "HOL-Library.Multiset"
begin

text \<open>
  \<^verbatim>\<open>dnsid/c2sp_tlog/policy.py\<close>: the local trust policy of a log origin, its normalisation, the
  evaluation of witness quorums, the enforcement on a checkpoint and the text format of policies.
  The abstract meaning of a quorum rule is \<open>quorum_met\<close>, a threshold formula over witnesses; the
  evaluator decides it and returns the timestamps of the latest members that meet it.

  A datetime is its number of microseconds since the epoch, the float \<^verbatim>\<open>now_ms\<close> a rational.
\<close>

section \<open>Data\<close>

datatype keyref = Key SignedNoteKey | KeyText pystr

datatype rule_kind = KNone | KWitness | KThreshold | KOther

datatype C2spTlogQuorumRule =
  QuorumRule (q_kind: rule_kind) (q_key: "keyref option") (q_threshold: int)
    (q_members: "C2spTlogQuorumRule list")

record C2spTlogOriginPolicy =
  op_log_keys :: "keyref list"
  op_witness_keys :: "keyref list"
  op_quorum :: "int option"
  op_quorum_rule :: "C2spTlogQuorumRule option"
  op_unchained :: bool

record C2spTlogPolicy =
  pol_origins :: "C2spTlogOriginPolicy dict"
  pol_scope :: "pystr option"

record NormalizedOriginPolicy =
  np_log_keys :: "SignedNoteKey list"
  np_witness_keys :: "SignedNoteKey list"
  np_quorum :: int
  np_quorum_rule :: C2spTlogQuorumRule
  np_unchained :: bool

record CheckpointPolicyResult =
  pr_accepted_witness_timestamps :: "int list"
  pr_checkpoint_witness_time :: "int option"

section \<open>Normalisation\<close>

definition as_key :: "keyref \<Rightarrow> SignedNoteKey res" where
  "as_key k = (case k of KeyText s \<Rightarrow> parse_signed_note_verifier_key s | Key key \<Rightarrow> Inr key)"

fun normalize_quorum_rule :: "C2spTlogQuorumRule \<Rightarrow> C2spTlogQuorumRule res" where
  "normalize_quorum_rule (QuorumRule kind key threshold members) =
     (case kind of
        KNone \<Rightarrow> Inr (QuorumRule kind key threshold members)
      | KWitness \<Rightarrow>
          (case key of
             None \<Rightarrow> verif_err ''witness quorum rule requires a key''
           | Some k \<Rightarrow> rbind (as_key k) (\<lambda>k'. Inr (QuorumRule KWitness (Some (Key k')) 0 [])))
      | KThreshold \<Rightarrow>
          if threshold < 1 \<or> threshold > int (length members)
          then verif_err ''checkpoint quorum rule has an invalid threshold''
          else rbind (mapR normalize_quorum_rule members)
                 (\<lambda>ms. Inr (QuorumRule KThreshold None threshold ms))
      | KOther \<Rightarrow> verif_err ''unsupported quorum rule kind'')"

definition flat_quorum_rule :: "SignedNoteKey list \<Rightarrow> int \<Rightarrow> C2spTlogQuorumRule" where
  "flat_quorum_rule witness_keys quorum =
     (if quorum = 0 then QuorumRule KNone None 0 []
      else QuorumRule KThreshold None quorum
             (map (\<lambda>k. QuorumRule KWitness (Some (Key k)) 0 []) witness_keys))"

fun collect_witness_keys :: "C2spTlogQuorumRule \<Rightarrow> SignedNoteKey list res" where
  "collect_witness_keys (QuorumRule kind key threshold members) =
     (case kind of
        KNone \<Rightarrow> Inr []
      | KWitness \<Rightarrow>
          (case key of Some (Key k) \<Rightarrow> Inr [k]
                     | _ \<Rightarrow> verif_err ''checkpoint witness rule requires a key'')
      | _ \<Rightarrow> rbind (mapR collect_witness_keys members) (\<lambda>out. Inr (concat out)))"

definition key_identity :: "SignedNoteKey \<Rightarrow> pystr" where
  "key_identity key = sk_kind key @ [0] @ hex_encode (sk_key_bytes key)"

definition assert_distinct_underlying_keys :: "SignedNoteKey list \<Rightarrow> string \<Rightarrow> unit res" where
  "assert_distinct_underlying_keys keys label =
     guard (distinct (map key_identity keys))
       (C2spTlogVerificationError (label @ '' must be distinct by underlying public key'') None None)"

definition top_level_threshold :: "C2spTlogQuorumRule \<Rightarrow> int" where
  "top_level_threshold rule =
     (case q_kind rule of KNone \<Rightarrow> 0 | KWitness \<Rightarrow> 1 | _ \<Rightarrow> q_threshold rule)"

definition bad_log_type :: "SignedNoteKey \<Rightarrow> bool" where
  "bad_log_type key = (case sk_signature_type key of None \<Rightarrow> False | Some t \<Rightarrow> t \<noteq> [1])"

abbreviation verif :: "string \<Rightarrow> exn" where
  "verif m \<equiv> C2spTlogVerificationError m None None"

definition check_keys :: "pystr \<Rightarrow> SignedNoteKey list \<Rightarrow> SignedNoteKey list \<Rightarrow> int \<Rightarrow> unit res" where
  "check_keys origin log_keys witness_keys quorum =
     rbind (guard (0 \<le> quorum) (verif ''checkpoint witness quorum must be a non-negative integer'')) (\<lambda>_.
     rbind (guard (quorum \<le> int (length witness_keys))
              (verif ''checkpoint witness quorum exceeds configured witnesses'')) (\<lambda>_.
     rbind (guard (log_keys \<noteq> []) (verif ''checkpoint policy requires at least one log key'')) (\<lambda>_.
     rbind (guard (\<forall>k \<in> set log_keys. sk_name k = origin)
              (verif ''checkpoint log key name must match its origin'')) (\<lambda>_.
     rbind (guard (\<forall>k \<in> set log_keys. \<not> bad_log_type k)
              (verif ''checkpoint log keys must use the supported log signature type 0x01'')) (\<lambda>_.
     rbind (guard (\<forall>k \<in> set witness_keys. sk_signature_type k = Some [4])
              (verif ''checkpoint witness keys must use the supported cosignature type 0x04'')) (\<lambda>_.
     rbind (assert_distinct_underlying_keys log_keys ''checkpoint log keys'') (\<lambda>_.
     rbind (assert_distinct_underlying_keys witness_keys ''checkpoint witness keys'') (\<lambda>_.
       guard (\<forall>k \<in> set witness_keys. key_identity k \<notin> set (map key_identity log_keys))
         (verif ''checkpoint log and witness keys must use distinct underlying public keys'')))))))))"

definition check_rule_keys :: "SignedNoteKey list \<Rightarrow> SignedNoteKey list \<Rightarrow> unit res" where
  "check_rule_keys log_keys rule_keys =
     rbind (guard (\<forall>k \<in> set rule_keys. sk_signature_type k = Some [4])
              (verif ''checkpoint quorum witness keys must use the supported cosignature type 0x04'')) (\<lambda>_.
     rbind (assert_distinct_underlying_keys rule_keys ''checkpoint quorum witness keys'') (\<lambda>_.
       guard (\<forall>k \<in> set rule_keys. key_identity k \<notin> set (map key_identity log_keys))
         (verif ''checkpoint log and witness keys must use distinct underlying public keys'')))"

definition normalized_origin_policy :: "C2spTlogPolicy \<Rightarrow> pystr \<Rightarrow> NormalizedOriginPolicy res" where
  "normalized_origin_policy policy origin =
     (case map_of (pol_origins policy) origin of
        None \<Rightarrow> verif_err ''no local C2SP policy for origin''
      | Some p \<Rightarrow>
          rbind (mapR as_key (op_log_keys p)) (\<lambda>log_keys.
          rbind (mapR as_key (op_witness_keys p)) (\<lambda>witness_keys.
            let quorum = (case op_quorum p of None \<Rightarrow> 0 | Some q \<Rightarrow> q) in
          rbind (check_keys origin log_keys witness_keys quorum) (\<lambda>_.
          rbind (normalize_quorum_rule
                   (case op_quorum_rule p of Some r \<Rightarrow> r
                                           | None \<Rightarrow> flat_quorum_rule witness_keys quorum))
            (\<lambda>quorum_rule.
          rbind (collect_witness_keys quorum_rule) (\<lambda>rule_witness_keys.
          rbind (check_rule_keys log_keys rule_witness_keys) (\<lambda>_.
            Inr \<lparr>np_log_keys = log_keys, np_witness_keys = rule_witness_keys,
                 np_quorum = top_level_threshold quorum_rule, np_quorum_rule = quorum_rule,
                 np_unchained = op_unchained p\<rparr>)))))))"

section \<open>Quorum evaluation and enforcement\<close>

text \<open>
  \<^verbatim>\<open>satisfied.sort(key=lambda ts: min(ts) if ts else float("inf"), reverse=True)\<close>: Python's reverse
  sort keeps the order of equal keys, so it is the stable sort by the negated key.
\<close>

definition latest_first :: "int list \<Rightarrow> nat \<times> int" where
  "latest_first ts = (if ts = [] then (0, 0) else (1, - Min (set ts)))"

fun evaluate_quorum ::
  "(SignedNoteKey \<Rightarrow> int option) \<Rightarrow> C2spTlogQuorumRule \<Rightarrow> rat \<Rightarrow> int \<Rightarrow> int list option res" where
  "evaluate_quorum cosig (QuorumRule kind key threshold members) now_ms skew =
     (case kind of
        KNone \<Rightarrow> Inr (Some [])
      | KWitness \<Rightarrow>
          (case key of
             Some (Key k) \<Rightarrow>
               (case cosig k of
                  Some timestamp \<Rightarrow>
                    if of_int (timestamp * 1000) \<le> now_ms + of_int skew then Inr (Some [timestamp])
                    else Inr None
                | None \<Rightarrow> Inr None)
           | _ \<Rightarrow> verif_err ''checkpoint witness rule requires a key'')
      | _ \<Rightarrow>
          rbind (mapR (\<lambda>m. evaluate_quorum cosig m now_ms skew) members) (\<lambda>results.
            let satisfied = List.map_filter id results in
            if int (length satisfied) < threshold then Inr None
            else Inr (Some (concat (take (nat threshold) (sort_key latest_first satisfied))))))"

text \<open>\<^verbatim>\<open>datetime.fromtimestamp(t, tz=UTC)\<close> raises after the year 9999.\<close>

definition fromtimestamp :: "int \<Rightarrow> int res" where
  "fromtimestamp t =
     (if t > 253402300799 then Inl (ValueError ''year is out of range'') else Inr (t * 1000000))"

definition enforce_checkpoint_policy ::
  "(bytes \<Rightarrow> bytes \<Rightarrow> bytes \<Rightarrow> bool) \<Rightarrow> Checkpoint \<Rightarrow> pystr \<Rightarrow> C2spTlogPolicy \<Rightarrow> pystr \<Rightarrow> rat \<Rightarrow> int
   \<Rightarrow> CheckpointPolicyResult res" where
  "enforce_checkpoint_policy ed_verify checkpoint origin policy scope now_ms max_clock_skew_ms =
     rbind (guard (0 \<le> max_clock_skew_ms)
              (verif ''maximum clock skew must be a non-negative integer'')) (\<lambda>_.
     rbind (guard (case pol_scope policy of None \<Rightarrow> True | Some s \<Rightarrow> s = scope)
              (verif ''C2SP policy scope does not match'')) (\<lambda>_.
     rbind (guard (ck_origin checkpoint = origin) (verif ''checkpoint origin mismatch'')) (\<lambda>_.
     rbind (guard (\<not> (ck_tree_size checkpoint = 0 \<and> ck_root_hash checkpoint \<noteq> sha256 []))
              (C2spTlogVerificationError ''empty checkpoint root must be SHA-256 of the empty string''
                 (Some INVALID_EVIDENCE) None)) (\<lambda>_.
     rbind (normalized_origin_policy policy origin) (\<lambda>p.
       let accepted_log_keys =
         (if scope = str ''public''
          then filter (\<lambda>k. sk_signature_type k = Some [1]) (np_log_keys p)
          else np_log_keys p) in
     rbind (guard (\<exists>k \<in> set accepted_log_keys. verify_checkpoint_signature ed_verify checkpoint k)
              (verif ''checkpoint missing accepted log signature'')) (\<lambda>_.
     rbind (guard (\<not> (scope = str ''public'' \<and> q_kind (np_quorum_rule p) = KNone))
              (verif ''public C2SP policy requires a non-zero witness quorum'')) (\<lambda>_.
     rbind (evaluate_quorum (verified_cosignature_timestamp ed_verify checkpoint)
              (np_quorum_rule p) now_ms max_clock_skew_ms) (\<lambda>result.
       (case result of
          None \<Rightarrow> verif_err
            ''checkpoint witness quorum not satisfied by valid timestamped cosignatures''
        | Some accepted \<Rightarrow>
            if accepted = []
            then Inr \<lparr>pr_accepted_witness_timestamps = accepted,
                      pr_checkpoint_witness_time = None\<rparr>
            else rbind (fromtimestamp (Min (set accepted))) (\<lambda>t.
                   Inr \<lparr>pr_accepted_witness_timestamps = accepted,
                        pr_checkpoint_witness_time = Some t\<rparr>))))))))))"

section \<open>Policy files\<close>

record policy_state =
  ps_logs :: "SignedNoteKey list"
  ps_witnesses :: "SignedNoteKey dict"
  ps_rules :: "C2spTlogQuorumRule dict"
  ps_quorum_rule :: "C2spTlogQuorumRule option"
  ps_quorum_lines :: nat

definition assert_policy_characters :: "pystr \<Rightarrow> unit res" where
  "assert_policy_characters text =
     guard (\<forall>c \<in> set text. c = 9 \<or> c = 10 \<or> c \<ge> 32) (verif ''invalid C2SP policy character'')"

definition assert_new_policy_name ::
  "pystr \<Rightarrow> SignedNoteKey dict \<Rightarrow> C2spTlogQuorumRule dict \<Rightarrow> unit res" where
  "assert_new_policy_name name witnesses rules =
     (if name = str ''none'' then Inl (ValueError ''none is a reserved policy name'')
      else if dict_has witnesses name \<or> dict_has rules name
      then Inl (ValueError ''duplicate policy name'')
      else Inr ())"

definition parse_decimal_threshold :: "pystr \<Rightarrow> int res" where
  "parse_decimal_threshold s =
     (if \<not> re_dollar canonical_dec s then Inl (ValueError ''invalid group threshold'')
      else py_int s)"

text \<open>\<^verbatim>\<open>re.split(r"[\t ]+", line)\<close> on a line without leading or trailing separators.\<close>

definition policy_fields :: "pystr \<Rightarrow> pystr list" where
  "policy_fields line = filter (\<lambda>f. f \<noteq> []) (split_on 32 (map (\<lambda>c. if c = 9 then 32 else c) line))"

definition group_rule ::
  "C2spTlogQuorumRule dict \<Rightarrow> pystr \<Rightarrow> pystr list \<Rightarrow> C2spTlogQuorumRule res" where
  "group_rule rules threshold_text member_names =
     (if \<not> distinct member_names then Inl (ValueError ''group members must be distinct'')
      else
        rbind (mapR (\<lambda>member. case map_of rules member of
                   None \<Rightarrow> Inl (ValueError ''group references unknown preceding witness or group'')
                 | Some rule \<Rightarrow> Inr rule) member_names) (\<lambda>members.
        rbind (if threshold_text = str ''any'' then Inr 1
               else if threshold_text = str ''all'' then Inr (int (length members))
               else parse_decimal_threshold threshold_text) (\<lambda>threshold.
          if threshold < 1 \<or> threshold > int (length members)
          then Inl (ValueError ''invalid group threshold'')
          else Inr (QuorumRule KThreshold None threshold members))))"

definition policy_directive :: "pystr \<Rightarrow> pystr list \<Rightarrow> policy_state \<Rightarrow> policy_state res" where
  "policy_directive directive parts st =
     (if directive = str ''log'' \<and> length parts \<in> {1, 2} then
        rbind (parse_signed_note_verifier_key (parts ! 0)) (\<lambda>key.
          Inr (st\<lparr>ps_logs := ps_logs st @ [key]\<rparr>))
      else if directive = str ''witness'' \<and> length parts \<in> {2, 3} then
        rbind (assert_new_policy_name (parts ! 0) (ps_witnesses st) (ps_rules st)) (\<lambda>_.
        rbind (parse_signed_note_verifier_key (parts ! 1)) (\<lambda>key.
          Inr (st\<lparr>ps_witnesses := dict_set (parts ! 0) key (ps_witnesses st),
                  ps_rules := dict_set (parts ! 0) (QuorumRule KWitness (Some (Key key)) 0 [])
                                (ps_rules st)\<rparr>)))
      else if directive = str ''group'' \<and> length parts \<ge> 3 then
        rbind (assert_new_policy_name (parts ! 0) (ps_witnesses st) (ps_rules st)) (\<lambda>_.
        rbind (group_rule (ps_rules st) (parts ! 1) (drop 2 parts)) (\<lambda>rule.
          Inr (st\<lparr>ps_rules := dict_set (parts ! 0) rule (ps_rules st)\<rparr>)))
      else if directive = str ''quorum'' \<and> length parts = 1 then
        (if ps_quorum_lines st + 1 > 1
         then Inl (ValueError ''policy must contain exactly one quorum directive'')
         else if parts ! 0 = str ''none'' then
           Inr (st\<lparr>ps_quorum_lines := ps_quorum_lines st + 1,
                   ps_quorum_rule := Some (QuorumRule KNone None 0 [])\<rparr>)
         else (case map_of (ps_rules st) (parts ! 0) of
                 None \<Rightarrow> Inl (ValueError ''quorum references unknown preceding witness or group'')
               | Some rule \<Rightarrow>
                   Inr (st\<lparr>ps_quorum_lines := ps_quorum_lines st + 1,
                           ps_quorum_rule := Some rule\<rparr>)))
      else Inl (ValueError ''unsupported directive or wrong number of fields''))"

text \<open>The \<^verbatim>\<open>except (ValueError, C2spTlogVerificationError)\<close> clause; a parse error passes through.\<close>

definition wrap_policy_error :: "'a res \<Rightarrow> 'a res" where
  "wrap_policy_error r =
     (case r of
        Inl (ValueError _) \<Rightarrow> verif_err ''invalid C2SP policy line''
      | Inl e \<Rightarrow> if is_C2spTlogVerificationError e then verif_err ''invalid C2SP policy line'' else Inl e
      | Inr x \<Rightarrow> Inr x)"

definition policy_line :: "pystr \<Rightarrow> policy_state \<Rightarrow> policy_state res" where
  "policy_line raw_line st =
     (let line = strip_chars [9, 32] raw_line in
      if line = [] \<or> hd line = 35 then Inr st
      else
        (case policy_fields line of
           [] \<Rightarrow> Inr st
         | directive # parts \<Rightarrow> wrap_policy_error (policy_directive directive parts st)))"

fun policy_lines :: "pystr list \<Rightarrow> policy_state \<Rightarrow> policy_state res" where
  "policy_lines [] st = Inr st"
| "policy_lines (l # ls) st = rbind (policy_line l st) (policy_lines ls)"

definition legacy_quorum :: "C2spTlogQuorumRule \<Rightarrow> int option" where
  "legacy_quorum rule =
     (case q_kind rule of
        KNone \<Rightarrow> Some 0
      | KWitness \<Rightarrow> Some 1
      | _ \<Rightarrow> if \<forall>m \<in> set (q_members rule). q_kind m = KWitness then Some (q_threshold rule) else None)"

fun group_origins ::
  "keyref list \<Rightarrow> C2spTlogQuorumRule \<Rightarrow> SignedNoteKey list \<Rightarrow> C2spTlogOriginPolicy dict
   \<Rightarrow> C2spTlogOriginPolicy dict" where
  "group_origins witness_keys rule [] origins = origins"
| "group_origins witness_keys rule (lg # logs) origins =
     group_origins witness_keys rule logs
       (case map_of origins (sk_name lg) of
          Some current \<Rightarrow>
            dict_set (sk_name lg) (current\<lparr>op_log_keys := op_log_keys current @ [Key lg]\<rparr>) origins
        | None \<Rightarrow>
            dict_set (sk_name lg)
              \<lparr>op_log_keys = [Key lg], op_witness_keys = witness_keys,
               op_quorum = legacy_quorum rule, op_quorum_rule = Some rule,
               op_unchained = False\<rparr> origins)"

definition finish_policy :: "policy_state \<Rightarrow> C2spTlogPolicy res" where
  "finish_policy st =
     (case ps_quorum_rule st of
        None \<Rightarrow> verif_err ''C2SP policy requires exactly one quorum directive''
      | Some rule \<Rightarrow>
          let logs = ps_logs st; witnesses = map snd (ps_witnesses st) in
          rbind (guard (ps_quorum_lines st = 1)
                   (verif ''C2SP policy requires exactly one quorum directive'')) (\<lambda>_.
          rbind (guard (\<forall>k \<in> set logs. \<not> bad_log_type k)
                   (verif ''C2SP policy log keys must use the supported log signature type 0x01'')) (\<lambda>_.
          rbind (guard (\<forall>k \<in> set witnesses. sk_signature_type k = Some [4])
                   (verif ''C2SP policy witness keys must use the supported cosignature type 0x04'')) (\<lambda>_.
          rbind (assert_distinct_underlying_keys logs ''C2SP policy logs'') (\<lambda>_.
          rbind (assert_distinct_underlying_keys witnesses ''C2SP policy witnesses'') (\<lambda>_.
          rbind (guard (\<forall>k \<in> set witnesses. key_identity k \<notin> set (map key_identity logs))
                   (verif ''C2SP policy log and witness keys must use distinct underlying public keys''))
            (\<lambda>_. Inr \<lparr>pol_origins = group_origins (map Key witnesses) rule logs [],
                      pol_scope = None\<rparr>)))))))"

definition parse_c2sp_policy_file :: "pystr \<Rightarrow> C2spTlogPolicy res" where
  "parse_c2sp_policy_file text =
     rbind (assert_policy_characters text) (\<lambda>_.
     rbind (policy_lines (split_on 10 text)
              \<lparr>ps_logs = [], ps_witnesses = [], ps_rules = [], ps_quorum_rule = None,
               ps_quorum_lines = 0\<rparr>) finish_policy)"

section \<open>The meaning of quorum rules\<close>

text \<open>A rule as a threshold formula over the witnesses that \<open>ok\<close> accepts.\<close>

fun quorum_met :: "(SignedNoteKey \<Rightarrow> bool) \<Rightarrow> C2spTlogQuorumRule \<Rightarrow> bool" where
  "quorum_met ok (QuorumRule kind key threshold members) =
     (case kind of
        KNone \<Rightarrow> True
      | KWitness \<Rightarrow> (case key of Some (Key k) \<Rightarrow> ok k | _ \<Rightarrow> False)
      | _ \<Rightarrow> threshold \<le> int (length (filter (quorum_met ok) members)))"

text \<open>The rules that normalisation returns, and their witnesses.\<close>

fun wf_rule :: "C2spTlogQuorumRule \<Rightarrow> bool" where
  "wf_rule (QuorumRule kind key threshold members) =
     (case kind of
        KNone \<Rightarrow> True
      | KWitness \<Rightarrow> (case key of Some (Key k) \<Rightarrow> True | _ \<Rightarrow> False)
      | KThreshold \<Rightarrow> 1 \<le> threshold \<and> threshold \<le> int (length members) \<and> (\<forall>m \<in> set members. wf_rule m)
      | KOther \<Rightarrow> False)"

fun rule_keys :: "C2spTlogQuorumRule \<Rightarrow> SignedNoteKey list" where
  "rule_keys (QuorumRule kind key threshold members) =
     (case kind of
        KNone \<Rightarrow> []
      | KWitness \<Rightarrow> (case key of Some (Key k) \<Rightarrow> [k] | _ \<Rightarrow> [])
      | _ \<Rightarrow> concat (map rule_keys members))"

lemma normalize_wf: "normalize_quorum_rule r = Inr r' \<Longrightarrow> wf_rule r'"
proof (induction r arbitrary: r' rule: C2spTlogQuorumRule.induct)
  case (QuorumRule kind key threshold members)
  show ?case
  proof (cases kind)
    case KThreshold
    with QuorumRule.prems obtain ms where ms: "mapR normalize_quorum_rule members = Inr ms"
      "r' = QuorumRule KThreshold None threshold ms" "1 \<le> threshold" "threshold \<le> int (length members)"
      by (auto simp: res_simps split: if_splits)
    moreover have "wf_rule m" if "m \<in> set ms" for m
      using mapR_in_set [OF ms(1) that] QuorumRule.IH by blast
    ultimately show ?thesis by (auto dest: mapR_length)
  qed (use QuorumRule.prems in \<open>auto simp: res_simps split: option.splits\<close>)
qed

lemma collect_wf: "wf_rule r \<Longrightarrow> collect_witness_keys r = Inr (rule_keys r)"
proof (induction r rule: C2spTlogQuorumRule.induct)
  case (QuorumRule kind key threshold members)
  show ?case
  proof (cases kind)
    case KThreshold
    with QuorumRule have "mapR collect_witness_keys members = Inr (map rule_keys members)"
      by (intro mapR_all_ok) auto
    with KThreshold show ?thesis by simp
  qed (use QuorumRule.prems in \<open>auto split: option.splits keyref.splits\<close>)
qed

lemma quorum_met_mono: "(\<And>k. ok k \<Longrightarrow> ok' k) \<Longrightarrow> quorum_met ok r \<Longrightarrow> quorum_met ok' r"
proof (induction r rule: C2spTlogQuorumRule.induct)
  case (QuorumRule kind key threshold members)
  have "length (filter (quorum_met ok) members) \<le> length (filter (quorum_met ok') members)"
    using QuorumRule.IH QuorumRule.prems(1) by (induction members) (auto simp: le_SucI)
  then show ?case
    using QuorumRule.prems by (auto split: rule_kind.splits option.splits keyref.splits)
qed

section \<open>The evaluator\<close>


lemma mset_take_subseteq: "mset (take n xs) \<subseteq># mset xs"
  by (metis append_take_drop_id mset_append mset_subset_eq_add_left)

lemma mset_sub_distinct:
  assumes "mset xs \<subseteq># mset ys" "distinct ys"
  shows "distinct xs"
proof -
  obtain R where "mset ys = mset (xs @ R)"
    using assms(1) by (metis mset_append ex_mset subset_mset.le_iff_add)
  then have "distinct (xs @ R)" using assms(2) mset_eq_imp_distinct_iff by blast
  then show ?thesis by simp
qed

lemma mset_concat_subset:
  assumes "mset T \<subseteq># mset xs" "\<And>m. m \<in> set T \<Longrightarrow> mset (f m) \<subseteq># mset (h m)"
  shows "mset (concat (map f T)) \<subseteq># mset (concat (map h xs))"
proof -
  obtain R where "mset xs = mset (T @ R)"
    using assms(1) by (metis mset_append ex_mset subset_mset.le_iff_add)
  then have "mset (concat (map h xs)) = mset (concat (map h (T @ R)))"
    by (metis mset_concat mset_map sum_mset_sum_list)
  moreover have "mset (concat (map f T)) \<subseteq># mset (concat (map h T))"
    using assms(2) by (induction T) (auto intro: subset_mset.add_mono)
  ultimately show ?thesis by (simp add: subset_mset.order_trans)
qed

text \<open>The witnesses whose cosignature the clock admits.\<close>

definition timely :: "(SignedNoteKey \<Rightarrow> int option) \<Rightarrow> rat \<Rightarrow> int \<Rightarrow> SignedNoteKey \<Rightarrow> bool" where
  "timely cosig now_ms skew k =
     (case cosig k of None \<Rightarrow> False | Some t \<Rightarrow> of_int (t * 1000) \<le> now_ms + of_int skew)"

lemma evaluate_decides:
  "wf_rule r \<Longrightarrow> \<exists>x. evaluate_quorum cosig r now_ms skew = Inr x
     \<and> (x \<noteq> None \<longleftrightarrow> quorum_met (timely cosig now_ms skew) r)"
proof (induction r rule: C2spTlogQuorumRule.induct)
  case (QuorumRule kind key threshold members)
  show ?case
  proof (cases kind)
    case KThreshold
    let ?ev = "\<lambda>m. evaluate_quorum cosig m now_ms skew"
    let ?ok = "quorum_met (timely cosig now_ms skew)"
    from QuorumRule KThreshold obtain g where
      g: "\<And>m. m \<in> set members \<Longrightarrow> ?ev m = Inr (g m) \<and> (g m \<noteq> None \<longleftrightarrow> ?ok m)"
      by simp metis
    then have "mapR ?ev members = Inr (map g members)" by (intro mapR_all_ok) auto
    moreover have "length (List.map_filter id (map g members)) = length (filter (\<lambda>m. g m \<noteq> None) members)"
      by (induction members) (auto simp: map_filter_simps split: option.splits)
    moreover from g have "filter (\<lambda>m. g m \<noteq> None) members = filter ?ok members"
      by (intro filter_cong) auto
    ultimately show ?thesis using KThreshold by (auto simp: Let_def)
  qed (use QuorumRule.prems in \<open>auto simp: timely_def split: option.splits keyref.splits\<close>)
qed

text \<open>
  What the evaluator returns: the timestamps of a selection of distinct witnesses of the rule, all
  timely, that meets the rule by itself.
\<close>

definition selection ::
  "(SignedNoteKey \<Rightarrow> int option) \<Rightarrow> rat \<Rightarrow> int \<Rightarrow> C2spTlogQuorumRule \<Rightarrow> int list \<Rightarrow> SignedNoteKey list \<Rightarrow> bool"
where
  "selection cosig now_ms skew r ts ks \<longleftrightarrow>
     mset ks \<subseteq># mset (rule_keys r) \<and> (\<forall>k \<in> set ks. timely cosig now_ms skew k)
     \<and> ts = map (the \<circ> cosig) ks \<and> quorum_met (\<lambda>k. k \<in> set ks) r"

lemma evaluate_selection:
  "wf_rule r \<Longrightarrow> evaluate_quorum cosig r now_ms skew = Inr (Some ts) \<Longrightarrow>
   \<exists>ks. selection cosig now_ms skew r ts ks"
proof (induction r arbitrary: ts rule: C2spTlogQuorumRule.induct)
  case (QuorumRule kind key threshold members)
  show ?case
  proof (cases kind)
    case KThreshold
    let ?ev = "\<lambda>m. evaluate_quorum cosig m now_ms skew"
    have wf: "1 \<le> threshold" "\<And>m. m \<in> set members \<Longrightarrow> wf_rule m"
      using QuorumRule.prems(1) KThreshold by auto
    have "\<forall>m \<in> set members. \<exists>x. ?ev m = Inr x"
      using wf(2) evaluate_decides [of _ cosig now_ms skew] by blast
    then obtain g where g: "\<And>m. m \<in> set members \<Longrightarrow> ?ev m = Inr (g m)"
      by (metis bchoice)
    then have ev: "mapR ?ev members = Inr (map g members)" by (intro mapR_all_ok) auto
    define S where "S = filter (\<lambda>m. g m \<noteq> None) members"
    have sat: "List.map_filter id (map g members) = map (the \<circ> g) S"
      unfolding S_def by (induction members) (auto simp: map_filter_simps)
    define T where "T = take (nat threshold) (sort_key (latest_first \<circ> (the \<circ> g)) S)"
    have ts: "ts = concat (map (the \<circ> g) T)" and len: "threshold \<le> int (length S)"
      using QuorumRule.prems(2) KThreshold
      by (auto simp: ev sat T_def sort_key_map take_map Let_def split: if_splits)
    have T: "mset T \<subseteq># mset S"
      using mset_take_subseteq [of "nat threshold" "sort_key (latest_first \<circ> (the \<circ> g)) S"]
      by (simp add: T_def)
    have S: "mset S \<subseteq># mset members" by (simp add: S_def)
    have setT: "m \<in> set members \<and> ?ev m = Inr (Some (the (g m)))" if "m \<in> set T" for m
      using that set_mset_mono [OF T] g by (auto simp: S_def)
    with QuorumRule.IH wf(2) have "\<forall>m \<in> set T. \<exists>ks. selection cosig now_ms skew m (the (g m)) ks"
      by blast
    then obtain f where f: "\<And>m. m \<in> set T \<Longrightarrow> selection cosig now_ms skew m (the (g m)) (f m)"
      by (metis bchoice)
    let ?ks = "concat (map f T)"
    have "mset ?ks \<subseteq># mset (concat (map rule_keys members))"
      using f subset_mset.order_trans [OF T S] by (intro mset_concat_subset) (auto simp: selection_def)
    moreover have "\<forall>k \<in> set ?ks. timely cosig now_ms skew k"
      using f by (auto simp: selection_def)
    moreover have "ts = map (the \<circ> cosig) ?ks"
      unfolding ts using f by (induction T) (auto simp: selection_def)
    moreover have "quorum_met (\<lambda>k. k \<in> set ?ks) (QuorumRule kind key threshold members)"
    proof -
      have "quorum_met (\<lambda>k. k \<in> set ?ks) m" if "m \<in> set T" for m
        by (rule quorum_met_mono [of "\<lambda>k. k \<in> set (f m)"]) (use f [OF that] that in \<open>auto simp: selection_def\<close>)
      then have "mset T \<subseteq># filter_mset (quorum_met (\<lambda>k. k \<in> set ?ks)) (mset members)"
        using subset_mset.order_trans [OF T S] multiset_filter_mono [OF subset_mset.order_trans [OF T S]]
        by (metis (no_types, lifting) filter_mset_cong filter_mset_True set_mset_mset)
      then have "length T \<le> length (filter (quorum_met (\<lambda>k. k \<in> set ?ks)) members)"
        by (metis mset_filter size_mset size_mset_mono)
      moreover have "int (length T) = threshold" using len wf(1) by (simp add: T_def)
      ultimately show ?thesis using KThreshold by simp
    qed
    ultimately show ?thesis using KThreshold by (intro exI [of _ ?ks]) (simp add: selection_def)
  next
    case KWitness
    with QuorumRule.prems obtain k t where "key = Some (Key k)" "cosig k = Some t" "ts = [t]"
      "of_int (t * 1000) \<le> now_ms + of_int skew"
      by (auto split: option.splits keyref.splits if_splits)
    with KWitness show ?thesis
      by (intro exI [of _ "[k]"]) (simp add: selection_def timely_def)
  qed (use QuorumRule.prems in \<open>auto simp: selection_def intro: exI [of _ "[]"]\<close>)
qed

section \<open>Enforcement\<close>

lemma key_identity_eq:
  "key_identity a = key_identity b \<longleftrightarrow> sk_kind a = sk_kind b \<and> sk_key_bytes a = sk_key_bytes b"
proof
  assume "key_identity a = key_identity b"
  then have "rev (key_identity a) = rev (key_identity b)" by simp
  then have "rev (hex_encode (sk_key_bytes a)) @ 0 # rev (sk_kind a) =
      rev (hex_encode (sk_key_bytes b)) @ 0 # rev (sk_kind b)"
    by (simp add: key_identity_def)
  moreover have "0 \<notin> set (rev (hex_encode bs))" for bs
    using hex_encode_chars [of 0 bs] by (auto simp: is_hex_def is_digit_def)
  ultimately have "rev (hex_encode (sk_key_bytes a)) = rev (hex_encode (sk_key_bytes b))
      \<and> rev (sk_kind a) = rev (sk_kind b)"
    by (intro split_first)
  then show "sk_kind a = sk_kind b \<and> sk_key_bytes a = sk_key_bytes b" by simp
qed (simp add: key_identity_def)

lemma normalized_policy_sound:
  assumes "normalized_origin_policy policy origin = Inr p"
  shows "wf_rule (np_quorum_rule p)" "np_witness_keys p = rule_keys (np_quorum_rule p)"
    "np_log_keys p \<noteq> []" "\<And>k. k \<in> set (np_log_keys p) \<Longrightarrow> sk_name k = origin \<and> \<not> bad_log_type k"
    "distinct (map key_identity (np_log_keys p @ np_witness_keys p))"
    "\<And>k. k \<in> set (np_witness_keys p) \<Longrightarrow> sk_signature_type k = Some [4]"
proof -
  from assms obtain r0 where n: "normalize_quorum_rule r0 = Inr (np_quorum_rule p)"
    and c: "collect_witness_keys (np_quorum_rule p) = Inr (np_witness_keys p)"
    by (auto simp: normalized_origin_policy_def Let_def res_simps split: option.splits)
  from normalize_wf [OF n] show wf: "wf_rule (np_quorum_rule p)" .
  with c show "np_witness_keys p = rule_keys (np_quorum_rule p)" by (simp add: collect_wf)
  from assms obtain ws q where "check_keys origin (np_log_keys p) ws q = Inr ()"
    and "check_rule_keys (np_log_keys p) (np_witness_keys p) = Inr ()"
    by (auto simp: normalized_origin_policy_def Let_def res_simps split: option.splits)
  then have *: "np_log_keys p \<noteq> []" "\<forall>k \<in> set (np_log_keys p). sk_name k = origin"
    "\<forall>k \<in> set (np_log_keys p). \<not> bad_log_type k" "distinct (map key_identity (np_log_keys p))"
    "distinct (map key_identity (np_witness_keys p))"
    "\<forall>k \<in> set (np_witness_keys p). key_identity k \<notin> set (map key_identity (np_log_keys p))"
    "\<forall>k \<in> set (np_witness_keys p). sk_signature_type k = Some [4]"
    by (simp_all add: check_keys_def check_rule_keys_def assert_distinct_underlying_keys_def res_simps)
  then show "np_log_keys p \<noteq> []" "\<And>k. k \<in> set (np_log_keys p) \<Longrightarrow> sk_name k = origin \<and> \<not> bad_log_type k"
    "\<And>k. k \<in> set (np_witness_keys p) \<Longrightarrow> sk_signature_type k = Some [4]" by simp_all
  have "False" if "x \<in> key_identity ` set (np_log_keys p)" "x \<in> key_identity ` set (np_witness_keys p)" for x
    using that(2)
  proof
    fix k assume "x = key_identity k" "k \<in> set (np_witness_keys p)"
    with that(1) *(6) show False by simp
  qed
  then have "set (map key_identity (np_log_keys p)) \<inter> set (map key_identity (np_witness_keys p)) = {}"
    unfolding set_map by blast
  with *(4,5) show "distinct (map key_identity (np_log_keys p @ np_witness_keys p))"
    by simp
qed

lemma enforce_unfold:
  assumes "enforce_checkpoint_policy ed_verify c origin policy scope now_ms skew = Inr res"
  obtains p ts where "normalized_origin_policy policy origin = Inr p" "ck_origin c = origin"
    "\<exists>k \<in> set (np_log_keys p). verify_checkpoint_signature ed_verify c k
       \<and> (scope = str ''public'' \<longrightarrow> sk_signature_type k = Some [1])"
    "scope = str ''public'' \<longrightarrow> q_kind (np_quorum_rule p) \<noteq> KNone"
    "evaluate_quorum (verified_cosignature_timestamp ed_verify c) (np_quorum_rule p) now_ms skew = Inr (Some ts)"
    "pr_accepted_witness_timestamps res = ts"
    "pr_checkpoint_witness_time res = (if ts = [] then None else Some (Min (set ts) * 1000000))"
proof -
  from assms obtain p x where *: "normalized_origin_policy policy origin = Inr p" "ck_origin c = origin"
    "\<exists>k \<in> set (if scope = str ''public'' then filter (\<lambda>k. sk_signature_type k = Some [1]) (np_log_keys p)
          else np_log_keys p). verify_checkpoint_signature ed_verify c k"
    "\<not> (scope = str ''public'' \<and> q_kind (np_quorum_rule p) = KNone)"
    "evaluate_quorum (verified_cosignature_timestamp ed_verify c) (np_quorum_rule p) now_ms skew = Inr x"
    "(case x of
          None \<Rightarrow> verif_err
            ''checkpoint witness quorum not satisfied by valid timestamped cosignatures''
        | Some accepted \<Rightarrow>
            if accepted = []
            then Inr \<lparr>pr_accepted_witness_timestamps = accepted,
                      pr_checkpoint_witness_time = None\<rparr>
            else rbind (fromtimestamp (Min (set accepted))) (\<lambda>t.
                   Inr \<lparr>pr_accepted_witness_timestamps = accepted,
                        pr_checkpoint_witness_time = Some t\<rparr>)) = Inr res"
    unfolding enforce_checkpoint_policy_def Let_def rbind_Inr_iff guard_Inr_iff by blast
  from *(6) obtain ts where "x = Some ts" "pr_accepted_witness_timestamps res = ts"
    "pr_checkpoint_witness_time res = (if ts = [] then None else Some (Min (set ts) * 1000000))"
    by (auto simp: fromtimestamp_def rbind_Inr_iff split: option.splits if_splits)
  with * that show ?thesis by (auto split: if_splits)
qed

lemma enforce_selection:
  assumes "enforce_checkpoint_policy ed_verify c origin policy scope now_ms skew = Inr res"
    and "normalized_origin_policy policy origin = Inr p"
  shows "\<exists>ks. selection (verified_cosignature_timestamp ed_verify c) now_ms skew (np_quorum_rule p)
    (pr_accepted_witness_timestamps res) ks \<and> distinct (map sk_key_bytes ks) \<and> set ks \<subseteq> set (np_witness_keys p)"
proof -
  from enforce_unfold [OF assms(1)] assms(2)
  have "evaluate_quorum (verified_cosignature_timestamp ed_verify c) (np_quorum_rule p) now_ms skew
      = Inr (Some (pr_accepted_witness_timestamps res))"
    by (metis Inr_inject)
  from evaluate_selection [OF normalized_policy_sound(1) [OF assms(2)] this] obtain ks where
    ks: "selection (verified_cosignature_timestamp ed_verify c) now_ms skew (np_quorum_rule p)
      (pr_accepted_witness_timestamps res) ks" by blast
  then have sub: "mset ks \<subseteq># mset (np_witness_keys p)"
    by (simp add: selection_def normalized_policy_sound(2) [OF assms(2)])
  have "distinct (map key_identity (np_witness_keys p))"
    using normalized_policy_sound(5) [OF assms(2)] by simp
  then have ident: "distinct (map key_identity ks)"
    using image_mset_subseteq_mono [OF sub, of key_identity] mset_sub_distinct
    by (metis mset_map)
  have ed: "sk_kind k = str ''ed25519''" if "k \<in> set ks" for k
    using ks that cosignature_verified_kind by (auto simp: selection_def timely_def split: option.splits)
  have "inj_on sk_key_bytes (set ks)"
    using ident ed by (auto simp: inj_on_def distinct_map key_identity_eq)
  moreover from ident have "distinct ks" by (simp add: distinct_map)
  ultimately show ?thesis
    using ks set_mset_mono [OF sub] by (auto simp: distinct_map)
qed

section \<open>Properties\<close>

text \<open>A sample: one log key, two witnesses, one of which has cosigned at time 0.\<close>

definition sample_key :: "pystr \<Rightarrow> byte \<Rightarrow> byte \<Rightarrow> SignedNoteKey" where
  "sample_key name b t =
     \<lparr>sk_name = name, sk_key_bytes = replicate 32 b, sk_kind = str ''ed25519'', sk_key_id = None,
      sk_signature_type = Some [t]\<rparr>"

definition sample_policy :: C2spTlogPolicy where
  "sample_policy =
     \<lparr>pol_origins = [(str ''log'',
        \<lparr>op_log_keys = [Key (sample_key (str ''log'') 1 1)],
         op_witness_keys = [Key (sample_key (str ''w1'') 2 4), Key (sample_key (str ''w2'') 3 4)],
         op_quorum = Some 1, op_quorum_rule = None, op_unchained = False\<rparr>)],
      pol_scope = None\<rparr>"

definition sample_checkpoint :: Checkpoint where
  "sample_checkpoint =
     \<lparr>ck_origin = str ''log'', ck_tree_size = 1, ck_root_hash = replicate 32 7,
      ck_signatures =
        [\<lparr>ns_name = str ''log'', ns_signature = replicate 64 0, ns_key_hash = None, ns_raw = []\<rparr>,
         \<lparr>ns_name = str ''w2'', ns_signature = replicate 72 0, ns_key_hash = None, ns_raw = []\<rparr>],
      ck_signed_text = str ''log''\<rparr>"

definition sample_rule :: C2spTlogQuorumRule where
  "sample_rule =
     QuorumRule KThreshold None 1
       [QuorumRule KWitness (Some (Key (sample_key (str ''w1'') 2 4))) 0 [],
        QuorumRule KWitness (Some (Key (sample_key (str ''w2'') 3 4))) 0 []]"

lemma sample_normalized:
  "normalized_origin_policy sample_policy (str ''log'') =
     Inr \<lparr>np_log_keys = [sample_key (str ''log'') 1 1],
          np_witness_keys = [sample_key (str ''w1'') 2 4, sample_key (str ''w2'') 3 4],
          np_quorum = 1, np_quorum_rule = sample_rule, np_unchained = False\<rparr>"
  by (simp add: normalized_origin_policy_def sample_policy_def as_key_def check_keys_def check_rule_keys_def
      flat_quorum_rule_def sample_rule_def top_level_threshold_def assert_distinct_underlying_keys_def
      key_identity_eq bad_log_type_def sample_key_def)

lemma sample_cosignatures:
  "verified_cosignature_timestamp (\<lambda>_ _ _. True) sample_checkpoint (sample_key (str ''w1'') 2 4) = None"
  "verified_cosignature_timestamp (\<lambda>_ _ _. True) sample_checkpoint (sample_key (str ''w2'') 3 4) = Some 0"
proof -
  have "from_bytes_be (replicate 8 0) = 0" by (simp add: from_bytes_be_def eval_nat_numeral)
  then show "verified_cosignature_timestamp (\<lambda>_ _ _. True) sample_checkpoint (sample_key (str ''w1'') 2 4) = None"
    "verified_cosignature_timestamp (\<lambda>_ _ _. True) sample_checkpoint (sample_key (str ''w2'') 3 4) = Some 0"
    by (simp_all add: verified_cosignature_timestamp_def sample_checkpoint_def sample_key_def
      key_id_matches_def verify_note_signature_def verify_text_def cosignature_message_def
      MAX_COSIG_TIMESTAMP_def dec_of_int_def utf8_char_def)
qed

lemma sample_enforced:
  "enforce_checkpoint_policy (\<lambda>_ _ _. True) sample_checkpoint (str ''log'') sample_policy
     (str ''testnet'') 0 0 = Inr \<lparr>pr_accepted_witness_timestamps = [0], pr_checkpoint_witness_time = Some 0\<rparr>"
proof -
  have "verify_checkpoint_signature (\<lambda>_ _ _. True) sample_checkpoint (sample_key (str ''log'') 1 1)"
    by (simp add: verify_checkpoint_signature_def sample_checkpoint_def sample_key_def
        key_id_matches_def verify_note_signature_def verify_text_def utf8_char_def)
  moreover have "evaluate_quorum (verified_cosignature_timestamp (\<lambda>_ _ _. True) sample_checkpoint)
      sample_rule 0 0 = Inr (Some [0])"
    by (simp add: sample_rule_def sample_cosignatures [simplified] map_filter_simps)
  moreover have "pol_scope sample_policy = None" "ck_origin sample_checkpoint = str ''log''"
    "ck_tree_size sample_checkpoint = 1"
    by (simp_all add: sample_policy_def sample_checkpoint_def)
  ultimately show ?thesis
    by (simp add: enforce_checkpoint_policy_def sample_normalized [simplified] fromtimestamp_def)
qed

text \<open>
  C13: what an accepted checkpoint proves. It carries a verified signature of a log key named after
  the origin, and the accepted timestamps are those of witnesses of the policy with pairwise distinct
  public keys, each with a verified cosignature not later than the clock allows, and these witnesses
  alone already meet the quorum rule. In the public scope the rule is not the empty one and the
  log key has signature type 0x01.
\<close>

theorem checkpoint_policy_sound:
  assumes "enforce_checkpoint_policy ed_verify c origin policy scope now_ms skew = Inr res"
  shows "\<exists>p k ks. normalized_origin_policy policy origin = Inr p \<and> ck_origin c = origin
    \<and> k \<in> set (np_log_keys p) \<and> sk_name k = origin \<and> verify_checkpoint_signature ed_verify c k
    \<and> (scope = str ''public'' \<longrightarrow> sk_signature_type k = Some [1] \<and> q_kind (np_quorum_rule p) \<noteq> KNone)
    \<and> set ks \<subseteq> set (np_witness_keys p) \<and> distinct (map sk_key_bytes ks)
    \<and> (\<forall>w \<in> set ks. timely (verified_cosignature_timestamp ed_verify c) now_ms skew w)
    \<and> pr_accepted_witness_timestamps res = map (the \<circ> verified_cosignature_timestamp ed_verify c) ks
    \<and> quorum_met (\<lambda>w. w \<in> set ks) (np_quorum_rule p)"
proof -
  from enforce_unfold [OF assms] obtain p k where p: "normalized_origin_policy policy origin = Inr p"
    "ck_origin c = origin" "k \<in> set (np_log_keys p)" "verify_checkpoint_signature ed_verify c k"
    "scope = str ''public'' \<longrightarrow> sk_signature_type k = Some [1] \<and> q_kind (np_quorum_rule p) \<noteq> KNone"
    by metis
  with enforce_selection [OF assms p(1)] normalized_policy_sound(4) [OF p(1)] show ?thesis
    unfolding selection_def by blast
qed

theorem checkpoint_policy_sound_witness:
  "\<exists>p k ks. normalized_origin_policy sample_policy (str ''log'') = Inr p
    \<and> ck_origin sample_checkpoint = str ''log'' \<and> k \<in> set (np_log_keys p) \<and> sk_name k = str ''log''
    \<and> verify_checkpoint_signature (\<lambda>_ _ _. True) sample_checkpoint k
    \<and> (str ''testnet'' = str ''public'' \<longrightarrow> sk_signature_type k = Some [1] \<and> q_kind (np_quorum_rule p) \<noteq> KNone)
    \<and> set ks \<subseteq> set (np_witness_keys p) \<and> distinct (map sk_key_bytes ks)
    \<and> (\<forall>w \<in> set ks. timely (verified_cosignature_timestamp (\<lambda>_ _ _. True) sample_checkpoint) 0 0 w)
    \<and> pr_accepted_witness_timestamps \<lparr>pr_accepted_witness_timestamps = [0], pr_checkpoint_witness_time = Some 0\<rparr>
        = map (the \<circ> verified_cosignature_timestamp (\<lambda>_ _ _. True) sample_checkpoint) ks
    \<and> quorum_met (\<lambda>w. w \<in> set ks) (np_quorum_rule p)"
  by (rule checkpoint_policy_sound [OF sample_enforced])

text \<open>
  C21: the evaluator decides the quorum rule. For a policy that normalises, evaluation does not
  raise, and it returns timestamps exactly when the witnesses with a timely cosignature meet the
  rule read as a nested threshold formula.
\<close>

theorem quorum_evaluation_decides:
  assumes "normalized_origin_policy policy origin = Inr p"
  shows "\<exists>x. evaluate_quorum cosig (np_quorum_rule p) now_ms skew = Inr x
    \<and> (x \<noteq> None \<longleftrightarrow> quorum_met (timely cosig now_ms skew) (np_quorum_rule p))"
  by (rule evaluate_decides [OF normalized_policy_sound(1) [OF assms]])

theorem quorum_evaluation_decides_witness:
  "\<exists>x. evaluate_quorum (\<lambda>_. Some 5) sample_rule 0 0 = Inr x
    \<and> (x \<noteq> None \<longleftrightarrow> quorum_met (timely (\<lambda>_. Some 5) 0 0) sample_rule)"
  using quorum_evaluation_decides [OF sample_normalized, of "\<lambda>_. Some 5" 0 0] by simp

text \<open>
  A plain \<open>q\<close>-of-\<open>n\<close> policy means \<open>q\<close> different signers. When a policy without a nested rule is
  enforced, at least \<open>q\<close> distinct public keys among the configured witnesses have a verified
  cosignature on this checkpoint that the clock admits.
\<close>

theorem flat_quorum_distinct_signers:
  assumes "map_of (pol_origins policy) origin = Some P" "op_quorum_rule P = None" "op_quorum P = Some q"
    and "mapR as_key (op_witness_keys P) = Inr ws"
    and "enforce_checkpoint_policy ed_verify c origin policy scope now_ms skew = Inr res"
  shows "q \<le> int (card (sk_key_bytes `
    {w \<in> set ws. timely (verified_cosignature_timestamp ed_verify c) now_ms skew w}))"
proof -
  from enforce_unfold [OF assms(5)] obtain p where p: "normalized_origin_policy policy origin = Inr p" by metis
  from enforce_selection [OF assms(5) p] obtain ks where
    ks: "\<forall>w \<in> set ks. timely (verified_cosignature_timestamp ed_verify c) now_ms skew w"
      "quorum_met (\<lambda>w. w \<in> set ks) (np_quorum_rule p)" "distinct (map sk_key_bytes ks)"
    by (auto simp: selection_def)
  from p assms(1-4) have q: "0 \<le> q" "normalize_quorum_rule (flat_quorum_rule ws q) = Inr (np_quorum_rule p)"
    "distinct (map key_identity ws)"
    by (auto simp: normalized_origin_policy_def check_keys_def assert_distinct_underlying_keys_def
        rbind_Inr_iff guard_Inr_iff Let_def)
  show ?thesis
  proof (cases "q = 0")
    case False
    let ?f = "\<lambda>k. QuorumRule KWitness (Some (Key k)) 0 []"
    have "mapR normalize_quorum_rule (map ?f ws) = Inr (map ?f ws)"
      by (induction ws) (auto simp: as_key_def)
    with False q(2) have "np_quorum_rule p = QuorumRule KThreshold None q (map ?f ws)"
      by (auto simp: flat_quorum_rule_def split: if_splits)
    with ks(2) have "q \<le> int (length (filter (\<lambda>w. w \<in> set ks) ws))"
      by (simp add: filter_map comp_def)
    also have "length (filter (\<lambda>w. w \<in> set ks) ws) = card (set (filter (\<lambda>w. w \<in> set ks) ws))"
      using q(3) by (intro distinct_card [symmetric] distinct_filter) (simp add: distinct_map)
    also have "\<dots> = card (sk_key_bytes ` set (filter (\<lambda>w. w \<in> set ks) ws))"
      using ks(3) by (intro card_image [symmetric]) (auto simp: distinct_map intro: inj_on_subset)
    also have "\<dots> \<le> card (sk_key_bytes `
        {w \<in> set ws. timely (verified_cosignature_timestamp ed_verify c) now_ms skew w})"
      using ks(1) by (intro card_mono) auto
    finally show ?thesis by simp
  qed simp
qed

theorem flat_quorum_distinct_signers_witness:
  "1 \<le> int (card (sk_key_bytes `
    {w \<in> set [sample_key (str ''w1'') 2 4, sample_key (str ''w2'') 3 4].
       timely (verified_cosignature_timestamp (\<lambda>_ _ _. True) sample_checkpoint) 0 0 w}))"
  by (rule flat_quorum_distinct_signers [OF _ _ _ _ sample_enforced,
        of "snd (hd (pol_origins sample_policy))"])
    (simp_all add: sample_policy_def as_key_def)

end
