(* ===== verification/Merkle.thy ===== *)
theory Merkle
  imports Sha256 Dnsid_Errors
begin

text \<open>
  \<^verbatim>\<open>dnsid/c2sp_tlog/merkle.py\<close>: RFC 6962 hashing, inclusion proofs, consistency proofs and the
  root of a complete entry list, and \<^verbatim>\<open>_inclusion_proof\<close> of \<^verbatim>\<open>stream_source.py\<close>. The reference
  definition is \<open>mth\<close>, the Merkle tree hash of RFC 6962 section 2.1, by recursion on the split at
  the largest power of two below the size. The lemmas relate the loops of the code to it:
  \<^item> the level-by-level root is \<open>mth\<close>;
  \<^item> the proof the code constructs verifies, and a proof that verifies shows membership;
  \<^item> a consistency proof that verifies shows that the old root is \<open>mth\<close> of a prefix.
\<close>

section \<open>The code\<close>

definition leaf_hash :: "bytes \<Rightarrow> bytes" where
  "leaf_hash entry_bytes = sha256 [[0], entry_bytes]"

definition node_hash :: "bytes \<Rightarrow> bytes \<Rightarrow> bytes" where
  "node_hash left right = sha256 [[1], left, right]"

fun inclusion_loop :: "bytes \<Rightarrow> nat \<Rightarrow> nat \<Rightarrow> bytes list \<Rightarrow> bytes" where
  "inclusion_loop hash i n [] = hash"
| "inclusion_loop hash i n (sibling # proof) =
     inclusion_loop
       (if i mod 2 = 1 then node_hash sibling hash
        else if i < n - 1 then node_hash hash sibling
        else node_hash sibling hash)
       (i div 2) ((n + 1) div 2) proof"

definition inclusion_root :: "bytes \<Rightarrow> int \<Rightarrow> int \<Rightarrow> bytes list \<Rightarrow> bytes res" where
  "inclusion_root leaf index tree_size proof =
     (if index < 0 \<or> tree_size \<le> index
      then Inl (ValueError ''invalid inclusion index or tree size'')
      else Inr (inclusion_loop leaf (nat index) (nat tree_size) proof))"

definition verify_inclusion :: "bytes \<Rightarrow> int \<Rightarrow> int \<Rightarrow> bytes \<Rightarrow> bytes list \<Rightarrow> bool res" where
  "verify_inclusion entry_bytes index tree_size root_hash proof =
     rbind (inclusion_root (leaf_hash entry_bytes) index tree_size proof)
       (\<lambda>r. Inr (r = root_hash))"

text \<open>
  \<^verbatim>\<open>verify_consistency\<close>. \<open>strip_ones\<close> is the first \<^verbatim>\<open>while\<close> loop, \<open>skip_zeros\<close> the loop
  nested in the \<^verbatim>\<open>for\<close> loop, which is \<open>consistency_loop\<close>; it returns \<open>None\<close> where the code
  returns \<^verbatim>\<open>False\<close> from inside the loop.
\<close>

function strip_ones :: "nat \<Rightarrow> nat \<Rightarrow> nat \<times> nat" where
  "strip_ones old_index new_index =
     (if odd old_index then strip_ones (old_index div 2) (new_index div 2)
      else (old_index, new_index))"
  by pat_completeness auto
termination
  by (relation "measure fst") (auto elim: oddE)

fun skip_zeros :: "nat \<Rightarrow> nat \<Rightarrow> nat \<times> nat" where
  "skip_zeros old_index new_index =
     (if old_index \<noteq> 0 \<and> even old_index then skip_zeros (old_index div 2) (new_index div 2)
      else (old_index, new_index))"

declare strip_ones.simps [simp del] skip_zeros.simps [simp del]

fun consistency_loop ::
  "nat \<Rightarrow> nat \<Rightarrow> bytes \<Rightarrow> bytes \<Rightarrow> bytes list \<Rightarrow> (nat \<times> bytes \<times> bytes) option" where
  "consistency_loop old_index new_index old_hash new_hash [] = Some (new_index, old_hash, new_hash)"
| "consistency_loop old_index new_index old_hash new_hash (node # nodes) =
     (if new_index = 0 then None
      else if odd old_index \<or> old_index = new_index then
        (let (o', n') = skip_zeros old_index new_index
         in consistency_loop (o' div 2) (n' div 2) (node_hash node old_hash)
              (node_hash node new_hash) nodes)
      else consistency_loop (old_index div 2) (new_index div 2) old_hash
             (node_hash new_hash node) nodes)"

text \<open>\<^verbatim>\<open>old_size & (old_size - 1) == 0\<close>\<close>

definition is_pow2 :: "nat \<Rightarrow> bool" where
  "is_pow2 n \<longleftrightarrow> and n (n - 1) = 0"

definition verify_consistency :: "int \<Rightarrow> int \<Rightarrow> bytes \<Rightarrow> bytes \<Rightarrow> bytes list \<Rightarrow> bool" where
  "verify_consistency old_size new_size old_root new_root proof =
     (if old_size < 0 \<or> old_size > new_size \<or> length old_root \<noteq> 32 \<or> length new_root \<noteq> 32
         \<or> (\<exists>node \<in> set proof. length node \<noteq> 32) then False
      else if old_size = 0 then
        proof = [] \<and> old_root = sha256 [] \<and> (new_size > 0 \<or> new_root = old_root)
      else if old_size = new_size then proof = [] \<and> old_root = new_root
      else
        (let (old_index, new_index) = strip_ones (nat old_size - 1) (nat new_size - 1) in
         if \<not> is_pow2 (nat old_size) \<and> proof = [] then False
         else
           (let start = (if is_pow2 (nat old_size) then old_root else hd proof);
                rest = (if is_pow2 (nat old_size) then proof else tl proof)
            in (case consistency_loop old_index new_index start start rest of
                  None \<Rightarrow> False
                | Some (n', old_hash, new_hash) \<Rightarrow>
                    n' = 0 \<and> old_hash = old_root \<and> new_hash = new_root))))"

text \<open>One pass of the \<^verbatim>\<open>while len(level) > 1\<close> loop, and the loop.\<close>

fun next_level :: "bytes list \<Rightarrow> bytes list" where
  "next_level (a # b # rest) = node_hash a b # next_level rest"
| "next_level rest = rest"

lemma length_next_level [simp]: "length (next_level xs) = (length xs + 1) div 2"
  by (induction xs rule: next_level.induct) auto

function merkle_levels :: "bytes list \<Rightarrow> bytes" where
  "merkle_levels level =
     (if length level > 1 then merkle_levels (next_level level) else hd level)"
  by pat_completeness auto
termination
  by (relation "measure length") auto

declare merkle_levels.simps [simp del]

definition merkle_root_from_entries :: "bytes list \<Rightarrow> bytes" where
  "merkle_root_from_entries entries =
     (if entries = [] then sha256 [] else merkle_levels (map leaf_hash entries))"

text \<open>\<^verbatim>\<open>_inclusion_proof\<close> of \<^verbatim>\<open>stream_source.py\<close>: the siblings on the path, level by level.\<close>

function inclusion_proof_loop :: "bytes list \<Rightarrow> nat \<Rightarrow> bytes list" where
  "inclusion_proof_loop level position =
     (if length level > 1 then
        (if position mod 2 = 1 then [level ! (position - 1)]
         else if position + 1 < length level then [level ! (position + 1)] else [])
        @ inclusion_proof_loop (next_level level) (position div 2)
      else [])"
  by pat_completeness auto
termination
  by (relation "measure (\<lambda>(l, p). length l)") auto

declare inclusion_proof_loop.simps [simp del]

definition inclusion_proof :: "bytes list \<Rightarrow> int \<Rightarrow> bytes list res" where
  "inclusion_proof entries index =
     (if index < 0 \<or> index \<ge> int (length entries)
      then verif_err ''C2SP entry index out of range''
      else Inr (inclusion_proof_loop (map leaf_hash entries) (nat index)))"

section \<open>The reference: the Merkle tree hash of RFC 6962\<close>

text \<open>The largest power of two smaller than \<open>n\<close> (for \<open>2 \<le> n\<close>).\<close>

fun split_point :: "nat \<Rightarrow> nat" where
  "split_point n = (if n \<le> 2 then 1 else 2 * split_point ((n + 1) div 2))"

declare split_point.simps [simp del]

lemma split_point_bounds: "2 \<le> n \<Longrightarrow> 1 \<le> split_point n \<and> split_point n < n \<and> n \<le> 2 * split_point n"
proof (induction n rule: split_point.induct)
  case (1 n)
  show ?case
  proof (cases "n \<le> 2")
    case True
    with 1 show ?thesis by (simp add: split_point.simps)
  next
    case False
    with 1 have "1 \<le> split_point ((n + 1) div 2)" "split_point ((n + 1) div 2) < (n + 1) div 2"
      "(n + 1) div 2 \<le> 2 * split_point ((n + 1) div 2)"
      by auto
    with False show ?thesis by (subst (1 2 3) split_point.simps) auto
  qed
qed

lemma split_point_pow2: "\<exists>k. split_point n = 2 ^ k"
proof (induction n rule: split_point.induct)
  case (1 n)
  show ?case
  proof (cases "n \<le> 2")
    case True
    then show ?thesis by (subst split_point.simps) (auto intro: exI [of _ 0])
  next
    case False
    with 1 obtain k where "split_point ((n + 1) div 2) = 2 ^ k" by auto
    with False have "split_point n = 2 ^ Suc k" by (subst split_point.simps) simp
    then show ?thesis ..
  qed
qed

lemma split_point_unique:
  assumes "2 ^ j < n" "n \<le> 2 * 2 ^ j"
  shows "split_point n = 2 ^ j"
proof -
  from assms have "2 \<le> n" using one_le_power [of "2::nat" j] by linarith
  then have b: "split_point n < n" "n \<le> 2 * split_point n" by (auto dest: split_point_bounds)
  obtain k where k: "split_point n = 2 ^ k" using split_point_pow2 by blast
  from b assms k have "(2::nat) ^ k < 2 ^ Suc j" "(2::nat) ^ j < 2 ^ Suc k" by auto
  then have "k < Suc j" "j < Suc k" by (simp_all only: power_strict_increasing_iff [of "2::nat"] )
  with k show ?thesis by (simp add: less_Suc_eq_le antisym)
qed

text \<open>\<open>tree_hash\<close> is the tree over a level of node hashes, \<open>mth\<close> the tree over entries.\<close>

function tree_hash :: "bytes list \<Rightarrow> bytes" where
  "tree_hash hs =
     (if length hs \<le> 1 then hd hs
      else node_hash (tree_hash (take (split_point (length hs)) hs))
                     (tree_hash (drop (split_point (length hs)) hs)))"
  by pat_completeness auto
termination
proof (relation "measure length", goal_cases)
  case (2 hs)
  then show ?case using split_point_bounds [of "length hs"] by simp
next
  case (3 hs)
  then show ?case using split_point_bounds [of "length hs"] by auto
qed simp

declare tree_hash.simps [simp del]

definition mth :: "bytes list \<Rightarrow> bytes" where
  "mth entries = (if entries = [] then sha256 [] else tree_hash (map leaf_hash entries))"

lemma tree_hash_single [simp]: "tree_hash [h] = h"
  by (simp add: tree_hash.simps)

lemma mth_single [simp]: "mth [e] = leaf_hash e"
  by (simp add: mth_def)

lemma mth_Nil [simp]: "mth [] = sha256 []"
  by (simp add: mth_def)

lemma mth_split:
  assumes "2 \<le> length es"
  shows "mth es = node_hash (mth (take (split_point (length es)) es))
                            (mth (drop (split_point (length es)) es))"
proof -
  have "1 \<le> split_point (length es)" "split_point (length es) < length es"
    using split_point_bounds [OF assms] by auto
  moreover from assms have "es \<noteq> []" by auto
  ultimately show ?thesis
    using assms by (simp add: mth_def tree_hash.simps [of "map leaf_hash es"] take_map drop_map)
qed

lemma length_leaf_hash [simp, len_simps]: "length (leaf_hash e) = 32"
  by (simp add: leaf_hash_def)

lemma length_node_hash [simp, len_simps]: "length (node_hash l r) = 32"
  by (simp add: node_hash_def)

lemma length_mth [simp, len_simps]: "length (mth es) = 32"
proof (cases "2 \<le> length es")
  case True
  then show ?thesis by (subst mth_split) auto
next
  case False
  then consider "es = []" | e where "es = [e]"
    by (cases es rule: next_level.cases) auto
  then show ?thesis by cases auto
qed

section \<open>The level-by-level root is the Merkle tree hash\<close>

lemma next_level_append_even:
  "even (length xs) \<Longrightarrow> next_level (xs @ ys) = next_level xs @ next_level ys"
  by (induction xs rule: next_level.induct) auto

lemma next_level_single [simp]: "length xs \<le> 1 \<Longrightarrow> next_level xs = xs"
  by (cases xs rule: next_level.cases) auto

lemma next_level_take_drop:
  assumes "length xs > 2"
  defines "k \<equiv> split_point ((length xs + 1) div 2)"
  shows "next_level (take (2 * k) xs) = take k (next_level xs)"
    and "next_level (drop (2 * k) xs) = drop k (next_level xs)"
proof -
  have "k < (length xs + 1) div 2"
    using split_point_bounds [of "(length xs + 1) div 2"] assms by auto
  then have len: "length (take (2 * k) xs) = 2 * k" by simp
  have "next_level xs = next_level (take (2 * k) xs) @ next_level (drop (2 * k) xs)"
    using next_level_append_even [of "take (2 * k) xs" "drop (2 * k) xs"] len by simp
  moreover have "length (next_level (take (2 * k) xs)) = k" using len by simp
  ultimately show "next_level (take (2 * k) xs) = take k (next_level xs)"
    and "next_level (drop (2 * k) xs) = drop k (next_level xs)"
    by simp_all
qed

lemma tree_hash_next_level: "tree_hash (next_level xs) = tree_hash xs"
proof (induction xs rule: measure_induct_rule [of length])
  case (less xs)
  consider "length xs \<le> 1" | a b where "xs = [a, b]" | "length xs > 2"
    by (cases xs rule: next_level.cases) (auto simp: Suc_le_eq)
  then show ?case
  proof cases
    case 1
    then show ?thesis by simp
  next
    case 2
    then show ?thesis by (simp add: tree_hash.simps [of "[a, b]"] split_point.simps)
  next
    case 3
    define k where "k = split_point ((length xs + 1) div 2)"
    have sp: "split_point (length xs) = 2 * k"
      using 3 by (simp add: k_def split_point.simps [of "length xs"])
    have b: "1 \<le> k" "2 * k < length xs"
      using split_point_bounds [of "length xs"] split_point_bounds [of "(length xs + 1) div 2"] 3 sp
      by (auto simp: k_def)
    have "tree_hash xs = node_hash (tree_hash (take (2 * k) xs)) (tree_hash (drop (2 * k) xs))"
      using 3 by (simp add: tree_hash.simps [of xs] sp)
    also have "\<dots> = node_hash (tree_hash (next_level (take (2 * k) xs)))
                             (tree_hash (next_level (drop (2 * k) xs)))"
      using less.IH b by simp
    also have "\<dots> = node_hash (tree_hash (take k (next_level xs))) (tree_hash (drop k (next_level xs)))"
      using next_level_take_drop [OF 3] by (simp add: k_def)
    also have "\<dots> = tree_hash (next_level xs)"
    proof -
      have "\<not> length (next_level xs) \<le> 1" using 3 by auto
      then show ?thesis by (simp add: tree_hash.simps [of "next_level xs"] k_def)
    qed
    finally show ?thesis by simp
  qed
qed

lemma merkle_levels_tree_hash: "merkle_levels xs = tree_hash xs"
proof (induction xs rule: merkle_levels.induct)
  case (1 xs)
  then show ?case
    by (cases "length xs > 1")
      (simp_all add: merkle_levels.simps [of xs] tree_hash_next_level, simp add: tree_hash.simps)
qed

lemma merkle_root_eq_mth: "merkle_root_from_entries entries = mth entries"
  by (simp add: merkle_root_from_entries_def mth_def merkle_levels_tree_hash)

section \<open>Inclusion proofs\<close>

text \<open>Comparing preimages: the leaf and node prefixes separate the two kinds of hash.\<close>

lemma collides_mono: "collides A \<Longrightarrow> A \<subseteq> B \<Longrightarrow> collides B"
  by (auto simp: collides_def)

lemma collides_pair: "sha_collision x y \<Longrightarrow> x \<in> A \<Longrightarrow> y \<in> A \<Longrightarrow> collides A"
  by (auto simp: collides_def)

lemma leaf_hash_inj: "leaf_hash a = leaf_hash b \<Longrightarrow> a = b \<or> sha_collision (0 # a) (0 # b)"
  using sha256_eq_collision [of "[[0], a]" "[[0], b]"] by (auto simp: leaf_hash_def)

lemma leaf_not_node: "leaf_hash a = node_hash l r \<Longrightarrow> sha_collision (0 # a) (1 # l @ r)"
  using sha256_eq_collision [of "[[0], a]" "[[1], l, r]"] by (auto simp: leaf_hash_def node_hash_def)

lemma leaf_not_empty: "leaf_hash a = sha256 [] \<Longrightarrow> sha_collision (0 # a) []"
  using sha256_eq_collision [of "[[0], a]" "[]"] by (auto simp: leaf_hash_def)

lemma node_not_empty: "node_hash l r = sha256 [] \<Longrightarrow> sha_collision (1 # l @ r) []"
  using sha256_eq_collision [of "[[1], l, r]" "[]"] by (auto simp: node_hash_def)

lemma node_hash_inj:
  assumes "node_hash a b = node_hash c d" and "length a = length c \<or> length b = length d"
  shows "a = c \<and> b = d \<or> sha_collision (1 # a @ b) (1 # c @ d)"
  using sha256_eq_collision [of "[[1], a, b]" "[[1], c, d]"] assms by (auto simp: node_hash_def)

lemma length_inclusion_loop [simp]:
  "length h = 32 \<Longrightarrow> length (inclusion_loop h i n \<pi>) = 32"
  by (induction h i n \<pi> rule: inclusion_loop.induct) auto

text \<open>The strings that the loop hashes, and those that the tree hash of \<open>es\<close> hashes.\<close>

fun path_inputs :: "bytes \<Rightarrow> nat \<Rightarrow> nat \<Rightarrow> bytes list \<Rightarrow> bytes list" where
  "path_inputs h i n [] = []"
| "path_inputs h i n (s # \<pi>) =
     (let (l, r) = (if i mod 2 = 1 then (s, h) else if i < n - 1 then (h, s) else (s, h))
      in (1 # l @ r) # path_inputs (node_hash l r) (i div 2) ((n + 1) div 2) \<pi>)"

definition inclusion_inputs :: "bytes \<Rightarrow> nat \<Rightarrow> nat \<Rightarrow> bytes list \<Rightarrow> bytes list" where
  "inclusion_inputs e i n \<pi> = (0 # e) # path_inputs (leaf_hash e) i n \<pi>"

function tree_inputs :: "bytes list \<Rightarrow> bytes list" where
  "tree_inputs es =
     (case es of [] \<Rightarrow> [[]] | [e] \<Rightarrow> [0 # e]
      | _ \<Rightarrow> (let k = split_point (length es) in
          (1 # mth (take k es) @ mth (drop k es)) # tree_inputs (take k es) @ tree_inputs (drop k es)))"
  by pat_completeness auto
termination
proof (relation "measure length", goal_cases)
  case (2 es a es' b es'' k)
  then show ?case using split_point_bounds [of "length es"] by simp
next
  case (3 es a es' b es'' k)
  then show ?case using split_point_bounds [of "length es"] by auto
qed simp

declare tree_inputs.simps [simp del]

lemma tree_inputs_simps [simp]: "tree_inputs [] = [[]]" "tree_inputs [e] = [0 # e]"
  by (simp_all add: tree_inputs.simps)

lemma tree_inputs_split:
  "2 \<le> length es \<Longrightarrow> tree_inputs es =
     (1 # mth (take (split_point (length es)) es) @ mth (drop (split_point (length es)) es))
     # tree_inputs (take (split_point (length es)) es) @ tree_inputs (drop (split_point (length es)) es)"
  by (subst tree_inputs.simps) (auto simp: Let_def split: list.splits)

lemma inclusion_loop_snoc:
  "\<exists>l r. (l = s \<and> r = inclusion_loop h i n \<pi> \<or> l = inclusion_loop h i n \<pi> \<and> r = s)
     \<and> inclusion_loop h i n (\<pi> @ [s]) = node_hash l r
     \<and> path_inputs h i n (\<pi> @ [s]) = path_inputs h i n \<pi> @ [1 # l @ r]"
proof (induction \<pi> arbitrary: h i n)
  case (Cons x \<pi>)
  let ?h = "if i mod 2 = 1 then node_hash x h else if i < n - 1 then node_hash h x else node_hash x h"
  from Cons [of ?h "i div 2" "(n + 1) div 2"] obtain l r where
    "l = s \<and> r = inclusion_loop ?h (i div 2) ((n + 1) div 2) \<pi> \<or>
     l = inclusion_loop ?h (i div 2) ((n + 1) div 2) \<pi> \<and> r = s"
    "inclusion_loop ?h (i div 2) ((n + 1) div 2) (\<pi> @ [s]) = node_hash l r"
    "path_inputs ?h (i div 2) ((n + 1) div 2) (\<pi> @ [s]) =
       path_inputs ?h (i div 2) ((n + 1) div 2) \<pi> @ [1 # l @ r]"
    by blast
  then show ?case by (intro exI [of _ l] exI [of _ r]) (simp split: if_splits)
qed auto

lemma mth_cases:
  obtains "es = []" | e where "es = [e]" | l r where
    "l \<noteq> []" "r \<noteq> []" "es = l @ r" "mth es = node_hash (mth l) (mth r)"
    "tree_inputs es = (1 # mth l @ mth r) # tree_inputs l @ tree_inputs r"
proof (cases "2 \<le> length es")
  case True
  define k where "k = split_point (length es)"
  have "1 \<le> k" "k < length es" using split_point_bounds [OF True] by (auto simp: k_def)
  then have "take k es \<noteq> []" "drop k es \<noteq> []" "es = take k es @ drop k es" by auto
  then show ?thesis using mth_split [OF True] tree_inputs_split [OF True] unfolding k_def [symmetric]
    by (rule that(3))
next
  case False
  then show ?thesis using that(1,2) by (cases es rule: next_level.cases) auto
qed

text \<open>
  Membership: whatever the claimed index and size, and whatever the proof's length, a path that
  leads from the leaf hash of \<open>e\<close> to the root of \<open>es\<close> ends at a leaf of \<open>es\<close>.
\<close>

lemma inclusion_loop_member:
  "inclusion_loop (leaf_hash e) i n \<pi> = mth es \<Longrightarrow>
   e \<in> set es \<or> collides (set (inclusion_inputs e i n \<pi>) \<union> set (tree_inputs es))"
proof (induction \<pi> arbitrary: es rule: rev_induct)
  case Nil
  show ?case
    by (cases rule: mth_cases [of es])
      (use Nil leaf_hash_inj leaf_not_node leaf_not_empty in
        \<open>fastforce simp: collides_def inclusion_inputs_def\<close>)+
next
  case (snoc s \<pi>)
  let ?r = "inclusion_loop (leaf_hash e) i n \<pi>"
  from inclusion_loop_snoc [of s "leaf_hash e" i n \<pi>] snoc.prems obtain a b where
    ab: "a = s \<and> b = ?r \<or> a = ?r \<and> b = s" "mth es = node_hash a b" and
    "path_inputs (leaf_hash e) i n (\<pi> @ [s]) = path_inputs (leaf_hash e) i n \<pi> @ [1 # a @ b]"
    by metis
  then have inp: "set (inclusion_inputs e i n (\<pi> @ [s])) = insert (1 # a @ b) (set (inclusion_inputs e i n \<pi>))"
    by (auto simp: inclusion_inputs_def)
  show ?case
  proof (cases rule: mth_cases [of es])
    case 1
    with ab inp show ?thesis using node_not_empty [of a b] by (auto simp: collides_def)
  next
    case (2 x)
    with ab inp show ?thesis using leaf_not_node [of x a b] by (auto simp: collides_def)
  next
    case (3 l r)
    from ab(2) 3(4) have eq: "node_hash a b = node_hash (mth l) (mth r)" by simp
    moreover have "length a = length (mth l) \<or> length b = length (mth r)" using ab(1) by auto
    ultimately consider "a = mth l" "b = mth r" | "sha_collision (1 # a @ b) (1 # mth l @ mth r)"
      using node_hash_inj by blast
    then show ?thesis
    proof cases
      case 1
      with ab(1) consider "?r = mth l" | "?r = mth r" by auto
      then show ?thesis
        by cases (use snoc.IH [of l] snoc.IH [of r] 3 inp in \<open>auto simp: collides_def\<close>)
    next
      case 2
      with inp 3 show ?thesis by (auto intro: collides_pair)
    qed
  qed
qed

text \<open>Two paths of one length for one index that meet at the root start at the same leaf.\<close>

lemma inclusion_loop_inj:
  assumes "inclusion_loop h i n \<pi> = inclusion_loop h' i n \<pi>'" "length \<pi> = length \<pi>'"
    "length h = 32" "length h' = 32"
  shows "h = h' \<or> collides (set (path_inputs h i n \<pi>) \<union> set (path_inputs h' i n \<pi>'))"
  using assms
proof (induction \<pi> arbitrary: h h' i n \<pi>')
  case Nil
  then show ?case by simp
next
  case (Cons s \<pi>)
  then obtain s' \<pi>'' where \<pi>': "\<pi>' = s' # \<pi>''" "length \<pi> = length \<pi>''"
    by (cases \<pi>') auto
  define p where "p h s = (if i mod 2 = 1 then (s, h) else if i < n - 1 then (h, s) else (s, h))"
    for h s :: bytes
  let ?st = "\<lambda>h s. node_hash (fst (p h s)) (snd (p h s))"
  have loop: "inclusion_loop h i n (s # \<pi>) = inclusion_loop (?st h s) (i div 2) ((n + 1) div 2) \<pi>"
    and inp: "set (path_inputs h i n (s # \<pi>)) = insert (1 # fst (p h s) @ snd (p h s))
         (set (path_inputs (?st h s) (i div 2) ((n + 1) div 2) \<pi>))" for h s \<pi>
    by (auto simp: p_def)
  have "?st h s = ?st h' s' \<or> collides (set (path_inputs (?st h s) (i div 2) ((n + 1) div 2) \<pi>)
      \<union> set (path_inputs (?st h' s') (i div 2) ((n + 1) div 2) \<pi>''))"
    using Cons.IH [of "?st h s" "i div 2" "(n + 1) div 2" "?st h' s'" \<pi>''] Cons.prems \<pi>' loop by simp
  then consider "?st h s = ?st h' s'" | "collides (set (path_inputs h i n (s # \<pi>))
      \<union> set (path_inputs h' i n \<pi>'))"
    using inp \<pi>'(1) by (metis Un_mono collides_mono subset_insertI)
  then show ?case
  proof cases
    case 1
    moreover have "length (fst (p h s)) = length (fst (p h' s')) \<or> length (snd (p h s)) = length (snd (p h' s'))"
      using Cons.prems by (auto simp: p_def)
    ultimately consider "fst (p h s) = fst (p h' s')" "snd (p h s) = snd (p h' s')"
      | "sha_collision (1 # fst (p h s) @ snd (p h s)) (1 # fst (p h' s') @ snd (p h' s'))"
      using node_hash_inj by blast
    then show ?thesis
    proof cases
      case 1
      then show ?thesis by (auto simp: p_def split: if_splits)
    next
      case 2
      then show ?thesis using inp \<pi>'(1) by (auto intro: collides_pair)
    qed
  qed simp
qed

text \<open>The rightmost node of a level is hashed with left siblings only.\<close>

lemma inclusion_loop_last:
  "0 < n \<Longrightarrow> inclusion_loop h (n - 1) n \<pi> = foldl (\<lambda>h s. node_hash s h) h \<pi>"
proof (induction \<pi> arbitrary: h n)
  case (Cons s \<pi>)
  have "(n - 1) div 2 = (n + 1) div 2 - 1" using Cons.prems by linarith
  with Cons show ?case by simp
qed simp

lemma next_level_nth:
  "2 * j + 1 < length xs \<Longrightarrow> next_level xs ! j = node_hash (xs ! (2 * j)) (xs ! (2 * j + 1))"
proof (induction xs arbitrary: j rule: next_level.induct)
  case (1 a b rest)
  then show ?case by (cases j) auto
qed auto

lemma next_level_nth_last: "length xs = 2 * j + 1 \<Longrightarrow> next_level xs ! j = xs ! (2 * j)"
proof (induction xs arbitrary: j rule: next_level.induct)
  case (1 a b rest)
  then show ?case by (cases j) auto
qed auto

lemma inclusion_complete_loop:
  "i < length hs \<Longrightarrow>
   inclusion_loop (hs ! i) i (length hs) (inclusion_proof_loop hs i) = merkle_levels hs"
proof (induction hs i rule: inclusion_proof_loop.induct)
  case (1 hs i)
  define nl where "nl = next_level hs"
  show ?case
  proof (cases "length hs > 1")
    case False
    with 1 have "length hs = 1" "i = 0" by auto
    then show ?thesis
      by (cases hs) (auto simp: inclusion_proof_loop.simps merkle_levels.simps)
  next
    case True
    have IH: "inclusion_loop (nl ! (i div 2)) (i div 2) ((length hs + 1) div 2)
        (inclusion_proof_loop nl (i div 2)) = merkle_levels hs"
      using 1 True by (auto simp: nl_def merkle_levels.simps [of hs])
    consider "i mod 2 = 1" | "i mod 2 = 0" "i + 1 < length hs" | "i mod 2 = 0" "i + 1 = length hs"
      using 1 by linarith
    then show ?thesis
    proof cases
      case 1
      then have "2 * (i div 2) = i - 1" "i - 1 + 1 = i" by presburger+
      with \<open>i < length hs\<close> have "nl ! (i div 2) = node_hash (hs ! (i - 1)) (hs ! i)"
        using next_level_nth [of "i div 2" hs] by (simp add: nl_def)
      with 1 True IH show ?thesis
        by (simp add: inclusion_proof_loop.simps [of hs] nl_def)
    next
      case 2
      then have "i = 2 * (i div 2)" by presburger
      with 2 have "nl ! (i div 2) = node_hash (hs ! i) (hs ! (i + 1))"
        using next_level_nth [of "i div 2" hs] by (simp add: nl_def)
      with 2 True IH show ?thesis
        by (simp add: inclusion_proof_loop.simps [of hs] nl_def less_diff_conv)
    next
      case 3
      then have i: "length hs = 2 * (i div 2) + 1" "2 * (i div 2) = i" by presburger+
      then have "nl ! (i div 2) = hs ! i" by (simp add: nl_def next_level_nth_last)
      moreover have "i = length hs - 1" "i div 2 = (length hs + 1) div 2 - 1"
        using 3 by auto
      ultimately have "merkle_levels hs =
          foldl (\<lambda>h s. node_hash s h) (hs ! i) (inclusion_proof_loop nl (i div 2))"
        using IH inclusion_loop_last [of "(length hs + 1) div 2" "hs ! i"] True by simp
      moreover have "inclusion_loop (hs ! i) i (length hs) \<pi> = foldl (\<lambda>h s. node_hash s h) (hs ! i) \<pi>" for \<pi>
        using inclusion_loop_last [of "length hs" "hs ! i" \<pi>] \<open>i < length hs\<close>
        unfolding \<open>i = length hs - 1\<close> by linarith
      ultimately show ?thesis
        using 3 True by (simp add: inclusion_proof_loop.simps [of hs] nl_def)
    qed
  qed
qed

section \<open>Consistency proofs\<close>

text \<open>
  The loop reads the proof bottom up; the tree is defined top down. The two lemmas below peel the
  last proof element off a run: it is the right sibling of the whole old tree when the old size is
  at most the split point \<open>2 ^ j\<close>, and the left sibling of both otherwise.
\<close>

lemma strip_ones_left:
  "o1 < 2 ^ j \<Longrightarrow> 2 ^ j \<le> n1 \<Longrightarrow> n1 < 2 ^ Suc j \<Longrightarrow>
   \<exists>i o2 n2. strip_ones o1 n1 = (o2, n2) \<and> strip_ones o1 (2 ^ j - 1) = (o2, 2 ^ i - 1)
     \<and> o2 < 2 ^ i \<and> 2 ^ i \<le> n2 \<and> n2 < 2 ^ Suc i"
proof (induction j arbitrary: o1 n1)
  case 0
  then have "n1 = 1" by simp
  with 0 show ?case
    by (intro exI [of _ 0] exI [of _ 0] exI [of _ 1]) (simp add: strip_ones.simps)
next
  case (Suc j)
  show ?case
  proof (cases "odd o1")
    case True
    have half: "(2 ^ Suc j - 1) div 2 = (2 ^ j - 1 :: nat)" by simp
    have "strip_ones o1 n = strip_ones (o1 div 2) (n div 2)" for n
      using True by (simp add: strip_ones.simps [of o1])
    moreover have "o1 div 2 < 2 ^ j" "2 ^ j \<le> n1 div 2" "n1 div 2 < 2 ^ Suc j" using Suc.prems by auto
    ultimately show ?thesis
      using Suc.IH [of "o1 div 2" "n1 div 2"] by (simp only: half)
  next
    case False
    then have "strip_ones o1 n = (o1, n)" for n by (simp add: strip_ones.simps)
    with Suc.prems show ?thesis by blast
  qed
qed

text \<open>
  The loop does not look at the hashes it combines, so it is studied with the two ways to combine
  as parameters: \<open>L\<close> puts a proof node on the left, \<open>R\<close> on the right. The code's loop is the
  instance \<open>node_hash\<close>; a second instance also records the strings that are hashed.
\<close>

fun gen_loop ::
  "('n \<Rightarrow> 'a \<Rightarrow> 'a) \<Rightarrow> ('a \<Rightarrow> 'n \<Rightarrow> 'a) \<Rightarrow> nat \<Rightarrow> nat \<Rightarrow> 'a \<Rightarrow> 'a \<Rightarrow> 'n list \<Rightarrow> (nat \<times> 'a \<times> 'a) option"
where
  "gen_loop L R o1 n1 oh nh [] = Some (n1, oh, nh)"
| "gen_loop L R o1 n1 oh nh (x # \<pi>) =
     (if n1 = 0 then None
      else if odd o1 \<or> o1 = n1 then
        (case skip_zeros o1 n1 of (o2, n2) \<Rightarrow> gen_loop L R (o2 div 2) (n2 div 2) (L x oh) (L x nh) \<pi>)
      else gen_loop L R (o1 div 2) (n1 div 2) oh (R nh x) \<pi>)"

lemma consistency_loop_gen:
  "consistency_loop o1 n1 oh nh \<pi> = gen_loop node_hash node_hash o1 n1 oh nh \<pi>"
  by (induction o1 n1 oh nh \<pi> rule: consistency_loop.induct) (auto split: prod.splits)

lemma gen_loop_zero [simp]:
  "gen_loop L R o1 0 oh nh \<pi> = (if \<pi> = [] then Some (0, oh, nh) else None)"
  by (cases \<pi>) auto

lemma gen_loop_Nil_pos: "0 < n1 \<Longrightarrow> gen_loop L R o1 n1 oh nh [] \<noteq> Some (0, a, b)"
  by simp

lemma skip_zeros_odd [simp]: "odd o1 \<Longrightarrow> skip_zeros o1 n1 = (o1, n1)"
  by (simp add: skip_zeros.simps)

lemma gen_loop_left:
  assumes "o1 < 2 ^ j" "2 ^ j \<le> n1" "n1 < 2 ^ Suc j"
  shows "gen_loop L R o1 n1 oh nh (\<pi> @ [c]) = Some (0, a, b) \<longleftrightarrow>
    (\<exists>b'. gen_loop L R o1 (2 ^ j - 1) oh nh \<pi> = Some (0, a, b') \<and> b = R b' c)"
  using assms
proof (induction j arbitrary: o1 n1 oh nh \<pi>)
  case 0
  then have "o1 = 0" "n1 = 1" by simp_all
  then show ?case by (cases \<pi>) auto
next
  case (Suc j)
  have half: "(2 ^ Suc j - 1) div 2 = (2 ^ j - 1 :: nat)" "odd (2 ^ Suc j - 1 :: nat)"
    by simp_all
  then have pos: "(2 ^ Suc j - 1 :: nat) \<noteq> 0" by (metis even_zero)
  have d: "o1 div 2 < 2 ^ j" "2 ^ j \<le> n1 div 2" "n1 div 2 < 2 ^ Suc j" using Suc.prems by auto
  then have n1: "n1 \<noteq> 0" "o1 \<noteq> n1" "n1 div 2 \<noteq> 0"
    using Suc.prems one_le_power [of "2::nat" j] by auto
  show ?case
  proof (cases \<pi>)
    case Nil
    with n1 pos show ?thesis by auto
  next
    case (Cons x \<pi>2)
    show ?thesis
    proof (cases "odd o1")
      case True
      with Cons n1 pos half(1) Suc.IH [OF d] show ?thesis by simp
    next
      case False
      with half(2) have "o1 \<noteq> 2 ^ Suc j - 1" by metis
      with False Cons n1 pos half(1) Suc.IH [OF d] show ?thesis by simp
    qed
  qed
qed

lemma strip_ones_right:
  "o1 < 2 ^ j - 1 \<Longrightarrow> n1 < 2 ^ j \<Longrightarrow> o1 \<le> n1 \<Longrightarrow>
   \<exists>i o2 n2. strip_ones (2 ^ j + o1) (2 ^ j + n1) = (2 ^ i + o2, 2 ^ i + n2)
     \<and> strip_ones o1 n1 = (o2, n2) \<and> n2 < 2 ^ i \<and> o2 \<le> n2"
proof (induction j arbitrary: o1 n1)
  case 0
  then show ?case by simp
next
  case (Suc j)
  show ?case
  proof (cases "odd o1")
    case True
    from Suc.prems True have "o1 div 2 < 2 ^ j - 1"
      by (auto elim!: oddE)
    moreover have "n1 div 2 < 2 ^ j" "o1 div 2 \<le> n1 div 2" using Suc.prems by auto
    moreover have "strip_ones (2 ^ Suc j + o1) (2 ^ Suc j + n1) = strip_ones (2 ^ j + o1 div 2) (2 ^ j + n1 div 2)"
      "strip_ones o1 n1 = strip_ones (o1 div 2) (n1 div 2)"
      using True by (subst strip_ones.simps, simp)+
    ultimately show ?thesis
      using Suc.IH [of "o1 div 2" "n1 div 2"] by (simp only:)
  next
    case False
    then have "strip_ones o1 n1 = (o1, n1)"
      "strip_ones (2 ^ Suc j + o1) (2 ^ Suc j + n1) = (2 ^ Suc j + o1, 2 ^ Suc j + n1)"
      by (simp_all add: strip_ones.simps)
    with Suc.prems show ?thesis by blast
  qed
qed

lemma skip_zeros_right:
  "0 < o1 \<Longrightarrow> o1 < 2 ^ j \<Longrightarrow>
   \<exists>i o2. i \<le> j \<and> skip_zeros (2 ^ j + o1) (2 ^ j + o1) = (2 ^ i + o2, 2 ^ i + o2)
     \<and> skip_zeros o1 o1 = (o2, o2) \<and> odd o2 \<and> o2 < 2 ^ i"
proof (induction j arbitrary: o1)
  case 0
  then show ?case by simp
next
  case (Suc j)
  show ?case
  proof (cases "odd o1")
    case True
    with Suc.prems show ?thesis by (intro exI [of _ "Suc j"] exI [of _ o1]) simp
  next
    case False
    with Suc.prems have "0 < o1 div 2" "o1 div 2 < 2 ^ j" by (auto elim: evenE)
    from Suc.IH [OF this] obtain i o2 where "i \<le> j"
      "skip_zeros (2 ^ j + o1 div 2) (2 ^ j + o1 div 2) = (2 ^ i + o2, 2 ^ i + o2)"
      "skip_zeros (o1 div 2) (o1 div 2) = (o2, o2)" "odd o2" "o2 < 2 ^ i" by blast
    moreover have "skip_zeros (2 ^ Suc j + o1) (2 ^ Suc j + o1) = skip_zeros (2 ^ j + o1 div 2) (2 ^ j + o1 div 2)"
      "skip_zeros o1 o1 = skip_zeros (o1 div 2) (o1 div 2)"
      using False Suc.prems by (subst skip_zeros.simps, simp)+
    ultimately show ?thesis
      by (metis le_Suc_eq)
  qed
qed

lemma skip_zeros_pow2: "skip_zeros (2 ^ j) (2 ^ j) = (1, 1)"
  by (induction j) (simp_all add: skip_zeros.simps)

lemma gen_step_right:
  assumes "n1 \<noteq> 0" "o1 \<le> n1" "n1 < 2 ^ j"
  obtains i o2 n2 where "i < j" "o2 \<le> n2" "n2 < 2 ^ i"
    "\<And>x oh nh. \<exists>oh' nh'. \<forall>\<pi>.
       gen_loop L R (2 ^ j + o1) (2 ^ j + n1) oh nh (x # \<pi>) =
         gen_loop L R (2 ^ i + o2) (2 ^ i + n2) oh' nh' \<pi> \<and>
       gen_loop L R o1 n1 oh nh (x # \<pi>) = gen_loop L R o2 n2 oh' nh' \<pi>"
proof -
  from assms obtain i where j: "j = Suc i" by (cases j) auto
  have half: "(2 ^ j + o1) div 2 = 2 ^ i + o1 div 2" "(2 ^ j + n1) div 2 = 2 ^ i + n1 div 2"
    "odd (2 ^ j + o1) = odd o1" by (simp_all add: j)
  have d: "i < j" "o1 div 2 \<le> n1 div 2" "n1 div 2 < 2 ^ i" using assms by (auto simp: j)
  consider "odd o1" | "even o1" "o1 = n1" | "even o1" "o1 \<noteq> n1" by blast
  then show ?thesis
  proof cases
    case 1
    with d assms half show ?thesis by (intro that [of i]) auto
  next
    case 2
    with assms have "0 < o1" "o1 < 2 ^ j" by auto
    from skip_zeros_right [OF this] obtain k o2 where k: "k \<le> j"
      "skip_zeros (2 ^ j + o1) (2 ^ j + o1) = (2 ^ k + o2, 2 ^ k + o2)"
      "skip_zeros o1 o1 = (o2, o2)" "odd o2" "o2 < 2 ^ k" by blast
    then obtain k' where k': "k = Suc k'" by (cases k) auto
    have "(2 ^ k + o2) div 2 = 2 ^ k' + o2 div 2" by (simp add: k')
    with k k' 2 assms show ?thesis
      by (intro that [of k' "o2 div 2" "o2 div 2"]) auto
  next
    case 3
    with d assms half show ?thesis by (intro that [of i]) auto
  qed
qed

lemma gen_loop_right:
  assumes "o1 \<le> n1" "n1 < 2 ^ j"
  shows "gen_loop L R (2 ^ j + o1) (2 ^ j + n1) oh nh (\<pi> @ [c]) = Some (0, a, b) \<longleftrightarrow>
    (\<exists>a' b'. gen_loop L R o1 n1 oh nh \<pi> = Some (0, a', b') \<and> a = L c a' \<and> b = L c b')"
  using assms
proof (induction j arbitrary: o1 n1 oh nh \<pi> rule: less_induct)
  case (less j)
  show ?case
  proof (cases "n1 = 0")
    case True
    with less.prems show ?thesis
      by (cases \<pi>) (auto simp: skip_zeros_pow2)
  next
    case False
    from gen_step_right [OF False less.prems] obtain i o2 n2 where
      i: "i < j" "o2 \<le> n2" "n2 < 2 ^ i" and
      step: "\<And>x oh nh. \<exists>oh' nh'. \<forall>\<pi>.
       gen_loop L R (2 ^ j + o1) (2 ^ j + n1) oh nh (x # \<pi>) =
         gen_loop L R (2 ^ i + o2) (2 ^ i + n2) oh' nh' \<pi> \<and>
       gen_loop L R o1 n1 oh nh (x # \<pi>) = gen_loop L R o2 n2 oh' nh' \<pi>"
      by blast
    show ?thesis
    proof (cases \<pi>)
      case Nil
      with step [of oh nh c] False show ?thesis by fastforce
    next
      case (Cons x \<pi>2)
      from step [of oh nh x] obtain oh' nh' where
        "\<And>\<pi>. gen_loop L R (2 ^ j + o1) (2 ^ j + n1) oh nh (x # \<pi>) =
               gen_loop L R (2 ^ i + o2) (2 ^ i + n2) oh' nh' \<pi>"
        "\<And>\<pi>. gen_loop L R o1 n1 oh nh (x # \<pi>) = gen_loop L R o2 n2 oh' nh' \<pi>" by blast
      with Cons less.IH [OF i, of oh' nh' \<pi>2] show ?thesis by simp
    qed
  qed
qed

text \<open>The whole run for sizes \<open>m\<close> and \<open>n\<close>, from the start hash.\<close>

definition gen_run ::
  "('n \<Rightarrow> 'a \<Rightarrow> 'a) \<Rightarrow> ('a \<Rightarrow> 'n \<Rightarrow> 'a) \<Rightarrow> nat \<Rightarrow> nat \<Rightarrow> 'a \<Rightarrow> 'n list \<Rightarrow> (nat \<times> 'a \<times> 'a) option" where
  "gen_run L R m n start \<pi> =
     (case strip_ones (m - 1) (n - 1) of (o1, n1) \<Rightarrow> gen_loop L R o1 n1 start start \<pi>)"

lemma strip_ones_pow2: "strip_ones (2 ^ j - 1) (2 ^ j - 1) = (0, 0)"
proof (induction j)
  case (Suc j)
  have "(2 ^ Suc j - 1) div 2 = (2 ^ j - 1 :: nat)" "odd (2 ^ Suc j - 1 :: nat)" by simp_all
  with Suc show ?case by (subst strip_ones.simps) simp
qed (simp add: strip_ones.simps)

lemma gen_run_full: "gen_run L R (2 ^ j) (2 ^ j) s \<pi> = (if \<pi> = [] then Some (0, s, s) else None)"
  using strip_ones_pow2 [of j] by (simp add: gen_run_def)

lemma gen_run_left:
  assumes "0 < m" "m \<le> 2 ^ j" "2 ^ j < n" "n \<le> 2 * 2 ^ j"
  shows "gen_run L R m n s (\<pi> @ [c]) = Some (0, a, b) \<longleftrightarrow>
    (\<exists>b'. gen_run L R m (2 ^ j) s \<pi> = Some (0, a, b') \<and> b = R b' c)"
    and "gen_run L R m n s [] \<noteq> Some (0, a, b)"
proof -
  have "m - 1 < 2 ^ j" "2 ^ j \<le> n - 1" "n - 1 < 2 ^ Suc j" using assms by auto
  from strip_ones_left [OF this] obtain i o2 n2 where
    "strip_ones (m - 1) (n - 1) = (o2, n2)" "strip_ones (m - 1) (2 ^ j - 1) = (o2, 2 ^ i - 1)"
    and *: "o2 < 2 ^ i" "2 ^ i \<le> n2" "n2 < 2 ^ Suc i" by blast
  then show "gen_run L R m n s (\<pi> @ [c]) = Some (0, a, b) \<longleftrightarrow>
    (\<exists>b'. gen_run L R m (2 ^ j) s \<pi> = Some (0, a, b') \<and> b = R b' c)"
    and "gen_run L R m n s [] \<noteq> Some (0, a, b)"
    using gen_loop_left [OF *, of L R] by (auto simp: gen_run_def)
qed

lemma gen_run_right:
  assumes "2 ^ j < m" "m < n" "n \<le> 2 * 2 ^ j"
  shows "gen_run L R m n s (\<pi> @ [c]) = Some (0, a, b) \<longleftrightarrow>
    (\<exists>a' b'. gen_run L R (m - 2 ^ j) (n - 2 ^ j) s \<pi> = Some (0, a', b')
       \<and> a = L c a' \<and> b = L c b')"
    and "gen_run L R m n s [] \<noteq> Some (0, a, b)"
proof -
  define o1 n1 where on: "o1 = m - 2 ^ j - 1" "n1 = n - 2 ^ j - 1"
  then have eq: "m - 1 = 2 ^ j + o1" "n - 1 = 2 ^ j + n1" "m - 2 ^ j - 1 = o1" "n - 2 ^ j - 1 = n1"
    and o1: "o1 < 2 ^ j - 1" "n1 < 2 ^ j" "o1 \<le> n1" using assms by auto
  from strip_ones_right [OF o1] obtain i o2 n2 where
    "strip_ones (2 ^ j + o1) (2 ^ j + n1) = (2 ^ i + o2, 2 ^ i + n2)" "strip_ones o1 n1 = (o2, n2)"
    and *: "o2 \<le> n2" "n2 < 2 ^ i" by blast
  then show "gen_run L R m n s (\<pi> @ [c]) = Some (0, a, b) \<longleftrightarrow>
    (\<exists>a' b'. gen_run L R (m - 2 ^ j) (n - 2 ^ j) s \<pi> = Some (0, a', b')
       \<and> a = L c a' \<and> b = L c b')"
    and "gen_run L R m n s [] \<noteq> Some (0, a, b)"
    using gen_loop_right [OF *, of L R] unfolding gen_run_def eq by auto
qed

text \<open>The code's run, and the run that records what it hashes.\<close>

definition consistency_run :: "nat \<Rightarrow> nat \<Rightarrow> bytes \<Rightarrow> bytes list \<Rightarrow> (nat \<times> bytes \<times> bytes) option" where
  "consistency_run = gen_run node_hash node_hash"

lemma consistency_run_eq:
  "consistency_run m n start \<pi> =
     (case strip_ones (m - 1) (n - 1) of (o1, n1) \<Rightarrow> consistency_loop o1 n1 start start \<pi>)"
  by (simp add: consistency_run_def gen_run_def consistency_loop_gen)

definition tr_left :: "bytes \<Rightarrow> bytes \<times> bytes list \<Rightarrow> bytes \<times> bytes list" where
  "tr_left x = (\<lambda>(h, t). (node_hash x h, (1 # x @ h) # t))"

definition tr_right :: "bytes \<times> bytes list \<Rightarrow> bytes \<Rightarrow> bytes \<times> bytes list" where
  "tr_right = (\<lambda>(h, t) x. (node_hash h x, (1 # h @ x) # t))"

text \<open>
  The strings hashed by the verification of a consistency proof, as far as they lead to the new root.
\<close>

fun consistency_inputs_loop :: "nat \<Rightarrow> nat \<Rightarrow> bytes \<Rightarrow> bytes list \<Rightarrow> bytes list" where
  "consistency_inputs_loop o1 n1 nh [] = []"
| "consistency_inputs_loop o1 n1 nh (x # \<pi>) =
     (if n1 = 0 then []
      else if odd o1 \<or> o1 = n1 then
        (case skip_zeros o1 n1 of (o2, n2) \<Rightarrow>
           (1 # x @ nh) # consistency_inputs_loop (o2 div 2) (n2 div 2) (node_hash x nh) \<pi>)
      else (1 # nh @ x) # consistency_inputs_loop (o1 div 2) (n1 div 2) (node_hash nh x) \<pi>)"

definition consistency_inputs :: "nat \<Rightarrow> nat \<Rightarrow> bytes \<Rightarrow> bytes list \<Rightarrow> bytes list" where
  "consistency_inputs m n old_root \<pi> =
     (case strip_ones (m - 1) (n - 1) of (o1, n1) \<Rightarrow>
        if is_pow2 m then consistency_inputs_loop o1 n1 old_root \<pi>
        else (case \<pi> of [] \<Rightarrow> [] | start # rest \<Rightarrow> consistency_inputs_loop o1 n1 start rest))"

lemma traced_loop:
  "consistency_loop o1 n1 oh nh \<pi> = Some (z, a, b) \<Longrightarrow>
   \<exists>ta. gen_loop tr_left tr_right o1 n1 (oh, t) (nh, t') \<pi> =
     Some (z, (a, ta), (b, rev (consistency_inputs_loop o1 n1 nh \<pi>) @ t'))"
proof (induction o1 n1 oh nh \<pi> arbitrary: t t' rule: consistency_loop.induct)
  case (2 o1 n1 oh nh x \<pi>)
  show ?case
  proof (cases "odd o1 \<or> o1 = n1")
    case True
    obtain o2 n2 where "skip_zeros o1 n1 = (o2, n2)" by force
    with True 2 show ?thesis by (auto simp: tr_left_def split: if_splits)
  next
    case False
    with 2 show ?thesis by (auto simp: tr_right_def split: if_splits)
  qed
qed simp

lemma traced_run_hash:
  "gen_loop tr_left tr_right o1 n1 (oh, t) (nh, t') \<pi> = Some (z, (a, ta), (b, tb)) \<Longrightarrow>
   consistency_loop o1 n1 oh nh \<pi> = Some (z, a, b)"
proof (induction \<pi> arbitrary: o1 n1 oh nh t t')
  case (Cons x \<pi>)
  then show ?case
    by (auto simp: tr_left_def tr_right_def split: if_splits prod.splits)
qed simp

lemma length_consistency_loop:
  "consistency_loop o1 n1 oh nh \<pi> = Some (z, a, b) \<Longrightarrow> length oh = 32 \<Longrightarrow> length nh = 32 \<Longrightarrow>
   length a = 32 \<and> length b = 32"
  by (induction o1 n1 oh nh \<pi> rule: consistency_loop.induct)
    (auto split: if_splits prod.splits)

lemma mth_take_split:
  assumes "2 ^ j < m" "m \<le> 2 * 2 ^ j" "m \<le> length es"
  shows "mth (take m es) = node_hash (mth (take (2 ^ j) es)) (mth (take (m - 2 ^ j) (drop (2 ^ j) es)))"
proof -
  have "length (take m es) = m" "split_point m = 2 ^ j"
    using assms split_point_unique [of j m] by auto
  moreover have "2 \<le> m" using assms one_le_power [of "2::nat" j] by linarith
  ultimately show ?thesis
    using mth_split [of "take m es"] assms by (simp add: drop_take)
qed

lemmas consistency_run_full = gen_run_full [where L = node_hash and R = node_hash, folded consistency_run_def]
lemmas consistency_run_left = gen_run_left [where L = node_hash and R = node_hash, folded consistency_run_def]
lemmas consistency_run_right = gen_run_right [where L = node_hash and R = node_hash, folded consistency_run_def]

lemma traced_run_length:
  assumes "gen_run tr_left tr_right m n (s, []) \<pi> = Some (0, (a, ta), (b, tb))" "length s = 32"
  shows "length a = 32" "length b = 32"
proof -
  obtain o1 n1 where "strip_ones (m - 1) (n - 1) = (o1, n1)" by force
  with assms(1) have "gen_loop tr_left tr_right o1 n1 (s, []) (s, []) \<pi> = Some (0, (a, ta), (b, tb))"
    by (simp add: gen_run_def)
  from length_consistency_loop [OF traced_run_hash [OF this] assms(2) assms(2)]
  show "length a = 32" "length b = 32" by auto
qed

lemma consistency_run_sound:
  assumes "0 < m" "m < length es \<or> m = length es \<and> (\<exists>j. m = 2 ^ j)" "length s = 32"
    "gen_run tr_left tr_right m (length es) (s, []) \<pi> = Some (0, (a, ta), (mth es, tb))"
  shows "a = mth (take m es) \<or> collides (set tb \<union> set (tree_inputs es))"
  using assms
proof (induction "length es" arbitrary: m es \<pi> a ta tb rule: less_induct)
  case less
  show ?case
  proof (cases "m = length es")
    case True
    with less.prems obtain j where "m = 2 ^ j" by auto
    with True less.prems(4)
    have "gen_run tr_left tr_right (2 ^ j) (2 ^ j) (s, []) \<pi> = Some (0, (a, ta), (mth es, tb))" by simp
    with True show ?thesis by (auto simp: gen_run_full split: if_splits)
  next
    case False
    with less.prems have m: "m < length es" by auto
    with less.prems have n2: "2 \<le> length es" by linarith
    obtain j where j: "split_point (length es) = 2 ^ j" using split_point_pow2 by blast
    with split_point_bounds [OF n2] have b: "2 ^ j < length es" "length es \<le> 2 * 2 ^ j" by auto
    let ?l = "mth (take (2 ^ j) es)" and ?r = "mth (drop (2 ^ j) es)"
    have split: "mth es = node_hash ?l ?r" using mth_split [OF n2] j by simp
    have inp: "set (tree_inputs es) = insert (1 # ?l @ ?r)
        (set (tree_inputs (take (2 ^ j) es)) \<union> set (tree_inputs (drop (2 ^ j) es)))"
      using tree_inputs_split [OF n2] j by simp
    show ?thesis
    proof (cases "m \<le> 2 ^ j")
      case True
      note run = gen_run_left [OF \<open>0 < m\<close> True b, of tr_left tr_right]
      from less.prems(4) run(2) obtain \<pi>' c where \<pi>: "\<pi> = \<pi>' @ [c]" by (cases \<pi> rule: rev_cases) auto
      with less.prems(4) run(1) obtain b' tb' where
        sub: "gen_run tr_left tr_right m (2 ^ j) (s, []) \<pi>' = Some (0, (a, ta), (b', tb'))"
        and bb: "mth es = node_hash b' c" "tb = (1 # b' @ c) # tb'" by (auto simp: tr_right_def)
      have "length b' = 32" using traced_run_length [OF sub \<open>length s = 32\<close>] by simp
      with bb(1) split consider "b' = ?l" | "sha_collision (1 # b' @ c) (1 # ?l @ ?r)"
        using node_hash_inj [of b' c ?l ?r] by auto
      then show ?thesis
      proof cases
        case 1
        have "m < 2 ^ j \<or> m = 2 ^ j \<and> (\<exists>i. m = 2 ^ i)" using True le_neq_implies_less by blast
        with 1 less.hyps [of "take (2 ^ j) es" m \<pi>' a ta tb'] sub b \<open>0 < m\<close> \<open>length s = 32\<close> True
        have "a = mth (take m es) \<or> collides (set tb' \<union> set (tree_inputs (take (2 ^ j) es)))" by auto
        with bb(2) inp show ?thesis by (auto simp: collides_def)
      next
        case 2
        with bb(2) inp show ?thesis by (auto intro: collides_pair)
      qed
    next
      case False
      then have j_less: "2 ^ j < m" by simp
      note run = gen_run_right [OF j_less m b(2), of tr_left tr_right]
      from less.prems(4) run(2) obtain \<pi>' c where \<pi>: "\<pi> = \<pi>' @ [c]" by (cases \<pi> rule: rev_cases) auto
      with less.prems(4) run(1) obtain a' ta' b' tb' where
        sub: "gen_run tr_left tr_right (m - 2 ^ j) (length es - 2 ^ j) (s, []) \<pi>' = Some (0, (a', ta'), (b', tb'))"
        and bb: "mth es = node_hash c b'" "tb = (1 # c @ b') # tb'" and aa: "a = node_hash c a'"
        by (auto simp: tr_left_def)
      have "length b' = 32" using traced_run_length [OF sub \<open>length s = 32\<close>] by simp
      with bb(1) split consider "c = ?l" "b' = ?r" | "sha_collision (1 # c @ b') (1 # ?l @ ?r)"
        using node_hash_inj [of c b' ?l ?r] by auto
      then show ?thesis
      proof cases
        case 1
        have "mth (take m es) = node_hash ?l (mth (take (m - 2 ^ j) (drop (2 ^ j) es)))"
          using mth_take_split [of j m es] m b j_less by simp
        moreover have "m - 2 ^ j < length es - 2 ^ j" "length es - 2 ^ j < length es"
          using m j_less by (auto intro: diff_less diff_less_mono)
        ultimately have "a = mth (take m es) \<or> collides (set tb' \<union> set (tree_inputs (drop (2 ^ j) es)))"
          using 1 aa less.hyps [of "drop (2 ^ j) es" "m - 2 ^ j" \<pi>' a' ta' tb'] sub j_less \<open>length s = 32\<close>
          by auto
        with bb(2) inp show ?thesis by (auto simp: collides_def)
      next
        case 2
        with bb(2) inp show ?thesis by (auto intro: collides_pair)
      qed
    qed
  qed
qed

lemma consistency_loop_sound:
  assumes "0 < m" "m < length es" "length s = 32"
    "consistency_run m (length es) s \<pi> = Some (0, a, mth es)"
    "strip_ones (m - 1) (length es - 1) = (o1, n1)"
  shows "a = mth (take m es) \<or> collides (set (consistency_inputs_loop o1 n1 s \<pi>) \<union> set (tree_inputs es))"
proof -
  from assms(4,5) have "consistency_loop o1 n1 s s \<pi> = Some (0, a, mth es)"
    by (simp add: consistency_run_eq)
  from traced_loop [OF this, of "[]" "[]"] assms(5) obtain ta where
    "gen_run tr_left tr_right m (length es) (s, []) \<pi> =
      Some (0, (a, ta), (mth es, rev (consistency_inputs_loop o1 n1 s \<pi>)))"
    by (auto simp: gen_run_def)
  from consistency_run_sound [OF assms(1) _ assms(3) this] assms(2) show ?thesis by auto
qed

lemma is_pow2_iff:
  assumes "0 < n"
  shows "is_pow2 n \<longleftrightarrow> (\<exists>j. n = 2 ^ j)"
  using assms
proof (induction n rule: less_induct)
  case (less n)
  show ?case
  proof (cases "even n")
    case True
    with less.prems obtain k where k: "n = 2 * k" "0 < k" by (auto elim: evenE)
    then have "n - 1 = 2 * (k - 1) + 1" by simp
    then have "is_pow2 n \<longleftrightarrow> is_pow2 k"
      using k by (simp add: is_pow2_def and_rec [of "2 * k"])
    also have "\<dots> \<longleftrightarrow> (\<exists>j. k = 2 ^ j)" using less.IH [of k] k by simp
    also have "\<dots> \<longleftrightarrow> (\<exists>j. n = 2 ^ j)"
    proof
      assume "\<exists>j. n = 2 ^ j"
      then obtain j where j: "n = 2 ^ j" ..
      with True obtain i where "j = Suc i" by (cases j) auto
      with j k show "\<exists>j. k = 2 ^ j" by auto
    qed (use k in \<open>auto intro: exI [of _ "Suc _"]\<close>)
    finally show ?thesis .
  next
    case False
    then obtain k where k: "n = 2 * k + 1" by (auto elim: oddE)
    then have "is_pow2 n \<longleftrightarrow> k = 0"
      by (simp add: is_pow2_def and_rec [of "Suc (2 * k)"])
    also have "\<dots> \<longleftrightarrow> (\<exists>j. n = 2 ^ j)"
    proof
      assume "k = 0"
      with k have "n = 2 ^ 0" by simp
      then show "\<exists>j. n = 2 ^ j" ..
    next
      assume "\<exists>j. n = 2 ^ j"
      then obtain j where j: "n = 2 ^ j" ..
      with False have "j = 0" by (cases j) auto
      with j k show "k = 0" by simp
    qed
    finally show ?thesis .
  qed
qed

lemma verify_consistency_run:
  assumes "0 < m" "m < n"
  shows "verify_consistency (int m) (int n) old_root new_root \<pi> \<longleftrightarrow>
    (\<exists>start rest. length old_root = 32 \<and> length new_root = 32 \<and> (\<forall>x \<in> set \<pi>. length x = 32)
       \<and> \<pi> = (if is_pow2 m then rest else start # rest) \<and> (is_pow2 m \<longrightarrow> start = old_root)
       \<and> consistency_run m n start rest = Some (0, old_root, new_root))"
  using assms
  by (cases \<pi>) (auto simp: verify_consistency_def consistency_run_eq split: prod.splits option.splits)

text \<open>
  Soundness of consistency proofs against the tree the new checkpoint commits to: when a proof
  between sizes \<open>m\<close> and \<open>length es\<close> is accepted and the new root is that of \<open>es\<close>, the old root
  is the root of the first \<open>m\<close> entries of \<open>es\<close>, or a digest collision has been exhibited.
\<close>

lemma verify_consistency_prefix:
  assumes "verify_consistency m (int (length es)) old_root (mth es) \<pi>"
  shows "0 \<le> m \<and> m \<le> int (length es) \<and>
    (old_root = mth (take (nat m) es) \<or>
      collides (set (consistency_inputs (nat m) (length es) old_root \<pi>) \<union> set (tree_inputs es)))"
proof -
  have m: "0 \<le> m" "m \<le> int (length es)"
    using assms by (auto simp: verify_consistency_def split: if_splits)
  consider "m = 0" | "m = int (length es)" "m \<noteq> 0" | "0 < m" "m < int (length es)"
    using m by linarith
  then show ?thesis
  proof cases
    case 1
    with assms have "old_root = sha256 []" by (simp add: verify_consistency_def split: if_splits)
    with 1 show ?thesis by simp
  next
    case 2
    with assms have "old_root = mth es" by (simp add: verify_consistency_def split: if_splits)
    with 2 show ?thesis by simp
  next
    case 3
    define k where "k = nat m"
    with 3 have k: "m = int k" "0 < k" "k < length es" by auto
    have "verify_consistency (int k) (int (length es)) old_root (mth es) \<pi>" using assms k(1) by simp
    from verify_consistency_run [OF k(2,3), THEN iffD1, OF this] obtain start rest where
      *: "length old_root = 32 \<and> length (mth es) = 32 \<and> (\<forall>x \<in> set \<pi>. length x = 32)
       \<and> \<pi> = (if is_pow2 k then rest else start # rest) \<and> (is_pow2 k \<longrightarrow> start = old_root)
       \<and> consistency_run k (length es) start rest = Some (0, old_root, mth es)"
      by blast
    obtain o1 n1 where on: "strip_ones (k - 1) (length es - 1) = (o1, n1)" by force
    from * have "consistency_inputs k (length es) old_root \<pi> = consistency_inputs_loop o1 n1 start rest"
      unfolding consistency_inputs_def on by (auto split: if_splits)
    moreover from * have "length start = 32" by (cases "is_pow2 k") auto
    ultimately show ?thesis using * k m consistency_loop_sound [OF k(2,3) _ _ on, of start rest old_root] by auto
  qed
qed

section \<open>Construction of consistency proofs\<close>

text \<open>RFC 6962 section 2.1.2: the start node and the siblings that a log publishes.\<close>

function consistency_nodes :: "nat \<Rightarrow> bytes list \<Rightarrow> bytes \<times> bytes list" where
  "consistency_nodes m es =
     (if length es \<le> 1 \<or> length es \<le> m then (mth es, [])
      else
        (let k = split_point (length es) in
         if m \<le> k then
           (case consistency_nodes m (take k es) of (s, \<pi>) \<Rightarrow> (s, \<pi> @ [mth (drop k es)]))
         else
           (case consistency_nodes (m - k) (drop k es) of (s, \<pi>) \<Rightarrow> (s, \<pi> @ [mth (take k es)]))))"
  by pat_completeness auto
termination
proof (relation "measure (\<lambda>(m, es). length es)", goal_cases)
  case (2 m es k)
  then show ?case using split_point_bounds [of "length es"] by simp
next
  case (3 m es k)
  then show ?case using split_point_bounds [of "length es"] by auto
qed simp

declare consistency_nodes.simps [simp del]

definition consistency_proof :: "nat \<Rightarrow> bytes list \<Rightarrow> bytes list" where
  "consistency_proof m es =
     (case consistency_nodes m es of (s, \<pi>) \<Rightarrow> if is_pow2 m then \<pi> else s # \<pi>)"

lemma consistency_nodes_run:
  assumes "0 < m" "m < length es \<or> m = length es \<and> (\<exists>j. m = 2 ^ j)"
  shows "\<exists>s \<pi>. consistency_nodes m es = (s, \<pi>) \<and> length s = 32 \<and> (\<forall>x \<in> set \<pi>. length x = 32)
    \<and> (is_pow2 m \<longrightarrow> s = mth (take m es))
    \<and> consistency_run m (length es) s \<pi> = Some (0, mth (take m es), mth es)"
  using assms
proof (induction m es rule: consistency_nodes.induct)
  case (1 m es)
  show ?case
  proof (cases "m = length es")
    case True
    with 1 obtain j where "m = 2 ^ j" by auto
    with True consistency_run_full [of j "mth es" "[]"] show ?thesis
      by (simp add: consistency_nodes.simps)
  next
    case False
    with 1 have m: "0 < m" "m < length es" "2 \<le> length es" by auto
    obtain j where j: "split_point (length es) = 2 ^ j" using split_point_pow2 by blast
    with split_point_bounds [OF m(3)] have b: "2 ^ j < length es" "length es \<le> 2 * 2 ^ j" by auto
    have split: "mth es = node_hash (mth (take (2 ^ j) es)) (mth (drop (2 ^ j) es))"
      using mth_split [OF m(3)] j by simp
    have *: "\<not> (length es \<le> 1 \<or> length es \<le> m)" using m by auto
    show ?thesis
    proof (cases "m \<le> 2 ^ j")
      case True
      have "m < 2 ^ j \<or> m = 2 ^ j \<and> (\<exists>i. m = 2 ^ i)" using True le_neq_implies_less by blast
      with "1.IH"(1) [OF * j [symmetric]] True m b obtain s \<pi> where
        "consistency_nodes m (take (2 ^ j) es) = (s, \<pi>)" "length s = 32" "\<forall>x \<in> set \<pi>. length x = 32"
        "is_pow2 m \<longrightarrow> s = mth (take m es)"
        "consistency_run m (2 ^ j) s \<pi> = Some (0, mth (take m es), mth (take (2 ^ j) es))"
        by auto
      moreover from this have "consistency_nodes m es = (s, \<pi> @ [mth (drop (2 ^ j) es)])"
        using * j True by (simp add: consistency_nodes.simps [of m es] Let_def)
      moreover from calculation split have
        "consistency_run m (length es) s (\<pi> @ [mth (drop (2 ^ j) es)]) = Some (0, mth (take m es), mth es)"
        using consistency_run_left(1) [of m j "length es"] True b m by simp
      ultimately show ?thesis by simp
    next
      case False
      have "\<not> is_pow2 m"
      proof
        assume "is_pow2 m"
        then obtain i where i: "m = 2 ^ i" using is_pow2_iff m by blast
        with False b m have "(2::nat) ^ j < 2 ^ i" "(2::nat) ^ i < 2 ^ Suc j" by auto
        then show False by (simp only: power_strict_increasing_iff)
      qed
      have "m - 2 ^ j < length es - 2 ^ j" using m False by simp
      with "1.IH"(2) [OF * j [symmetric]] False m b obtain s \<pi> where
        "consistency_nodes (m - 2 ^ j) (drop (2 ^ j) es) = (s, \<pi>)" "length s = 32" "\<forall>x \<in> set \<pi>. length x = 32"
        "consistency_run (m - 2 ^ j) (length es - 2 ^ j) s \<pi>
           = Some (0, mth (take (m - 2 ^ j) (drop (2 ^ j) es)), mth (drop (2 ^ j) es))"
        by auto
      moreover from this have "consistency_nodes m es = (s, \<pi> @ [mth (take (2 ^ j) es)])"
        using * j False by (simp add: consistency_nodes.simps [of m es] Let_def)
      moreover have "mth (take m es) = node_hash (mth (take (2 ^ j) es)) (mth (take (m - 2 ^ j) (drop (2 ^ j) es)))"
        using mth_take_split [of j m es] False m b by simp
      moreover from calculation split have
        "consistency_run m (length es) s (\<pi> @ [mth (take (2 ^ j) es)]) = Some (0, mth (take m es), mth es)"
        using consistency_run_right(1) [of j m "length es"] False b m by simp
      ultimately show ?thesis
        using \<open>\<not> is_pow2 m\<close> by simp
    qed
  qed
qed

section \<open>The root determines the entries\<close>

lemma mth_inj:
  "length es = length es' \<Longrightarrow> mth es = mth es' \<Longrightarrow>
   es = es' \<or> collides (set (tree_inputs es) \<union> set (tree_inputs es'))"
proof (induction "length es" arbitrary: es es' rule: less_induct)
  case less
  consider "length es = 0" | "length es = 1" | "2 \<le> length es" by linarith
  then show ?case
  proof cases
    case 1
    with less.prems show ?thesis by simp
  next
    case 2
    with less.prems(1) have "length es = Suc 0" "length es' = Suc 0" by simp_all
    then obtain a b where ab: "es = [a]" "es' = [b]" by (auto simp: length_Suc_conv)
    with less.prems(2) leaf_hash_inj [of a b] show ?thesis by (auto intro: collides_pair)
  next
    case 3
    define k where "k = split_point (length es)"
    have k: "1 \<le> k" "k < length es" using split_point_bounds [OF 3] by (auto simp: k_def)
    have len': "2 \<le> length es'" using 3 less.prems by simp
    note eqs = mth_split [OF 3] mth_split [OF len'] tree_inputs_split [OF 3] tree_inputs_split [OF len']
    note sp = eqs [unfolded less.prems(1) [symmetric], folded k_def]
    from less.prems(2) sp(1,2) consider
      "mth (take k es) = mth (take k es')" "mth (drop k es) = mth (drop k es')"
      | "sha_collision (1 # mth (take k es) @ mth (drop k es)) (1 # mth (take k es') @ mth (drop k es'))"
      using node_hash_inj [of "mth (take k es)" "mth (drop k es)" "mth (take k es')" "mth (drop k es')"] by auto
    then show ?thesis
    proof cases
      case 1
      have "take k es = take k es' \<or> collides (set (tree_inputs (take k es)) \<union> set (tree_inputs (take k es')))"
        using less.hyps [of "take k es" "take k es'"] k less.prems(1) 1(1) by simp
      moreover have "drop k es = drop k es' \<or> collides (set (tree_inputs (drop k es)) \<union> set (tree_inputs (drop k es')))"
        using less.hyps [of "drop k es" "drop k es'"] k less.prems(1) 1(2) by simp
      ultimately consider "es = es'" | "collides (set (tree_inputs (take k es)) \<union> set (tree_inputs (take k es')))"
        | "collides (set (tree_inputs (drop k es)) \<union> set (tree_inputs (drop k es')))"
        by (metis append_take_drop_id)
      then show ?thesis
        by cases (auto simp: sp(3,4) collides_def)
    next
      case 2
      with sp(3,4) show ?thesis by (auto intro: collides_pair)
    qed
  qed
qed

section \<open>Properties\<close>

lemma mth_three:
  "mth [a, b, c] = node_hash (node_hash (leaf_hash a) (leaf_hash b)) (leaf_hash c)"
  using mth_split [of "[a, b, c]"] mth_split [of "[a, b]"]
  by (simp add: split_point.simps)

text \<open>
  C3: a consistency proof accepted between an old checkpoint and a checkpoint for the entries
  \<open>es\<close> proves that the log only grew: the old root is the Merkle tree hash of the first \<open>m\<close>
  entries of \<open>es\<close>, unless two different byte strings with one SHA-256 digest exist.
\<close>

theorem consistency_sound:
  assumes "verify_consistency m (int (length es)) old_root (mth es) path"
  shows "0 \<le> m \<and> m \<le> int (length es) \<and> (old_root = mth (take (nat m) es) \<or>
    collides (set (consistency_inputs (nat m) (length es) old_root path) \<union> set (tree_inputs es)))"
  by (rule verify_consistency_prefix [OF assms])

theorem consistency_sound_witness:
  "0 \<le> (2::int) \<and> 2 \<le> int (length [[1], [2], [3 :: byte]])
   \<and> (node_hash (leaf_hash [1]) (leaf_hash [2]) = mth (take (nat 2) [[1], [2], [3 :: byte]]) \<or>
     collides (set (consistency_inputs (nat 2) (length [[1], [2], [3 :: byte]])
         (node_hash (leaf_hash [1]) (leaf_hash [2])) [leaf_hash [3]]) \<union> set (tree_inputs [[1], [2], [3]])))"
proof (rule consistency_sound)
  show "verify_consistency 2 (int (length [[1], [2], [3 :: byte]]))
      (node_hash (leaf_hash [1]) (leaf_hash [2])) (mth [[1], [2], [3]]) [leaf_hash [3]]"
    by (simp add: verify_consistency_def mth_three strip_ones.simps is_pow2_def Let_def)
qed

text \<open>
  C18: every honest history passes: for \<open>m\<close> at most the number of entries, the proof that
  RFC 6962 prescribes is accepted between the roots of the prefix and of the whole list.
\<close>

theorem consistency_complete:
  assumes "0 < m" "m < length es"
  shows "verify_consistency (int m) (int (length es)) (mth (take m es)) (mth es)
    (consistency_proof m es)"
proof -
  from consistency_nodes_run [of m es] assms obtain s \<pi> where
    *: "consistency_nodes m es = (s, \<pi>)" "length s = 32" "\<forall>x \<in> set \<pi>. length x = 32"
      "is_pow2 m \<longrightarrow> s = mth (take m es)"
      "consistency_run m (length es) s \<pi> = Some (0, mth (take m es), mth es)" by blast
  show ?thesis
    by (rule verify_consistency_run [OF assms, THEN iffD2], rule exI [of _ s], rule exI [of _ \<pi>])
      (use * in \<open>auto simp: consistency_proof_def\<close>)
qed

theorem consistency_complete_witness:
  "verify_consistency (int 3) (int (length [[1], [2], [3], [4 :: byte]]))
     (mth (take 3 [[1], [2], [3], [4]])) (mth [[1], [2], [3], [4]])
     (consistency_proof 3 [[1], [2], [3], [4]])"
  by (rule consistency_complete) simp_all

text \<open>
  C14: membership. When \<^verbatim>\<open>verify_inclusion\<close> accepts an entry under the root of \<open>es\<close>, the entry is
  one of \<open>es\<close> (or a digest collision exists), whatever index, size and proof length were claimed.
\<close>

theorem inclusion_sound:
  assumes "verify_inclusion e i n (mth es) path = Inr True"
  shows "e \<in> set es \<or>
    collides (set (inclusion_inputs e (nat i) (nat n) path) \<union> set (tree_inputs es))"
  using assms inclusion_loop_member [of e "nat i" "nat n" path es]
  by (auto simp: verify_inclusion_def inclusion_root_def split: if_splits)

theorem inclusion_sound_witness:
  "[3] \<in> set [[1], [2], [3 :: byte]] \<or>
   collides (set (inclusion_inputs [3] (nat 2) (nat 3) [node_hash (leaf_hash [1]) (leaf_hash [2])])
     \<union> set (tree_inputs [[1], [2], [3]]))"
  by (rule inclusion_sound)
    (simp add: verify_inclusion_def inclusion_root_def mth_three)

text \<open>
  The position. When the accepted proof also has the length that the tree gives the path of
  index \<open>i\<close>, the entry is the one at position \<open>i\<close>.
\<close>

theorem inclusion_index_sound:
  assumes "verify_inclusion e (int i) (int (length es)) (mth es) path = Inr True"
    and "inclusion_proof es (int i) = Inr honest" and "length path = length honest"
  shows "e = es ! i \<or> collides (set (inclusion_inputs e i (length es) path)
    \<union> set (inclusion_inputs (es ! i) i (length es) honest))"
proof -
  from assms(1) have i: "i < length es" and
    root: "inclusion_loop (leaf_hash e) i (length es) path = mth es"
    by (auto simp: verify_inclusion_def inclusion_root_def split: if_splits)
  have "honest = inclusion_proof_loop (map leaf_hash es) i"
    using assms(2) by (auto simp: inclusion_proof_def split: if_splits)
  then have "inclusion_loop (leaf_hash (es ! i)) i (length es) honest = mth es"
    using inclusion_complete_loop [of i "map leaf_hash es"] i
    by (auto simp: merkle_levels_tree_hash mth_def)
  with root assms(3) consider "leaf_hash e = leaf_hash (es ! i)"
    | "collides (set (path_inputs (leaf_hash e) i (length es) path)
        \<union> set (path_inputs (leaf_hash (es ! i)) i (length es) honest))"
    using inclusion_loop_inj [of "leaf_hash e" i "length es" path "leaf_hash (es ! i)" honest] by auto
  then show ?thesis
  proof cases
    case 1
    then show ?thesis using leaf_hash_inj by (auto simp: inclusion_inputs_def intro: collides_pair)
  next
    case 2
    then show ?thesis by (auto simp: inclusion_inputs_def collides_def)
  qed
qed

theorem inclusion_index_sound_witness:
  "[3 :: byte] = [[1], [2], [3]] ! 2 \<or>
   collides (set (inclusion_inputs [3] 2 (length [[1], [2], [3 :: byte]]) [node_hash (leaf_hash [1]) (leaf_hash [2])])
     \<union> set (inclusion_inputs ([[1], [2], [3]] ! 2) 2 (length [[1], [2], [3 :: byte]])
         [node_hash (leaf_hash [1]) (leaf_hash [2])]))"
proof (rule inclusion_index_sound)
  show "verify_inclusion [3] (int 2) (int (length [[1], [2], [3 :: byte]])) (mth [[1], [2], [3]])
      [node_hash (leaf_hash [1]) (leaf_hash [2])] = Inr True"
    by (simp add: verify_inclusion_def inclusion_root_def mth_three)
  show "inclusion_proof [[1], [2], [3 :: byte]] (int 2) =
      Inr [node_hash (leaf_hash [1]) (leaf_hash [2])]"
    by (simp add: inclusion_proof_def inclusion_proof_loop.simps)
qed simp

text \<open>
  C19: the root that the code computes level by level is the recursive Merkle tree hash of
  RFC 6962 for every entry list, the empty one included.
\<close>

theorem merkle_root_is_mth: "merkle_root_from_entries entries = mth entries"
  by (rule merkle_root_eq_mth)

text \<open>
  C20: the proof that the scanning source builds for entry \<open>i\<close> of a complete entry list is
  accepted for that entry, index, size and root.
\<close>

theorem inclusion_complete:
  assumes "i < length es"
  shows "\<exists>path. inclusion_proof es (int i) = Inr path \<and>
    verify_inclusion (es ! i) (int i) (int (length es)) (merkle_root_from_entries es) path = Inr True"
proof -
  have "es \<noteq> []" using assms by auto
  with assms inclusion_complete_loop [of i "map leaf_hash es"] show ?thesis
    by (simp add: inclusion_proof_def verify_inclusion_def inclusion_root_def merkle_root_from_entries_def)
qed

theorem inclusion_complete_witness:
  "\<exists>path. inclusion_proof [[1], [2], [3 :: byte]] (int 1) = Inr path \<and>
    verify_inclusion ([[1], [2], [3]] ! 1) (int 1) (int (length [[1], [2], [3 :: byte]]))
      (merkle_root_from_entries [[1], [2], [3]]) path = Inr True"
  by (rule inclusion_complete) simp

text \<open>
  The length of the proof is not checked against index and size, and in a tree that is not
  perfect this confuses positions: the one-element proof for the last of three entries also
  "proves" that entry at index 1.
\<close>

theorem inclusion_index_confusion:
  "verify_inclusion e2 1 3 (merkle_root_from_entries [e0, e1, e2])
     [node_hash (leaf_hash e0) (leaf_hash e1)] = Inr True"
  by (simp add: verify_inclusion_def inclusion_root_def merkle_root_eq_mth mth_three)

end
