(* ===== verification/Tlog_Proof.thy ===== *)
theory Tlog_Proof
  imports Policy Merkle
begin

text \<open>
  \<^verbatim>\<open>dnsid/c2sp_tlog/proof.py\<close>: the text format of inclusion proofs and their verification against
  a checkpoint that the local policy accepts.
\<close>

record TlogProofV1 =
  tp_index :: int
  tp_hashes :: "bytes list"
  tp_checkpoint :: Checkpoint
  tp_extra :: "pystr list"

text \<open>The bodies of \<^verbatim>\<open>_B64_RE\<close> and \<^verbatim>\<open>_INT_RE\<close>, both used with \<^verbatim>\<open>match\<close> and \<^verbatim>\<open>$\<close>.\<close>

definition b64_body :: "pystr \<Rightarrow> bool" where
  "b64_body s =
     (let rest = dropWhile (\<lambda>c. is_alnum c \<or> c = 43 \<or> c = 47) s
      in length rest \<le> 2 \<and> (\<forall>c \<in> set rest. c = 61))"

definition parse_safe_int :: "pystr \<Rightarrow> int res" where
  "parse_safe_int s =
     (if \<not> re_dollar canonical_dec s then parse_err ''invalid proof index'' else py_int s)"

definition parse_proof_hash :: "pystr \<Rightarrow> bytes res" where
  "parse_proof_hash line =
     (if \<not> re_dollar b64_body line then parse_err ''invalid inclusion proof hash''
      else rbind (b64_std_decode line) (\<lambda>h.
             if length h \<noteq> 32 then parse_err ''inclusion proof hash must be SHA-256 sized''
             else Inr h))"

definition parse_tlog_proof_v1 :: "pystr \<Rightarrow> TlogProofV1 res" where
  "parse_tlog_proof_v1 text =
     (if 13 \<in> set text then parse_err ''tlog proof must use LF line endings''
      else
        (case find_sub text [10, 10] of
           None \<Rightarrow> parse_err ''tlog-proof@v1 missing checkpoint separator''
         | Some sp \<Rightarrow>
             let header = split_on 10 (take sp text) in
             if header ! 0 \<noteq> str ''c2sp.org/tlog-proof@v1''
             then parse_err ''missing c2sp.org/tlog-proof@v1 magic''
             else
               (let has_extra = (1 < length header \<and> startswith (header ! 1) (str ''extra '')) in
                if has_extra \<and> \<not> re_dollar b64_body (drop 6 (header ! 1))
                then parse_err ''invalid proof extra data''
                else
                  (let extra = (if has_extra then [drop 6 (header ! 1)] else []);
                       cursor = (if has_extra then 2 else 1)
                   in if cursor \<ge> length header \<or> \<not> startswith (header ! cursor) (str ''index '')
                      then parse_err ''tlog proof missing index''
                      else
                        rbind (parse_safe_int (drop 6 (header ! cursor))) (\<lambda>index.
                        rbind (mapR parse_proof_hash (drop (cursor + 1) header)) (\<lambda>hashes.
                        rbind (parse_checkpoint (drop (sp + 2) text)) (\<lambda>checkpoint.
                          Inr \<lparr>tp_index = index, tp_hashes = hashes, tp_checkpoint = checkpoint,
                               tp_extra = extra\<rparr>)))))))"

text \<open>The argument \<^verbatim>\<open>proof\<close> is a parsed proof or its text.\<close>

definition verify_c2sp_tlog_proof ::
  "(bytes \<Rightarrow> bytes \<Rightarrow> bytes \<Rightarrow> bool) \<Rightarrow> bytes \<Rightarrow> TlogProofV1 + pystr \<Rightarrow> C2spTlogPolicy \<Rightarrow> pystr option \<Rightarrow> pystr
   \<Rightarrow> rat \<Rightarrow> int \<Rightarrow> TlogProofV1 res" where
  "verify_c2sp_tlog_proof ed_verify entry_bytes proof policy origin scope now_ms max_clock_skew_ms =
     rbind (case proof of Inl p \<Rightarrow> Inr p | Inr text \<Rightarrow> parse_tlog_proof_v1 text) (\<lambda>p.
     rbind (enforce_checkpoint_policy ed_verify (tp_checkpoint p)
              (case origin of Some o' \<Rightarrow> o' | None \<Rightarrow> ck_origin (tp_checkpoint p))
              policy scope now_ms max_clock_skew_ms) (\<lambda>_.
     rbind (verify_inclusion entry_bytes (tp_index p) (ck_tree_size (tp_checkpoint p))
              (ck_root_hash (tp_checkpoint p)) (tp_hashes p)) (\<lambda>ok.
       if ok then Inr p else verif_err ''invalid C2SP inclusion proof'')))"

section \<open>Lemmas\<close>

lemma parse_proof_hash_length: "parse_proof_hash line = Inr h \<Longrightarrow> length h = 32"
  by (auto simp: parse_proof_hash_def res_simps split: if_splits)

lemma parse_tlog_proof_fields:
  assumes "parse_tlog_proof_v1 text = Inr p"
  shows "0 \<le> tp_index p" "\<And>h. h \<in> set (tp_hashes p) \<Longrightarrow> length h = 32"
    "\<exists>t. parse_checkpoint t = Inr (tp_checkpoint p)"
proof -
  from assms obtain s ls t where *: "parse_safe_int s = Inr (tp_index p)"
    "mapR parse_proof_hash ls = Inr (tp_hashes p)" "parse_checkpoint t = Inr (tp_checkpoint p)"
    by (auto simp: parse_tlog_proof_v1_def Let_def rbind_Inr_iff split: if_splits option.splits)
  from *(1) show "0 \<le> tp_index p" by (simp add: parse_safe_int_def py_int_Inr_iff split: if_splits)
  show "length h = 32" if "h \<in> set (tp_hashes p)" for h
    using mapR_in_set [OF *(2) that] parse_proof_hash_length by blast
  from *(3) show "\<exists>t. parse_checkpoint t = Inr (tp_checkpoint p)" ..
qed

lemma verify_tlog_proof_unfold:
  assumes "verify_c2sp_tlog_proof ed_verify e pf policy origin scope now_ms skew = Inr p"
  shows "(case pf of Inl q \<Rightarrow> q = p | Inr text \<Rightarrow> parse_tlog_proof_v1 text = Inr p)"
    "\<exists>res. enforce_checkpoint_policy ed_verify (tp_checkpoint p)
       (case origin of Some o' \<Rightarrow> o' | None \<Rightarrow> ck_origin (tp_checkpoint p)) policy scope now_ms skew = Inr res"
    "verify_inclusion e (tp_index p) (ck_tree_size (tp_checkpoint p)) (ck_root_hash (tp_checkpoint p))
       (tp_hashes p) = Inr True"
  using assms
  by (auto simp: verify_c2sp_tlog_proof_def rbind_Inr_iff split: sum.splits if_splits)

section \<open>Properties\<close>

text \<open>
  C17: a verified inclusion proof. The checkpoint passed the local policy (so a configured log key
  signed it), and if its root commits to the entries \<open>es\<close>, the entry is one of them, unless two of the
  strings hashed by the verification and by the tree collide.
\<close>

theorem tlog_proof_sound:
  assumes "verify_c2sp_tlog_proof ed_verify e pf policy (Some origin) scope now_ms skew = Inr p"
    and "ck_root_hash (tp_checkpoint p) = mth es"
  shows "(\<exists>np k. normalized_origin_policy policy origin = Inr np \<and> k \<in> set (np_log_keys np)
      \<and> sk_name k = origin \<and> verify_checkpoint_signature ed_verify (tp_checkpoint p) k)
    \<and> (e \<in> set es \<or> collides (set (inclusion_inputs e (nat (tp_index p))
          (nat (ck_tree_size (tp_checkpoint p))) (tp_hashes p)) \<union> set (tree_inputs es)))"
proof
  from verify_tlog_proof_unfold(2) [OF assms(1)] obtain res where
    "enforce_checkpoint_policy ed_verify (tp_checkpoint p) origin policy scope now_ms skew = Inr res" by auto
  from enforce_unfold [OF this] normalized_policy_sound(4)
  show "\<exists>np k. normalized_origin_policy policy origin = Inr np \<and> k \<in> set (np_log_keys np)
      \<and> sk_name k = origin \<and> verify_checkpoint_signature ed_verify (tp_checkpoint p) k" by metis
  show "e \<in> set es \<or> collides (set (inclusion_inputs e (nat (tp_index p))
          (nat (ck_tree_size (tp_checkpoint p))) (tp_hashes p)) \<union> set (tree_inputs es))"
    using verify_tlog_proof_unfold(3) [OF assms(1)] assms(2)
      inclusion_loop_member [of e "nat (tp_index p)" "nat (ck_tree_size (tp_checkpoint p))" "tp_hashes p" es]
    by (auto simp: verify_inclusion_def inclusion_root_def split: if_splits)
qed

definition sample_proof :: TlogProofV1 where
  "sample_proof =
     \<lparr>tp_index = 0, tp_hashes = [], tp_checkpoint = sample_checkpoint\<lparr>ck_root_hash := leaf_hash [9]\<rparr>,
      tp_extra = []\<rparr>"

theorem tlog_proof_sound_witness:
  "(\<exists>np k. normalized_origin_policy sample_policy (str ''log'') = Inr np \<and> k \<in> set (np_log_keys np)
      \<and> sk_name k = str ''log'' \<and> verify_checkpoint_signature (\<lambda>_ _ _. True) (tp_checkpoint sample_proof) k)
    \<and> ([9 :: byte] \<in> set [[9]] \<or> collides (set (inclusion_inputs [9] (nat (tp_index sample_proof))
          (nat (ck_tree_size (tp_checkpoint sample_proof))) (tp_hashes sample_proof)) \<union> set (tree_inputs [[9]])))"
proof (rule tlog_proof_sound)
  let ?c = "sample_checkpoint\<lparr>ck_root_hash := leaf_hash [9]\<rparr>"
  have eq: "verify_checkpoint_signature ed_verify ?c k = verify_checkpoint_signature ed_verify sample_checkpoint k"
    "verified_cosignature_timestamp ed_verify ?c = verified_cosignature_timestamp ed_verify sample_checkpoint"
    for ed_verify k
    by (simp_all add: verify_checkpoint_signature_def verified_cosignature_timestamp_def fun_eq_iff)
  have "enforce_checkpoint_policy (\<lambda>_ _ _. True) ?c (str ''log'') sample_policy (str ''testnet'') 0 0
      = enforce_checkpoint_policy (\<lambda>_ _ _. True) sample_checkpoint (str ''log'') sample_policy (str ''testnet'') 0 0"
    unfolding enforce_checkpoint_policy_def eq by (simp add: sample_checkpoint_def)
  then show "verify_c2sp_tlog_proof (\<lambda>_ _ _. True) [9] (Inl sample_proof) sample_policy (Some (str ''log''))
      (str ''testnet'') 0 0 = Inr sample_proof"
    unfolding sample_enforced
    by (simp add: verify_c2sp_tlog_proof_def sample_proof_def verify_inclusion_def inclusion_root_def)
      (simp add: sample_checkpoint_def)
  show "ck_root_hash (tp_checkpoint sample_proof) = mth [[9]]" by (simp add: sample_proof_def)
qed

text \<open>
  C24: the proof parser accepts only well-shaped proofs: a non-negative index, hashes of 32 bytes, and
  a checkpoint with a non-empty single-line origin, a non-negative size and a 32-byte root.
\<close>

theorem parsed_proof_wellformed:
  assumes "parse_tlog_proof_v1 text = Inr p"
  shows "0 \<le> tp_index p \<and> list_all (\<lambda>h. length h = 32) (tp_hashes p)
    \<and> ck_origin (tp_checkpoint p) \<noteq> [] \<and> 10 \<notin> set (ck_origin (tp_checkpoint p))
    \<and> 0 \<le> ck_tree_size (tp_checkpoint p) \<and> length (ck_root_hash (tp_checkpoint p)) = 32"
proof -
  from parse_tlog_proof_fields(3) [OF assms] obtain t where "parse_checkpoint t = Inr (tp_checkpoint p)" ..
  from parse_body_fields [OF parse_checkpoint_body [OF this]] parse_tlog_proof_fields(1,2) [OF assms]
  show ?thesis by (simp add: list_all_iff)
qed


definition sample_proof_text :: pystr where
  "sample_proof_text =
     str ''c2sp.org/tlog-proof@v1'' @ [10] @ str ''index 0'' @ [10, 10] @ str ''log'' @ [10]
     @ str ''1'' @ [10] @ replicate 43 65 @ [61, 10]"

definition sample_parsed :: TlogProofV1 where
  "sample_parsed =
     \<lparr>tp_index = 0, tp_hashes = [],
      tp_checkpoint = \<lparr>ck_origin = str ''log'', ck_tree_size = 1, ck_root_hash = replicate 32 0,
        ck_signatures = [], ck_signed_text = str ''log'' @ [10] @ str ''1'' @ [10] @ replicate 43 65 @ [61, 10]\<rparr>,
      tp_extra = []\<rparr>"

theorem parsed_proof_wellformed_witness:
  "0 \<le> tp_index sample_parsed \<and> list_all (\<lambda>h. length h = 32) (tp_hashes sample_parsed)
    \<and> ck_origin (tp_checkpoint sample_parsed) \<noteq> [] \<and> 10 \<notin> set (ck_origin (tp_checkpoint sample_parsed))
    \<and> 0 \<le> ck_tree_size (tp_checkpoint sample_parsed)
    \<and> length (ck_root_hash (tp_checkpoint sample_parsed)) = 32"
  by (rule parsed_proof_wellformed [of sample_proof_text]) code_simp

text \<open>
  The hash lines of a proof are decoded outside any handler, so a line of one base64 character
  escapes the parser as \<^verbatim>\<open>binascii.Error\<close> and not as the documented \<^verbatim>\<open>C2spTlogParseError\<close>.
\<close>

theorem proof_hash_line_escapes:
  "parse_tlog_proof_v1 (str ''c2sp.org/tlog-proof@v1'' @ [10] @ str ''index 0'' @ [10] @ str ''A'' @ [10, 10] @ rest)
     = Inl (ValueError ''binascii.Error'') \<or> 13 \<in> set rest"
proof -
  have "find_sub (str ''c2sp.org/tlog-proof@v1'' @ [10] @ str ''index 0'' @ [10] @ str ''A'' @ [10, 10] @ rest) [10, 10]
      = Some 32"
    by (simp add: startswith_def)
  moreover have "parse_safe_int (str ''0'') = Inr 0" "parse_proof_hash (str ''A'') = Inl (ValueError ''binascii.Error'')"
    "split_on 10 (str ''c2sp.org/tlog-proof@v1'' @ [10] @ str ''index 0'' @ [10] @ str ''A'')
      = [str ''c2sp.org/tlog-proof@v1'', str ''index 0'', str ''A'']"
    by code_simp+
  ultimately show ?thesis
    by (simp add: parse_tlog_proof_v1_def startswith_def)
qed

end
