(* ===== verification/Checkpoint_Store.thy ===== *)
theory Checkpoint_Store
  imports Merkle "HOL-Library.Sublist"
begin

text \<open>
  \<^verbatim>\<open>dnsid/c2sp_tlog/checkpoint_store.py\<close>: the trusted checkpoint per log origin, and the consistency
  callback \<^verbatim>\<open>_enforce_append_only_consistency\<close> of \<^verbatim>\<open>reader.py\<close> that advances it.

  The abstract class \<^verbatim>\<open>CheckpointStore\<close> is the locale \<open>trusted_store\<close>; its client lemmas show that
  trust never shrinks and never forks along a sequence of calls. \<^verbatim>\<open>InMemoryCheckpointStore\<close> is the
  interpretation. The last section takes the per-origin lock apart into atomic steps of several
  threads and shows that every interleaving is a sequence of whole \<^verbatim>\<open>verify_and_advance\<close> calls.

  A datetime is naive, or aware with its local microseconds and its offset from UTC.
\<close>

section \<open>Data\<close>

datatype pydatetime = Naive int | Aware int int

record TrustedCheckpoint =
  tc_origin :: pystr
  tc_tree_size :: int
  tc_root_hash :: bytes
  tc_witness_time :: pydatetime

text \<open>\<^verbatim>\<open>astimezone(UTC)\<close>, which overflows outside the years 1 to 9999.\<close>

definition datetime_range :: "int \<Rightarrow> bool" where
  "datetime_range us \<longleftrightarrow> -62135596800000000 \<le> us \<and> us \<le> 253402300799999999"

definition validate_origin :: "pystr \<Rightarrow> unit res" where
  "validate_origin origin =
     guard (py_strip origin \<noteq> []) (ValueError ''checkpoint origin must be nonempty'')"

definition checkpoint_snapshot :: "TrustedCheckpoint \<Rightarrow> TrustedCheckpoint res" where
  "checkpoint_snapshot checkpoint =
     rbind (validate_origin (tc_origin checkpoint)) (\<lambda>_.
     rbind (guard (0 \<le> tc_tree_size checkpoint)
              (ValueError ''checkpoint tree size must be a non-negative integer'')) (\<lambda>_.
     rbind (guard (length (tc_root_hash checkpoint) = 32)
              (ValueError ''checkpoint root must be a 32-byte SHA-256 hash'')) (\<lambda>_.
     rbind (guard (\<not> (tc_tree_size checkpoint = 0 \<and> tc_root_hash checkpoint \<noteq> sha256 []))
              (ValueError ''empty checkpoint root must be SHA-256 of the empty string'')) (\<lambda>_.
       (case tc_witness_time checkpoint of
          Naive _ \<Rightarrow> Inl (ValueError ''checkpoint witness time must be timezone-aware'')
        | Aware us off \<Rightarrow>
            if datetime_range (us - off)
            then Inr (checkpoint\<lparr>tc_witness_time := Aware (us - off) 0\<rparr>)
            else Inl (ValueError ''checkpoint witness time is outside the supported range''))))))"

definition stored_checkpoint ::
  "TrustedCheckpoint option \<Rightarrow> pystr \<Rightarrow> TrustedCheckpoint option res" where
  "stored_checkpoint checkpoint origin =
     (case checkpoint of
        None \<Rightarrow> Inr None
      | Some c \<Rightarrow>
          (case rbind (checkpoint_snapshot c) (\<lambda>snapshot.
                  if tc_origin snapshot \<noteq> origin
                  then Inl (ValueError ''stored checkpoint origin mismatch'')
                  else Inr snapshot) of
             Inl _ \<Rightarrow> Inl (C2spCheckpointStoreError ''malformed stored checkpoint'')
           | Inr snapshot \<Rightarrow> Inr (Some snapshot)))"

section \<open>The in-memory store\<close>

text \<open>The state is \<^verbatim>\<open>_by_origin\<close>; an operation returns its result and the new state.\<close>

type_synonym store = "TrustedCheckpoint dict"

definition consistency_error ::
  "string \<Rightarrow> C2spLifecycleErrorCategory \<Rightarrow> TrustedCheckpoint \<Rightarrow> TrustedCheckpoint \<Rightarrow> exn" where
  "consistency_error m category trusted observed =
     C2spCheckpointConsistencyError m category (tc_origin trusted) (tc_tree_size trusted)
       (tc_tree_size observed) (tc_root_hash trusted) (tc_root_hash observed)"

definition advance_locked :: "store \<Rightarrow> TrustedCheckpoint \<Rightarrow> store res" where
  "advance_locked st checkpoint =
     (case map_of st (tc_origin checkpoint) of
        None \<Rightarrow> Inr (dict_set (tc_origin checkpoint) checkpoint st)
      | Some current \<Rightarrow>
          if tc_tree_size checkpoint = tc_tree_size current
             \<and> tc_root_hash checkpoint \<noteq> tc_root_hash current
          then Inl (consistency_error ''equal-size checkpoint has a conflicting root'' LOG_FORK
                      current checkpoint)
          else if tc_tree_size checkpoint \<ge> tc_tree_size current
          then Inr (dict_set (tc_origin checkpoint) checkpoint st)
          else Inr st)"

definition store_get :: "store \<Rightarrow> pystr \<Rightarrow> TrustedCheckpoint option res" where
  "store_get st origin =
     rbind (validate_origin origin) (\<lambda>_. stored_checkpoint (map_of st origin) origin)"

definition verify_and_advance ::
  "store \<Rightarrow> TrustedCheckpoint \<Rightarrow> (TrustedCheckpoint option \<Rightarrow> unit res) \<Rightarrow> unit res \<times> store" where
  "verify_and_advance st candidate verify =
     (case rbind (checkpoint_snapshot candidate) (\<lambda>c.
           rbind (validate_origin (tc_origin c)) (\<lambda>_.
           rbind (stored_checkpoint (map_of st (tc_origin c)) (tc_origin c)) (\<lambda>stored.
           rbind (verify stored) (\<lambda>_. advance_locked st c)))) of
        Inl e \<Rightarrow> (Inl e, st)
      | Inr st' \<Rightarrow> (Inr (), st'))"

definition store_put :: "store \<Rightarrow> TrustedCheckpoint \<Rightarrow> unit res \<times> store" where
  "store_put st checkpoint = verify_and_advance st checkpoint (\<lambda>stored. Inr ())"

section \<open>The consistency callback of the reader\<close>

text \<open>
  \<^verbatim>\<open>_verify\<close> of \<^verbatim>\<open>_enforce_append_only_consistency\<close>: \<open>entries\<close> are the data of the scanned entries in
  the order of their index. \<^verbatim>\<open>entries[: n]\<close> is \<open>take\<close>, as stored sizes are not negative.
\<close>

definition append_only_verify ::
  "TrustedCheckpoint \<Rightarrow> bytes list \<Rightarrow> TrustedCheckpoint option \<Rightarrow> unit res" where
  "append_only_verify candidate entries stored0 =
     rbind (stored_checkpoint stored0 (tc_origin candidate)) (\<lambda>stored1.
       (case stored1 of
          None \<Rightarrow> Inr ()
        | Some stored \<Rightarrow>
            if tc_tree_size stored > tc_tree_size candidate
            then Inl (consistency_error ''C2SP checkpoint tree size regressed'' LOG_ROLLBACK stored candidate)
            else if tc_tree_size stored = tc_tree_size candidate
                 \<and> tc_root_hash stored \<noteq> tc_root_hash candidate
            then Inl (consistency_error
                        ''C2SP checkpoint is not consistent: different root at trusted size''
                        LOG_FORK stored candidate)
            else if merkle_root_from_entries (take (nat (tc_tree_size stored)) entries)
                 \<noteq> tc_root_hash stored
            then Inl (consistency_error
                        ''C2SP checkpoint is not consistent with the trusted checkpoint''
                        LOG_INCONSISTENT stored candidate)
            else Inr ()))"

definition enforce_append_only_consistency ::
  "store \<Rightarrow> pystr \<Rightarrow> int \<Rightarrow> bytes \<Rightarrow> bytes list \<Rightarrow> pydatetime \<Rightarrow> unit res \<times> store" where
  "enforce_append_only_consistency st origin tree_size root_hash entries witness_time =
     (let candidate = \<lparr>tc_origin = origin, tc_tree_size = tree_size, tc_root_hash = root_hash,
                       tc_witness_time = witness_time\<rparr>
      in verify_and_advance st candidate (append_only_verify candidate entries))"

section \<open>The interface\<close>

text \<open>
  What \<^verbatim>\<open>CheckpointStore\<close> promises. \<open>trusted\<close> is the result of \<^verbatim>\<open>get\<close>, \<open>advance\<close> is
  \<^verbatim>\<open>verify_and_advance\<close>, \<open>inv\<close> the invariant of the implementation.
\<close>

definition supersedes :: "TrustedCheckpoint option \<Rightarrow> TrustedCheckpoint \<Rightarrow> bool" where
  "supersedes old new =
     (case old of None \<Rightarrow> True
      | Some t \<Rightarrow> tc_tree_size t \<le> tc_tree_size new
          \<and> (tc_tree_size t = tc_tree_size new \<longrightarrow> tc_root_hash t = tc_root_hash new))"

text \<open>A checkpoint that commits to an entry list, and the strings hashed for the lists of a history.\<close>

definition commits :: "TrustedCheckpoint \<Rightarrow> bytes list \<Rightarrow> bool" where
  "commits t es \<longleftrightarrow> tc_tree_size t = int (length es) \<and> tc_root_hash t = mth es"

definition history_inputs :: "bytes list list \<Rightarrow> bytes set" where
  "history_inputs ess = (\<Union>es \<in> set ess. \<Union>n \<le> length es. set (tree_inputs (take n es)))"

lemma history_inputs_member:
  "n \<le> length es \<Longrightarrow> es \<in> set ess \<Longrightarrow> set (tree_inputs (take n es)) \<subseteq> history_inputs ess"
  by (auto simp: history_inputs_def)

lemma snapshot_fields:
  "checkpoint_snapshot c = Inr c' \<Longrightarrow>
   tc_origin c' = tc_origin c \<and> tc_tree_size c' = tc_tree_size c \<and> tc_root_hash c' = tc_root_hash c
   \<and> 0 \<le> tc_tree_size c \<and> length (tc_root_hash c) = 32"
  by (auto simp: checkpoint_snapshot_def res_simps split: pydatetime.splits if_splits)

lemma snapshot_idem: "checkpoint_snapshot c = Inr c' \<Longrightarrow> checkpoint_snapshot c' = Inr c'"
  by (auto simp: checkpoint_snapshot_def validate_origin_def res_simps split: pydatetime.splits if_splits)

lemma append_only_verify_prefix:
  assumes "append_only_verify c es (Some t) = Inr ()" "commits t es0" "commits c es"
  shows "length es0 \<le> length es" "mth (take (length es0) es) = mth es0"
proof -
  from assms(1) obtain t1 where t1: "checkpoint_snapshot t = Inr t1" "\<not> tc_tree_size t1 > tc_tree_size c"
    "merkle_root_from_entries (take (nat (tc_tree_size t1)) es) = tc_root_hash t1"
    by (auto simp: append_only_verify_def stored_checkpoint_def rbind_Inr_iff
        split: sum.splits if_splits option.splits)
  with snapshot_fields [OF t1(1)] assms(2,3)
  show "length es0 \<le> length es" "mth (take (length es0) es) = mth es0"
    by (auto simp: commits_def merkle_root_eq_mth)
qed

locale trusted_store =
  fixes trusted :: "'s \<Rightarrow> pystr \<Rightarrow> TrustedCheckpoint option"
    and advance :: "'s \<Rightarrow> TrustedCheckpoint \<Rightarrow> (TrustedCheckpoint option \<Rightarrow> unit res) \<Rightarrow> unit res \<times> 's"
    and inv :: "'s \<Rightarrow> bool"
  assumes inv_advance: "inv s \<Longrightarrow> inv (snd (advance s c v))"
    and advance_fail: "advance s c v = (Inl e, s') \<Longrightarrow> s' = s"
    and advance_other: "inv s \<Longrightarrow> tc_origin c \<noteq> o' \<Longrightarrow> trusted (snd (advance s c v)) o' = trusted s o'"
    and advance_verified: "inv s \<Longrightarrow> advance s c v = (Inr (), s') \<Longrightarrow> v (trusted s (tc_origin c)) = Inr ()"
    and advance_result: "inv s \<Longrightarrow> advance s c v = (Inr (), s') \<Longrightarrow>
      \<exists>c'. checkpoint_snapshot c = Inr c' \<and>
        (if supersedes (trusted s (tc_origin c)) c' then trusted s' (tc_origin c) = Some c'
         else trusted s' (tc_origin c) = trusted s (tc_origin c))"
begin

text \<open>A sequence of calls; a call that raises leaves the state as it is.\<close>

fun run :: "'s \<Rightarrow> (TrustedCheckpoint \<times> (TrustedCheckpoint option \<Rightarrow> unit res)) list \<Rightarrow> 's" where
  "run s [] = s"
| "run s ((c, v) # calls) = run (snd (advance s c v)) calls"

lemma inv_run: "inv s \<Longrightarrow> inv (run s calls)"
  by (induction calls arbitrary: s) (auto simp: inv_advance)

lemma advance_supersedes:
  assumes "inv s" "trusted s o' = Some t"
  shows "\<exists>t'. trusted (snd (advance s c v)) o' = Some t' \<and> supersedes (Some t) t'"
proof (cases "tc_origin c = o'")
  case False
  with assms show ?thesis by (auto simp: advance_other supersedes_def)
next
  case True
  obtain r s' where rs: "advance s c v = (r, s')" by force
  show ?thesis
  proof (cases r)
    case (Inl e)
    with rs have "s' = s" by (simp add: advance_fail)
    with rs assms show ?thesis by (auto simp: supersedes_def)
  next
    case (Inr u)
    with rs have "advance s c v = (Inr (), s')" by simp
    from advance_result [OF assms(1) this] True assms(2) rs show ?thesis
      by (auto simp: supersedes_def split: if_splits)
  qed
qed

lemma supersedes_trans: "supersedes (Some a) b \<Longrightarrow> supersedes (Some b) c \<Longrightarrow> supersedes (Some a) c"
  by (auto simp: supersedes_def)

text \<open>Trust is kept and only grows: sizes do not shrink, and one size has one root.\<close>

lemma run_supersedes:
  "inv s \<Longrightarrow> trusted s o' = Some t \<Longrightarrow> \<exists>t'. trusted (run s calls) o' = Some t' \<and> supersedes (Some t) t'"
proof (induction calls arbitrary: s t)
  case Nil
  then show ?case by (auto simp: supersedes_def)
next
  case (Cons call calls)
  obtain c v where cv: "call = (c, v)" by force
  from advance_supersedes [OF Cons.prems] obtain t1 where
    t1: "trusted (snd (advance s c v)) o' = Some t1" "supersedes (Some t) t1" by blast
  from Cons.IH [OF inv_advance [OF Cons.prems(1)] t1(1)] obtain t' where
    "trusted (run (snd (advance s c v)) calls) o' = Some t'" "supersedes (Some t1) t'" by blast
  with t1(2) cv show ?case by (auto dest: supersedes_trans)
qed

text \<open>
  Calls that the reader makes: each candidate commits to a complete entry list, which the callback
  compares with the trusted root.
\<close>

definition reader_call ::
  "TrustedCheckpoint \<times> bytes list \<Rightarrow> TrustedCheckpoint \<times> (TrustedCheckpoint option \<Rightarrow> unit res)" where
  "reader_call = (\<lambda>(c, es). (c, append_only_verify c es))"

lemma reader_step:
  assumes "inv s" "trusted s o' = Some t" "commits t es0" "commits c es"
  defines "s' \<equiv> snd (advance s c (append_only_verify c es))"
  obtains "trusted s' o' = trusted s o'"
    | t' where "trusted s' o' = Some t'" "commits t' es"
        "length es0 \<le> length es" "take (length es0) es = es0 \<or>
          collides (set (tree_inputs es0) \<union> set (tree_inputs (take (length es0) es)))"
proof -
  obtain r s1 where rs: "advance s c (append_only_verify c es) = (r, s1)" by force
  show ?thesis
  proof (cases "r = Inr () \<and> tc_origin c = o'")
    case False
    moreover have "s' = s" if "r = Inl e" for e
      using rs that advance_fail by (simp add: s'_def)
    ultimately show ?thesis
      using that(1) advance_other [OF assms(1)] by (cases r) (auto simp: s'_def)
  next
    case True
    with rs have adv: "advance s c (append_only_verify c es) = (Inr (), s')" by (simp add: s'_def)
    from advance_verified [OF assms(1) adv] True assms(2)
    have v: "append_only_verify c es (Some t) = Inr ()" by simp
    from append_only_verify_prefix [OF v assms(3,4)]
    have pre: "length es0 \<le> length es" "mth (take (length es0) es) = mth es0" by auto
    from advance_result [OF assms(1) adv] True assms(2) consider
      "trusted s' o' = trusted s o'" | c' where "checkpoint_snapshot c = Inr c'" "trusted s' o' = Some c'"
      by (auto split: if_splits)
    then show ?thesis
    proof cases
      case (2 c')
      with assms(4) have "commits c' es" by (auto simp: commits_def dest: snapshot_fields)
      with 2 pre show ?thesis
        using that(2) mth_inj [of es0 "take (length es0) es"] by fastforce
    qed (rule that(1))
  qed
qed

text \<open>
  History is append-only: along any calls of the reader, the entries behind a trusted checkpoint
  stay a prefix of the entries behind every later one.
\<close>

lemma run_history:
  "inv s \<Longrightarrow> trusted s o' = Some t \<Longrightarrow> commits t es0 \<Longrightarrow> (\<And>c es. (c, es) \<in> set calls \<Longrightarrow> commits c es) \<Longrightarrow>
   \<exists>t' es'. trusted (run s (map reader_call calls)) o' = Some t' \<and> commits t' es' \<and>
     es' \<in> set (es0 # map snd calls) \<and>
     (prefix es0 es' \<or> collides (history_inputs (es0 # map snd calls)))"
proof (induction calls arbitrary: s t es0)
  case Nil
  then show ?case by auto
next
  case (Cons call calls)
  obtain c es where ce: "call = (c, es)" by force
  with Cons.prems(4) have c: "commits c es" by auto
  let ?s = "snd (advance s c (append_only_verify c es))"
  have step: "run s (map reader_call (call # calls)) = run ?s (map reader_call calls)"
    by (simp add: ce reader_call_def)
  have sub: "history_inputs (es0 # map snd calls) \<subseteq> history_inputs (es0 # map snd (call # calls))"
    "history_inputs (es # map snd calls) \<subseteq> history_inputs (es0 # map snd (call # calls))"
    by (auto simp: ce history_inputs_def)
  from reader_step [OF Cons.prems(1-3) c] show ?case
  proof cases
    case 1
    from Cons.IH [OF inv_advance [OF Cons.prems(1)] _ Cons.prems(3)] 1 Cons.prems(2,4)
    have "\<exists>t' es'. trusted (run ?s (map reader_call calls)) o' = Some t' \<and> commits t' es' \<and>
      es' \<in> set (es0 # map snd calls) \<and> (prefix es0 es' \<or> collides (history_inputs (es0 # map snd calls)))"
      by simp
    then show ?thesis unfolding step using collides_mono [OF _ sub(1)] by fastforce
  next
    case (2 t1)
    from Cons.IH [OF inv_advance [OF Cons.prems(1)] 2(1,2)] Cons.prems(4)
    obtain t' es' where t': "trusted (run ?s (map reader_call calls)) o' = Some t'" "commits t' es'"
      "es' \<in> set (es # map snd calls)" "prefix es es' \<or> collides (history_inputs (es # map snd calls))"
      by force
    from 2(4) have "prefix es0 es \<or> collides (history_inputs (es0 # map snd (call # calls)))"
    proof
      assume "take (length es0) es = es0"
      then show ?thesis by (metis take_is_prefix)
    next
      assume "collides (set (tree_inputs es0) \<union> set (tree_inputs (take (length es0) es)))"
      moreover have "set (tree_inputs es0) \<union> set (tree_inputs (take (length es0) es))
          \<subseteq> history_inputs (es0 # map snd (call # calls))"
        using 2(3) history_inputs_member [of "length es0" es0] history_inputs_member [of "length es0" es]
        by (simp add: ce)
      ultimately show ?thesis using collides_mono by blast
    qed
    with t' show ?thesis unfolding step
      using collides_mono [OF _ sub(2)] prefix_order.trans [of es0 es es'] by (auto simp: ce)
  qed
qed

end

section \<open>The in-memory store implements the interface\<close>

definition store_inv :: "store \<Rightarrow> bool" where
  "store_inv st \<longleftrightarrow> (\<forall>o' c. map_of st o' = Some c \<longrightarrow> tc_origin c = o' \<and> checkpoint_snapshot c = Inr c)"

definition store_trusted :: "store \<Rightarrow> pystr \<Rightarrow> TrustedCheckpoint option" where
  "store_trusted st origin = (case store_get st origin of Inr x \<Rightarrow> x | Inl _ \<Rightarrow> None)"

lemma store_trusted_inv: "store_inv st \<Longrightarrow> store_trusted st origin = map_of st origin"
proof (cases "map_of st origin")
  case None
  then show ?thesis
    by (auto simp: store_trusted_def store_get_def stored_checkpoint_def validate_origin_def rbind_def guard_def)
next
  case (Some c)
  assume "store_inv st"
  with Some have c: "tc_origin c = origin" "checkpoint_snapshot c = Inr c" by (auto simp: store_inv_def)
  then have "validate_origin origin = Inr ()"
    by (auto simp: checkpoint_snapshot_def res_simps validate_origin_def)
  with c Some show ?thesis by (simp add: store_trusted_def store_get_def stored_checkpoint_def)
qed

lemma advance_cases:
  assumes "verify_and_advance st c v = (r, st')"
  obtains e where "r = Inl e" "st' = st"
    | c' stored where "r = Inr ()" "checkpoint_snapshot c = Inr c'" "tc_origin c' = tc_origin c"
        "stored_checkpoint (map_of st (tc_origin c)) (tc_origin c) = Inr stored" "v stored = Inr ()"
        "advance_locked st c' = Inr st'"
proof (cases r)
  case (Inl e)
  with assms that(1) show ?thesis by (auto simp: verify_and_advance_def split: sum.splits)
next
  case (Inr u)
  with assms that(2) show ?thesis
    by (auto simp: verify_and_advance_def res_simps snapshot_fields split: sum.splits)
qed

interpretation im: trusted_store store_trusted verify_and_advance store_inv
proof unfold_locales
  fix st c v
  assume inv: "store_inv st"
  obtain r st' where rs: "verify_and_advance st c v = (r, st')" by force
  from rs show "store_inv (snd (verify_and_advance st c v))"
  proof (cases rule: advance_cases)
    case (2 c' stored)
    with snapshot_idem [OF 2(2)] inv show ?thesis
      by (auto simp: rs store_inv_def advance_locked_def split: option.splits if_splits)
  qed (use inv rs in simp)
  fix o' :: pystr
  assume other: "tc_origin c \<noteq> o'"
  from rs have "map_of st' o' = map_of st o' \<and> store_inv st'"
  proof (cases rule: advance_cases)
    case (2 c' stored)
    with other snapshot_idem [OF 2(2)] inv show ?thesis
      by (auto simp: store_inv_def advance_locked_def split: option.splits if_splits)
  qed (use inv in simp)
  with rs inv show "store_trusted (snd (verify_and_advance st c v)) o' = store_trusted st o'"
    by (simp add: store_trusted_inv)
next
  fix st c v e st'
  assume "verify_and_advance st c v = (Inl e, st')"
  then show "st' = st" by (cases rule: advance_cases) auto
next
  fix st c v st'
  assume inv: "store_inv st" and ok: "verify_and_advance st c v = (Inr (), st')"
  from ok show "v (store_trusted st (tc_origin c)) = Inr ()"
  proof (cases rule: advance_cases)
    case (2 c' stored)
    have "stored = map_of st (tc_origin c)"
      using 2(4) inv by (auto simp: stored_checkpoint_def store_inv_def split: option.splits if_splits)
    with 2(5) inv show ?thesis by (simp add: store_trusted_inv)
  qed simp
next
  fix st c v st'
  assume inv: "store_inv st" and ok: "verify_and_advance st c v = (Inr (), st')"
  from ok show "\<exists>c'. checkpoint_snapshot c = Inr c' \<and>
        (if supersedes (store_trusted st (tc_origin c)) c' then store_trusted st' (tc_origin c) = Some c'
         else store_trusted st' (tc_origin c) = store_trusted st (tc_origin c))"
  proof (cases rule: advance_cases)
    case (2 c' stored)
    from 2(6) snapshot_idem [OF 2(2)] inv have inv': "store_inv st'"
      by (auto simp: store_inv_def advance_locked_def split: option.splits if_splits)
    from 2(6) have "if supersedes (map_of st (tc_origin c)) c' then map_of st' (tc_origin c) = Some c'
        else map_of st' (tc_origin c) = map_of st (tc_origin c)"
      by (auto simp: advance_locked_def supersedes_def 2(3) split: option.splits if_splits)
    with 2(2) inv inv' show ?thesis by (auto simp: store_trusted_inv)
  qed simp
qed

section \<open>Concurrent callers\<close>

text \<open>
  Threads call \<^verbatim>\<open>verify_and_advance\<close> on one shared store; \<open>job t\<close> is the call of thread \<open>t\<close>. The
  atomic steps are those the locks allow: taking the lock of the origin, running the callback on
  the stored checkpoint, and publishing. Releasing the lock is part of the step that ends the call.
\<close>

datatype pc = Idle | Holding TrustedCheckpoint | Checked TrustedCheckpoint | Returned "unit res"

record sys =
  sys_store :: store
  sys_lock :: "pystr \<Rightarrow> nat option"
  sys_pc :: "nat \<Rightarrow> pc"

type_synonym job = "TrustedCheckpoint \<times> (TrustedCheckpoint option \<Rightarrow> unit res)"

definition check_stored :: "store \<Rightarrow> TrustedCheckpoint \<Rightarrow> (TrustedCheckpoint option \<Rightarrow> unit res) \<Rightarrow> unit res" where
  "check_stored st c verify =
     rbind (stored_checkpoint (map_of st (tc_origin c)) (tc_origin c)) verify"

definition finish :: "sys \<Rightarrow> nat \<Rightarrow> TrustedCheckpoint \<Rightarrow> unit res \<Rightarrow> sys" where
  "finish s t c r =
     s\<lparr>sys_lock := (sys_lock s)(tc_origin c := None), sys_pc := (sys_pc s)(t := Returned r)\<rparr>"

inductive tstep :: "(nat \<Rightarrow> job) \<Rightarrow> sys \<Rightarrow> sys \<Rightarrow> bool" for job where
  reject: "sys_pc s t = Idle \<Longrightarrow> checkpoint_snapshot (fst (job t)) = Inl e \<Longrightarrow>
     tstep job s (s\<lparr>sys_pc := (sys_pc s)(t := Returned (Inl e))\<rparr>)"
| acquire: "sys_pc s t = Idle \<Longrightarrow> checkpoint_snapshot (fst (job t)) = Inr c \<Longrightarrow>
     sys_lock s (tc_origin c) = None \<Longrightarrow>
     tstep job s (s\<lparr>sys_lock := (sys_lock s)(tc_origin c := Some t), sys_pc := (sys_pc s)(t := Holding c)\<rparr>)"
| refuse: "sys_pc s t = Holding c \<Longrightarrow> check_stored (sys_store s) c (snd (job t)) = Inl e \<Longrightarrow>
     tstep job s (finish s t c (Inl e))"
| check: "sys_pc s t = Holding c \<Longrightarrow> check_stored (sys_store s) c (snd (job t)) = Inr () \<Longrightarrow>
     tstep job s (s\<lparr>sys_pc := (sys_pc s)(t := Checked c)\<rparr>)"
| conflict: "sys_pc s t = Checked c \<Longrightarrow> advance_locked (sys_store s) c = Inl e \<Longrightarrow>
     tstep job s (finish s t c (Inl e))"
| publish: "sys_pc s t = Checked c \<Longrightarrow> advance_locked (sys_store s) c = Inr st' \<Longrightarrow>
     tstep job s (finish (s\<lparr>sys_store := st'\<rparr>) t c (Inr ()))"

definition initial :: "store \<Rightarrow> sys" where
  "initial st = \<lparr>sys_store = st, sys_lock = (\<lambda>_. None), sys_pc = (\<lambda>_. Idle)\<rparr>"

text \<open>Whole calls, one after the other.\<close>

fun atomic_run :: "(nat \<Rightarrow> job) \<Rightarrow> store \<Rightarrow> nat list \<Rightarrow> store" where
  "atomic_run job st [] = st"
| "atomic_run job st (t # ts) = atomic_run job (snd (verify_and_advance st (fst (job t)) (snd (job t)))) ts"

definition lock_inv :: "(nat \<Rightarrow> job) \<Rightarrow> sys \<Rightarrow> bool" where
  "lock_inv job s \<longleftrightarrow> (\<forall>t c.
     (sys_pc s t = Holding c \<longrightarrow> sys_lock s (tc_origin c) = Some t \<and> checkpoint_snapshot (fst (job t)) = Inr c)
     \<and> (sys_pc s t = Checked c \<longrightarrow> sys_lock s (tc_origin c) = Some t \<and> checkpoint_snapshot (fst (job t)) = Inr c
          \<and> check_stored (sys_store s) c (snd (job t)) = Inr ()))"

lemma advance_locked_other:
  "advance_locked st c = Inr st' \<Longrightarrow> o' \<noteq> tc_origin c \<Longrightarrow> map_of st' o' = map_of st o'"
  by (auto simp: advance_locked_def split: option.splits if_splits)

lemma lock_inv_other:
  assumes "lock_inv job s" "sys_lock s (tc_origin c) \<noteq> Some u"
    "sys_pc s u = Checked d \<or> sys_pc s u = Holding d"
  shows "tc_origin d \<noteq> tc_origin c"
proof
  assume "tc_origin d = tc_origin c"
  moreover have "sys_lock s (tc_origin d) = Some u" using assms(1,3) by (auto simp: lock_inv_def)
  ultimately show False using assms(2) by simp
qed

lemma lock_inv_finish:
  assumes "lock_inv job s" "sys_lock s (tc_origin c) = Some t"
  shows "lock_inv job (finish s t c r)"
proof -
  have "tc_origin d \<noteq> tc_origin c" if "u \<noteq> t" "sys_pc s u = Checked d \<or> sys_pc s u = Holding d" for u d
    using lock_inv_other [OF assms(1) _ that(2), of c] assms(2) that(1) by simp
  with assms(1) show ?thesis by (simp add: lock_inv_def finish_def)
qed

lemma lock_inv_step:
  assumes "tstep job s s'" "lock_inv job s"
  shows "lock_inv job s'"
  using assms
proof (induction rule: tstep.induct)
  case (publish s t c st')
  have c: "sys_lock s (tc_origin c) = Some t" using publish by (auto simp: lock_inv_def)
  have "check_stored st' d (snd (job u)) = check_stored (sys_store s) d (snd (job u))"
    if "tc_origin d \<noteq> tc_origin c" for u d
    using advance_locked_other [OF publish(2) that] by (simp add: check_stored_def)
  moreover have "tc_origin d \<noteq> tc_origin c"
    if "u \<noteq> t" "sys_pc s u = Checked d \<or> sys_pc s u = Holding d" for u d
    using lock_inv_other [OF publish(3) _ that(2), of c] c that(1) by simp
  ultimately show ?case
    using publish(3) by (auto simp: lock_inv_def finish_def)
next
  case (acquire s t c)
  have "tc_origin d \<noteq> tc_origin c" if "sys_pc s u = Checked d \<or> sys_pc s u = Holding d" for u d
    using lock_inv_other [OF acquire(4) _ that, of c] acquire(3) by simp
  with acquire show ?case by (auto simp: lock_inv_def)
next
  case (refuse s t c e)
  then show ?case by (intro lock_inv_finish) (auto simp: lock_inv_def)
next
  case (conflict s t c e)
  then show ?case by (intro lock_inv_finish) (auto simp: lock_inv_def)
qed (auto simp: lock_inv_def)

lemma verify_and_advance_check:
  assumes "checkpoint_snapshot c = Inr c'"
  shows "verify_and_advance st c v =
    (case check_stored st c' v of Inl e \<Rightarrow> (Inl e, st)
     | Inr _ \<Rightarrow> (case advance_locked st c' of Inl e \<Rightarrow> (Inl e, st) | Inr st' \<Rightarrow> (Inr (), st')))"
proof -
  have "validate_origin (tc_origin c') = Inr ()"
    using snapshot_idem [OF assms] by (auto simp: checkpoint_snapshot_def res_simps)
  with assms show ?thesis
    by (simp add: verify_and_advance_def check_stored_def rbind_assoc split: sum.splits)
      (auto simp: rbind_def split: sum.splits)
qed

definition linearized :: "(nat \<Rightarrow> job) \<Rightarrow> store \<Rightarrow> sys \<Rightarrow> nat list \<Rightarrow> bool" where
  "linearized job st s ts \<longleftrightarrow> distinct ts \<and> sys_store s = atomic_run job st ts
     \<and> (\<forall>t r. sys_pc s t = Returned r \<longleftrightarrow> (\<exists>us vs. ts = us @ t # vs
          \<and> r = fst (verify_and_advance (atomic_run job st us) (fst (job t)) (snd (job t)))))"

lemma atomic_run_append [simp]: "atomic_run job st (ts @ us) = atomic_run job (atomic_run job st ts) us"
  by (induction ts arbitrary: st) auto

lemma snoc_split_iff:
  "ts @ [x] = us @ u # vs \<longleftrightarrow> (vs = [] \<and> us = ts \<and> u = x) \<or> (\<exists>ws. vs = ws @ [x] \<and> ts = us @ u # ws)"
  by (cases vs rule: rev_cases) auto

lemma linearized_snoc:
  assumes "linearized job st s ts" "\<And>r. sys_pc s t \<noteq> Returned r"
    and "verify_and_advance (sys_store s) (fst (job t)) (snd (job t)) = (r, sys_store s')"
    and "sys_pc s' = (sys_pc s)(t := Returned r)"
  shows "linearized job st s' (ts @ [t])"
proof -
  have t: "t \<notin> set ts" using assms(1,2) by (metis linearized_def split_list)
  have store: "sys_store s = atomic_run job st ts" using assms(1) by (simp add: linearized_def)
  show ?thesis
    unfolding linearized_def
  proof (intro conjI allI)
    show "distinct (ts @ [t])" using t assms(1) by (simp add: linearized_def)
    show "sys_store s' = atomic_run job st (ts @ [t])" using assms(3) store by simp
    fix u q
    show "sys_pc s' u = Returned q \<longleftrightarrow> (\<exists>us vs. ts @ [t] = us @ u # vs
        \<and> q = fst (verify_and_advance (atomic_run job st us) (fst (job u)) (snd (job u))))"
    proof (cases "u = t")
      case True
      with t assms(3,4) store show ?thesis by (auto simp: snoc_split_iff)
    next
      case False
      with assms(1,4) show ?thesis by (auto simp: snoc_split_iff linearized_def)
    qed
  qed
qed

lemma linearized_cong:
  "linearized job st s ts \<Longrightarrow> sys_store s' = sys_store s \<Longrightarrow>
   (\<And>t r. sys_pc s' t = Returned r \<longleftrightarrow> sys_pc s t = Returned r) \<Longrightarrow> linearized job st s' ts"
  by (simp add: linearized_def)

lemma linearized_step:
  assumes "tstep job s s'" "lock_inv job s" "linearized job st s ts"
  shows "\<exists>ts'. linearized job st s' ts'"
  using assms
proof (induction rule: tstep.induct)
  case (reject s t e)
  then have "verify_and_advance (sys_store s) (fst (job t)) (snd (job t)) = (Inl e, sys_store s)"
    by (simp add: verify_and_advance_def)
  then have "linearized job st (s\<lparr>sys_pc := (sys_pc s)(t := Returned (Inl e))\<rparr>) (ts @ [t])"
    by (intro linearized_snoc [OF reject(4)]) (simp_all add: reject(1))
  then show ?case ..
next
  case (refuse s t c e)
  then have "verify_and_advance (sys_store s) (fst (job t)) (snd (job t)) = (Inl e, sys_store s)"
    by (auto simp: lock_inv_def verify_and_advance_check)
  then have "linearized job st (finish s t c (Inl e)) (ts @ [t])"
    by (intro linearized_snoc [OF refuse(4)]) (simp_all add: refuse(1) finish_def)
  then show ?case ..
next
  case (conflict s t c e)
  then have "verify_and_advance (sys_store s) (fst (job t)) (snd (job t)) = (Inl e, sys_store s)"
    by (auto simp: lock_inv_def verify_and_advance_check)
  then have "linearized job st (finish s t c (Inl e)) (ts @ [t])"
    by (intro linearized_snoc [OF conflict(4)]) (simp_all add: conflict(1) finish_def)
  then show ?case ..
next
  case (publish s t c st')
  then have "verify_and_advance (sys_store s) (fst (job t)) (snd (job t)) = (Inr (), st')"
    by (auto simp: lock_inv_def verify_and_advance_check)
  then have "linearized job st (finish (s\<lparr>sys_store := st'\<rparr>) t c (Inr ())) (ts @ [t])"
    by (intro linearized_snoc [OF publish(4)]) (simp_all add: publish(1) finish_def)
  then show ?case ..
next
  case (acquire s t c)
  then have "linearized job st (s\<lparr>sys_lock := (sys_lock s)(tc_origin c \<mapsto> t), sys_pc := (sys_pc s)(t := Holding c)\<rparr>) ts"
    by (intro linearized_cong [OF acquire(5)]) auto
  then show ?case ..
next
  case (check s t c)
  then have "linearized job st (s\<lparr>sys_pc := (sys_pc s)(t := Checked c)\<rparr>) ts"
    by (intro linearized_cong [OF check(4)]) auto
  then show ?case ..
qed

lemma reachable_linearized:
  assumes "(tstep job)\<^sup>*\<^sup>* (initial st) s"
  shows "lock_inv job s \<and> (\<exists>ts. linearized job st s ts)"
  using assms
proof (induction rule: rtranclp_induct)
  case base
  have "linearized job st (initial st) []" by (simp add: linearized_def initial_def)
  then show ?case by (auto simp: lock_inv_def initial_def)
next
  case (step s s')
  then show ?case using lock_inv_step linearized_step by blast
qed

section \<open>Properties\<close>

text \<open>
  C12: no interleaving of callers can make an equivocating log accepted twice. In every state that
  concurrent \<^verbatim>\<open>verify_and_advance\<close> calls can reach, the store is the result of running whole
  calls one after the other in some order, and every call that has returned has the result it has
  in that order.
\<close>

theorem store_linearizable:
  assumes "(tstep job)\<^sup>*\<^sup>* (initial st) s"
  shows "\<exists>ts. distinct ts \<and> sys_store s = atomic_run job st ts \<and>
    (\<forall>t r. sys_pc s t = Returned r \<longrightarrow> (\<exists>us vs. ts = us @ t # vs \<and>
       r = fst (verify_and_advance (atomic_run job st us) (fst (job t)) (snd (job t)))))"
  using reachable_linearized [OF assms] unfolding linearized_def by blast

definition sample_checkpoint_at :: "bytes list \<Rightarrow> TrustedCheckpoint" where
  "sample_checkpoint_at es =
     \<lparr>tc_origin = str ''log'', tc_tree_size = int (length es), tc_root_hash = mth es,
      tc_witness_time = Aware 0 0\<rparr>"

lemma sample_snapshot: "checkpoint_snapshot (sample_checkpoint_at es) = Inr (sample_checkpoint_at es)"
  by (simp add: checkpoint_snapshot_def sample_checkpoint_at_def validate_origin_def datetime_range_def
      py_strip_def py_rstrip_def py_space_def)

lemma sample_steps:
  fixes es :: "bytes list"
  defines "c \<equiv> sample_checkpoint_at es"
  shows "(tstep (\<lambda>t. (c, \<lambda>_. Inr ())))\<^sup>*\<^sup>* (initial [])
    \<lparr>sys_store = [(str ''log'', c)], sys_lock = (\<lambda>_. None), sys_pc = (\<lambda>_. Idle)(0 := Returned (Inr ()))\<rparr>"
proof -
  let ?j = "\<lambda>t :: nat. (c, \<lambda>_ :: TrustedCheckpoint option. (Inr () :: unit res))"
  have o: "tc_origin c = str ''log''" by (simp add: c_def sample_checkpoint_at_def)
  let ?s1 = "\<lparr>sys_store = [], sys_lock = (\<lambda>_. None)(str ''log'' := Some 0), sys_pc = (\<lambda>_. Idle)(0 := Holding c)\<rparr>"
  let ?s2 = "\<lparr>sys_store = [], sys_lock = (\<lambda>_. None)(str ''log'' := Some 0), sys_pc = (\<lambda>_. Idle)(0 := Checked c)\<rparr>"
  let ?s3 = "\<lparr>sys_store = [(str ''log'', c)], sys_lock = (\<lambda>_. None), sys_pc = (\<lambda>_. Idle)(0 := Returned (Inr ()))\<rparr>"
  have "tstep ?j (initial []) ?s1"
    using tstep.acquire [of "initial []" 0 ?j c] o sample_snapshot [of es]
    by (simp add: initial_def c_def)
  moreover have "tstep ?j ?s1 ?s2"
    using tstep.check [of ?s1 0 c ?j] by (simp add: check_stored_def stored_checkpoint_def)
  moreover have "tstep ?j ?s2 ?s3"
    using tstep.publish [of ?s2 0 c "[(str ''log'', c)]" ?j] o
    by (simp add: advance_locked_def finish_def fun_upd_idem fun_upd_twist)
  ultimately show ?thesis by (meson converse_rtranclp_into_rtranclp rtranclp.rtrancl_refl)
qed

theorem store_linearizable_witness:
  "\<exists>ts. distinct ts \<and>
    [(str ''log'', sample_checkpoint_at [])] = atomic_run (\<lambda>t. (sample_checkpoint_at [], \<lambda>_. Inr ())) [] ts \<and>
    (\<forall>t r. ((\<lambda>_. Idle)(0 := Returned (Inr ()))) t = Returned r \<longrightarrow> (\<exists>us vs. ts = us @ t # vs \<and>
       r = fst (verify_and_advance (atomic_run (\<lambda>t. (sample_checkpoint_at [], \<lambda>_. Inr ())) [] us)
              (sample_checkpoint_at []) (\<lambda>_. Inr ()))))"
  using store_linearizable [OF sample_steps [of "[]"]] by (simp only: sys.simps fst_conv snd_conv)

text \<open>
  C4: append-only trust across verifications. Start from a store that trusts, for an origin, a
  checkpoint committing to the entries \<open>es0\<close>, and run any sequence of the reader's consistency
  checks, each with a candidate that commits to the entries it scanned. The store still trusts a
  checkpoint for the origin, it commits to one of the scanned lists (or \<open>es0\<close>), and \<open>es0\<close> is a
  prefix of that list, unless two of the strings hashed for these lists collide.
\<close>

theorem trusted_history_append_only:
  assumes "store_inv st" "map_of st origin = Some t" "commits t es0"
    and "\<forall>(c, es) \<in> set calls. commits c es"
  shows "\<exists>t' es'. map_of (im.run st (map (\<lambda>(c, es). (c, append_only_verify c es)) calls)) origin = Some t'
    \<and> commits t' es' \<and> es' \<in> set (es0 # map snd calls)
    \<and> (prefix es0 es' \<or> collides (history_inputs (es0 # map snd calls)))"
proof -
  have "store_trusted st origin = Some t" using assms(1,2) by (simp add: store_trusted_inv)
  from im.run_history [OF assms(1) this assms(3), of calls] assms(4)
  obtain t' es' where "store_trusted (im.run st (map im.reader_call calls)) origin = Some t'"
    "commits t' es'" "es' \<in> set (es0 # map snd calls)"
    "prefix es0 es' \<or> collides (history_inputs (es0 # map snd calls))" by blast
  with im.inv_run [OF assms(1)] show ?thesis
    by (auto simp: store_trusted_inv im.reader_call_def [abs_def])
qed

theorem trusted_history_append_only_witness:
  "\<exists>t' es'. map_of (im.run [(str ''log'', sample_checkpoint_at [[1]])]
        (map (\<lambda>(c, es). (c, append_only_verify c es)) [(sample_checkpoint_at [[1], [2]], [[1], [2]])]))
        (str ''log'') = Some t'
    \<and> commits t' es' \<and> es' \<in> set ([[1]] # map snd [(sample_checkpoint_at [[1], [2]], [[1], [2]])])
    \<and> (prefix [[1]] es' \<or>
        collides (history_inputs ([[1]] # map snd [(sample_checkpoint_at [[1], [2]], [[1], [2]])])))"
  by (rule trusted_history_append_only [of _ _ "sample_checkpoint_at [[1]]"])
    (use sample_snapshot [of "[[1]]"] in
      \<open>auto simp: store_inv_def commits_def sample_checkpoint_at_def split: if_splits\<close>)

text \<open>
  Trust is monotone whatever the callback does, the seeding operation \<^verbatim>\<open>put\<close> included: after any
  sequence of calls the trusted tree size has not shrunk, and at an equal size the root is the same.
\<close>

theorem trusted_size_monotone:
  assumes "store_inv st" "map_of st origin = Some t"
  shows "\<exists>t'. map_of (im.run st calls) origin = Some t' \<and> tc_tree_size t \<le> tc_tree_size t'
    \<and> (tc_tree_size t = tc_tree_size t' \<longrightarrow> tc_root_hash t = tc_root_hash t')"
  using im.run_supersedes [OF assms(1), of origin t calls] im.inv_run [OF assms(1)] assms
  by (auto simp: store_trusted_inv supersedes_def)

theorem trusted_size_monotone_witness:
  "\<exists>t'. map_of (im.run [(str ''log'', sample_checkpoint_at [[1]])] [(sample_checkpoint_at [], \<lambda>_. Inr ())])
      (str ''log'') = Some t' \<and> tc_tree_size (sample_checkpoint_at [[1]]) \<le> tc_tree_size t'
    \<and> (tc_tree_size (sample_checkpoint_at [[1]]) = tc_tree_size t' \<longrightarrow>
        tc_root_hash (sample_checkpoint_at [[1]]) = tc_root_hash t')"
  by (rule trusted_size_monotone)
    (use sample_snapshot [of "[[1]]"] in
      \<open>auto simp: store_inv_def sample_checkpoint_at_def split: if_splits\<close>)



end
