(* ===== verification/Json.thy ===== *)
theory Json
  imports Utf8 Dnsid_Errors "HOL-Library.List_Lexorder" "HOL-Library.Multiset"
begin

text \<open>
  \<^verbatim>\<open>dnsid/c2sp_tlog/canonical.py\<close>: JSON values, the parser \<^verbatim>\<open>json.loads\<close> as the sources use it (with the
  hook that refuses duplicate members), the nesting limit, and the canonical (JCS) serialisation.

  A finite float is its sign and \<^verbatim>\<open>repr(abs(x))\<close>, which determines it; an infinity or NaN is its
  JSON literal. Two conversions of the
  floating-point library are parameters: \<open>float_text\<close> maps the literal of a JSON number to
  \<^verbatim>\<open>repr(abs(float(text)))\<close> (\<open>None\<close> when it overflows to infinity), and \<open>float_int\<close> maps an integer of
  at least \<open>2 ^ 53\<close> in magnitude to \<^verbatim>\<open>repr(abs(float(n)))\<close> (\<open>None\<close> when it is not representable).
\<close>

section \<open>Values\<close>

datatype json =
    JNull | JBool bool | JInt int | JFloat bool pystr | JNonFinite pystr | JStr pystr
  | JArr "json list" | JObj "(pystr \<times> json) list"

text \<open>The depth of the deepest value below a value, the root being at depth 0.\<close>

fun json_depth :: "json \<Rightarrow> nat" where
  "json_depth (JArr vs) = (if vs = [] then 0 else Suc (Max (set (map json_depth vs))))"
| "json_depth (JObj ms) = (if ms = [] then 0 else Suc (Max (set (map (\<lambda>(k, v). json_depth v) ms))))"
| "json_depth _ = 0"

text \<open>Member names are pairwise distinct, as in a \<^verbatim>\<open>dict\<close>.\<close>

fun dup_free :: "json \<Rightarrow> bool" where
  "dup_free (JArr vs) = (\<forall>v \<in> set vs. dup_free v)"
| "dup_free (JObj ms) = (distinct (map fst ms) \<and> (\<forall>(k, v) \<in> set ms. dup_free v))"
| "dup_free _ = True"

section \<open>Canonical serialisation\<close>

text \<open>\<^verbatim>\<open>json.dumps(s, ensure_ascii=False)\<close>\<close>

definition quote_char :: "nat \<Rightarrow> pystr" where
  "quote_char c =
     (if c = 34 then [92, 34] else if c = 92 then [92, 92] else if c = 8 then [92, 98]
      else if c = 12 then [92, 102] else if c = 10 then [92, 110] else if c = 13 then [92, 114]
      else if c = 9 then [92, 116]
      else if c < 32 then [92, 117, 48, 48, hex_digit (c div 16), hex_digit (c mod 16)]
      else [c])"

definition quote_str :: "pystr \<Rightarrow> pystr" where
  "quote_str s = [34] @ concat (map quote_char s) @ [34]"

text \<open>
  \<^verbatim>\<open>_utf16_sort_key\<close>: comparing the big-endian bytes of UTF-16 is comparing the code units.
\<close>

definition utf16_units :: "nat \<Rightarrow> nat list" where
  "utf16_units c =
     (if c < 65536 then [c] else [55296 + (c - 65536) div 1024, 56320 + (c - 65536) mod 1024])"

definition utf16_sort_key :: "pystr \<Rightarrow> nat list" where
  "utf16_sort_key s = concat (map utf16_units s)"

definition encodable :: "pystr \<Rightarrow> bool" where
  "encodable s \<longleftrightarrow> utf8_encode s \<noteq> None"

definition assert_valid_unicode :: "pystr \<Rightarrow> unit res" where
  "assert_valid_unicode s =
     guard (encodable s) (C2spTlogParseError ''JSON contains an unpaired surrogate'')"

definition strip_zeros :: "pystr \<Rightarrow> pystr" where
  "strip_zeros s = strip_chars [48] s"

text \<open>\<^verbatim>\<open>int(exp_text)\<close> for the exponent of a \<^verbatim>\<open>repr\<close>, which carries a sign.\<close>

definition exponent_value :: "pystr \<Rightarrow> int" where
  "exponent_value s =
     (case s of [] \<Rightarrow> 0 | c # cs \<Rightarrow>
        if c = 45 then - int (nat_of_dec cs) else if c = 43 then int (nat_of_dec cs)
        else int (nat_of_dec (c # cs)))"

text \<open>\<^verbatim>\<open>_format_jcs_number\<close> on the sign and the \<^verbatim>\<open>repr\<close> of the absolute value.\<close>

definition format_jcs_number :: "bool \<Rightarrow> pystr \<Rightarrow> pystr" where
  "format_jcs_number negative text =
     (let (mantissa, exp_text) = partition_char text 101;
          exponent = exponent_value exp_text;
          (int_part, frac_part) = partition_char mantissa 46;
          all_digits = int_part @ frac_part;
          leading_zeros = length (takeWhile (\<lambda>c. c = 48) all_digits);
          n = int (length int_part) + exponent - int leading_zeros;
          digits = strip_zeros all_digits;
          k = int (length digits);
          sign = (if negative then [45] else [])
      in if digits = [] then [48]
         else if k \<le> n \<and> n \<le> 21 then sign @ digits @ replicate (nat (n - k)) 48
         else if 0 < n \<and> n \<le> 21 then sign @ take (nat n) digits @ [46] @ drop (nat n) digits
         else if -6 < n \<and> n \<le> 0 then sign @ [48, 46] @ replicate (nat (- n)) 48 @ digits
         else
           (let exp10 = n - 1;
                exp_str = (if exp10 \<ge> 0 then [101, 43] @ dec_of_int exp10
                           else [101, 45] @ dec_of_int (- exp10))
            in if k = 1 then sign @ digits @ exp_str
               else sign @ take 1 digits @ [46] @ drop 1 digits @ exp_str))"

text \<open>\<^verbatim>\<open>repr(abs(float(n)))\<close> for an integer below \<open>2 ^ 53\<close> in magnitude has the digits of the integer.\<close>

definition int_repr :: "(int \<Rightarrow> pystr option) \<Rightarrow> int \<Rightarrow> pystr option" where
  "int_repr float_int n =
     (if \<bar>n\<bar> \<le> 9007199254740992 then Some (dec_of_int \<bar>n\<bar> @ [46, 48]) else float_int n)"

definition canonical_int :: "(int \<Rightarrow> pystr option) \<Rightarrow> int \<Rightarrow> pystr res" where
  "canonical_int float_int n =
     (case int_repr float_int n of
        None \<Rightarrow> parse_err ''integer is not exactly representable as an IEEE-754 double''
      | Some text \<Rightarrow> Inr (format_jcs_number (n < 0) text))"

function canonical_value :: "(int \<Rightarrow> pystr option) \<Rightarrow> json \<Rightarrow> pystr res" where
  "canonical_value fi JNull = Inr (str ''null'')"
| "canonical_value fi (JBool b) = Inr (if b then str ''true'' else str ''false'')"
| "canonical_value fi (JInt n) = canonical_int fi n"
| "canonical_value fi (JFloat negative text) = Inr (format_jcs_number negative text)"
| "canonical_value fi (JNonFinite text) = parse_err ''non-canonical JSON number''"
| "canonical_value fi (JStr s) = rbind (assert_valid_unicode s) (\<lambda>_. Inr (quote_str s))"
| "canonical_value fi (JArr vs) =
     rbind (mapR (canonical_value fi) vs) (\<lambda>ts. Inr ([91] @ join_with [44] ts @ [93]))"
| "canonical_value fi (JObj ms) =
     (if \<exists>(k, v) \<in> set ms. \<not> encodable k then Inl (ValueError ''UnicodeEncodeError'')
      else
        rbind (mapR (\<lambda>(k, v). rbind (assert_valid_unicode k) (\<lambda>_.
                 rbind (canonical_value fi v) (\<lambda>t. Inr (quote_str k @ [58] @ t))))
                 (sort_key (\<lambda>(k, v). utf16_sort_key k) ms))
          (\<lambda>parts. Inr ([123] @ join_with [44] parts @ [125])))"
  by pat_completeness auto
termination
proof (relation "measure (\<lambda>(fi, v). size v)", goal_cases)
  case (2 fi vs v)
  then show ?case by (induction vs) auto
next
  case (3 fi ms kv k v)
  then have "(k, v) \<in> set ms" by auto
  then show ?case by (induction ms) auto
qed auto

definition MAX_JSON_DEPTH :: nat where
  "MAX_JSON_DEPTH = 64"

definition canonical_json :: "(int \<Rightarrow> pystr option) \<Rightarrow> json \<Rightarrow> pystr res" where
  "canonical_json float_int v =
     (if json_depth v > MAX_JSON_DEPTH
      then Inl (C2spTlogResourceLimitError ''JSON nesting limit exceeded'')
      else canonical_value float_int v)"

definition canonical_bytes :: "(int \<Rightarrow> pystr option) \<Rightarrow> json \<Rightarrow> bytes res" where
  "canonical_bytes float_int v =
     rbind (canonical_json float_int v) (\<lambda>t.
       case utf8_encode t of None \<Rightarrow> Inl (ValueError ''UnicodeEncodeError'') | Some b \<Rightarrow> Inr b)"

section \<open>Parsing\<close>

definition json_ws :: "nat \<Rightarrow> bool" where
  "json_ws c \<longleftrightarrow> c = 32 \<or> c = 9 \<or> c = 10 \<or> c = 13"

definition skip_ws :: "pystr \<Rightarrow> pystr" where
  "skip_ws s = dropWhile json_ws s"

definition hex4 :: "nat \<Rightarrow> nat \<Rightarrow> nat \<Rightarrow> nat \<Rightarrow> nat" where
  "hex4 a b c d = ((hex_val a * 16 + hex_val b) * 16 + hex_val c) * 16 + hex_val d"

definition simple_escape :: "nat \<Rightarrow> nat option" where
  "simple_escape c =
     (if c = 34 then Some 34 else if c = 92 then Some 92 else if c = 47 then Some 47
      else if c = 98 then Some 8 else if c = 102 then Some 12 else if c = 110 then Some 10
      else if c = 114 then Some 13 else if c = 116 then Some 9 else None)"

text \<open>The second half of a surrogate pair, when the escape before it was a high surrogate.\<close>

definition low_surrogate :: "nat \<Rightarrow> pystr \<Rightarrow> (nat \<times> pystr) option" where
  "low_surrogate u s =
     (case s of
        b1 # b2 # l1 # l2 # l3 # l4 # rest \<Rightarrow>
          if 55296 \<le> u \<and> u \<le> 56319 \<and> b1 = 92 \<and> b2 = 117
             \<and> is_hex l1 \<and> is_hex l2 \<and> is_hex l3 \<and> is_hex l4
             \<and> 56320 \<le> hex4 l1 l2 l3 l4 \<and> hex4 l1 l2 l3 l4 \<le> 57343
          then Some (hex4 l1 l2 l3 l4, rest) else None
      | _ \<Rightarrow> None)"

lemma low_surrogate_length: "low_surrogate u s = Some (l, r) \<Longrightarrow> length r < length s"
  by (auto simp: low_surrogate_def split: list.splits if_splits)

lemma low_surrogate_none: "u < 55296 \<Longrightarrow> low_surrogate u s = None"
  by (auto simp: low_surrogate_def split: list.splits)

text \<open>\<^verbatim>\<open>scanstring\<close> in strict mode, after the opening quote.\<close>

function scan_string :: "pystr \<Rightarrow> (pystr \<times> pystr) option" where
  "scan_string s =
     (case s of
        [] \<Rightarrow> None
      | c # cs \<Rightarrow>
          if c = 34 then Some ([], cs)
          else if c = 92 then
            (case cs of
               [] \<Rightarrow> None
             | e # rest \<Rightarrow>
                 if e = 117 then
                   (case rest of
                      h1 # h2 # h3 # h4 # rest2 \<Rightarrow>
                        if is_hex h1 \<and> is_hex h2 \<and> is_hex h3 \<and> is_hex h4 then
                          (let u = hex4 h1 h2 h3 h4 in
                           (case low_surrogate u rest2 of
                              Some (l, rest3) \<Rightarrow>
                                map_option (\<lambda>(t, r). ((65536 + (u - 55296) * 1024 + (l - 56320)) # t, r))
                                  (scan_string rest3)
                            | None \<Rightarrow> map_option (\<lambda>(t, r). (u # t, r)) (scan_string rest2)))
                        else None
                    | _ \<Rightarrow> None)
                 else
                   (case simple_escape e of
                      None \<Rightarrow> None
                    | Some x \<Rightarrow> map_option (\<lambda>(t, r). (x # t, r)) (scan_string rest)))
          else if c < 32 then None
          else map_option (\<lambda>(t, r). (c # t, r)) (scan_string cs))"
  by pat_completeness auto
termination
  by (relation "measure length") (auto dest: low_surrogate_length)

declare scan_string.simps [simp del]

text \<open>
  A number: the longest match of \<^verbatim>\<open>-?(0|[1-9][0-9]*)(\.[0-9]+)?([eE][-+]?[0-9]+)?\<close>. Without fraction and
  exponent it is an \<^verbatim>\<open>int\<close>, whose conversion refuses more than 4300 digits.
\<close>

definition scan_digits :: "pystr \<Rightarrow> pystr \<times> pystr" where
  "scan_digits s = (takeWhile is_digit s, dropWhile is_digit s)"

definition scan_int_part :: "pystr \<Rightarrow> (pystr \<times> pystr) option" where
  "scan_int_part s =
     (case s of [] \<Rightarrow> None
      | c # cs \<Rightarrow> if c = 48 then Some ([48], cs) else if is_digit c then Some (scan_digits s) else None)"

definition scan_frac :: "pystr \<Rightarrow> pystr \<times> pystr" where
  "scan_frac s =
     (case s of c # d # cs \<Rightarrow>
        if c = 46 \<and> is_digit d then (46 # takeWhile is_digit (d # cs), dropWhile is_digit (d # cs))
        else ([], s)
      | _ \<Rightarrow> ([], s))"

definition scan_exp :: "pystr \<Rightarrow> pystr \<times> pystr" where
  "scan_exp s =
     (case s of
        c # d # cs \<Rightarrow>
          if c \<noteq> 101 \<and> c \<noteq> 69 then ([], s)
          else if is_digit d then (c # takeWhile is_digit (d # cs), dropWhile is_digit (d # cs))
          else if (d = 43 \<or> d = 45) \<and> cs \<noteq> [] \<and> is_digit (hd cs)
          then (c # d # takeWhile is_digit cs, dropWhile is_digit cs)
          else ([], s)
      | _ \<Rightarrow> ([], s))"

definition scan_number ::
  "(pystr \<Rightarrow> pystr option) \<Rightarrow> pystr \<Rightarrow> (json \<times> pystr) option" where
  "scan_number float_text s =
     (let negative = (s \<noteq> [] \<and> hd s = 45); s1 = (if negative then tl s else s) in
      (case scan_int_part s1 of
         None \<Rightarrow> None
       | Some (ip, r1) \<Rightarrow>
           (let (fp, r2) = scan_frac r1; (ep, r3) = scan_exp r2 in
            if fp = [] \<and> ep = [] then
              (if length ip > 4300 then None
               else Some (JInt (if negative then - int (nat_of_dec ip) else int (nat_of_dec ip)), r1))
            else
              (case float_text (ip @ fp @ ep) of
                 None \<Rightarrow> Some (JNonFinite (if negative then str ''-Infinity'' else str ''Infinity''), r3)
               | Some t \<Rightarrow> Some (JFloat negative t, r3)))))"

definition scan_literal :: "pystr \<Rightarrow> (json \<times> pystr) option" where
  "scan_literal s =
     (if startswith s (str ''null'') then Some (JNull, drop 4 s)
      else if startswith s (str ''true'') then Some (JBool True, drop 4 s)
      else if startswith s (str ''false'') then Some (JBool False, drop 5 s)
      else if startswith s (str ''NaN'') then Some (JNonFinite (str ''NaN''), drop 3 s)
      else if startswith s (str ''Infinity'') then Some (JNonFinite (str ''Infinity''), drop 8 s)
      else if startswith s (str ''-Infinity'') then Some (JNonFinite (str ''-Infinity''), drop 9 s)
      else None)"

text \<open>
  The recursive scanner. Every call consumes at least one character, so the length of the text is
  enough fuel.
\<close>

fun scan_value :: "(pystr \<Rightarrow> pystr option) \<Rightarrow> nat \<Rightarrow> pystr \<Rightarrow> (json \<times> pystr) option"
and scan_elements :: "(pystr \<Rightarrow> pystr option) \<Rightarrow> nat \<Rightarrow> pystr \<Rightarrow> (json list \<times> pystr) option"
and scan_members :: "(pystr \<Rightarrow> pystr option) \<Rightarrow> nat \<Rightarrow> pystr \<Rightarrow> ((pystr \<times> json) list \<times> pystr) option"
where
  "scan_value ft 0 s = None"
| "scan_value ft (Suc n) s =
     (case s of
        [] \<Rightarrow> None
      | c # cs \<Rightarrow>
          if c = 34 then map_option (\<lambda>(t, r). (JStr t, r)) (scan_string cs)
          else if c = 91 then
            (case skip_ws cs of
               d # ds \<Rightarrow>
                 if d = 93 then Some (JArr [], ds)
                 else map_option (\<lambda>(vs, r). (JArr vs, r)) (scan_elements ft n (d # ds))
             | [] \<Rightarrow> None)
          else if c = 123 then
            (case skip_ws cs of
               d # ds \<Rightarrow>
                 if d = 125 then Some (JObj [], ds)
                 else map_option (\<lambda>(ms, r). (JObj ms, r)) (scan_members ft n (d # ds))
             | [] \<Rightarrow> None)
          else (case scan_literal s of Some r \<Rightarrow> Some r | None \<Rightarrow> scan_number ft s))"
| "scan_elements ft 0 s = None"
| "scan_elements ft (Suc n) s =
     (case scan_value ft n s of
        None \<Rightarrow> None
      | Some (v, r) \<Rightarrow>
          (case skip_ws r of
             c # cs \<Rightarrow>
               if c = 93 then Some ([v], cs)
               else if c = 44
               then map_option (\<lambda>(vs, r'). (v # vs, r')) (scan_elements ft n (skip_ws cs))
               else None
           | [] \<Rightarrow> None))"
| "scan_members ft 0 s = None"
| "scan_members ft (Suc n) s =
     (case s of
        [] \<Rightarrow> None
      | q # qs \<Rightarrow>
          if q \<noteq> 34 then None
          else
            (case scan_string qs of
               None \<Rightarrow> None
             | Some (k, r) \<Rightarrow>
                 (case skip_ws r of
                    [] \<Rightarrow> None
                  | c # cs \<Rightarrow>
                      if c \<noteq> 58 then None
                      else
                        (case scan_value ft n (skip_ws cs) of
                           None \<Rightarrow> None
                         | Some (v, r2) \<Rightarrow>
                             (case skip_ws r2 of
                                e # es \<Rightarrow>
                                  if e = 125 then Some ([(k, v)], es)
                                  else if e = 44
                                  then map_option (\<lambda>(ms, r'). ((k, v) # ms, r'))
                                         (scan_members ft n (skip_ws es))
                                  else None
                              | [] \<Rightarrow> None)))))"

definition json_loads :: "(pystr \<Rightarrow> pystr option) \<Rightarrow> pystr \<Rightarrow> json option" where
  "json_loads float_text s =
     (if s \<noteq> [] \<and> hd s = 65279 then None
      else
        (case scan_value float_text (2 * length s + 2) (skip_ws s) of
           None \<Rightarrow> None
         | Some (v, r) \<Rightarrow> if skip_ws r = [] then Some v else None))"

text \<open>\<^verbatim>\<open>_check_json_nesting\<close>: the loop state is the depth and the two flags of the string scanner.\<close>

fun nesting_loop :: "bytes \<Rightarrow> int \<Rightarrow> bool \<Rightarrow> bool \<Rightarrow> unit res" where
  "nesting_loop [] depth in_string escaped = Inr ()"
| "nesting_loop (b # bs) depth in_string escaped =
     (if in_string then
        (if escaped then nesting_loop bs depth True False
         else if b = 92 then nesting_loop bs depth True True
         else if b = 34 then nesting_loop bs depth False False
         else nesting_loop bs depth True False)
      else if b \<in> {32, 9, 13, 10, 58, 44} then nesting_loop bs depth False escaped
      else if b \<in> {93, 125} then nesting_loop bs (depth - 1) False escaped
      else if depth > int MAX_JSON_DEPTH
      then Inl (C2spTlogResourceLimitError ''JSON nesting limit exceeded'')
      else if b = 34 then nesting_loop bs depth True escaped
      else if b \<in> {91, 123} then nesting_loop bs (depth + 1) False escaped
      else nesting_loop bs depth False escaped)"

definition check_json_nesting :: "bytes \<Rightarrow> unit res" where
  "check_json_nesting data =
     (if length (filter (\<lambda>b. b = 91 \<or> b = 123) data) \<le> MAX_JSON_DEPTH then Inr ()
      else nesting_loop data 0 False False)"

definition parse_json_no_duplicate_members ::
  "(pystr \<Rightarrow> pystr option) \<Rightarrow> bytes \<Rightarrow> json res" where
  "parse_json_no_duplicate_members float_text data =
     rbind (check_json_nesting data) (\<lambda>_.
       (case utf8_decode data of
          None \<Rightarrow> parse_err ''entry is not valid UTF-8''
        | Some text \<Rightarrow>
            (case json_loads float_text text of
               None \<Rightarrow> parse_err ''invalid JSON''
             | Some v \<Rightarrow> if dup_free v then Inr v else parse_err ''duplicate JSON member'')))"

definition assert_canonical_json_bytes ::
  "(int \<Rightarrow> pystr option) \<Rightarrow> bytes \<Rightarrow> json \<Rightarrow> unit res" where
  "assert_canonical_json_bytes float_int data value =
     (case utf8_decode data of
        None \<Rightarrow> Inl (ValueError ''UnicodeDecodeError'')
      | Some got \<Rightarrow>
          rbind (canonical_json float_int value) (\<lambda>want.
            if got \<noteq> want then parse_err ''entry bytes are not canonical JCS'' else Inr ()))"

section \<open>Numbers\<close>

lemma length_dec_of_nat: "m < 10 ^ k \<Longrightarrow> 0 < k \<Longrightarrow> length (dec_of_nat m) \<le> k"
proof (induction k arbitrary: m)
  case (Suc k)
  show ?case
  proof (cases "m < 10")
    case True
    then show ?thesis by (simp add: dec_of_nat.simps)
  next
    case False
    with Suc.prems have "0 < k" by (cases k) auto
    moreover have "m div 10 < 10 ^ k" using Suc.prems by (simp add: less_mult_imp_div_less)
    ultimately have "length (dec_of_nat (m div 10)) \<le> k" using Suc.IH by blast
    with False show ?thesis by (subst dec_of_nat.simps) simp
  qed
qed simp

lemma rstrip_decompose:
  "\<exists>j. (s :: pystr) = rstrip_chars [48] s @ replicate j 48"
proof (induction s rule: rev_induct)
  case (snoc c s)
  show ?case
  proof (cases "c = 48")
    case True
    with snoc obtain j where "s = rstrip_chars [48] s @ replicate j 48" by blast
    moreover have "rstrip_chars [48] (s @ [c]) = rstrip_chars [48] s" using True by (simp add: rstrip_chars_def)
    moreover have "replicate (Suc j) c = replicate j c @ [c]" by (simp add: replicate_append_same)
    ultimately have "s @ [c] = rstrip_chars [48] (s @ [c]) @ replicate (Suc j) 48"
      using True by (metis append.assoc)
    then show ?thesis ..
  next
    case False
    then show ?thesis by (intro exI [of _ 0]) (simp add: rstrip_chars_def)
  qed
qed (simp add: rstrip_chars_def)

lemma no_char_dec: "\<not> is_digit c \<Longrightarrow> c \<notin> set (dec_of_nat m)"
  using dec_of_nat_digits by blast

lemma format_int:
  assumes "m < 10 ^ 21" "neg \<longrightarrow> 0 < m"
  shows "format_jcs_number neg (dec_of_nat m @ [46, 48]) = (if neg then [45] else []) @ dec_of_nat m"
proof -
  have e: "partition_char (dec_of_nat m @ [46, 48]) 101 = (dec_of_nat m @ [46, 48], [])"
    using no_char_dec [of 101 m] by (intro partition_char_none) (simp add: is_digit_def)
  have d: "partition_char (dec_of_nat m @ 46 # [48]) 46 = (dec_of_nat m, [48])"
    using no_char_dec [of 46 m] by (intro partition_char_append) (simp add: is_digit_def)
  show ?thesis
  proof (cases "m = 0")
    case True
    with assms show ?thesis
      by (simp add: format_jcs_number_def e [simplified] d [simplified] Let_def strip_zeros_def
          strip_chars_def lstrip_chars_def rstrip_chars_def partition_char_def)
  next
    case False
    then have hd: "hd (dec_of_nat m) \<noteq> 48" by (simp add: hd_dec_of_nat)
    obtain j where j: "dec_of_nat m = rstrip_chars [48] (dec_of_nat m) @ replicate j 48"
      using rstrip_decompose by blast
    define r where "r = rstrip_chars [48] (dec_of_nat m)"
    have r: "dec_of_nat m = r @ replicate j 48" using j unfolding r_def .
    have r0: "r \<noteq> []"
    proof
      assume "r = []"
      then have "dec_of_nat m = replicate j 48" "j \<noteq> 0" using r dec_of_nat_not_Nil [of m] by auto
      with hd show False by simp
    qed
    have "lstrip_chars [48] (dec_of_nat m @ [48]) = dec_of_nat m @ [48]"
      using hd by (cases "dec_of_nat m") (auto simp: lstrip_chars_def)
    moreover have "rstrip_chars [48] (dec_of_nat m @ [48]) = r"
      by (simp add: r_def rstrip_chars_def)
    ultimately have digits: "strip_zeros (dec_of_nat m @ [48]) = r"
      by (simp add: strip_zeros_def strip_chars_def)
    have lead: "takeWhile (\<lambda>c. c = 48) (dec_of_nat m @ [48]) = []"
      using hd by (cases "dec_of_nat m") auto
    have len: "length (dec_of_nat m) \<le> 21" using length_dec_of_nat [of m 21] assms(1) by simp
    have k: "length r \<le> length (dec_of_nat m)" "length (dec_of_nat m) - length r = j" by (simp_all add: r)
    show ?thesis
      unfolding format_jcs_number_def e d Let_def prod.case append_Cons [symmetric] append_assoc
      using r0 k len by (simp add: digits lead exponent_value_def) (simp add: r)
  qed
qed

lemma canonical_int_small:
  assumes "\<bar>n\<bar> \<le> 9007199254740992"
  shows "canonical_int fi n = Inr (dec_of_int n)"
proof -
  have "nat \<bar>n\<bar> < 10 ^ 21" using assms by simp
  from format_int [OF this, of "n < 0"] assms show ?thesis
    by (auto simp: canonical_int_def int_repr_def dec_of_int_def)
qed

section \<open>Parsing a canonical text\<close>

lemma hex4_small: "c < 32 \<Longrightarrow> hex4 48 48 (hex_digit (c div 16)) (hex_digit (c mod 16)) = c"
  by (simp add: hex4_def hex_val_def [of 48] is_digit_def)

lemma scan_quote: "scan_string (concat (map quote_char s) @ 34 # r) = Some (s, r)"
proof (induction s)
  case Nil
  then show ?case by (simp add: scan_string.simps)
next
  case (Cons c s)
  let ?t = "concat (map quote_char s) @ 34 # r"
  consider "c \<in> {34, 92, 8, 12, 10, 13, 9}" | "c \<notin> {34, 92, 8, 12, 10, 13, 9}" "c < 32"
    | "c \<notin> {34, 92, 8, 12, 10, 13, 9}" "\<not> c < 32" by blast
  then show ?case
  proof cases
    case 1
    then obtain e where "quote_char c = [92, e]" "e \<noteq> 117" "simple_escape e = Some c"
      by (auto simp: quote_char_def simple_escape_def)
    with Cons show ?thesis by (subst scan_string.simps) simp
  next
    case 2
    then have q: "quote_char c = [92, 117, 48, 48, hex_digit (c div 16), hex_digit (c mod 16)]"
      by (auto simp: quote_char_def)
    have h: "is_hex 48" "is_hex (hex_digit (c div 16))" "is_hex (hex_digit (c mod 16))"
      using 2 by (simp_all add: is_hex_def [of 48] is_digit_def)
    with Cons 2 q h show ?thesis by (subst scan_string.simps) (simp add: hex4_small low_surrogate_none)
  next
    case 3
    then have "quote_char c = [c]" by (simp add: quote_char_def)
    with Cons 3 show ?thesis by (subst scan_string.simps) simp
  qed
qed

text \<open>What may follow a value in a canonical text.\<close>

definition json_tail :: "pystr \<Rightarrow> bool" where
  "json_tail r \<longleftrightarrow> r = [] \<or> hd r \<in> {44, 93, 125}"

lemma json_tail_ws: "json_tail r \<Longrightarrow> skip_ws r = r"
  by (cases r) (auto simp: json_tail_def skip_ws_def json_ws_def)

lemma span_digits:
  assumes "\<And>c. c \<in> set s \<Longrightarrow> is_digit c" "json_tail r"
  shows "takeWhile is_digit (s @ r) = s" "dropWhile is_digit (s @ r) = r"
proof -
  have "takeWhile is_digit r = []" "dropWhile is_digit r = r"
    using assms(2) by (cases r, auto simp: json_tail_def is_digit_def)+
  with assms(1) show "takeWhile is_digit (s @ r) = s" "dropWhile is_digit (s @ r) = r"
    by (simp_all add: takeWhile_append dropWhile_append)
qed

lemma scan_int_part_dec:
  assumes "json_tail r"
  shows "scan_int_part (dec_of_nat m @ r) = Some (dec_of_nat m, r)"
proof (cases "m = 0")
  case True
  then show ?thesis by (simp add: scan_int_part_def)
next
  case False
  obtain c cs where c: "dec_of_nat m = c # cs" by (cases "dec_of_nat m") auto
  with False have "c \<noteq> 48" "is_digit c"
    using hd_dec_of_nat [of m] dec_of_nat_digits [of c m] by auto
  moreover have "scan_digits (dec_of_nat m @ r) = (dec_of_nat m, r)"
    using span_digits [OF _ assms, of "dec_of_nat m"] dec_of_nat_digits by (simp add: scan_digits_def)
  ultimately show ?thesis using c by (simp add: scan_int_part_def)
qed

lemma json_tail_number: "json_tail r \<Longrightarrow> scan_frac r = ([], r) \<and> scan_exp r = ([], r)"
  by (auto simp: json_tail_def scan_frac_def scan_exp_def split: list.splits)

lemma scan_number_int:
  assumes "json_tail r" "\<bar>n\<bar> \<le> 9007199254740992"
  shows "scan_number ft (dec_of_int n @ r) = Some (JInt n, r)"
proof -
  have len: "length (dec_of_nat m) \<le> 4300" if "m \<le> 9007199254740992" for m
    using length_dec_of_nat [of m 21] that by simp
  have hd: "hd (dec_of_nat m @ r) \<noteq> 45" for m
    using dec_of_nat_digits [of "hd (dec_of_nat m)" m] by (auto simp: is_digit_def)
  note facts = scan_int_part_dec [OF assms(1)] json_tail_number [OF assms(1)]
  show ?thesis
  proof (cases "n < 0")
    case True
    then have "length (dec_of_nat (nat (- n))) \<le> 4300" using assms(2) by (intro len) simp
    with True show ?thesis using facts by (simp add: scan_number_def dec_of_int_def)
  next
    case False
    then have "length (dec_of_nat (nat n)) \<le> 4300" using assms(2) by (intro len) simp
    with False show ?thesis using facts hd by (simp add: scan_number_def dec_of_int_def)
  qed
qed

text \<open>The first character of a canonical text says what kind of value it starts.\<close>

lemma dec_of_int_first:
  obtains c cs where "dec_of_int n = c # cs" "is_digit c \<or> c = 45"
proof -
  show ?thesis
  proof (cases "n < 0")
    case True
    then show ?thesis using that by (simp add: dec_of_int_def)
  next
    case False
    then show ?thesis
      using that dec_of_nat_digits [of "hd (dec_of_nat (nat n))" "nat n"] dec_of_nat_not_Nil [of "nat n"]
      by (cases "dec_of_nat (nat n)") (auto simp: dec_of_int_def)
  qed
qed

text \<open>
  Values without floating-point numbers, with safe integers, and the value that parsing a canonical
  text returns: members sorted.
\<close>

fun plain :: "json \<Rightarrow> bool" where
  "plain (JInt n) = (\<bar>n\<bar> \<le> 9007199254740992)"
| "plain (JFloat _ _) = False"
| "plain (JNonFinite _) = False"
| "plain (JArr vs) = (\<forall>v \<in> set vs. plain v)"
| "plain (JObj ms) = (\<forall>(k, v) \<in> set ms. plain v)"
| "plain _ = True"

function sort_json :: "json \<Rightarrow> json" where
  "sort_json (JArr vs) = JArr (map sort_json vs)"
| "sort_json (JObj ms) =
     JObj (map (\<lambda>(k, v). (k, sort_json v)) (sort_key (\<lambda>(k, v). utf16_sort_key k) ms))"
| "sort_json JNull = JNull"
| "sort_json (JBool b) = JBool b"
| "sort_json (JInt n) = JInt n"
| "sort_json (JFloat b t) = JFloat b t"
| "sort_json (JNonFinite text) = JNonFinite text"
| "sort_json (JStr s) = JStr s"
  by pat_completeness auto
termination
proof (relation "measure size", goal_cases)
  case (2 vs v)
  then show ?case by (induction vs) auto
next
  case (3 ms kv k v)
  then have "(k, v) \<in> set ms" by auto
  then show ?case by (induction ms) auto
qed auto


text \<open>
  A text that the scanner reads as a value, whatever follows it, with fuel twice its length.
\<close>

definition scans :: "(pystr \<Rightarrow> pystr option) \<Rightarrow> pystr \<Rightarrow> json \<Rightarrow> bool" where
  "scans ft t v \<longleftrightarrow> t \<noteq> [] \<and> \<not> json_ws (hd t) \<and> hd t \<notin> {93, 125, 65279}
     \<and> (\<forall>n r. json_tail r \<longrightarrow> 2 * length t \<le> n \<longrightarrow> scan_value ft n (t @ r) = Some (v, r))"

lemma scansI:
  assumes "t = c # cs" "\<not> json_ws c" "c \<noteq> 93" "c \<noteq> 125" "c \<noteq> 65279"
    and "\<And>n r. json_tail r \<Longrightarrow> 2 * length cs \<le> n \<Longrightarrow> scan_value ft (Suc (Suc n)) (t @ r) = Some (v, r)"
  shows "scans ft t v"
proof -
  have "scan_value ft n (t @ r) = Some (v, r)" if "json_tail r" "2 * length t \<le> n" for n r
  proof -
    from that(2) obtain m where "n = Suc (Suc m)" using assms(1) by (metis add_2_eq_Suc le_add1 le_Suc_ex length_Cons mult_Suc_right order_trans)
    with that show ?thesis using assms(1,6) by simp
  qed
  with assms show ?thesis by (simp add: scans_def)
qed

lemma scansD:
  assumes "scans ft t v"
  shows "json_tail r \<Longrightarrow> 2 * length t \<le> n \<Longrightarrow> scan_value ft n (t @ r) = Some (v, r)"
    and "skip_ws (t @ r) = t @ r" and "t \<noteq> []" and "hd t \<noteq> 93" and "hd t \<noteq> 125" and "hd t \<noteq> 65279"
  using assms by (cases t; auto simp: scans_def skip_ws_def)+

lemma skip_ws_Cons [simp]: "\<not> json_ws c \<Longrightarrow> skip_ws (c # cs) = c # cs"
  by (simp add: skip_ws_def)

lemma json_ws_punct [simp]:
  "\<not> json_ws 44" "\<not> json_ws 93" "\<not> json_ws 125" "\<not> json_ws 58" "\<not> json_ws 34" "\<not> json_ws 91" "\<not> json_ws 123"
  by (simp_all add: json_ws_def)

lemma json_tail_Cons [simp]: "json_tail (c # r) \<longleftrightarrow> c \<in> {44, 93, 125}"
  by (simp add: json_tail_def)

lemma scan_elements_join:
  "list_all2 (scans ft) ts vs \<Longrightarrow> ts \<noteq> [] \<Longrightarrow> 2 * length (join_with [44] ts) < n \<Longrightarrow>
   scan_elements ft n (join_with [44] ts @ 93 # r) = Some (vs, r)"
proof (induction "[44 :: nat]" ts arbitrary: vs n rule: join_with.induct)
  case (2 t)
  then obtain v m where "vs = [v]" "scans ft t v" "n = Suc m" "2 * length t \<le> m"
    by (cases n) (auto simp: list_all2_Cons1)
  then show ?case using scansD(1) [of ft t v "93 # r" m] by simp
next
  case (3 t u us)
  then obtain v vs' m where v: "vs = v # vs'" "scans ft t v" "list_all2 (scans ft) (u # us) vs'"
    and n: "n = Suc m" "2 * length t \<le> m" "2 * length (join_with [44] (u # us)) < m"
    by (cases n) (auto simp: list_all2_Cons1)
  let ?rest = "join_with [44] (u # us) @ 93 # r"
  have "scans ft u (hd vs')" using v(3) by (auto simp: list_all2_Cons1)
  then have "skip_ws ?rest = ?rest"
    using scansD(2) [of ft u "hd vs'"] by (cases us) (simp_all del: append_assoc add: append_assoc [symmetric], simp)
  moreover have "scan_elements ft m ?rest = Some (vs', r)" using 3(1) v(3) n(3) by simp
  ultimately show ?case using v n scansD(1) [OF v(2), of "44 # ?rest" m] by simp
qed simp

lemma scan_members_join:
  "list_all2 (\<lambda>(k, t) (k', v). k' = k \<and> scans ft t v) kts kvs \<Longrightarrow> kts \<noteq> [] \<Longrightarrow>
   2 * length (join_with [44] (map (\<lambda>(k, t). quote_str k @ [58] @ t) kts)) < n \<Longrightarrow>
   scan_members ft n (join_with [44] (map (\<lambda>(k, t). quote_str k @ [58] @ t) kts) @ 125 # r) = Some (kvs, r)"
proof (induction kts arbitrary: kvs n)
  case (Cons kt kts)
  obtain k t where kt: "kt = (k, t)" by force
  from Cons.prems(1) obtain v vs' where v: "kvs = (k, v) # vs'" "scans ft t v"
    "list_all2 (\<lambda>(k, t) (k', v). k' = k \<and> scans ft t v) kts vs'"
    by (auto simp: list_all2_Cons1 kt)
  let ?j = "\<lambda>kts. join_with [44] (map (\<lambda>(k, t). quote_str k @ [58] @ t) kts)"
  have val: "scan_value ft m (skip_ws (t @ r')) = Some (v, r')" if "json_tail r'" "2 * length t \<le> m" for m r'
    using scansD(1,2) [OF v(2)] that by simp
  show ?case
  proof (cases kts)
    case Nil
    with Cons.prems obtain m where m: "n = Suc m" "2 * length t \<le> m"
      by (cases n) (auto simp: kt)
    with v Nil show ?thesis
      by (simp add: kt quote_str_def scan_quote val)
  next
    case more: (Cons kt2 kts2)
    obtain k2 t2 where kt2: "kt2 = (k2, t2)" by force
    from Cons.prems(3) obtain m where m: "n = Suc m" "2 * length t \<le> m" "2 * length (?j kts) < m"
      by (cases n) (auto simp: kt more kt2)
    have "scan_members ft m (?j kts @ 125 # r) = Some (vs', r)"
      using Cons.IH v(3) m(3) more by blast
    moreover obtain z where "?j kts @ 125 # r = 34 # z"
      by (cases kts2) (auto simp: more kt2 quote_str_def)
    ultimately show ?thesis
      using v m by (simp add: kt quote_str_def scan_quote val more)
  qed
qed simp


lemma scans_literal:
  "scans ft (str ''null'') JNull" "scans ft (str ''true'') (JBool True)" "scans ft (str ''false'') (JBool False)"
  by (rule scansI, simp, simp_all add: json_ws_def scan_literal_def startswith_def)+

lemma scans_string: "scans ft (quote_str s) (JStr s)"
  by (rule scansI [where c = 34 and cs = "concat (map quote_char s) @ [34]"])
     (simp_all add: quote_str_def scan_quote)

lemma scans_int:
  assumes "\<bar>n\<bar> \<le> 9007199254740992"
  shows "scans ft (dec_of_int n) (JInt n)"
proof -
  obtain c cs where c: "dec_of_int n = c # cs" "is_digit c \<or> c = 45" by (rule dec_of_int_first)
  have "startswith ((c # cs) @ r) (str ''-Infinity'') \<longleftrightarrow> False" for r
  proof -
    have "\<not> is_digit 73" by (simp add: is_digit_def)
    then have "cs = [] \<or> hd cs \<noteq> 73"
      using c(1) no_char_dec [of 73 "nat n"] no_char_dec [of 73 "nat (- n)"]
      by (cases cs) (auto simp: dec_of_int_def split: if_splits)
    moreover have "cs \<noteq> []" if "c = 45"
      using c that dec_of_nat_digits [of c "nat n"]
      by (auto simp: dec_of_int_def is_digit_def split: if_splits)
    ultimately show ?thesis by (cases cs) (auto simp: startswith_def)
  qed
  then have lit: "scan_literal ((c # cs) @ r) = None" for r
    using c(2) by (auto simp: scan_literal_def startswith_def is_digit_def)
  show ?thesis
    by (rule scansI [OF c(1)])
       (use c(2) scan_number_int [OF _ assms, of _ ft] lit in \<open>auto simp: json_ws_def is_digit_def c(1)\<close>)
qed

lemma scans_array:
  assumes "list_all2 (scans ft) ts vs"
  shows "scans ft ([91] @ join_with [44] ts @ [93]) (JArr vs)"
proof (rule scansI [where c = 91 and cs = "join_with [44] ts @ [93]"])
  fix n r assume r: "json_tail r" "2 * length (join_with [44] ts @ [93]) \<le> n"
  show "scan_value ft (Suc (Suc n)) (([91] @ join_with [44] ts @ [93]) @ r) = Some (JArr vs, r)"
  proof (cases ts)
    case Nil
    with assms show ?thesis by simp
  next
    case (Cons t ts')
    with assms have t: "scans ft t (hd vs)" by (auto simp: list_all2_Cons1)
    then obtain d ds where d: "t = d # ds" "d \<noteq> 93" "\<not> json_ws d" by (cases t) (auto simp: scans_def)
    then obtain z where z: "join_with [44] ts @ 93 # r = d # z" by (cases ts') (auto simp: Cons)
    have "scan_elements ft (Suc n) (join_with [44] ts @ 93 # r) = Some (vs, r)"
      using assms Cons r by (intro scan_elements_join) auto
    then show ?thesis using d z by simp
  qed
qed auto

lemma scans_object:
  assumes "list_all2 (\<lambda>(k, t) (k', v). k' = k \<and> scans ft t v) kts kvs"
  shows "scans ft ([123] @ join_with [44] (map (\<lambda>(k, t). quote_str k @ [58] @ t) kts) @ [125]) (JObj kvs)"
    (is "scans ft ([123] @ ?j @ [125]) _")
proof (rule scansI [where c = 123 and cs = "?j @ [125]"])
  fix n r assume r: "json_tail r" "2 * length (?j @ [125]) \<le> n"
  show "scan_value ft (Suc (Suc n)) (([123] @ ?j @ [125]) @ r) = Some (JObj kvs, r)"
  proof (cases kts)
    case Nil
    with assms show ?thesis by simp
  next
    case (Cons kt kts')
    then obtain z where z: "?j @ 125 # r = 34 # z" by (cases kts'; cases kt) (auto simp: quote_str_def)
    have "scan_members ft (Suc n) (?j @ 125 # r) = Some (kvs, r)"
      using assms Cons r by (intro scan_members_join) auto
    then show ?thesis using z by simp
  qed
qed auto

lemma canonical_members:
  assumes "list_all2 (\<lambda>(k, v) p. rbind (assert_valid_unicode k) (\<lambda>_.
                 rbind (canonical_value fi v) (\<lambda>t. Inr (quote_str k @ [58] @ t))) = Inr p) ms ps"
  obtains kts where "ps = map (\<lambda>(k, t). quote_str k @ [58] @ t) kts"
    "list_all2 (\<lambda>(k, t) (k', v). k = k' \<and> encodable k \<and> canonical_value fi v = Inr t) kts ms"
proof -
  have "\<exists>kts. ps = map (\<lambda>(k, t). quote_str k @ [58] @ t) kts \<and>
    list_all2 (\<lambda>(k, t) (k', v). k = k' \<and> encodable k \<and> canonical_value fi v = Inr t) kts ms"
    using assms
  proof (induction rule: list_all2_induct)
    case (Cons kv ms p ps)
    then obtain k v t kts where "kv = (k, v)" "encodable k" "canonical_value fi v = Inr t"
      "p = quote_str k @ [58] @ t" "ps = map (\<lambda>(k, t). quote_str k @ [58] @ t) kts"
      "list_all2 (\<lambda>(k, t) (k', v). k = k' \<and> encodable k \<and> canonical_value fi v = Inr t) kts ms"
      by (cases kv) (auto simp: res_simps assert_valid_unicode_def)
    then show ?case by (intro exI [of _ "(k, t) # kts"]) simp
  qed simp
  then show thesis using that by blast
qed

lemma canonical_scans:
  "plain v \<Longrightarrow> canonical_value fi v = Inr t \<Longrightarrow> scans ft t (sort_json v)"
proof (induction fi v arbitrary: t rule: canonical_value.induct)
  case (3 fi n)
  then show ?case using scans_int [of n ft] by (simp add: canonical_int_small)
next
  case (7 fi vs)
  then obtain ts where ts: "list_all2 (\<lambda>v t. canonical_value fi v = Inr t) vs ts"
    "t = [91] @ join_with [44] ts @ [93]" by (auto simp: res_simps)
  have "list_all2 (scans ft) ts (map sort_json vs)"
    using ts(1) 7 by (auto simp: list_all2_conv_all_nth)
  then show ?case using scans_array ts(2) by simp
next
  case (8 fi ms)
  let ?ms = "sort_key (\<lambda>(k, v). utf16_sort_key k) ms"
  from 8(3) obtain ps where ps: "list_all2 (\<lambda>(k, v) p. rbind (assert_valid_unicode k) (\<lambda>_.
       rbind (canonical_value fi v) (\<lambda>t. Inr (quote_str k @ [58] @ t))) = Inr p) ?ms ps"
    and t: "t = [123] @ join_with [44] ps @ [125]"
    and enc: "\<not> (\<exists>(k, v) \<in> set ms. \<not> encodable k)"
    by (auto simp: res_simps case_prod_unfold split: if_splits)
  from ps obtain kts where kts: "ps = map (\<lambda>(k, t). quote_str k @ [58] @ t) kts"
    "list_all2 (\<lambda>(k, t) (k', v). k = k' \<and> encodable k \<and> canonical_value fi v = Inr t) kts ?ms"
    by (rule canonical_members)
  have "list_all2 (\<lambda>(k, t) (k', v). k' = k \<and> scans ft t v) kts (map (\<lambda>(k, v). (k, sort_json v)) ?ms)"
    unfolding list_all2_map2
  proof (rule list.rel_mono_strong [OF kts(2)])
    fix kt kv assume kv: "kt \<in> set kts" "kv \<in> set ?ms"
      "(case kt of (k, t) \<Rightarrow> \<lambda>(k', v). k = k' \<and> encodable k \<and> canonical_value fi v = Inr t) kv"
    obtain k t where kt: "kt = (k, t)" by force
    then obtain v where v: "kv = (k, v)" "canonical_value fi v = Inr t" "encodable k" using kv(3) by (cases kv) auto
    have "plain v" using 8(2) kv(2) v by auto
    with 8(1) [OF enc] v kv(2) have "scans ft t (sort_json v)" by (auto simp: assert_valid_unicode_def)
    with v kt show "(case kt of (k, t) \<Rightarrow> \<lambda>(k', v). k' = k \<and> scans ft t v) ((\<lambda>(k, v). (k, sort_json v)) kv)"
      by simp
  qed
  then show ?case using scans_object kts(1) t by simp
qed (auto simp: scans_literal [simplified] scans_string res_simps split: if_splits)


lemma canonical_json_parses:
  assumes "plain v" "canonical_value fi v = Inr t"
  shows "json_loads ft t = Some (sort_json v)"
proof -
  have s: "scans ft t (sort_json v)" using canonical_scans assms by blast
  have "scan_value ft (2 * length t + 2) (t @ []) = Some (sort_json v, [])"
    by (rule scansD(1) [OF s]) (simp_all add: json_tail_def)
  moreover have "skip_ws t = t" using scansD(2) [OF s, of "[]"] by simp
  moreover have "hd t \<noteq> 65279" using scansD(6) [OF s] .
  moreover have "skip_ws [] = []" by (simp add: skip_ws_def)
  ultimately show ?thesis by (simp add: json_loads_def del: scan_value.simps)
qed


section \<open>What a canonical text determines\<close>

lemma plain_sort_json: "plain (sort_json v) = plain v"
  by (induction v rule: sort_json.induct) (auto simp: split: prod.splits)

lemma canonical_sort_json: "canonical_value fi (sort_json v) = canonical_value fi v"
proof (induction v rule: sort_json.induct)
  case (1 vs)
  then have "mapR (canonical_value fi) (map sort_json vs) = mapR (canonical_value fi) vs"
    by (induction vs) auto
  then show ?case by simp
next
  case (2 ms)
  let ?g = "\<lambda>(k, v). (k, sort_json v)" and ?key = "\<lambda>(k, v). utf16_sort_key k"
  have key: "map ?key (map ?g xs) = map ?key xs" for xs :: "(pystr \<times> json) list" by auto
  have "sort_key ?key (map ?g (sort_key ?key ms)) = map ?g (sort_key ?key ms)"
    by (rule sort_key_id_if_sorted) (simp only: key sorted_sort_key)
  moreover have "mapR f (map ?g xs) = mapR (f \<circ> ?g) xs" for f :: "pystr \<times> json \<Rightarrow> exn + pystr" and xs
    by (induction xs) auto
  moreover have "mapR ((\<lambda>(k, v). rbind (assert_valid_unicode k) (\<lambda>_.
        rbind (canonical_value fi v) (\<lambda>t. Inr (quote_str k @ [58] @ t)))) \<circ> ?g) (sort_key ?key ms)
      = mapR (\<lambda>(k, v). rbind (assert_valid_unicode k) (\<lambda>_.
        rbind (canonical_value fi v) (\<lambda>t. Inr (quote_str k @ [58] @ t)))) (sort_key ?key ms)"
    using 2 by (intro mapR_cong) auto
  ultimately show ?case by (auto simp: case_prod_unfold)
qed auto

lemma utf16_units_inj:
  assumes "utf8_char c \<noteq> None" "utf8_char d \<noteq> None" "utf16_units c @ u = utf16_units d @ w"
  shows "c = d \<and> u = w"
proof -
  have bmp: "c < 55296 \<or> 57343 < c" if "utf8_char c \<noteq> None" for c
    using that by (auto simp: utf8_char_def split: if_splits)
  have top: "c < 1114112" if "utf8_char c \<noteq> None" for c
    using that by (auto simp: utf8_char_def split: if_splits)
  have hi: "55296 + (c - 65536) div 1024 \<le> 56319" if "c < 1114112" for c :: nat
    using that by simp
  have eq: "c = d" if "(c - 65536) div 1024 = (d - 65536) div 1024"
    "(c - 65536) mod 1024 = (d - 65536) mod 1024" "65536 \<le> c" "65536 \<le> d" for c d :: nat
    using that by (metis div_mult_mod_eq le_add_diff_inverse)
  show ?thesis
  proof (cases "c < 65536"; cases "d < 65536")
    assume "\<not> c < 65536" "\<not> d < 65536"
    then show ?thesis using assms(3) eq [of c d] by (simp add: utf16_units_def)
  next
    assume "c < 65536" "\<not> d < 65536"
    then show ?thesis using assms(3) bmp [OF assms(1)] hi [OF top [OF assms(2)]]
      by (auto simp: utf16_units_def)
  next
    assume "\<not> c < 65536" "d < 65536"
    then show ?thesis using assms(3) bmp [OF assms(2)] hi [OF top [OF assms(1)]]
      by (auto simp: utf16_units_def)
  qed (use assms(3) in \<open>simp add: utf16_units_def\<close>)
qed

lemma encodable_Cons: "encodable (c # s) \<longleftrightarrow> utf8_char c \<noteq> None \<and> encodable s"
  by (auto simp: encodable_def split: option.splits)

lemma utf16_sort_key_inj:
  "encodable s \<Longrightarrow> encodable t \<Longrightarrow> utf16_sort_key s = utf16_sort_key t \<Longrightarrow> s = t"
proof (induction s arbitrary: t)
  case Nil
  then show ?case by (cases t) (auto simp: utf16_sort_key_def utf16_units_def split: if_splits)
next
  case (Cons c s)
  then obtain d t' where t: "t = d # t'"
    by (cases t) (auto simp: utf16_sort_key_def utf16_units_def split: if_splits)
  with Cons.prems have "c = d \<and> utf16_sort_key s = utf16_sort_key t'"
    by (intro utf16_units_inj) (auto simp: encodable_Cons utf16_sort_key_def)
  with Cons t show ?case by (simp add: encodable_Cons)
qed

text \<open>
  The order of the members of an object does not matter to the canonical serialisation: two
  objects with the same members, in any insertion order, have the same canonical text or raise the
  same error. (The UTF-16 sort key is injective on the names that can be encoded at all.)
\<close>

theorem canonical_member_order:
  assumes "mset ms = mset ms'" "distinct (map fst ms)"
  shows "canonical_value fi (JObj ms) = canonical_value fi (JObj ms')"
proof (cases "\<exists>(k, v) \<in> set ms. \<not> encodable k")
  case True
  moreover have "set ms' = set ms" using assms(1) by (metis mset_eq_setD)
  ultimately show ?thesis by simp
next
  case False
  let ?key = "\<lambda>(k, v :: json). utf16_sort_key k"
  have set: "set ms' = set ms" using assms(1) by (metis mset_eq_setD)
  have "inj_on ?key (set ms)"
  proof (rule inj_onI)
    fix p q assume pq: "p \<in> set ms" "q \<in> set ms" "?key p = ?key q"
    then have "fst p = fst q" using False utf16_sort_key_inj [of "fst p" "fst q"] by (auto split: prod.splits)
    with pq assms(2) show "p = q" by (metis distinct_map inj_onD)
  qed
  then have "sort_key ?key ms = sort_key ?key ms'"
    using assms(1) by (intro sort_key_inj_key_eq) simp_all
  then show ?thesis using set by simp
qed



section \<open>Canonical bytes pass the parser\<close>

text \<open>
  A text whose UTF-8 bytes take the nesting counter back to where it was, provided that \<open>k\<close> more
  levels are allowed.
\<close>

definition nests :: "pystr \<Rightarrow> nat \<Rightarrow> bool" where
  "nests t k \<longleftrightarrow> (\<exists>b. utf8_encode t = Some b \<and>
     (\<forall>d r. d + int k \<le> int MAX_JSON_DEPTH \<longrightarrow>
        nesting_loop (b @ r) d False False = nesting_loop r d False False))"

lemma utf8_encode_append:
  "utf8_encode s = Some a \<Longrightarrow> utf8_encode t = Some b \<Longrightarrow> utf8_encode (s @ t) = Some (a @ b)"
  by (induction s arbitrary: a) (auto split: option.splits)

lemma nests_mono: "nests t k \<Longrightarrow> k \<le> k' \<Longrightarrow> nests t k'"
  unfolding nests_def by (metis add_left_mono of_nat_le_iff order_trans)

lemma nests_append:
  assumes "nests s k" "nests t k"
  shows "nests (s @ t) k"
proof -
  obtain a b where ab: "utf8_encode s = Some a" "utf8_encode t = Some b"
    using assms by (auto simp: nests_def)
  then have "nesting_loop ((a @ b) @ r) d False False = nesting_loop r d False False"
    if "d + int k \<le> int MAX_JSON_DEPTH" for d r
    using that assms by (auto simp: nests_def)
  then show ?thesis using utf8_encode_append [OF ab] by (simp add: nests_def)
qed

lemma nests_join: "(\<And>t. t \<in> set ts \<Longrightarrow> nests t k) \<Longrightarrow> nests (join_with [44] ts) k"
proof (induction "[44 :: nat]" ts rule: join_with.induct)
  case (3 x y zs)
  have "nests [44] k" by (simp add: nests_def utf8_char_def)
  with 3 show ?case by (simp only: join_with.simps, intro nests_append) auto
qed (simp_all add: nests_def)

lemma byte_of_nat_eq: "n < 256 \<Longrightarrow> m < 256 \<Longrightarrow> word_of_nat n = (word_of_nat m :: byte) \<longleftrightarrow> n = m"
  by (metis unat_small)

lemma nests_char:
  assumes "c < 128" "c \<notin> {91, 123, 93, 125, 34}"
  shows "nests [c] 0"
proof -
  have "(word_of_nat c :: byte) \<noteq> word_of_nat m" if "m \<in> {91, 123, 93, 125, 34}" for m
    using assms that byte_of_nat_eq [of c m] by auto
  from this [of 91] this [of 123] this [of 93] this [of 125] this [of 34] show ?thesis
    using assms(1) by (simp add: nests_def utf8_char_def)
qed

lemma nests_plain_text:
  "(\<And>c. c \<in> set t \<Longrightarrow> c < 128 \<and> c \<notin> {91, 123, 93, 125, 34}) \<Longrightarrow> nests t 0"
proof (induction t)
  case (Cons c t)
  then have "nests [c] 0" by (intro nests_char) auto
  then show ?case using nests_append [of "[c]" 0 t] Cons by simp
qed (simp add: nests_def)

lemma utf8_char_bytes:
  assumes "utf8_char c = Some b" "x \<in> set b"
  shows "c < 128 \<and> x = word_of_nat c \<or> 128 \<le> unat x"
proof -
  have big: "128 \<le> unat (word_of_nat n :: byte)" if "128 \<le> n" "n < 256" for n
    using that unat_small [of n] by simp
  have m: "128 + a mod 64 < 256" for a :: nat using mod_less_divisor [of 64 a] by simp
  show ?thesis
  proof (cases "c < 128")
    case True
    then show ?thesis using assms by (auto simp: utf8_char_def)
  next
    case False
    then have "c < 2048 \<and> b = [word_of_nat (192 + c div 64), word_of_nat (128 + c mod 64)] \<or>
      c < 65536 \<and> b = [word_of_nat (224 + c div 4096), word_of_nat (128 + c div 64 mod 64),
              word_of_nat (128 + c mod 64)] \<or>
      c < 1114112 \<and> b = [word_of_nat (240 + c div 262144), word_of_nat (128 + c div 4096 mod 64),
              word_of_nat (128 + c div 64 mod 64), word_of_nat (128 + c mod 64)]"
      using assms(1) by (simp add: utf8_char_def split: if_splits)
    moreover have "192 + c div 64 < 256" if "c < 2048" using that by simp
    moreover have "224 + c div 4096 < 256" if "c < 65536" using that by simp
    moreover have "240 + c div 262144 < 256" if "c < 1114112" using that by simp
    ultimately have "128 \<le> unat x"
      using assms(2) by (elim disjE conjE) (auto simp del: of_nat_add intro!: big m)
    then show ?thesis ..
  qed
qed

text \<open>Inside a string every escaped or plain character leaves the scanner inside the string.\<close>

lemma nesting_quote_char:
  assumes "utf8_char c \<noteq> None"
  shows "\<exists>b. utf8_encode (quote_char c) = Some b \<and>
    (\<forall>d r. nesting_loop (b @ r) d True False = nesting_loop r d True False)"
proof -
  have hex: "(word_of_nat (hex_digit n) :: byte) \<noteq> 92" "(word_of_nat (hex_digit n) :: byte) \<noteq> 34"
    "hex_digit n < 128" if "n < 16" for n
    using that byte_of_nat_eq [of "hex_digit n" 92] byte_of_nat_eq [of "hex_digit n" 34]
    by (auto simp: hex_digit_def)
  have hi: "(word_of_nat n :: byte) \<noteq> 92" "(word_of_nat n :: byte) \<noteq> 34"
    if "n < 256" "n \<noteq> 92" "n \<noteq> 34" for n
    using that byte_of_nat_eq [of n 92] byte_of_nat_eq [of n 34] by auto
  consider "c \<in> {34, 92, 8, 12, 10, 13, 9}" | "c \<notin> {34, 92, 8, 12, 10, 13, 9}" "c < 32"
    | "c \<notin> {34, 92, 8, 12, 10, 13, 9}" "\<not> c < 32" by blast
  then show ?thesis
  proof cases
    case 1
    then obtain e where "quote_char c = [92, e]" "e < 128" by (auto simp: quote_char_def)
    then show ?thesis by (simp add: utf8_char_def)
  next
    case 2
    then have "quote_char c = [92, 117, 48, 48, hex_digit (c div 16), hex_digit (c mod 16)]"
      by (auto simp: quote_char_def)
    with 2 hex [of "c div 16"] hex [of "c mod 16"] show ?thesis by (simp add: utf8_char_def)
  next
    case 3
    then have q: "quote_char c = [c]" by (simp add: quote_char_def)
    obtain b where b: "utf8_char c = Some b" using assms by auto
    have "x \<noteq> 92 \<and> x \<noteq> 34" if "x \<in> set b" for x
    proof -
      have "unat (92 :: byte) = 92" "unat (34 :: byte) = 34" by simp_all
      then show ?thesis using utf8_char_bytes [OF b that] hi [of c] 3
        by (elim disjE conjE) auto
    qed
    then have "nesting_loop (b @ r) d True False = nesting_loop r d True False" for d r
      by (induction b) auto
    with b q show ?thesis by simp
  qed
qed

lemma nesting_quote:
  "encodable s \<Longrightarrow> \<exists>b. utf8_encode (concat (map quote_char s)) = Some b \<and>
     (\<forall>d r. nesting_loop (b @ r) d True False = nesting_loop r d True False)"
proof (induction s)
  case (Cons c s)
  then obtain b where b: "utf8_encode (concat (map quote_char s)) = Some b"
    "\<And>d r. nesting_loop (b @ r) d True False = nesting_loop r d True False"
    by (auto simp: encodable_Cons)
  from Cons.prems obtain a where a: "utf8_encode (quote_char c) = Some a"
    "\<And>d r. nesting_loop (a @ r) d True False = nesting_loop r d True False"
    using nesting_quote_char [of c] by (auto simp: encodable_Cons)
  show ?case using utf8_encode_append [OF a(1) b(1)] a(2) b(2) by simp
qed simp

lemma nests_string:
  assumes "encodable s"
  shows "nests (quote_str s) 0"
proof -
  obtain b where b: "utf8_encode (concat (map quote_char s)) = Some b"
    "\<And>d r. nesting_loop (b @ r) d True False = nesting_loop r d True False"
    using nesting_quote [OF assms] by blast
  have "utf8_encode (quote_str s) = Some ([34] @ b @ [34])"
    using utf8_encode_append [of "[34]" "[34]", OF _ utf8_encode_append [OF b(1), of "[34]" "[34]"]]
    by (simp add: quote_str_def utf8_char_def)
  with b(2) show ?thesis by (auto simp: nests_def)
qed

lemma nests_bracket:
  assumes "nests t k" "(a, z) \<in> {(91, 93), (123, 125)}"
  shows "nests ([a] @ t @ [z]) (Suc k)"
proof -
  obtain b where b: "utf8_encode t = Some b"
    "\<And>d r. d + int k \<le> int MAX_JSON_DEPTH \<Longrightarrow> nesting_loop (b @ r) d False False = nesting_loop r d False False"
    using assms(1) by (auto simp: nests_def)
  have enc: "utf8_encode ([a] @ t @ [z]) = Some ([word_of_nat a] @ b @ [word_of_nat z])"
  proof -
    have "utf8_encode [a] = Some [word_of_nat a]" "utf8_encode [z] = Some [word_of_nat z]"
      using assms(2) by (auto simp: utf8_char_def)
    then show ?thesis by (intro utf8_encode_append b(1))
  qed
  have "nesting_loop (([word_of_nat a] @ b @ [word_of_nat z]) @ r) d False False = nesting_loop r d False False"
    if "d + int (Suc k) \<le> int MAX_JSON_DEPTH" for d r
    using that b(2) [of "d + 1"] assms(2) by auto
  then show ?thesis using enc unfolding nests_def by blast
qed

lemma nests_empty: "nests [91, 93] 0" "nests [123, 125] 0"
  by (simp_all add: nests_def utf8_char_def)


lemma dec_of_int_text: "c \<in> set (dec_of_int n) \<Longrightarrow> c = 45 \<or> is_digit c"
  using dec_of_nat_digits by (auto simp: dec_of_int_def split: if_splits)

lemma list_all2_in_set: "list_all2 P xs ys \<Longrightarrow> y \<in> set ys \<Longrightarrow> \<exists>x \<in> set xs. P x y"
  by (induction rule: list_all2_induct) auto

lemma canonical_nests:
  "plain v \<Longrightarrow> canonical_value fi v = Inr t \<Longrightarrow> nests t (json_depth v)"
proof (induction fi v arbitrary: t rule: canonical_value.induct)
  case (3 fi n)
  have "nests (dec_of_int n) 0"
    by (rule nests_plain_text) (auto dest!: dec_of_int_text simp: is_digit_def)
  with 3 show ?case by (simp add: canonical_int_small)
next
  case (7 fi vs)
  then obtain ts where ts: "list_all2 (\<lambda>v t. canonical_value fi v = Inr t) vs ts"
    "t = [91] @ join_with [44] ts @ [93]" by (auto simp: res_simps)
  show ?case
  proof (cases "vs = []")
    case True
    with ts show ?thesis by (simp add: nests_empty)
  next
    case False
    have "nests u (Max (set (map json_depth vs)))" if u: "u \<in> set ts" for u
    proof -
      obtain v where v: "v \<in> set vs" "canonical_value fi v = Inr u"
        using u ts(1) by (auto dest: list_all2_in_set)
      then have "nests u (json_depth v)" using 7 by auto
      then show ?thesis using v(1) by (rule_tac nests_mono) auto
    qed
    then have "nests t (Suc (Max (set (map json_depth vs))))"
      unfolding ts(2) by (intro nests_bracket nests_join) auto
    with False show ?thesis by simp
  qed
next
  case (8 fi ms)
  let ?ms = "sort_key (\<lambda>(k, v). utf16_sort_key k) ms" and ?d = "Max (set (map (\<lambda>(k, v). json_depth v) ms))"
  from 8(3) obtain ps where ps: "list_all2 (\<lambda>(k, v) p. rbind (assert_valid_unicode k) (\<lambda>_.
       rbind (canonical_value fi v) (\<lambda>t. Inr (quote_str k @ [58] @ t))) = Inr p) ?ms ps"
    and t: "t = [123] @ join_with [44] ps @ [125]"
    and enc: "\<not> (\<exists>(k, v) \<in> set ms. \<not> encodable k)"
    by (auto simp: res_simps case_prod_unfold split: if_splits)
  show ?case
  proof (cases "ms = []")
    case True
    with ps t show ?thesis by (simp add: nests_empty)
  next
    case False
    have "nests p ?d" if p: "p \<in> set ps" for p
    proof -
      obtain k v u where kv: "(k, v) \<in> set ms" "canonical_value fi v = Inr u" "encodable k"
        "p = quote_str k @ [58] @ u"
        using list_all2_in_set [OF ps p] by (auto simp: res_simps assert_valid_unicode_def)
      have "nests u (json_depth v)" using 8(1) [OF enc] 8(2) kv by (auto simp: assert_valid_unicode_def)
      moreover have "json_depth v \<le> ?d" using kv(1) by (intro Max_ge) force+
      ultimately have "nests u ?d" by (rule nests_mono)
      moreover have "nests (quote_str k) ?d" "nests [58] ?d"
        using nests_string [OF kv(3)] nests_char [of 58] by (auto intro: nests_mono)
      ultimately show ?thesis unfolding kv(4) by (intro nests_append)
    qed
    then have "nests t (Suc ?d)" unfolding t by (intro nests_bracket nests_join) auto
    with False show ?thesis by simp
  qed
next
  case (6 fi s)
  then show ?case by (auto simp: res_simps assert_valid_unicode_def nests_string)
qed (auto intro!: nests_plain_text split: if_splits)

lemma json_depth_sort: "json_depth (sort_json v) = json_depth v"
proof (induction v rule: sort_json.induct)
  case (1 vs)
  then have "json_depth ` sort_json ` set vs = json_depth ` set vs" by (auto simp: image_image)
  then show ?case by (auto simp: image_image)
next
  case (2 ms)
  then have "(\<lambda>(k, v). json_depth v) ` (\<lambda>(k, v). (k, sort_json v)) ` set ms = (\<lambda>(k, v). json_depth v) ` set ms"
    by (force simp: image_image)
  moreover have "sort_key (\<lambda>(k, v :: json). utf16_sort_key k) ms = [] \<longleftrightarrow> ms = []"
    by (metis length_0_conv length_sort)
  ultimately show ?case by (simp add: image_image)
qed simp_all

lemma dup_free_sort: "dup_free (sort_json v) = dup_free v"
proof (induction v rule: sort_json.induct)
  case (2 ms)
  let ?ms = "sort_key (\<lambda>(k, v). utf16_sort_key k) ms"
  have "map fst (map (\<lambda>(k, v). (k, sort_json v)) ?ms) = map fst ?ms" by auto
  moreover have "distinct (map fst ?ms) = distinct (map fst ms)"
    by (rule mset_eq_imp_distinct_iff) simp
  moreover have "(\<forall>(k, v) \<in> set ms. dup_free (sort_json v)) \<longleftrightarrow> (\<forall>(k, v) \<in> set ms. dup_free v)"
    using 2 by (auto simp: case_prod_unfold)
  moreover have "dup_free (sort_json (JObj ms)) \<longleftrightarrow>
    distinct (map fst (map (\<lambda>(k, v). (k, sort_json v)) ?ms)) \<and> (\<forall>(k, v) \<in> set ms. dup_free (sort_json v))"
    by (simp add: case_prod_unfold)
  ultimately show ?case by (simp only: dup_free.simps)
qed auto

text \<open>All the strings of a value can be encoded.\<close>

fun encodable_json :: "json \<Rightarrow> bool" where
  "encodable_json (JStr s) = encodable s"
| "encodable_json (JArr vs) = (\<forall>v \<in> set vs. encodable_json v)"
| "encodable_json (JObj ms) = (\<forall>(k, v) \<in> set ms. encodable k \<and> encodable_json v)"
| "encodable_json _ = True"

lemma canonical_value_total:
  "plain v \<Longrightarrow> encodable_json v \<Longrightarrow> \<exists>t. canonical_value fi v = Inr t"
proof (induction fi v rule: canonical_value.induct)
  case (3 fi n)
  then show ?case by (simp add: canonical_int_small)
next
  case (7 fi vs)
  then have "\<forall>v \<in> set vs. \<exists>t. canonical_value fi v = Inr t" by auto
  then obtain f where "\<And>v. v \<in> set vs \<Longrightarrow> canonical_value fi v = Inr (f v)" by metis
  then show ?case by (simp add: mapR_all_ok)
next
  case (8 fi ms)
  then have enc: "\<not> (\<exists>(k, v) \<in> set ms. \<not> encodable k)" by auto
  have "\<forall>kv \<in> set ms. \<exists>t. canonical_value fi (snd kv) = Inr t"
    using 8(1) [OF enc] 8(2,3) by (force simp: assert_valid_unicode_def)
  then obtain f where f: "\<And>kv. kv \<in> set ms \<Longrightarrow> canonical_value fi (snd kv) = Inr (f kv)" by metis
  have "mapR (\<lambda>(k, v). rbind (assert_valid_unicode k) (\<lambda>_.
       rbind (canonical_value fi v) (\<lambda>t. Inr (quote_str k @ [58] @ t))))
       (sort_key (\<lambda>(k, v). utf16_sort_key k) ms)
     = Inr (map (\<lambda>kv. quote_str (fst kv) @ [58] @ f kv) (sort_key (\<lambda>(k, v). utf16_sort_key k) ms))"
    using f enc by (intro mapR_all_ok) (auto simp: assert_valid_unicode_def)
  then show ?case using enc by simp
qed (auto simp: assert_valid_unicode_def)


lemma canonical_bytes_read_back:
  assumes "plain v" "encodable_json v" "dup_free v" "json_depth v \<le> MAX_JSON_DEPTH"
  shows "\<exists>b. canonical_bytes fi v = Inr b
    \<and> parse_json_no_duplicate_members ft b = Inr (sort_json v)
    \<and> assert_canonical_json_bytes fi b (sort_json v) = Inr ()"
proof -
  obtain t where t: "canonical_value fi v = Inr t" using canonical_value_total assms(1,2) by blast
  have "nests t (json_depth v)" using canonical_nests assms(1) t by blast
  then obtain b where b: "utf8_encode t = Some b"
    and loop: "nesting_loop (b @ []) 0 False False = nesting_loop [] 0 False False"
    using assms(4) unfolding nests_def by (metis add_0 of_nat_le_iff)
  have bytes: "canonical_bytes fi v = Inr b"
    using assms(4) t b by (simp add: canonical_bytes_def canonical_json_def)
  have dec: "utf8_decode b = Some t" using b by (rule utf8_decode_encode)
  have "check_json_nesting b = Inr ()" using loop by (simp add: check_json_nesting_def)
  then have parse: "parse_json_no_duplicate_members ft b = Inr (sort_json v)"
    using dec canonical_json_parses [OF assms(1) t] assms(3)
    by (simp add: parse_json_no_duplicate_members_def dup_free_sort)
  have "canonical_json fi (sort_json v) = Inr t"
    using assms(4) t by (simp add: canonical_json_def json_depth_sort canonical_sort_json)
  then have "assert_canonical_json_bytes fi b (sort_json v) = Inr ()"
    using dec by (simp add: assert_canonical_json_bytes_def)
  with bytes parse show ?thesis by blast
qed

text \<open>
  C27: Serialising and parsing are inverse up to member order: a value of safe integers, encodable
  strings, distinct member names and at most 64 levels has canonical bytes; the strict parser accepts
  them, nesting check, UTF-8, JSON grammar and duplicate check included, and returns the value with
  its members sorted, and the canonical-form check passes on the result.
\<close>

theorem canonical_bytes_roundtrip:
  assumes "plain v" "encodable_json v" "dup_free v" "json_depth v \<le> MAX_JSON_DEPTH"
  shows "\<exists>b. canonical_bytes fi v = Inr b
    \<and> parse_json_no_duplicate_members ft b = Inr (sort_json v)
    \<and> assert_canonical_json_bytes fi b (sort_json v) = Inr ()"
  by (rule canonical_bytes_read_back [OF assms])

theorem canonical_bytes_roundtrip_witness:
  "\<exists>b. canonical_bytes (\<lambda>_. None) (JObj [([98], JInt (- 7)), ([97], JArr [JStr [34, 8364], JNull])]) = Inr b
    \<and> parse_json_no_duplicate_members (\<lambda>_. None) b
        = Inr (JObj [([97], JArr [JStr [34, 8364], JNull]), ([98], JInt (- 7))])"
proof -
  have s: "sort_json (JObj [([98], JInt (- 7)), ([97], JArr [JStr [34, 8364], JNull])])
    = JObj [([97], JArr [JStr [34, 8364], JNull]), ([98], JInt (- 7))]" by code_simp
  have "plain (JObj [([98], JInt (- 7)), ([97], JArr [JStr [34, 8364], JNull])])" by simp
  moreover have "encodable_json (JObj [([98], JInt (- 7)), ([97], JArr [JStr [34, 8364], JNull])])" by code_simp
  moreover have "dup_free (JObj [([98], JInt (- 7)), ([97], JArr [JStr [34, 8364], JNull])])" by simp
  moreover have "json_depth (JObj [([98], JInt (- 7)), ([97], JArr [JStr [34, 8364], JNull])]) \<le> MAX_JSON_DEPTH"
    by (simp add: MAX_JSON_DEPTH_def)
  ultimately show ?thesis
    using canonical_bytes_roundtrip [where fi = "\<lambda>_. None" and ft = "\<lambda>_. None"
        and v = "JObj [([98], JInt (- 7)), ([97], JArr [JStr [34, 8364], JNull])]"] s by metis
qed

theorem canonical_member_order_witness:
  "canonical_value (\<lambda>_. None) (JObj [([97], JNull), ([98], JInt 1)])
   = canonical_value (\<lambda>_. None) (JObj [([98], JInt 1), ([97], JNull)])"
  by (rule canonical_member_order) simp_all

lemma canonical_bytes_inj:
  assumes "plain v" "plain w" "canonical_bytes fi v = Inr b" "canonical_bytes fi w = Inr b"
  shows "sort_json v = sort_json w"
proof -
  obtain t u where t: "canonical_value fi v = Inr t" "utf8_encode t = Some b"
    and u: "canonical_value fi w = Inr u" "utf8_encode u = Some b"
    using assms(3,4)
    by (auto simp: canonical_bytes_def canonical_json_def res_simps split: option.splits if_splits)
  then have "t = u" by (blast intro: utf8_encode_inj)
  with t(1) u(1) canonical_json_parses [OF assms(1), of fi _ "\<lambda>_. None"]
    canonical_json_parses [OF assms(2), of fi _ "\<lambda>_. None"]
  show ?thesis by auto
qed

text \<open>
  Canonical bytes bind the value: two values of safe integers with the same canonical bytes are
  equal up to member order, so a signature over canonical bytes is a signature over one value.
\<close>

theorem canonical_bytes_binding:
  assumes "plain v" "plain w" "canonical_bytes fi v = Inr b" "canonical_bytes fi w = Inr b"
  shows "sort_json v = sort_json w"
  by (rule canonical_bytes_inj [OF assms])

theorem canonical_bytes_binding_witness:
  "sort_json (JObj [([97], JNull), ([98], JInt 1)]) = sort_json (JObj [([98], JInt 1), ([97], JNull)])"
  by (rule canonical_bytes_binding [where fi = "\<lambda>_. None"
        and b = "[123, 34, 97, 34, 58, 110, 117, 108, 108, 44, 34, 98, 34, 58, 49, 125]"])
     (simp, simp, code_simp+)

text \<open>
  One value has one accepted encoding: entry bytes that pass the parser and the canonical-form
  check are the canonical bytes of the value read from them, so two accepted entries whose values
  agree up to member order are the same bytes.
\<close>

theorem accepted_bytes_unique:
  assumes "parse_json_no_duplicate_members ft a = Inr v" "assert_canonical_json_bytes fi a v = Inr ()"
    and "parse_json_no_duplicate_members ft b = Inr w" "assert_canonical_json_bytes fi b w = Inr ()"
    and "sort_json v = sort_json w"
  shows "a = b \<and> canonical_bytes fi v = Inr a"
proof -
  obtain t where t: "utf8_decode a = Some t" "canonical_json fi v = Inr t"
    using assms(2) by (auto simp: assert_canonical_json_bytes_def res_simps split: option.splits if_splits)
  obtain u where u: "utf8_decode b = Some u" "canonical_json fi w = Inr u"
    using assms(4) by (auto simp: assert_canonical_json_bytes_def res_simps split: option.splits if_splits)
  have "canonical_json fi v = canonical_json fi w"
    unfolding canonical_json_def using assms(5) canonical_sort_json json_depth_sort by metis
  with t u have "t = u" by simp
  then have "a = b" using t(1) u(1) utf8_decode_iff by (metis option.inject)
  then show ?thesis using t by (simp add: canonical_bytes_def utf8_encode_decode)
qed

theorem accepted_bytes_unique_witness:
  "canonical_bytes (\<lambda>_. None) (JArr [JBool True]) = Inr [91, 116, 114, 117, 101, 93]"
proof -
  have "parse_json_no_duplicate_members (\<lambda>_. None) [91, 116, 114, 117, 101, 93] = Inr (JArr [JBool True])"
    by code_simp
  moreover have "assert_canonical_json_bytes (\<lambda>_. None) [91, 116, 114, 117, 101, 93] (JArr [JBool True]) = Inr ()"
    by code_simp
  ultimately show ?thesis using accepted_bytes_unique by blast
qed

text \<open>
  A member name with an unpaired surrogate does not raise the documented parse error: sorting the
  names encodes them first, so the encoder's own \<^verbatim>\<open>UnicodeEncodeError\<close> escapes, for every object that
  holds such a name, whatever the rest of it.
\<close>

theorem surrogate_member_name_escapes:
  assumes "(k, v) \<in> set ms" "\<not> encodable k" "json_depth (JObj ms) \<le> MAX_JSON_DEPTH"
  shows "canonical_bytes fi (JObj ms) = Inl (ValueError ''UnicodeEncodeError'')"
proof -
  have "\<exists>(k, v) \<in> set ms. \<not> encodable k" using assms(1,2) by auto
  then show ?thesis using assms(3) by (simp add: canonical_bytes_def canonical_json_def del: json_depth.simps)
qed

theorem surrogate_member_name_escapes_witness:
  "canonical_bytes (\<lambda>_. None) (JObj [([55296], JNull)]) = Inl (ValueError ''UnicodeEncodeError'')"
  by (rule surrogate_member_name_escapes [of "[55296]" JNull]) (simp, code_simp, code_simp)

end
