(* ===== verification/Jwk.thy ===== *)
theory Jwk
  imports Json Dnsid_Utils Merkle
begin

text \<open>
  \<^verbatim>\<open>dnsid/_crypto.py\<close> and the key classes \<^verbatim>\<open>JWK\<close> and \<^verbatim>\<open>JWKS\<close> of \<^verbatim>\<open>dnsid/models.py\<close>: RFC 7638
  thumbprints, the dispatch of signature verification, and the rules for a key set.

  A JWK keeps the raw JSON object it was read from. Nothing checks the types of its members, so the
  fields \<^verbatim>\<open>kty\<close>, \<^verbatim>\<open>alg\<close>, \<^verbatim>\<open>kid\<close> and \<^verbatim>\<open>use\<close> are JSON values. The \<^verbatim>\<open>cryptography\<close> package and the other
  libraries the sources call are the fields of \<open>platform\<close>; a verification function is false where the
  library raises.
\<close>

section \<open>Libraries\<close>

record platform =
  pf_idna :: "pystr \<Rightarrow> pystr option"
  pf_lower :: "pystr \<Rightarrow> pystr"
  pf_netloc_ok :: "pystr \<Rightarrow> bool"
  pf_float_int :: "int \<Rightarrow> pystr option"
  pf_float_text :: "pystr \<Rightarrow> pystr option"
  pf_ed_verify :: "bytes \<Rightarrow> bytes \<Rightarrow> bytes \<Rightarrow> bool"
  pf_ec_verify :: "nat \<Rightarrow> nat \<Rightarrow> nat \<Rightarrow> nat \<Rightarrow> bytes \<Rightarrow> bool"
  pf_rsa_verify :: "nat \<Rightarrow> nat \<Rightarrow> bytes \<Rightarrow> bytes \<Rightarrow> bool"

type_synonym jdict = "(pystr \<times> json) list"

text \<open>\<^verbatim>\<open>d.get(k, dflt)\<close>, \<^verbatim>\<open>not v\<close>, and whether a value can be a dictionary key.\<close>

definition dget :: "jdict \<Rightarrow> string \<Rightarrow> json \<Rightarrow> json" where
  "dget d k dflt = (case map_of d (str k) of None \<Rightarrow> dflt | Some v \<Rightarrow> v)"

fun falsy :: "json \<Rightarrow> bool" where
  "falsy JNull = True"
| "falsy (JBool b) = (\<not> b)"
| "falsy (JInt n) = (n = 0)"
| "falsy (JFloat _ t) = (t = str ''0.0'')"
| "falsy (JNonFinite _) = False"
| "falsy (JStr s) = (s = [])"
| "falsy (JArr vs) = (vs = [])"
| "falsy (JObj ms) = (ms = [])"

fun hashable :: "json \<Rightarrow> bool" where
  "hashable (JArr _) = False"
| "hashable (JObj _) = False"
| "hashable _ = True"

text \<open>\<^verbatim>\<open>json.dumps(s)\<close>: everything outside the printable ASCII range is escaped.\<close>

definition hex4_text :: "nat \<Rightarrow> pystr" where
  "hex4_text u =
     [92, 117, hex_digit (u div 4096), hex_digit (u div 256 mod 16), hex_digit (u div 16 mod 16),
      hex_digit (u mod 16)]"

definition ascii_char :: "nat \<Rightarrow> pystr" where
  "ascii_char c =
     (if c = 34 then [92, 34] else if c = 92 then [92, 92] else if c = 8 then [92, 98]
      else if c = 12 then [92, 102] else if c = 10 then [92, 110] else if c = 13 then [92, 114]
      else if c = 9 then [92, 116] else if 32 \<le> c \<and> c \<le> 126 then [c]
      else concat (map hex4_text (utf16_units c)))"

definition ascii_quote :: "pystr \<Rightarrow> pystr" where
  "ascii_quote s = [34] @ concat (map ascii_char s) @ [34]"

text \<open>\<^verbatim>\<open>json.dumps(value, separators=(",", ":"), sort_keys=True)\<close>\<close>

function json_dumps :: "json \<Rightarrow> pystr" where
  "json_dumps JNull = str ''null''"
| "json_dumps (JBool b) = (if b then str ''true'' else str ''false'')"
| "json_dumps (JInt n) = dec_of_int n"
| "json_dumps (JFloat negative t) = (if negative then [45] else []) @ t"
| "json_dumps (JNonFinite t) = t"
| "json_dumps (JStr s) = ascii_quote s"
| "json_dumps (JArr vs) = [91] @ join_with [44] (map json_dumps vs) @ [93]"
| "json_dumps (JObj ms) =
     [123] @ join_with [44] (map (\<lambda>(k, v). ascii_quote k @ [58] @ json_dumps v) (sort_key fst ms)) @ [125]"
  by pat_completeness auto
termination
proof (relation "measure size", goal_cases)
  case (2 vs v)
  then show ?case by (induction vs) auto
next
  case (3 ms kv k v)
  then have "(k, v) \<in> set ms" by auto
  then show ?case by (induction ms) auto
qed auto

section \<open>Thumbprints\<close>

definition THUMBPRINT_MEMBERS :: "(pystr \<times> string list) list" where
  "THUMBPRINT_MEMBERS =
     [(str ''EC'', [''crv'', ''kty'', ''x'', ''y'']), (str ''RSA'', [''e'', ''kty'', ''n'']),
      (str ''OKP'', [''crv'', ''kty'', ''x''])]"

definition thumbprint_members :: "json \<Rightarrow> string list option" where
  "thumbprint_members kty = (case kty of JStr s \<Rightarrow> map_of THUMBPRINT_MEMBERS s | _ \<Rightarrow> None)"

definition thumbprint_input :: "jdict \<Rightarrow> bytes res" where
  "thumbprint_input raw =
     (let kty = dget raw ''kty'' (JStr []) in
      if \<not> hashable kty then Inl (TypeError ''unhashable type'')
      else
        (case thumbprint_members kty of
           None \<Rightarrow> Inl (ValueError ''unsupported kty for thumbprint'')
         | Some members \<Rightarrow>
             if \<exists>k \<in> set members. map_of raw (str k) = None
             then Inl (ValueError ''JWK missing required thumbprint members'')
             else
               Inr (map word_of_nat
                 (json_dumps (JObj (map (\<lambda>k. (str k, the (map_of raw (str k)))) members))))))"

definition compute_thumbprint :: "jdict \<Rightarrow> pystr res" where
  "compute_thumbprint raw =
     rbind (thumbprint_input raw) (\<lambda>canonical_json. Inr (b64url_encode (sha256 [canonical_json]) False))"

section \<open>Signature verification\<close>

definition KTY_CRV_TO_ALG :: "((json \<times> json) \<times> pystr) list" where
  "KTY_CRV_TO_ALG =
     [((JStr (str ''OKP''), JStr (str ''Ed25519'')), str ''EdDSA''),
      ((JStr (str ''EC''), JStr (str ''P-256'')), str ''ES256'')]"

definition signature_alg_from_raw :: "jdict \<Rightarrow> pystr res" where
  "signature_alg_from_raw raw =
     (let kty = dget raw ''kty'' (JStr []); crv = dget raw ''crv'' (JStr []) in
      if \<not> hashable kty \<or> \<not> hashable crv then Inl (TypeError ''unhashable type'')
      else
        (case map_of KTY_CRV_TO_ALG (kty, crv) of
           None \<Rightarrow> Inl (ValueError ''unsupported kty/crv for DNSid signature algorithm'')
         | Some alg \<Rightarrow> Inr alg))"

definition from_bytes_le :: "bytes \<Rightarrow> nat" where
  "from_bytes_le bs = from_bytes_be (rev bs)"

definition ED25519_SMALL_ORDER :: "bytes list" where
  "ED25519_SMALL_ORDER = map (\<lambda>h. hex_decode (str h))
     [''0100000000000000000000000000000000000000000000000000000000000000'',
      ''0100000000000000000000000000000000000000000000000000000000000080'',
      ''ecffffffffffffffffffffffffffffffffffffffffffffffffffffffffffff7f'',
      ''ecffffffffffffffffffffffffffffffffffffffffffffffffffffffffffffff'',
      ''0000000000000000000000000000000000000000000000000000000000000000'',
      ''0000000000000000000000000000000000000000000000000000000000000080'',
      ''26e8958fc2b227b045c3f489f2ef98f0d5dfac05d3c63339b13802886d53fc05'',
      ''26e8958fc2b227b045c3f489f2ef98f0d5dfac05d3c63339b13802886d53fc85'',
      ''c7176a703d4dd84fba3c0b760d10670f2a2053fa2c39ccc64ec7fd7792ac037a'',
      ''c7176a703d4dd84fba3c0b760d10670f2a2053fa2c39ccc64ec7fd7792ac03fa'']"

definition valid_ed25519_public_key :: "bytes \<Rightarrow> bool" where
  "valid_ed25519_public_key x =
     (let y = from_bytes_le x mod 2 ^ 255 in
      length x = 32 \<and> y < 2 ^ 255 - 19 \<and> x \<notin> set ED25519_SMALL_ORDER)"

text \<open>\<^verbatim>\<open>b64url_decode(raw[name])\<close>: a missing member or one that is not a string raises.\<close>

definition decode_member :: "jdict \<Rightarrow> string \<Rightarrow> bytes res" where
  "decode_member raw name =
     (case map_of raw (str name) of
        None \<Rightarrow> Inl (KeyError name)
      | Some (JStr s) \<Rightarrow> b64url_decode s
      | Some _ \<Rightarrow> Inl (TypeError name))"

definition verify_ec :: "platform \<Rightarrow> jdict \<Rightarrow> json \<Rightarrow> bytes \<Rightarrow> bytes \<Rightarrow> bool res" where
  "verify_ec pf raw alg payload sig =
     (if dget raw ''crv'' (JStr []) \<noteq> JStr (str ''P-256'') then Inl (ValueError ''unsupported EC curve'')
      else if alg \<noteq> JStr (str ''ES256'') then Inl (ValueError ''unsupported EC alg'')
      else
        rbind (decode_member raw ''x'') (\<lambda>raw_x.
        rbind (decode_member raw ''y'') (\<lambda>raw_y.
          if length raw_x \<noteq> 32 \<or> length raw_y \<noteq> 32 \<or> length sig \<noteq> 64 then Inr False
          else Inr (pf_ec_verify pf (from_bytes_be raw_x) (from_bytes_be raw_y)
                 (from_bytes_be (take 32 sig)) (from_bytes_be (drop 32 sig)) payload))))"

definition verify_okp :: "platform \<Rightarrow> jdict \<Rightarrow> bytes \<Rightarrow> bytes \<Rightarrow> bool res" where
  "verify_okp pf raw payload sig =
     (if dget raw ''crv'' (JStr []) \<noteq> JStr (str ''Ed25519'') then Inl (ValueError ''unsupported OKP curve'')
      else
        rbind (decode_member raw ''x'') (\<lambda>x.
          if \<not> valid_ed25519_public_key x then Inr False else Inr (pf_ed_verify pf x sig payload)))"

definition verify_rsa :: "platform \<Rightarrow> jdict \<Rightarrow> json \<Rightarrow> bytes \<Rightarrow> bytes \<Rightarrow> bool res" where
  "verify_rsa pf raw alg payload sig =
     (if alg \<noteq> JStr (str ''RS256'') then Inl (ValueError ''unsupported RSA alg'')
      else
        rbind (decode_member raw ''n'') (\<lambda>n.
        rbind (decode_member raw ''e'') (\<lambda>e.
          Inr (pf_rsa_verify pf (from_bytes_be n) (from_bytes_be e) sig payload))))"

definition ALLOWED_ALGS :: "json list" where
  "ALLOWED_ALGS = [JStr (str ''EdDSA''), JStr (str ''ES256''), JStr (str ''RS256'')]"

definition verify_dispatch :: "platform \<Rightarrow> jdict \<Rightarrow> json \<Rightarrow> bytes \<Rightarrow> bytes \<Rightarrow> bool res" where
  "verify_dispatch pf raw alg payload sig =
     (let kty = dget raw ''kty'' (JStr []) in
      if kty = JStr (str ''EC'') then verify_ec pf raw alg payload sig
      else if kty = JStr (str ''OKP'') then verify_okp pf raw payload sig
      else if kty = JStr (str ''RSA'') then verify_rsa pf raw alg payload sig
      else Inr False)"

definition verify_with_alg :: "platform \<Rightarrow> jdict \<Rightarrow> json \<Rightarrow> bytes \<Rightarrow> bytes \<Rightarrow> bool res" where
  "verify_with_alg pf raw alg payload sig =
     (if \<not> hashable alg then Inl (TypeError ''unhashable type'')
      else if alg \<notin> set ALLOWED_ALGS then Inr False
      else (case verify_dispatch pf raw alg payload sig of Inl _ \<Rightarrow> Inr False | Inr ok \<Rightarrow> Inr ok))"

definition verify_signature :: "platform \<Rightarrow> jdict \<Rightarrow> bytes \<Rightarrow> bytes \<Rightarrow> bool res" where
  "verify_signature pf raw payload sig =
     (let alg = dget raw ''alg'' (JStr []) in
      if falsy alg then
        (case signature_alg_from_raw raw of
           Inl (ValueError _) \<Rightarrow> Inr False
         | Inl e \<Rightarrow> Inl e
         | Inr derived \<Rightarrow> verify_with_alg pf raw (JStr derived) payload sig)
      else verify_with_alg pf raw alg payload sig)"

section \<open>Keys and key sets\<close>

record JWK =
  jwk_kty :: json
  jwk_alg :: json
  jwk_kid :: json
  jwk_use :: json
  jwk_raw :: jdict

definition jwk_from_dict :: "jdict \<Rightarrow> JWK" where
  "jwk_from_dict d =
     \<lparr>jwk_kty = dget d ''kty'' (JStr []), jwk_alg = dget d ''alg'' (JStr []),
      jwk_kid = dget d ''kid'' (JStr []), jwk_use = dget d ''use'' (JStr []), jwk_raw = d\<rparr>"

definition PRIVATE_JWK_MEMBERS :: "pystr list" where
  "PRIVATE_JWK_MEMBERS =
     map str [''d'', ''p'', ''q'', ''dp'', ''dq'', ''qi'', ''k'', ''oth'']"

definition jwk_to_dict :: "JWK \<Rightarrow> jdict" where
  "jwk_to_dict k = filter (\<lambda>(name, v). name \<notin> set PRIVATE_JWK_MEMBERS) (jwk_raw k)"

definition thumbprint :: "JWK \<Rightarrow> pystr res" where
  "thumbprint k = compute_thumbprint (jwk_raw k)"

definition signature_alg :: "JWK \<Rightarrow> pystr res" where
  "signature_alg k =
     (case signature_alg_from_raw (jwk_raw k) of
        Inl (ValueError m) \<Rightarrow> Inl (VerificationError RECORD_INVALID m False)
      | Inl e \<Rightarrow> Inl e
      | Inr derived \<Rightarrow>
          if \<not> falsy (jwk_alg k) \<and> jwk_alg k \<noteq> JStr derived
          then Inl (VerificationError RECORD_INVALID ''JWK alg is inconsistent with kty/crv binding'' False)
          else Inr derived)"

definition jwk_verify :: "platform \<Rightarrow> JWK \<Rightarrow> bytes \<Rightarrow> bytes \<Rightarrow> bool res" where
  "jwk_verify pf k payload signature = verify_signature pf (jwk_raw k) payload signature"

type_synonym JWKS = "JWK list"

abbreviation record_invalid :: "string \<Rightarrow> 'a res" where
  "record_invalid m \<equiv> Inl (VerificationError RECORD_INVALID m False)"

text \<open>The loop of \<^verbatim>\<open>signing_keys\<close> and \<^verbatim>\<open>validate\<close> that collects the eligible keys.\<close>

fun eligible_keys :: "JWKS \<Rightarrow> JWKS res" where
  "eligible_keys [] = Inr []"
| "eligible_keys (k # ks) =
     (if jwk_use k \<noteq> JStr [] \<and> jwk_use k \<noteq> JStr (str ''sig'') then eligible_keys ks
      else
        (case signature_alg k of
           Inr _ \<Rightarrow> rbind (eligible_keys ks) (\<lambda>r. Inr (k # r))
         | Inl e \<Rightarrow> if is_VerificationError e then eligible_keys ks else Inl e))"

definition signing_keys :: "JWKS \<Rightarrow> JWKS res" where
  "signing_keys ks =
     rbind (eligible_keys ks) (\<lambda>r. if r = [] then record_invalid ''JWKS contains no signing keys'' else Inr r)"

definition key_by_id :: "JWKS \<Rightarrow> pystr \<Rightarrow> JWK option" where
  "key_by_id ks kid = find (\<lambda>k. jwk_kid k = JStr kid) ks"

text \<open>
  Equality of two values as elements of a Python set: booleans and integral floats equal the
  integer of the same value.
\<close>

fun int_value :: "json \<Rightarrow> int option" where
  "int_value (JBool b) = Some (if b then 1 else 0)"
| "int_value (JInt n) = Some n"
| "int_value _ = None"

definition set_eq :: "(int \<Rightarrow> pystr option) \<Rightarrow> json \<Rightarrow> json \<Rightarrow> bool" where
  "set_eq float_int a b =
     (a = b \<or>
      (case (int_value a, int_value b, a, b) of
         (Some m, Some n, _, _) \<Rightarrow> m = n
       | (Some n, None, _, JFloat negative t) \<Rightarrow> int_repr float_int n = Some t \<and> (n = 0 \<or> negative = (n < 0))
       | (None, Some n, JFloat negative t, _) \<Rightarrow> int_repr float_int n = Some t \<and> (n = 0 \<or> negative = (n < 0))
       | (None, None, JFloat _ s, JFloat _ t) \<Rightarrow> s = t \<and> s = str ''0.0''
       | _ \<Rightarrow> False))"

fun check_kids :: "(int \<Rightarrow> pystr option) \<Rightarrow> JWKS \<Rightarrow> json list \<Rightarrow> unit res" where
  "check_kids fi [] seen = Inr ()"
| "check_kids fi (k # ks) seen =
     (if falsy (jwk_kid k) then check_kids fi ks seen
      else if \<not> hashable (jwk_kid k) then Inl (TypeError ''unhashable type'')
      else if \<exists>s \<in> set seen. set_eq fi (jwk_kid k) s then record_invalid ''JWKS: duplicate kid''
      else check_kids fi ks (jwk_kid k # seen))"

definition check_algs :: "JWKS \<Rightarrow> unit res" where
  "check_algs ks =
     iterR (\<lambda>k. if falsy (jwk_alg k) then Inr ()
               else (case signature_alg k of
                       Inr _ \<Rightarrow> Inr ()
                     | Inl e \<Rightarrow> if is_VerificationError e then Inl e
                               else record_invalid ''JWKS key has unsupported kty/crv'')) ks"

definition jwks_validate :: "(int \<Rightarrow> pystr option) \<Rightarrow> JWKS \<Rightarrow> unit res" where
  "jwks_validate fi ks =
     rbind (check_algs ks) (\<lambda>_.
     rbind (check_kids fi ks []) (\<lambda>_.
     rbind (eligible_keys ks) (\<lambda>signing.
       if signing = [] then record_invalid ''JWKS contains no signing keys''
       else if \<forall>k \<in> set signing. falsy (jwk_kid k) then record_invalid ''JWKS: no signing key has a kid field''
       else Inr ())))"

definition IDENTITY_RECORD_VERSION :: pystr where
  "IDENTITY_RECORD_VERSION = str ''dnsid-draft-01''"

definition SUPPORTED_VERSIONS :: "pystr list" where
  "SUPPORTED_VERSIONS = [str ''dnsid-draft-01'', str ''DNSid1'']"

definition current_protocol_signing_key ::
  "(int \<Rightarrow> pystr option) \<Rightarrow> JWKS \<Rightarrow> pystr option \<Rightarrow> JWK res" where
  "current_protocol_signing_key fi ks profile =
     (let selected = (case profile of None \<Rightarrow> IDENTITY_RECORD_VERSION
                      | Some p \<Rightarrow> if p = [] then IDENTITY_RECORD_VERSION else p) in
      if selected \<notin> set SUPPORTED_VERSIONS then record_invalid ''unsupported identity record profile''
      else
        rbind (jwks_validate fi ks) (\<lambda>_.
          let signing = filter (\<lambda>k. falsy (jwk_use k) \<or> jwk_use k = JStr (str ''sig'')) ks in
          if length signing \<noteq> 1
          then record_invalid ''draft 01 JWKS must contain exactly one current signing key''
          else
            (let key = hd signing in
             if falsy (jwk_kid key) then record_invalid ''draft 01 key missing kid''
             else if falsy (jwk_alg key) then record_invalid ''draft 01 key must declare alg''
             else rbind (signature_alg key) (\<lambda>_. Inr key))))"

definition check_ek_ku_distinctness :: "JWKS option \<Rightarrow> JWKS option \<Rightarrow> unit res" where
  "check_ek_ku_distinctness ek ku =
     (case (ek, ku) of
        (Some e, Some k) \<Rightarrow>
          if e = [] \<or> k = [] then Inr ()
          else
            rbind (mapR thumbprint e) (\<lambda>ek_thumbprints.
            rbind (mapR thumbprint k) (\<lambda>ku_thumbprints.
              if set ek_thumbprints \<inter> set ku_thumbprints \<noteq> {}
              then record_invalid ''ek and ku key sets share key material''
              else Inr ()))
      | _ \<Rightarrow> Inr ())"


section \<open>The text of a thumbprint determines the key\<close>

lemma hex4_text_value:
  assumes "u < 65536"
  shows "hex4 (hex_digit (u div 4096)) (hex_digit (u div 256 mod 16)) (hex_digit (u div 16 mod 16)) (hex_digit (u mod 16)) = u"
proof -
  have "u div 4096 < 16" using assms by simp
  moreover have "((u div 4096 * 16 + u div 256 mod 16) * 16 + u div 16 mod 16) * 16 + u mod 16 = u"
  proof -
    have "u div 4096 * 16 + u div 256 mod 16 = u div 256"
      using div_mult_mod_eq [of "u div 256" 16] by (simp add: div_mult2_eq [symmetric])
    moreover have "u div 256 * 16 + u div 16 mod 16 = u div 16"
      using div_mult_mod_eq [of "u div 16" 16] by (simp add: div_mult2_eq [symmetric])
    ultimately show ?thesis by simp
  qed
  ultimately show ?thesis by (simp add: hex4_def)
qed

lemma scan_hex4_text:
  assumes "u < 65536"
  shows "scan_string (hex4_text u @ r) =
    (case low_surrogate u r of
       Some (l, rest) \<Rightarrow> map_option (\<lambda>(t, r). ((65536 + (u - 55296) * 1024 + (l - 56320)) # t, r)) (scan_string rest)
     | None \<Rightarrow> map_option (\<lambda>(t, r). (u # t, r)) (scan_string r))"
proof -
  have "is_hex (hex_digit (u div 4096))" using assms by (intro is_hex_digit) simp
  then show ?thesis
    using hex4_text_value [OF assms] by (subst scan_string.simps) (simp add: hex4_text_def Let_def)
qed

lemma low_surrogate_text:
  assumes "55296 \<le> u" "u \<le> 56319" "56320 \<le> l" "l \<le> 57343"
  shows "low_surrogate u (hex4_text l @ r) = Some (l, r)"
proof -
  have "is_hex (hex_digit (l div 4096))" using assms by (intro is_hex_digit) simp
  then show ?thesis using assms hex4_text_value [of l] by (simp add: low_surrogate_def hex4_text_def)
qed

lemma low_surrogate_bmp: "\<not> (55296 \<le> u \<and> u \<le> 56319) \<Longrightarrow> low_surrogate u s = None"
  by (auto simp: low_surrogate_def split: list.splits)

lemma scan_ascii_quote:
  "encodable s \<Longrightarrow> scan_string (concat (map ascii_char s) @ 34 # r) = Some (s, r)"
proof (induction s)
  case Nil
  then show ?case by (simp add: scan_string.simps)
next
  case (Cons c s)
  then have IH: "scan_string (concat (map ascii_char s) @ 34 # r) = Some (s, r)"
    and c: "c < 55296 \<or> 57343 < c" "c < 1114112"
    by (auto simp: encodable_Cons utf8_char_def split: if_splits)
  consider "c \<in> {34, 92, 8, 12, 10, 13, 9}" | "c \<notin> {34, 92, 8, 12, 10, 13, 9}" "32 \<le> c" "c \<le> 126"
    | "c \<notin> {34, 92, 8, 12, 10, 13, 9}" "\<not> (32 \<le> c \<and> c \<le> 126)" "c < 65536"
    | "c \<ge> 65536" by linarith
  then show ?case
  proof cases
    case 1
    then obtain e where "ascii_char c = [92, e]" "e \<noteq> 117" "simple_escape e = Some c"
      by (auto simp: ascii_char_def simple_escape_def)
    with IH show ?thesis by (subst scan_string.simps) simp
  next
    case 2
    then have "ascii_char c = [c]" by (simp add: ascii_char_def)
    with IH 2 show ?thesis by (subst scan_string.simps) simp
  next
    case 3
    then have "ascii_char c = hex4_text c" by (auto simp: ascii_char_def utf16_units_def)
    moreover have "low_surrogate c x = None" for x using c by (intro low_surrogate_bmp) auto
    ultimately show ?thesis using IH 3 by (simp add: scan_hex4_text)
  next
    case 4
    let ?hi = "55296 + (c - 65536) div 1024" and ?lo = "56320 + (c - 65536) mod 1024"
    have hi: "?hi \<le> 56319" using c(2) by simp
    have lo: "?lo \<le> 57343" using mod_less_divisor [of 1024 "c - 65536"] by simp
    have "ascii_char c = hex4_text ?hi @ hex4_text ?lo" using 4 by (simp add: ascii_char_def utf16_units_def)
    moreover have "65536 + (?hi - 55296) * 1024 + (?lo - 56320) = c"
      using 4 div_mult_mod_eq [of "c - 65536" 1024] by simp
    ultimately show ?thesis
      using IH hi lo by (simp add: scan_hex4_text low_surrogate_text del: add_diff_cancel_left')
  qed
qed

lemma scans_ascii: "encodable s \<Longrightarrow> scans ft (ascii_quote s) (JStr s)"
  by (rule scansI [where c = 34 and cs = "concat (map ascii_char s) @ [34]"])
     (simp_all add: ascii_quote_def scan_ascii_quote)

lemma hex4_text_less:
  assumes "x \<in> set (hex4_text u)" "u < 65536"
  shows "x < 128"
proof -
  have "hex_digit n < 128" if "n < 16" for n using that by (simp add: hex_digit_def)
  moreover have "u div 4096 < 16" using assms(2) by simp
  ultimately show ?thesis using assms(1) by (fastforce simp: hex4_text_def)
qed

lemma utf16_units_less: "u \<in> set (utf16_units c) \<Longrightarrow> c < 1114112 \<Longrightarrow> u < 65536"
  using mod_less_divisor [of 1024 "c - 65536"] by (auto simp: utf16_units_def split: if_splits)

lemma ascii_char_less:
  assumes "x \<in> set (ascii_char c)" "c < 1114112"
  shows "x < 128"
proof (cases "c \<in> {34, 92, 8, 12, 10, 13, 9} \<or> 32 \<le> c \<and> c \<le> 126")
  case True
  then show ?thesis using assms(1) by (auto simp: ascii_char_def split: if_splits)
next
  case False
  then have "ascii_char c = concat (map hex4_text (utf16_units c))" by (auto simp: ascii_char_def)
  then show ?thesis using assms by (auto dest: hex4_text_less utf16_units_less)
qed

lemma ascii_quote_less: "encodable s \<Longrightarrow> x \<in> set (ascii_quote s) \<Longrightarrow> x < 128"
proof (induction s)
  case (Cons c s)
  then have "c < 1114112" by (auto simp: encodable_Cons utf8_char_def split: if_splits)
  with Cons show ?case by (auto simp: ascii_quote_def encodable_Cons dest: ascii_char_less)
qed (simp add: ascii_quote_def)

text \<open>A key whose required members are strings that can be encoded.\<close>

definition string_member :: "jdict \<Rightarrow> string \<Rightarrow> bool" where
  "string_member raw k = (case map_of raw (str k) of Some (JStr s) \<Rightarrow> encodable s | _ \<Rightarrow> False)"

lemma string_member_iff: "string_member raw k \<longleftrightarrow> (\<exists>s. map_of raw (str k) = Some (JStr s) \<and> encodable s)"
  by (auto simp: string_member_def split: option.splits json.splits)

definition string_key :: "jdict \<Rightarrow> bool" where
  "string_key raw \<longleftrightarrow>
     (case thumbprint_members (dget raw ''kty'' (JStr [])) of
        None \<Rightarrow> False
      | Some members \<Rightarrow> list_all (string_member raw) members)"

definition public_part :: "jdict \<Rightarrow> (pystr \<times> json) list" where
  "public_part raw =
     (case thumbprint_members (dget raw ''kty'' (JStr [])) of
        None \<Rightarrow> []
      | Some members \<Rightarrow> map (\<lambda>k. (str k, the (map_of raw (str k)))) members)"


lemma thumbprint_members_sorted:
  assumes "thumbprint_members kty = Some members"
  shows "members \<in> {[''crv'', ''kty'', ''x'', ''y''], [''e'', ''kty'', ''n''], [''crv'', ''kty'', ''x'']}"
  using assms by (auto simp: thumbprint_members_def THUMBPRINT_MEMBERS_def split: json.splits if_splits)

lemma sorted_members:
  assumes "thumbprint_members kty = Some members"
  shows "sort_key fst (map (\<lambda>k. (str k, f k)) members) = map (\<lambda>k. (str k, f k)) members"
proof (rule sort_key_id_if_sorted)
  have "map fst (map (\<lambda>k. (str k, f k)) members) = map str members" by simp
  moreover have "sorted (map str [''crv'', ''kty'', ''x'', ''y''])" "sorted (map str [''e'', ''kty'', ''n''])"
    "sorted (map str [''crv'', ''kty'', ''x''])" by code_simp+
  then have "sorted (map str members)" using thumbprint_members_sorted [OF assms] by blast
  ultimately show "sorted (map fst (map (\<lambda>k. (str k, f k)) members))" by (simp only:)
qed


text \<open>The members are read back from the text that is hashed.\<close>

lemma scans_thumbprint_text:
  assumes "string_key raw" "thumbprint_members (dget raw ''kty'' (JStr [])) = Some members"
  shows "scans ft (json_dumps (JObj (public_part raw))) (JObj (public_part raw))"
    and "\<forall>x \<in> set (json_dumps (JObj (public_part raw))). x < 128"
proof -
  let ?f = "\<lambda>k. the (map_of raw (str k))"
  have part: "public_part raw = map (\<lambda>k. (str k, ?f k)) members" using assms(2) by (simp add: public_part_def)
  have val: "\<exists>s. ?f k = JStr s \<and> encodable s" if "k \<in> set members" for k
    using assms that by (auto simp: string_key_def list_all_iff string_member_iff)
  have name: "quote_str (str k) = ascii_quote (str k)" "\<forall>x \<in> set (ascii_quote (str k)). x < 128"
    if "k \<in> set members" for k
  proof -
    have "k \<in> {''crv'', ''kty'', ''x'', ''y'', ''e'', ''n''}"
      using thumbprint_members_sorted [OF assms(2)] that by auto
    moreover have "list_all (\<lambda>k. quote_str (str k) = ascii_quote (str k) \<and> list_all (\<lambda>x. x < 128) (ascii_quote (str k)))
        [''crv'', ''kty'', ''x'', ''y'', ''e'', ''n'']" by code_simp
    ultimately show "quote_str (str k) = ascii_quote (str k)" "\<forall>x \<in> set (ascii_quote (str k)). x < 128"
      by (auto simp: list_all_iff)
  qed
  let ?kts = "map (\<lambda>k. (str k, json_dumps (?f k))) members"
  have eq: "map (\<lambda>(k, v). ascii_quote k @ [58] @ json_dumps v) (map (\<lambda>k. (str k, ?f k)) members)
      = map (\<lambda>(k, t). quote_str k @ [58] @ t) ?kts"
    using name by simp
  have dumps: "json_dumps (JObj (public_part raw))
      = [123] @ join_with [44] (map (\<lambda>(k, t). quote_str k @ [58] @ t) ?kts) @ [125]"
    unfolding part json_dumps.simps sorted_members [OF assms(2)] eq ..
  have "list_all2 (\<lambda>(k, t) (k', v). k' = k \<and> scans ft t v) ?kts (public_part raw)"
    unfolding part list_all2_map1 list_all2_map2 using val
    by (auto simp: list_all2_same) (metis json_dumps.simps(6) scans_ascii)
  then show "scans ft (json_dumps (JObj (public_part raw))) (JObj (public_part raw))"
    unfolding dumps by (rule scans_object)
  have "x < 128" if "x \<in> set (quote_str (str k) @ [58] @ json_dumps (?f k))" "k \<in> set members" for x k
    using that name val [OF that(2)] by (auto dest: ascii_quote_less)
  then have "\<forall>t \<in> set (map (\<lambda>(k, t). quote_str k @ [58] @ t) ?kts). \<forall>x \<in> set t. x < 128"
    by (auto simp del: append_Cons)
  moreover have "\<forall>x \<in> set (join_with [44] ts). x < 128" if "\<forall>t \<in> set ts. \<forall>x \<in> set t. x < (128 :: nat)" for ts
    using that by (induction "[44 :: nat]" ts rule: join_with.induct) auto
  ultimately have "\<forall>x \<in> set (join_with [44] (map (\<lambda>(k, t). quote_str k @ [58] @ t) ?kts)). x < 128" by blast
  then show "\<forall>x \<in> set (json_dumps (JObj (public_part raw))). x < 128"
    unfolding dumps set_append by (simp only: ball_Un list.set) simp
qed

lemma ascii_bytes_inj:
  "\<forall>x \<in> set s. x < 128 \<Longrightarrow> \<forall>x \<in> set t. x < 128 \<Longrightarrow>
   map word_of_nat s = (map word_of_nat t :: bytes) \<Longrightarrow> s = t"
proof (induction s arbitrary: t)
  case (Cons c s)
  then obtain d t' where t: "t = d # t'" by (cases t) auto
  have "c < 256" "d < 256" using Cons.prems(1,2) by (auto simp: t)
  moreover have "word_of_nat c = (word_of_nat d :: byte)" using Cons.prems(3) by (simp add: t)
  ultimately have "c = d" by (simp only: byte_of_nat_eq)
  moreover have "s = t'" by (rule Cons.IH) (use Cons.prems in \<open>auto simp: t\<close>)
  ultimately show ?case by (simp add: t)
qed auto

lemma thumbprint_input_string_key:
  assumes "string_key raw"
  shows "thumbprint_input raw = Inr (map word_of_nat (json_dumps (JObj (public_part raw))))"
proof -
  obtain members where m: "thumbprint_members (dget raw ''kty'' (JStr [])) = Some members"
    "list_all (string_member raw) members"
    using assms by (auto simp: string_key_def split: option.splits)
  then have "hashable (dget raw ''kty'' (JStr []))"
    by (auto simp: thumbprint_members_def split: json.splits)
  moreover have "map_of raw (str k) \<noteq> None" if "k \<in> set members" for k
    using m(2) that by (auto simp: list_all_iff string_member_iff)
  ultimately show ?thesis using m(1) by (auto simp: thumbprint_input_def public_part_def Let_def)
qed

section \<open>Properties\<close>

text \<open>
  A thumbprint stands for one public key. Two keys whose required members are encodable strings
  and whose RFC 7638 thumbprints agree have the same key type and the same required members, unless
  the two hashed texts are a SHA-256 collision.
\<close>

theorem thumbprint_binds_key:
  assumes "string_key a" "string_key b" "compute_thumbprint a = compute_thumbprint b"
  shows "public_part a = public_part b
    \<or> (\<exists>x y. thumbprint_input a = Inr x \<and> thumbprint_input b = Inr y \<and> collides {x, y})"
proof -
  let ?ta = "json_dumps (JObj (public_part a))" and ?tb = "json_dumps (JObj (public_part b))"
  let ?xa = "map word_of_nat ?ta :: bytes" and ?xb = "map word_of_nat ?tb :: bytes"
  note in_a = thumbprint_input_string_key [OF assms(1)] and in_b = thumbprint_input_string_key [OF assms(2)]
  have "b64url_encode (sha256 [?xa]) False = b64url_encode (sha256 [?xb]) False"
    using assms(3) by (simp add: compute_thumbprint_def in_a in_b)
  then have "sha256 [?xa] = sha256 [?xb]" by (rule b64url_encode_inj)
  then have "?xa = ?xb \<or> collides {?xa, ?xb}"
    by (auto simp: sha256_def collides_def sha_collision_def)
  moreover have "public_part a = public_part b" if "?xa = ?xb"
  proof -
    obtain ma mb where m: "thumbprint_members (dget a ''kty'' (JStr [])) = Some ma"
      "thumbprint_members (dget b ''kty'' (JStr [])) = Some mb"
      using assms(1,2) by (auto simp: string_key_def split: option.splits)
    note sa = scans_thumbprint_text [OF assms(1) m(1)] and sb = scans_thumbprint_text [OF assms(2) m(2)]
    have eq: "?ta = ?tb" using ascii_bytes_inj [OF sa(2) sb(2) that] .
    have ra: "scan_value (\<lambda>_. None) (2 * length ?ta) (?ta @ []) = Some (JObj (public_part a), [])"
      by (rule scansD(1) [OF sa(1)]) (simp_all add: json_tail_def)
    have rb: "scan_value (\<lambda>_. None) (2 * length ?tb) (?tb @ []) = Some (JObj (public_part b), [])"
      by (rule scansD(1) [OF sb(1)]) (simp_all add: json_tail_def)
    from ra [unfolded eq rb] show ?thesis by simp
  qed
  ultimately show ?thesis using in_a in_b by blast
qed


text \<open>An instance of the library parameters: a signature is accepted when it repeats the public key.\<close>

definition sample_platform :: platform where
  "sample_platform =
     \<lparr>pf_idna = Some, pf_lower = id, pf_netloc_ok = (\<lambda>_. True), pf_float_int = (\<lambda>_. None),
      pf_float_text = (\<lambda>_. None), pf_ed_verify = (\<lambda>pub sig msg. sig = pub),
      pf_ec_verify = (\<lambda>_ _ _ _ _. False), pf_rsa_verify = (\<lambda>n e sig msg. sig = [word_of_nat n])\<rparr>"

definition sample_key :: jdict where
  "sample_key =
     [(str ''kty'', JStr (str ''OKP'')), (str ''kid'', JStr (str ''k1'')), (str ''crv'', JStr (str ''Ed25519'')),
      (str ''alg'', JStr (str ''EdDSA'')), (str ''x'', JStr (str ''AQID''))]"

theorem thumbprint_binds_key_witness:
  "public_part sample_key = public_part (rev sample_key)
    \<or> (\<exists>x y. thumbprint_input sample_key = Inr x \<and> thumbprint_input (rev sample_key) = Inr y \<and> collides {x, y})"
proof -
  have "string_key sample_key" "string_key (rev sample_key)" by code_simp+
  moreover have "thumbprint_input sample_key = thumbprint_input (rev sample_key)" by code_simp
  then have "compute_thumbprint sample_key = compute_thumbprint (rev sample_key)"
    by (simp add: compute_thumbprint_def)
  ultimately show ?thesis by (rule thumbprint_binds_key)
qed

text \<open>
  Two-key separation. An \<^verbatim>\<open>ek\<close> and a \<^verbatim>\<open>ku\<close> key set that hold the same public key (key type and
  required members agree) are refused, whatever else (key identifier, declared algorithm, use, extra
  members, member order) the two copies carry; the check never passes on such sets.
\<close>

theorem shared_key_refused:
  assumes "\<forall>x \<in> set ek \<union> set ku. is_ok (thumbprint_input (jwk_raw x))" "e \<in> set ek" "k \<in> set ku"
    and "public_part (jwk_raw e) = public_part (jwk_raw k)"
  shows "check_ek_ku_distinctness (Some ek) (Some ku) = record_invalid ''ek and ku key sets share key material''"
proof -
  have inp: "thumbprint_input raw = Inr (map word_of_nat (json_dumps (JObj (public_part raw))))"
    if "is_ok (thumbprint_input raw)" for raw
    using that
    by (auto simp: thumbprint_input_def public_part_def Let_def is_ok_iff split: if_splits option.splits)
  let ?t = "\<lambda>x. b64url_encode (sha256 [map word_of_nat (json_dumps (JObj (public_part (jwk_raw x))))]) False"
  have t: "thumbprint x = Inr (?t x)" if "x \<in> set ek \<union> set ku" for x
    using assms(1) that by (simp add: thumbprint_def compute_thumbprint_def inp)
  have "mapR thumbprint ek = Inr (map ?t ek)" "mapR thumbprint ku = Inr (map ?t ku)"
    by (rule mapR_all_ok; use t in simp)+
  moreover have "?t e \<in> set (map ?t ek)" unfolding set_map using assms(2) by (rule imageI)
  moreover have "?t e \<in> set (map ?t ku)" unfolding assms(4) set_map using assms(3) by (rule imageI)
  moreover have "ek \<noteq> []" "ku \<noteq> []" using assms(2,3) by auto
  ultimately show ?thesis by (auto simp: check_ek_ku_distinctness_def)
qed

theorem shared_key_refused_witness:
  "check_ek_ku_distinctness (Some [jwk_from_dict sample_key])
     (Some [jwk_from_dict ((str ''use'', JStr (str ''sig'')) # rev sample_key)])
   = record_invalid ''ek and ku key sets share key material''"
  by (rule shared_key_refused [where e = "jwk_from_dict sample_key"
        and k = "jwk_from_dict ((str ''use'', JStr (str ''sig'')) # rev sample_key)"])
     (code_simp, simp, simp, code_simp)

text \<open>
  The current signing key of a key set is unique and unambiguous: it is the only key of the set
  whose \<^verbatim>\<open>use\<close> is absent or \<^verbatim>\<open>sig\<close>, its declared algorithm is the one its key type and curve determine
  (EdDSA for Ed25519, ES256 for P-256), and looking its identifier up finds this key and no other.
\<close>

theorem current_signing_key_sound:
  assumes "current_protocol_signing_key fi ks profile = Inr key"
  shows "filter (\<lambda>k. falsy (jwk_use k) \<or> jwk_use k = JStr (str ''sig'')) ks = [key]
    \<and> (\<exists>alg. jwk_alg key = JStr alg \<and> signature_alg_from_raw (jwk_raw key) = Inr alg)
    \<and> (\<forall>kid. jwk_kid key = JStr kid \<longrightarrow> key_by_id ks kid = Some key)"
proof -
  let ?signing = "filter (\<lambda>k. falsy (jwk_use k) \<or> jwk_use k = JStr (str ''sig'')) ks"
  from assms have one: "length ?signing = 1" and key: "key = hd ?signing"
    and kid: "\<not> falsy (jwk_kid key)" and alg: "\<not> falsy (jwk_alg key)" "is_ok (signature_alg key)"
    and valid: "jwks_validate fi ks = Inr ()"
    by (auto simp: current_protocol_signing_key_def Let_def res_simps is_ok_iff split: if_splits)
  have s: "?signing = [key]" using one key by (cases ?signing) auto
  have "\<exists>a. jwk_alg key = JStr a \<and> signature_alg_from_raw (jwk_raw key) = Inr a"
    using alg by (auto simp: signature_alg_def is_ok_iff split: sum.splits exn.splits if_splits)
  moreover have "key_by_id ks i = Some key" if "jwk_kid key = JStr i" for i
  proof -
    have kids: "check_kids fi ks [] = Inr ()" using valid by (simp add: jwks_validate_def res_simps)
    have "key \<in> set ks" using s by (metis filter_is_subset list.set_intros(1) subsetD)
    moreover have "find (\<lambda>k. jwk_kid k = JStr i) xs = Some key"
      if "check_kids fi xs seen = Inr ()" "key \<in> set xs" for xs seen
      using that
    proof (induction xs arbitrary: seen)
      case (Cons x xs)
      have late: "\<not> (\<exists>y \<in> set xs. jwk_kid y = JStr i)" if "check_kids fi xs seen = Inr ()" "JStr i \<in> set seen" for xs seen
        using that kid \<open>jwk_kid key = JStr i\<close>
        by (induction xs arbitrary: seen) (auto simp: set_eq_def split: if_splits)
      show ?case
      proof (cases "jwk_kid x = JStr i")
        case True
        then have "check_kids fi xs (JStr i # seen) = Inr ()"
          using Cons.prems(1) kid \<open>jwk_kid key = JStr i\<close> by (auto split: if_splits)
        then have "key = x" using late [of xs "JStr i # seen"] Cons.prems(2) \<open>jwk_kid key = JStr i\<close> by auto
        with True show ?thesis by simp
      next
        case False
        with Cons.prems \<open>jwk_kid key = JStr i\<close> obtain seen' where "check_kids fi xs seen' = Inr ()" "key \<in> set xs"
          by (auto split: if_splits)
        with Cons.IH False show ?thesis by simp
      qed
    qed simp
    ultimately show ?thesis using kids by (simp add: key_by_id_def)
  qed
  ultimately show ?thesis using s by simp
qed

theorem current_signing_key_sound_witness:
  "key_by_id [jwk_from_dict sample_key] (str ''k1'') = Some (jwk_from_dict sample_key)"
proof -
  have "current_protocol_signing_key (\<lambda>_. None) [jwk_from_dict sample_key] None = Inr (jwk_from_dict sample_key)"
    by code_simp
  from current_signing_key_sound [OF this] show ?thesis by (simp add: jwk_from_dict_def dget_def sample_key_def)
qed

text \<open>
  A declared algorithm that is a JSON array or object makes \<^verbatim>\<open>verify_signature\<close> raise
  \<^verbatim>\<open>TypeError\<close> (the membership test hashes it), whatever payload and signature it is given, although
  the function is documented never to raise for a bad signature.
\<close>

theorem verify_signature_unhashable_alg:
  assumes "map_of raw (str ''alg'') = Some alg" "\<not> hashable alg" "\<not> falsy alg"
  shows "verify_signature pf raw payload sig = Inl (TypeError ''unhashable type'')"
  using assms by (simp add: verify_signature_def verify_with_alg_def dget_def)

theorem verify_signature_unhashable_alg_witness:
  "verify_signature sample_platform [(str ''alg'', JArr [JNull])] [] [] = Inl (TypeError ''unhashable type'')"
  by (rule verify_signature_unhashable_alg) (simp, simp, simp)

end
