(* ===== verification/Log_Ref.thy ===== *)
theory Log_Ref
  imports Signed_Note
begin

text \<open>
  \<^verbatim>\<open>dnsid/c2sp_tlog/lr.py\<close>: the \<^verbatim>\<open>lr\<close> references \<^verbatim>\<open>c2sp-tlog:<scope>:<log-prefix>#<stream-id>[@<index>]\<close>,
  with the parts of \<^verbatim>\<open>urllib.parse\<close> they use.

  Two facts of the standard library that rest on Unicode tables are parameters: \<open>lower\<close> is
  \<^verbatim>\<open>str.lower\<close>, and \<open>netloc_ok\<close> holds when \<^verbatim>\<open>urlsplit\<close>'s checks of a network location (bracketed
  addresses, NFKC normalisation) do not raise.
\<close>

section \<open>urllib.parse\<close>

record SplitResult =
  sr_scheme :: pystr
  sr_netloc :: pystr
  sr_path :: pystr
  sr_query :: pystr
  sr_fragment :: pystr

definition scheme_char :: "nat \<Rightarrow> bool" where
  "scheme_char c \<longleftrightarrow> is_alnum c \<or> c = 43 \<or> c = 45 \<or> c = 46"

definition split_scheme :: "pystr \<Rightarrow> pystr \<times> pystr" where
  "split_scheme url =
     (let s = takeWhile (\<lambda>c. c \<noteq> 58) url in
      if 58 \<in> set url \<and> s \<noteq> [] \<and> is_alpha (hd url) \<and> (\<forall>c \<in> set s. scheme_char c)
      then (ascii_lower s, drop (length s + 1) url) else ([], url))"

definition url_delim :: "nat \<Rightarrow> bool" where
  "url_delim c \<longleftrightarrow> c = 47 \<or> c = 63 \<or> c = 35"

definition urlsplit :: "(pystr \<Rightarrow> bool) \<Rightarrow> pystr \<Rightarrow> SplitResult res" where
  "urlsplit netloc_ok raw =
     (let url0 = filter (\<lambda>c. c \<notin> {9, 10, 13}) (dropWhile (\<lambda>c. c \<le> 32) raw);
          (scheme, url1) = split_scheme url0;
          (netloc, url2) =
            (if startswith url1 [47, 47]
             then (takeWhile (\<lambda>c. \<not> url_delim c) (drop 2 url1), dropWhile (\<lambda>c. \<not> url_delim c) (drop 2 url1))
             else ([], url1))
      in if \<not> netloc_ok netloc \<or> (91 \<in> set netloc) \<noteq> (93 \<in> set netloc)
         then Inl (ValueError ''Invalid URL'')
         else
           (let (url3, fragment) = partition_char url2 35;
                (path, query) = partition_char url3 63
            in Inr \<lparr>sr_scheme = scheme, sr_netloc = netloc, sr_path = path, sr_query = query,
                    sr_fragment = fragment\<rparr>))"

text \<open>\<^verbatim>\<open>netloc.rpartition('@')\<close>: the user information, when there is an \<^verbatim>\<open>@\<close>, and the host part.\<close>

definition hostinfo_text :: "pystr \<Rightarrow> pystr" where
  "hostinfo_text netloc =
     (case rfind_char netloc 64 of None \<Rightarrow> netloc | Some i \<Rightarrow> drop (i + 1) netloc)"

definition has_userinfo :: "SplitResult \<Rightarrow> bool" where
  "has_userinfo u =
     (case rfind_char (sr_netloc u) 64 of
        None \<Rightarrow> False
      | Some i \<Rightarrow> let (username, password) = partition_char (take i (sr_netloc u)) 58
                 in username \<noteq> [] \<or> password \<noteq> [])"

definition hostinfo :: "pystr \<Rightarrow> pystr \<times> pystr" where
  "hostinfo netloc =
     (let h = hostinfo_text netloc in
      if 91 \<in> set h then
        (let (hostname, rest) = partition_char (snd (partition_char h 91)) 93
         in (hostname, snd (partition_char rest 58)))
      else partition_char h 58)"

definition url_hostname :: "(pystr \<Rightarrow> pystr) \<Rightarrow> SplitResult \<Rightarrow> pystr option" where
  "url_hostname lower u =
     (let h = fst (hostinfo (sr_netloc u)) in
      if h = [] then None
      else Some (lower (takeWhile (\<lambda>c. c \<noteq> 37) h) @ dropWhile (\<lambda>c. c \<noteq> 37) h))"

definition url_port :: "SplitResult \<Rightarrow> int option res" where
  "url_port u =
     (let p = snd (hostinfo (sr_netloc u)) in
      if p = [] then Inr None
      else if \<not> (\<forall>c \<in> set p. is_digit c)
      then Inl (ValueError ''Port could not be cast to integer value'')
      else if length p > 4300
      then Inl (ValueError ''Exceeds the limit for integer string conversion'')
      else if nat_of_dec p > 65535 then Inl (ValueError ''Port out of range 0-65535'')
      else Inr (Some (int (nat_of_dec p))))"

section \<open>The code\<close>

record ParsedC2spTlogLr =
  lr_method :: pystr
  lr_scope :: pystr
  lr_log_prefix :: pystr
  lr_stream_id :: pystr
  lr_origin :: pystr
  lr_lr :: pystr
  lr_entry_index :: "int option"

text \<open>\<^verbatim>\<open>generate_c2sp_tlog_stream_id\<close> on the bytes that \<^verbatim>\<open>secrets.token_bytes(16)\<close> returns.\<close>

definition stream_id_of_random :: "bytes \<Rightarrow> pystr" where
  "stream_id_of_random random = b64url_encode random False"

definition private_scope :: "pystr \<Rightarrow> bool" where
  "private_scope s \<longleftrightarrow> startswith s (str ''private-'') \<and> drop 8 s \<noteq> []
     \<and> (\<forall>c \<in> set (drop 8 s). is_alnum c \<or> c = 45)"

definition validate_scope :: "pystr \<Rightarrow> unit res" where
  "validate_scope scope =
     (if scope \<noteq> str ''public'' \<and> scope \<noteq> str ''testnet'' \<and> \<not> re_dollar private_scope scope
      then parse_err ''invalid c2sp-tlog scope'' else Inr ())"

definition unreserved :: "nat \<Rightarrow> bool" where
  "unreserved c \<longleftrightarrow> is_alnum c \<or> c = 46 \<or> c = 95 \<or> c = 126 \<or> c = 45"

text \<open>The body of \<^verbatim>\<open>_STREAM_ID_RE\<close>: unreserved characters and percent escapes, at least one.\<close>

fun stream_id_chars :: "pystr \<Rightarrow> bool" where
  "stream_id_chars [] = True"
| "stream_id_chars (c # cs) =
     (if unreserved c then stream_id_chars cs
      else (case cs of a # b # rest \<Rightarrow> c = 37 \<and> is_hex a \<and> is_hex b \<and> stream_id_chars rest
                     | _ \<Rightarrow> False))"

definition stream_id_body :: "pystr \<Rightarrow> bool" where
  "stream_id_body s \<longleftrightarrow> s \<noteq> [] \<and> stream_id_chars s"

definition ascii_upper :: "nat \<Rightarrow> nat" where
  "ascii_upper c = (if is_lower c then c - 32 else c)"

fun normalize_percent_path :: "pystr \<Rightarrow> pystr" where
  "normalize_percent_path [] = []"
| "normalize_percent_path (c # cs) =
     (if c = 37 then
        (case cs of
           a # b # rest \<Rightarrow>
             if is_hex a \<and> is_hex b then
               (let v = hex_val a * 16 + hex_val b in
                if unreserved v then v # normalize_percent_path rest
                else 37 # ascii_upper a # ascii_upper b # normalize_percent_path rest)
             else c # normalize_percent_path cs
         | _ \<Rightarrow> c # normalize_percent_path cs)
      else c # normalize_percent_path cs)"

text \<open>
  \<^verbatim>\<open>_SCHEME_HOST_RE.sub("", raw, count=1)\<close>. Under \<^verbatim>\<open>IGNORECASE\<close> the class \<^verbatim>\<open>[a-z]\<close> of a \<^verbatim>\<open>str\<close> pattern
  also matches U+0130, U+0131, U+017F and U+212A.
\<close>

definition az_ignorecase :: "nat \<Rightarrow> bool" where
  "az_ignorecase c \<longleftrightarrow> is_alpha c \<or> c \<in> {304, 305, 383, 8490}"

definition strip_scheme_host :: "pystr \<Rightarrow> pystr" where
  "strip_scheme_host raw =
     (let s = takeWhile (\<lambda>c. c \<noteq> 58) raw; rest = drop (length s) raw in
      if s \<noteq> [] \<and> az_ignorecase (hd s)
         \<and> (\<forall>c \<in> set s. az_ignorecase c \<or> is_digit c \<or> c = 43 \<or> c = 46 \<or> c = 45)
         \<and> startswith rest [58, 47, 47]
      then dropWhile (\<lambda>c. \<not> url_delim c) (drop 3 rest) else raw)"

definition has_dot_segment :: "pystr \<Rightarrow> bool" where
  "has_dot_segment path \<longleftrightarrow> (\<exists>seg \<in> set (split_on 47 path). seg = [46] \<or> seg = [46, 46])"

fun encoded_slash :: "pystr \<Rightarrow> bool" where
  "encoded_slash (c # cs) =
     ((c = 37 \<and> (\<exists>p \<in> {[50, 102], [50, 70], [53, 99], [53, 67]}. startswith cs p)) \<or> encoded_slash cs)"
| "encoded_slash [] = False"

definition urlunsplit3 :: "pystr \<Rightarrow> pystr \<Rightarrow> pystr \<Rightarrow> pystr" where
  "urlunsplit3 scheme netloc path =
     scheme @ [58, 47, 47] @ netloc @ (if path \<noteq> [] \<and> hd path \<noteq> 47 then 47 # path else path)"

definition strip_one_slash :: "pystr \<Rightarrow> pystr" where
  "strip_one_slash s = (if s \<noteq> [] \<and> last s = 47 then butlast s else s)"

definition canonical_log_prefix ::
  "(pystr \<Rightarrow> pystr) \<Rightarrow> (pystr \<Rightarrow> bool) \<Rightarrow> pystr \<Rightarrow> pystr res" where
  "canonical_log_prefix lower netloc_ok raw =
     (if \<exists>c \<in> set raw. c = 59 \<or> py_space c
      then parse_err ''log prefix must percent-encode DNS TXT tag delimiters''
      else if has_dot_segment (let p = strip_scheme_host raw in if p = [] then [47] else p)
      then parse_err ''log prefix must not contain dot segments''
      else
        rbind (or_parse_err ''invalid log prefix URL'' (urlsplit netloc_ok raw)) (\<lambda>url.
          (case url_hostname lower url of
             None \<Rightarrow> parse_err ''invalid log prefix URL''
           | Some hostname0 \<Rightarrow>
               if sr_scheme url = [] then parse_err ''invalid log prefix URL''
               else if has_userinfo url then parse_err ''log prefix must not contain userinfo''
               else if sr_query url \<noteq> [] \<or> sr_fragment url \<noteq> []
               then parse_err ''log prefix must not contain query or fragment''
               else if sr_path url \<notin> {[], [47]} \<and> last (sr_path url) = 47
               then parse_err ''log prefix must not have trailing slash''
               else if encoded_slash (sr_path url)
               then parse_err ''log prefix must not percent-encode slash or backslash''
               else
                 (let scheme = ascii_lower (sr_scheme url) in
                  if scheme \<noteq> str ''https'' \<and> scheme \<noteq> str ''http''
                  then parse_err ''unsupported log prefix scheme''
                  else
                    rbind (url_port url) (\<lambda>port0.
                      let hostname = lower hostname0;
                          port = (if (scheme = str ''https'' \<and> port0 = Some 443)
                                     \<or> (scheme = str ''http'' \<and> port0 = Some 80)
                                  then None else port0);
                          netloc = (case port of None \<Rightarrow> hostname
                                    | Some p \<Rightarrow> hostname @ [58] @ dec_of_int p);
                          path = normalize_percent_path (sr_path url)
                      in Inr (strip_one_slash
                                (urlunsplit3 scheme netloc (if path = [47] then [] else path))))))))"

definition checkpoint_origin :: "(pystr \<Rightarrow> bool) \<Rightarrow> pystr \<Rightarrow> pystr res" where
  "checkpoint_origin netloc_ok log_prefix =
     rbind (urlsplit netloc_ok log_prefix) (\<lambda>url.
       Inr (rstrip_chars [47] (sr_netloc url @ sr_path url)))"

definition parse_index :: "pystr \<Rightarrow> int res" where
  "parse_index s =
     (if \<not> re_dollar canonical_dec s then parse_err ''invalid entry index'' else py_int s)"

definition validate_signed_note_name :: "pystr \<Rightarrow> unit res" where
  "validate_signed_note_name name =
     (if \<not> re_dollar (\<lambda>s. s \<noteq> [] \<and> (\<forall>c \<in> set s. 33 \<le> c \<and> c \<le> 126)) name
         \<or> (\<exists>c \<in> set name. py_space c \<or> c = 43)
      then parse_err ''invalid signed-note key name'' else Inr ())"

definition bound_lr :: "pystr \<Rightarrow> pystr \<Rightarrow> pystr \<Rightarrow> pystr" where
  "bound_lr scope log_prefix stream_id =
     str ''c2sp-tlog:'' @ scope @ [58] @ log_prefix @ [35] @ stream_id"

definition parse_reference ::
  "(pystr \<Rightarrow> pystr) \<Rightarrow> (pystr \<Rightarrow> bool) \<Rightarrow> pystr \<Rightarrow> pystr \<Rightarrow> pystr \<Rightarrow> ParsedC2spTlogLr res" where
  "parse_reference lower netloc_ok scope raw_log_prefix ref =
     rbind (canonical_log_prefix lower netloc_ok raw_log_prefix) (\<lambda>log_prefix.
     if raw_log_prefix \<noteq> log_prefix then parse_err ''log prefix must already be canonical''
     else
       (let at_pos = rfind_char ref 64;
            stream_id = (case at_pos of None \<Rightarrow> ref | Some i \<Rightarrow> take i ref)
        in if \<not> re_dollar stream_id_body stream_id then parse_err ''invalid stream id''
           else
             rbind (case at_pos of
                      None \<Rightarrow> Inr None
                    | Some i \<Rightarrow> rbind (parse_index (drop (i + 1) ref)) (\<lambda>n. Inr (Some n)))
               (\<lambda>entry_index.
             rbind (checkpoint_origin netloc_ok log_prefix) (\<lambda>origin.
             rbind (validate_signed_note_name origin) (\<lambda>_.
               if scope = str ''public'' \<and> \<not> startswith log_prefix (str ''https://'')
               then parse_err ''public c2sp-tlog requires an https log prefix''
               else Inr \<lparr>lr_method = str ''c2sp-tlog'', lr_scope = scope,
                         lr_log_prefix = log_prefix, lr_stream_id = stream_id, lr_origin = origin,
                         lr_lr = bound_lr scope log_prefix stream_id,
                         lr_entry_index = entry_index\<rparr>)))))"

definition parse_c2sp_tlog_lr ::
  "(pystr \<Rightarrow> pystr) \<Rightarrow> (pystr \<Rightarrow> bool) \<Rightarrow> pystr \<Rightarrow> ParsedC2spTlogLr res" where
  "parse_c2sp_tlog_lr lower netloc_ok lr =
     (if \<not> startswith lr (str ''c2sp-tlog:'') then parse_err ''lr must start with c2sp-tlog:''
      else
        (let rest = drop 10 lr; (scope, tail) = partition_char rest 58 in
         if 58 \<notin> set rest \<or> scope = [] then parse_err ''missing c2sp-tlog scope''
         else
           rbind (validate_scope scope) (\<lambda>_.
             (case rfind_char tail 35 of
                None \<Rightarrow> parse_err ''missing log prefix or stream id''
              | Some h \<Rightarrow>
                  if h = 0 \<or> h = length tail - 1
                  then parse_err ''missing log prefix or stream id''
                  else parse_reference lower netloc_ok scope (take h tail) (drop (h + 1) tail)))))"

section \<open>Lemmas\<close>

lemma rfind_char_None: "rfind_char s c = None \<longleftrightarrow> c \<notin> set s"
  by (induction s) (auto split: option.splits)

lemma rfind_char_split: "c \<notin> set b \<Longrightarrow> rfind_char (a @ c # b) c = Some (length a)"
  by (induction a) (auto simp: rfind_char_None [THEN iffD2])

lemma rfind_char_Some:
  "rfind_char s c = Some i \<longleftrightarrow> (\<exists>a b. s = a @ c # b \<and> length a = i \<and> c \<notin> set b)"
proof
  assume "rfind_char s c = Some i"
  then have "c \<in> set s" using rfind_char_None [of s c] by auto
  then obtain a b where ab: "s = a @ c # b" "c \<notin> set b" by (meson split_list_last)
  with \<open>rfind_char s c = Some i\<close> rfind_char_split show "\<exists>a b. s = a @ c # b \<and> length a = i \<and> c \<notin> set b"
    by fastforce
qed (auto simp: rfind_char_split)

lemma stream_id_chars_safe: "stream_id_chars s \<Longrightarrow> c \<in> set s \<Longrightarrow> c \<noteq> 35 \<and> c \<noteq> 64"
  by (induction s rule: stream_id_chars.induct)
    (auto simp: unreserved_def is_alnum_def is_alpha_def is_lower_def is_upper_def is_digit_def is_hex_def
      split: if_splits list.splits)

lemma stream_id_safe: "re_dollar stream_id_body s \<Longrightarrow> 35 \<notin> set s \<and> 64 \<notin> set s \<and> s \<noteq> []"
proof -
  assume "re_dollar stream_id_body s"
  then consider "stream_id_body s" | t where "s = t @ [10]" "stream_id_body t"
    by (auto simp: re_dollar_def) (metis append_butlast_last_id)
  then show ?thesis
    by cases (auto simp: stream_id_body_def dest: stream_id_chars_safe)
qed

text \<open>What the parser has checked, read off its result.\<close>

definition lr_parts :: "(pystr \<Rightarrow> pystr) \<Rightarrow> (pystr \<Rightarrow> bool) \<Rightarrow> ParsedC2spTlogLr \<Rightarrow> bool" where
  "lr_parts lower netloc_ok p \<longleftrightarrow>
     lr_method p = str ''c2sp-tlog'' \<and> lr_scope p \<noteq> [] \<and> 58 \<notin> set (lr_scope p)
     \<and> validate_scope (lr_scope p) = Inr () \<and> lr_log_prefix p \<noteq> []
     \<and> canonical_log_prefix lower netloc_ok (lr_log_prefix p) = Inr (lr_log_prefix p)
     \<and> re_dollar stream_id_body (lr_stream_id p)
     \<and> checkpoint_origin netloc_ok (lr_log_prefix p) = Inr (lr_origin p)
     \<and> validate_signed_note_name (lr_origin p) = Inr ()
     \<and> (lr_scope p = str ''public'' \<longrightarrow> startswith (lr_log_prefix p) (str ''https://''))
     \<and> lr_lr p = bound_lr (lr_scope p) (lr_log_prefix p) (lr_stream_id p)"

lemma parse_reference_sound:
  assumes "parse_reference lower netloc_ok scope pre ref = Inr p"
    and "validate_scope scope = Inr ()" "scope \<noteq> []" "58 \<notin> set scope" "pre \<noteq> []"
  shows "lr_parts lower netloc_ok p" "lr_scope p = scope" "lr_log_prefix p = pre"
    and "case lr_entry_index p of None \<Rightarrow> ref = lr_stream_id p
         | Some n \<Rightarrow> \<exists>t. ref = lr_stream_id p @ 64 # t \<and> parse_index t = Inr n"
  using assms
  by (auto simp: parse_reference_def Let_def rbind_Inr_iff lr_parts_def rfind_char_Some
      split: if_splits option.splits)

lemma parse_lr_split:
  "parse_c2sp_tlog_lr lower netloc_ok lr = Inr p \<longleftrightarrow>
     (\<exists>scope pre ref. lr = str ''c2sp-tlog:'' @ scope @ 58 # pre @ 35 # ref \<and> scope \<noteq> [] \<and> 58 \<notin> set scope
        \<and> pre \<noteq> [] \<and> ref \<noteq> [] \<and> 35 \<notin> set ref \<and> validate_scope scope = Inr ()
        \<and> parse_reference lower netloc_ok scope pre ref = Inr p)"
    (is "?l \<longleftrightarrow> ?r")
proof
  assume l: ?l
  then obtain rest where lr: "lr = str ''c2sp-tlog:'' @ rest"
    by (auto simp: parse_c2sp_tlog_lr_def startswith_iff split: if_splits)
  then have rest: "drop 10 lr = rest" by simp
  obtain scope tail where st: "partition_char rest 58 = (scope, tail)" by force
  from l have colon: "58 \<in> set rest" "scope \<noteq> []"
    by (auto simp: parse_c2sp_tlog_lr_def Let_def rest st split: if_splits)
  from partition_char_eq [OF colon(1) st] have rs: "rest = scope @ 58 # tail" "58 \<notin> set scope" by auto
  from l obtain h where h: "rfind_char tail 35 = Some h" "h \<noteq> 0" "h \<noteq> length tail - 1"
    "validate_scope scope = Inr ()"
    "parse_reference lower netloc_ok scope (take h tail) (drop (h + 1) tail) = Inr p"
    by (auto simp: parse_c2sp_tlog_lr_def Let_def rest st rbind_Inr_iff split: if_splits option.splits)
  then obtain pre ref where pr: "tail = pre @ 35 # ref" "length pre = h" "35 \<notin> set ref"
    by (auto simp: rfind_char_Some)
  with h lr rs colon show ?r by (intro exI [of _ scope] exI [of _ pre] exI [of _ ref]) auto
next
  assume ?r
  then obtain scope pre ref where *: "lr = str ''c2sp-tlog:'' @ scope @ 58 # pre @ 35 # ref" "scope \<noteq> []"
    "58 \<notin> set scope" "pre \<noteq> []" "ref \<noteq> []" "35 \<notin> set ref" "validate_scope scope = Inr ()"
    "parse_reference lower netloc_ok scope pre ref = Inr p" by blast
  then show ?l
    by (simp add: parse_c2sp_tlog_lr_def partition_char_append rfind_char_split startswith_def)
qed

lemma parse_lr_sound:
  assumes "parse_c2sp_tlog_lr lower netloc_ok lr = Inr p"
  shows "lr_parts lower netloc_ok p"
    and "case lr_entry_index p of None \<Rightarrow> lr = lr_lr p
         | Some n \<Rightarrow> \<exists>t. lr = lr_lr p @ 64 # t \<and> parse_index t = Inr n"
proof -
  from assms [unfolded parse_lr_split] obtain scope pre ref where
    *: "lr = str ''c2sp-tlog:'' @ scope @ 58 # pre @ 35 # ref" "scope \<noteq> []" "58 \<notin> set scope" "pre \<noteq> []"
    "validate_scope scope = Inr ()" "parse_reference lower netloc_ok scope pre ref = Inr p" by blast
  note s = parse_reference_sound [OF *(6,5,2,3,4)]
  show "lr_parts lower netloc_ok p" by (rule s(1))
  then have "lr_lr p = bound_lr scope pre (lr_stream_id p)" by (simp add: lr_parts_def s(2,3))
  with s(4) *(1) show "case lr_entry_index p of None \<Rightarrow> lr = lr_lr p
         | Some n \<Rightarrow> \<exists>t. lr = lr_lr p @ 64 # t \<and> parse_index t = Inr n"
    by (auto simp: bound_lr_def split: option.splits)
qed

lemma parse_lr_bound:
  assumes "lr_parts lower netloc_ok p"
  shows "parse_c2sp_tlog_lr lower netloc_ok (lr_lr p) = Inr (p\<lparr>lr_entry_index := None\<rparr>)"
proof -
  have sid: "35 \<notin> set (lr_stream_id p)" "64 \<notin> set (lr_stream_id p)" "lr_stream_id p \<noteq> []"
    using assms stream_id_safe by (auto simp: lr_parts_def)
  have "parse_reference lower netloc_ok (lr_scope p) (lr_log_prefix p) (lr_stream_id p)
      = Inr (p\<lparr>lr_entry_index := None\<rparr>)"
    using assms sid by (cases p) (auto simp: parse_reference_def lr_parts_def rfind_char_None [THEN iffD2])
  with assms sid show ?thesis unfolding parse_lr_split lr_parts_def bound_lr_def by fastforce
qed

section \<open>Properties\<close>

text \<open>
  The canonical bound reference. Parsing a reference and then its \<^verbatim>\<open>lr\<close> field gives the same
  parts without the entry index, so the bound reference determines scope, log prefix, stream and
  origin; and the input is the bound reference followed by nothing or by \<^verbatim>\<open>@\<close> and an index text.
\<close>

theorem bound_reference_canonical:
  assumes "parse_c2sp_tlog_lr lower netloc_ok lr = Inr p"
  shows "parse_c2sp_tlog_lr lower netloc_ok (lr_lr p) = Inr (p\<lparr>lr_entry_index := None\<rparr>)
    \<and> (case lr_entry_index p of None \<Rightarrow> lr = lr_lr p
         | Some n \<Rightarrow> \<exists>t. lr = lr_lr p @ 64 # t \<and> parse_index t = Inr n)"
  using parse_lr_bound [OF parse_lr_sound(1) [OF assms]] parse_lr_sound(2) [OF assms] by simp

definition sample_lr :: pystr where
  "sample_lr = str ''c2sp-tlog:testnet:https://log.example/a#s1@7''"

definition sample_parsed_lr :: ParsedC2spTlogLr where
  "sample_parsed_lr =
     \<lparr>lr_method = str ''c2sp-tlog'', lr_scope = str ''testnet'',
      lr_log_prefix = str ''https://log.example/a'', lr_stream_id = str ''s1'',
      lr_origin = str ''log.example/a'', lr_lr = str ''c2sp-tlog:testnet:https://log.example/a#s1'',
      lr_entry_index = Some 7\<rparr>"

lemma sample_lr_parses: "parse_c2sp_tlog_lr id (\<lambda>_. True) sample_lr = Inr sample_parsed_lr"
  by code_simp

theorem bound_reference_canonical_witness:
  "parse_c2sp_tlog_lr id (\<lambda>_. True) (lr_lr sample_parsed_lr) = Inr (sample_parsed_lr\<lparr>lr_entry_index := None\<rparr>)
    \<and> (case lr_entry_index sample_parsed_lr of None \<Rightarrow> sample_lr = lr_lr sample_parsed_lr
         | Some n \<Rightarrow> \<exists>t. sample_lr = lr_lr sample_parsed_lr @ 64 # t \<and> parse_index t = Inr n)"
  by (rule bound_reference_canonical [OF sample_lr_parses])

text \<open>
  The anchors of the regular expressions admit a trailing newline. A stream identifier that ends
  in a line feed is accepted although the expression allows only unreserved characters and escapes.
\<close>

theorem stream_id_newline_accepted:
  "parse_c2sp_tlog_lr id (\<lambda>_. True) (str ''c2sp-tlog:testnet:https://log.example#s1'' @ [10]) =
     Inr \<lparr>lr_method = str ''c2sp-tlog'', lr_scope = str ''testnet'',
          lr_log_prefix = str ''https://log.example'', lr_stream_id = str ''s1'' @ [10],
          lr_origin = str ''log.example'',
          lr_lr = str ''c2sp-tlog:testnet:https://log.example#s1'' @ [10], lr_entry_index = None\<rparr>"
  by code_simp

text \<open>
  A port outside the range escapes as \<^verbatim>\<open>ValueError\<close>: \<^verbatim>\<open>url.port\<close> is read after the handler that
  turns the errors of \<^verbatim>\<open>urlsplit\<close> into \<^verbatim>\<open>C2spTlogParseError\<close>.
\<close>

theorem log_prefix_port_escapes:
  "canonical_log_prefix id (\<lambda>_. True) (str ''https://log.example:70000/a'') =
     Inl (ValueError ''Port out of range 0-65535'')"
  by code_simp

end
