(* ===== verification/Events.thy ===== *)
theory Events
  imports Jwk Log_Ref "HOL-Library.Sublist"
begin

text \<open>
  The lifecycle events of \<^verbatim>\<open>dnsid/models.py\<close> and their JSON envelopes,
  \<^verbatim>\<open>dnsid/c2sp_tlog/event_codec.py\<close>: building an envelope from an event, parsing one, the signed
  bytes of an entry and its logical identifier.

  A \<^verbatim>\<open>datetime\<close> is whether it is timezone-aware and the microseconds since the epoch.
  \<^verbatim>\<open>timestamp() * 1000\<close> is computed in floating point, so the two operations are rounded to 53 bits.
\<close>

section \<open>Times\<close>

record pydatetime =
  dt_aware :: bool
  dt_us :: int

text \<open>The quotient \<open>a / b\<close> of a non-negative by a positive integer, rounded to the nearest integer, ties to even.\<close>

definition round_div :: "int \<Rightarrow> int \<Rightarrow> int" where
  "round_div a b =
     (let q = a div b; r = 2 * (a mod b) in
      if r < b \<or> r = b \<and> even q then q else q + 1)"

text \<open>The number of binary digits of a positive integer.\<close>

fun bit_len :: "nat \<Rightarrow> nat" where
  "bit_len n = (if n = 0 then 0 else Suc (bit_len (n div 2)))"

declare bit_len.simps [simp del]

text \<open>
  \<open>a / b\<close> rounded to 53 significant bits, as the pair of a numerator and the exponent \<open>j\<close> of the
  denominator \<open>2 ^ j\<close>. The quotients here are below \<open>2 ^ 53\<close> in magnitude, so \<open>j\<close> is not negative.
\<close>

definition float_div :: "int \<Rightarrow> int \<Rightarrow> int \<times> nat" where
  "float_div a b =
     (let j = (if \<bar>a\<bar> < b then 52 + bit_len (nat (b div \<bar>a\<bar>)) else 53 - bit_len (nat (\<bar>a\<bar> div b))) in
      (if a < 0 then - round_div (- a * 2 ^ j) b else round_div (a * 2 ^ j) b, j))"

text \<open>\<^verbatim>\<open>ts.timestamp() * 1000\<close> as a fraction \<open>n / 2 ^ j\<close>: \<^verbatim>\<open>total_seconds()\<close> divides microseconds by a million.\<close>

definition timestamp_millis :: "pydatetime \<Rightarrow> int \<times> nat" where
  "timestamp_millis ts =
     (let (n, j) = float_div (dt_us ts) 1000000; (m, i) = float_div (n * 1000) (2 ^ j) in (m, i))"

definition epoch_seconds :: "pydatetime \<Rightarrow> int res" where
  "epoch_seconds ts =
     (if \<not> dt_aware ts then parse_err ''must be timezone-aware''
      else
        (let (n, j) = timestamp_millis ts in
         if n < 0 \<or> n mod 2 ^ j \<noteq> 0 \<or> n div 2 ^ j mod 1000 \<noteq> 0
         then parse_err ''must have whole-second precision''
         else Inr (n div 2 ^ j div 1000)))"

definition MAX_DATE_SECONDS :: int where
  "MAX_DATE_SECONDS = 253402300799"

definition utc_seconds :: "int \<Rightarrow> pydatetime" where
  "utc_seconds s = \<lparr>dt_aware = True, dt_us = s * 1000000\<rparr>"

definition date_from_seconds :: "int \<Rightarrow> pydatetime res" where
  "date_from_seconds seconds =
     (if seconds < -62135596800 \<or> MAX_DATE_SECONDS < seconds then parse_err ''outside date range''
      else Inr (utc_seconds seconds))"

section \<open>Events\<close>

record IssuanceData =
  is_governance_id :: pystr
  is_entity_key :: "JWK option"
  is_operational_key :: "JWK option"

record KeyRotationData =
  kr_previous_kid :: pystr
  kr_previous_thumbprint :: pystr
  kr_previous_public_key :: "JWK option"
  kr_new_kid :: pystr
  kr_new_thumbprint :: pystr
  kr_new_public_key :: "JWK option"
  kr_new_operational_proof :: pystr

record MigrationData =
  mg_previous_log :: pystr
  mg_new_log :: pystr
  mg_final_entry_ref :: pystr

record DelegationData =
  dg_delegatee :: pystr
  dg_scope :: pystr
  dg_expiry :: pydatetime

datatype event_body =
    IssuanceEvent IssuanceData
  | KeyRotationEvent KeyRotationData
  | RevocationEvent pystr
  | RetirementEvent
  | MigrationEvent MigrationData
  | DelegationEvent DelegationData

record LogEvent =
  ev_domain :: pystr
  ev_timestamp :: pydatetime
  ev_signing_kid :: pystr
  ev_sig :: pystr
  ev_operational_countersig :: pystr
  ev_body :: event_body

fun body_type :: "event_body \<Rightarrow> EventType" where
  "body_type (IssuanceEvent _) = ISSUANCE"
| "body_type (KeyRotationEvent _) = KEY_ROTATION"
| "body_type (RevocationEvent _) = REVOCATION"
| "body_type RetirementEvent = RETIREMENT"
| "body_type (MigrationEvent _) = MIGRATION"
| "body_type (DelegationEvent _) = DELEGATION"

definition event_type :: "LogEvent \<Rightarrow> pystr" where
  "event_type ev = str (event_type_name (body_type (ev_body ev)))"

record C2spEventContext =
  cx_scope :: "pystr option"
  cx_log_origin :: "pystr option"
  cx_stream_id :: "pystr option"
  cx_lr :: "pystr option"
  cx_seq :: "int option"
  cx_prev_event_id :: "pystr option"
  cx_prev_state_hash :: "pystr option"

definition no_context :: C2spEventContext where
  "no_context =
     \<lparr>cx_scope = None, cx_log_origin = None, cx_stream_id = None, cx_lr = None, cx_seq = None,
      cx_prev_event_id = None, cx_prev_state_hash = None\<rparr>"

record C2spSignatureValue =
  sv_kid :: pystr
  sv_sig :: pystr

section \<open>Field checks\<close>

abbreviation field_of :: "jdict \<Rightarrow> string \<Rightarrow> json" where
  "field_of obj name \<equiv> dget obj name JNull"

definition has_field :: "jdict \<Rightarrow> string \<Rightarrow> bool" where
  "has_field obj name \<longleftrightarrow> map_of obj (str name) \<noteq> None"

definition MAX_SAFE_INT :: int where
  "MAX_SAFE_INT = 9007199254740991"

definition as_str :: "json \<Rightarrow> string \<Rightarrow> pystr res" where
  "as_str value name =
     (case value of JStr s \<Rightarrow> if s = [] then parse_err (''missing '' @ name) else Inr s
      | _ \<Rightarrow> parse_err (''missing '' @ name))"

definition as_safe_int :: "json \<Rightarrow> string \<Rightarrow> int res" where
  "as_safe_int value name =
     (case value of
        JInt n \<Rightarrow> if n < 0 \<or> MAX_SAFE_INT < n then parse_err (name @ '' outside safe integer range'') else Inr n
      | _ \<Rightarrow> parse_err (name @ '' outside safe integer range''))"

definition as_jwk :: "json \<Rightarrow> string \<Rightarrow> JWK res" where
  "as_jwk value name =
     (case value of
        JObj d \<Rightarrow>
          rbind (as_str (field_of d ''kty'') (name @ ''.kty'')) (\<lambda>_.
          rbind (as_str (field_of d ''kid'') (name @ ''.kid'')) (\<lambda>_.
          rbind (as_str (field_of d ''alg'') (name @ ''.alg'')) (\<lambda>_. Inr (jwk_from_dict d))))
      | _ \<Rightarrow> parse_err (''missing '' @ name))"

definition as_revocation_reason :: "json \<Rightarrow> pystr res" where
  "as_revocation_reason value =
     (case value of
        JStr s \<Rightarrow> if s \<in> set RevocationReason then Inr s else parse_err ''invalid REVOCATION reason''
      | _ \<Rightarrow> parse_err ''invalid REVOCATION reason'')"

definition MAX_ENTRY_BYTES :: nat where
  "MAX_ENTRY_BYTES = 65535"

definition assert_entry_size :: "bytes \<Rightarrow> unit res" where
  "assert_entry_size data =
     guard (data \<noteq> [] \<and> length data \<le> MAX_ENTRY_BYTES)
       (C2spTlogParseError ''C2SP entry must be between 1 and 65535 bytes'')"

section \<open>Signatures\<close>

definition SUPPORTED :: "pystr list" where
  "SUPPORTED =
     map (str \<circ> event_type_name) [ISSUANCE, KEY_ROTATION, REVOCATION, RETIREMENT, MIGRATION, DELEGATION]"

definition required_c2sp_signature_names :: "json \<Rightarrow> string list res" where
  "required_c2sp_signature_names ty =
     (if ty = JStr (str ''ISSUANCE'') then Inr [''ae'', ''op'']
      else if ty = JStr (str ''KEY_ROTATION'') then Inr [''prev_op'', ''new_op'']
      else if \<not> hashable ty then Inl (TypeError ''unhashable type'')
      else if ty \<in> JStr ` set SUPPORTED then Inr [''ae'']
      else parse_err ''unsupported DNSid lifecycle event type'')"

definition parse_signature_value :: "json \<Rightarrow> string \<Rightarrow> C2spSignatureValue res" where
  "parse_signature_value value name =
     (case value of
        JObj d \<Rightarrow>
          if \<exists>(k, v) \<in> set d. k \<noteq> str ''kid'' \<and> k \<noteq> str ''sig''
          then parse_err (name @ '' contains an unknown member'')
          else
            rbind (as_str (field_of d ''kid'') (name @ ''.kid'')) (\<lambda>kid.
            rbind (as_str (field_of d ''sig'') (name @ ''.sig'')) (\<lambda>sig.
              if \<not> (\<forall>c \<in> set sig. b64url_strict_char c)
              then parse_err (name @ ''.sig must be unpadded base64url'')
              else
                (case b64url_decode_strict sig of
                   Inl _ \<Rightarrow> parse_err (name @ ''.sig must be canonical base64url'')
                 | Inr raw \<Rightarrow>
                     if b64url_encode raw False \<noteq> sig
                     then parse_err (name @ ''.sig must be canonical base64url'')
                     else Inr \<lparr>sv_kid = kid, sv_sig = sig\<rparr>)))
      | _ \<Rightarrow> parse_err (name @ '' must be an object''))"

type_synonym sigdict = "(string \<times> C2spSignatureValue) list"

fun parse_roles :: "jdict \<Rightarrow> bool \<Rightarrow> string list \<Rightarrow> sigdict res" where
  "parse_roles d full [] = Inr []"
| "parse_roles d full (key # keys) =
     (case field_of d key of
        JNull \<Rightarrow> if full then parse_err (''missing sigs.'' @ key) else parse_roles d full keys
      | raw \<Rightarrow>
          rbind (parse_signature_value raw (''sigs.'' @ key)) (\<lambda>v.
          rbind (parse_roles d full keys) (\<lambda>rest. Inr ((key, v) # rest))))"

definition parse_c2sp_signatures :: "json \<Rightarrow> json \<Rightarrow> bool \<Rightarrow> sigdict res" where
  "parse_c2sp_signatures value ty require_complete =
     (if value = JNull \<and> \<not> require_complete then Inr []
      else
        (case value of
           JObj d \<Rightarrow>
             rbind (required_c2sp_signature_names ty) (\<lambda>allowed.
               if \<exists>(k, v) \<in> set d. k \<notin> str ` set allowed then parse_err ''unexpected signature role''
               else parse_roles d require_complete allowed)
         | _ \<Rightarrow> parse_err ''C2SP event missing sigs object''))"

definition sig_at :: "sigdict \<Rightarrow> string \<Rightarrow> C2spSignatureValue res" where
  "sig_at sigs name = (case map_of sigs name of None \<Rightarrow> Inl (KeyError name) | Some v \<Rightarrow> Inr v)"

definition require_issuance_keys :: "IssuanceData \<Rightarrow> (JWK \<times> JWK) res" where
  "require_issuance_keys d =
     (case (is_entity_key d, is_operational_key d) of
        (Some e, Some k) \<Rightarrow>
          if falsy (jwk_kid e) \<or> falsy (jwk_kid k)
          then parse_err ''ISSUANCE is missing c2sp-tlog key metadata'' else Inr (e, k)
      | _ \<Rightarrow> parse_err ''ISSUANCE is missing c2sp-tlog key metadata'')"

definition sig_member :: "string \<Rightarrow> json \<Rightarrow> pystr \<Rightarrow> jdict" where
  "sig_member role kid sig =
     (if sig = [] then [] else [(str role, JObj [(str ''kid'', kid), (str ''sig'', JStr sig)])])"

definition signatures_from_event :: "LogEvent \<Rightarrow> jdict res" where
  "signatures_from_event ev =
     (case ev_body ev of
        IssuanceEvent d \<Rightarrow>
          rbind (require_issuance_keys d) (\<lambda>(entity_key, operational_key).
            Inr (sig_member ''ae''
                   (if ev_signing_kid ev \<noteq> [] then JStr (ev_signing_kid ev) else jwk_kid entity_key) (ev_sig ev)
                 @ sig_member ''op'' (jwk_kid operational_key) (ev_operational_countersig ev)))
      | KeyRotationEvent d \<Rightarrow>
          Inr (sig_member ''prev_op''
                 (JStr (if ev_signing_kid ev \<noteq> [] then ev_signing_kid ev else kr_previous_kid d)) (ev_sig ev)
               @ sig_member ''new_op'' (JStr (kr_new_kid d)) (kr_new_operational_proof d))
      | _ \<Rightarrow> Inr (sig_member ''ae'' (JStr (ev_signing_kid ev)) (ev_sig ev)))"

section \<open>Signed context\<close>

definition public_field :: "jdict \<Rightarrow> string \<Rightarrow> pystr option \<Rightarrow> unit res" where
  "public_field obj k expected =
     (case field_of obj k of
        JStr v \<Rightarrow>
          if v = [] then parse_err (''public C2SP event missing signed '' @ k)
          else if expected \<noteq> None \<and> expected \<noteq> Some v then parse_err (''public C2SP event mismatch '' @ k)
          else Inr ()
      | _ \<Rightarrow> parse_err (''public C2SP event missing signed '' @ k))"

definition validate_public_fields :: "platform \<Rightarrow> json \<Rightarrow> C2spEventContext \<Rightarrow> unit res" where
  "validate_public_fields pf value context =
     (case value of
        JObj obj \<Rightarrow>
          if field_of obj ''v'' \<noteq> JInt 1 then parse_err ''unsupported C2SP envelope version''
          else
            rbind (as_str (field_of obj ''fqdn'') ''fqdn'') (\<lambda>name.
            rbind (normalize_fqdn (pf_idna pf) name True) (\<lambda>fqdn.
              if fqdn \<noteq> name \<or> field_of obj ''stream_id'' = JStr fqdn
              then parse_err ''C2SP requires normalized FQDN and identity-instance stream ID, not the bare FQDN''
              else
                rbind (as_str (field_of obj ''lr'') ''lr'') (\<lambda>lr.
                rbind (parse_c2sp_tlog_lr (pf_lower pf) (pf_netloc_ok pf) lr) (\<lambda>reference.
                  if lr_entry_index reference \<noteq> None \<or> lr_lr reference \<noteq> lr
                     \<or> (cx_scope context \<noteq> None \<and> cx_scope context \<noteq> Some (lr_scope reference))
                     \<or> JStr (lr_origin reference) \<noteq> field_of obj ''log_origin''
                     \<or> JStr (lr_stream_id reference) \<noteq> field_of obj ''stream_id''
                  then parse_err ''C2SP signed context mismatch''
                  else
                    rbind (public_field obj ''method'' (Some (str ''c2sp-tlog''))) (\<lambda>_.
                    rbind (public_field obj ''log_origin'' (cx_log_origin context)) (\<lambda>_.
                    rbind (public_field obj ''stream_id'' (cx_stream_id context)) (\<lambda>_.
                      public_field obj ''lr'' (cx_lr context))))))))
      | _ \<Rightarrow> parse_err ''C2SP event entry must be an object'')"

section \<open>From events to entries\<close>

definition body_fields :: "event_body \<Rightarrow> jdict res" where
  "body_fields body =
     (case body of
        IssuanceEvent d \<Rightarrow>
          rbind (require_issuance_keys d) (\<lambda>(entity_key, operational_key).
            Inr [(str ''gi'', JStr (is_governance_id d)), (str ''ek'', JObj (jwk_raw entity_key)),
                 (str ''ku'', JObj (jwk_raw operational_key))])
      | KeyRotationEvent d \<Rightarrow>
          (case kr_new_public_key d of
             None \<Rightarrow> parse_err ''KEY_ROTATION is missing new_public_key''
           | Some key \<Rightarrow>
               Inr [(str ''prev_thumb'', JStr (kr_previous_thumbprint d)), (str ''new_ku'', JObj (jwk_raw key)),
                    (str ''new_thumb'', JStr (kr_new_thumbprint d))])
      | RevocationEvent reason \<Rightarrow> Inr [(str ''reason'', JStr reason)]
      | RetirementEvent \<Rightarrow> Inr []
      | MigrationEvent d \<Rightarrow>
          Inr [(str ''prev_lr'', JStr (mg_previous_log d)), (str ''new_lr'', JStr (mg_new_log d)),
               (str ''prev_ref'', JStr (mg_final_entry_ref d))]
      | DelegationEvent d \<Rightarrow>
          rbind (epoch_seconds (dg_expiry d)) (\<lambda>expiry.
            Inr [(str ''delegatee'', JStr (dg_delegatee d)), (str ''scope'', JStr (dg_scope d)),
                 (str ''expiry'', JInt expiry)]))"

text \<open>A member that is written only when the value is set and not empty.\<close>

definition set_member :: "string \<Rightarrow> pystr option \<Rightarrow> jdict" where
  "set_member k v = (case v of None \<Rightarrow> [] | Some s \<Rightarrow> if s = [] then [] else [(str k, JStr s)])"

definition is_set :: "pystr option \<Rightarrow> bool" where
  "is_set v \<longleftrightarrow> v \<noteq> None \<and> v \<noteq> Some []"

definition context_fields :: "C2spEventContext \<Rightarrow> jdict" where
  "context_fields ctx =
     (if cx_scope ctx = Some (str ''public'') \<or> is_set (cx_log_origin ctx) \<or> is_set (cx_stream_id ctx)
         \<or> is_set (cx_lr ctx)
      then (str ''method'', JStr (str ''c2sp-tlog'')) # set_member ''log_origin'' (cx_log_origin ctx)
        @ set_member ''stream_id'' (cx_stream_id ctx) @ set_member ''lr'' (cx_lr ctx)
      else [])
     @ (case cx_seq ctx of None \<Rightarrow> [] | Some n \<Rightarrow> [(str ''seq'', JInt n)])
     @ (case cx_prev_event_id ctx of None \<Rightarrow> [] | Some s \<Rightarrow> [(str ''prev_event_id'', JStr s)])
     @ set_member ''prev_state_hash'' (cx_prev_state_hash ctx)"

definition base_fields :: "LogEvent \<Rightarrow> int \<Rightarrow> jdict" where
  "base_fields ev ts =
     [(str ''v'', JInt 1), (str ''kind'', JStr (str ''dnsid.lifecycle'')), (str ''type'', JStr (event_type ev)),
      (str ''fqdn'', JStr (ev_domain ev)), (str ''ts'', JInt ts)]"

definition event_to_c2sp_envelope ::
  "platform \<Rightarrow> LogEvent \<Rightarrow> C2spEventContext \<Rightarrow> bool \<Rightarrow> jdict res" where
  "event_to_c2sp_envelope pf ev ctx include_sigs =
     rbind (epoch_seconds (ev_timestamp ev)) (\<lambda>ts.
     rbind (body_fields (ev_body ev)) (\<lambda>body.
       let obj = base_fields ev ts @ body @ context_fields ctx
       in rbind (validate_public_fields pf (JObj obj) ctx) (\<lambda>_.
            if include_sigs then
              rbind (signatures_from_event ev) (\<lambda>sigs.
                Inr (obj @ (if sigs = [] then [] else [(str ''sigs'', JObj sigs)])))
            else Inr obj)))"

abbreviation canon_bytes :: "platform \<Rightarrow> json \<Rightarrow> bytes res" where
  "canon_bytes pf v \<equiv> canonical_bytes (pf_float_int pf) v"

definition canonicalize_c2sp_event :: "platform \<Rightarrow> LogEvent \<Rightarrow> C2spEventContext \<Rightarrow> bytes res" where
  "canonicalize_c2sp_event pf ev ctx =
     rbind (event_to_c2sp_envelope pf ev ctx True) (\<lambda>envelope.
     rbind (parse_c2sp_signatures (field_of envelope ''sigs'') (JStr (event_type ev)) True) (\<lambda>_.
     rbind (canon_bytes pf (JObj envelope)) (\<lambda>data.
     rbind (assert_entry_size data) (\<lambda>_. Inr data))))"

definition signed_c2sp_event_bytes :: "platform \<Rightarrow> LogEvent \<Rightarrow> C2spEventContext \<Rightarrow> bytes res" where
  "signed_c2sp_event_bytes pf ev ctx =
     rbind (event_to_c2sp_envelope pf ev ctx False) (\<lambda>envelope. canon_bytes pf (JObj envelope))"

definition prepare_c2sp_tlog_event :: "platform \<Rightarrow> LogEvent \<Rightarrow> C2spEventContext \<Rightarrow> jdict res" where
  "prepare_c2sp_tlog_event pf ev ctx =
     rbind (event_to_c2sp_envelope pf ev ctx False) (\<lambda>obj.
     rbind (validate_public_fields pf (JObj obj) ctx) (\<lambda>_. Inr obj))"

section \<open>From entries to events\<close>

definition is_one :: "json \<Rightarrow> bool" where
  "is_one v \<longleftrightarrow> v = JInt 1 \<or> v = JBool True \<or> v = JFloat False (str ''1.0'')"

text \<open>The text of a key identifier, which \<open>as_jwk\<close> has checked to be a string.\<close>

definition kid_text :: "JWK \<Rightarrow> pystr" where
  "kid_text k = (case jwk_kid k of JStr s \<Rightarrow> s | _ \<Rightarrow> [])"

definition parse_issuance :: "jdict \<Rightarrow> sigdict \<Rightarrow> pydatetime \<Rightarrow> pystr \<Rightarrow> LogEvent res" where
  "parse_issuance e sigs timestamp domain =
     rbind (as_jwk (field_of e ''ek'') ''ek'') (\<lambda>entity_key.
     rbind (as_jwk (field_of e ''ku'') ''ku'') (\<lambda>operational_key.
     rbind (sig_at sigs ''ae'') (\<lambda>ae.
     rbind (sig_at sigs ''op'') (\<lambda>op.
       if JStr (sv_kid ae) \<noteq> jwk_kid entity_key \<or> JStr (sv_kid op) \<noteq> jwk_kid operational_key
       then parse_err ''ISSUANCE signature kid does not match recorded key''
       else
         rbind (as_str (field_of e ''gi'') ''gi'') (\<lambda>gi.
           Inr \<lparr>ev_domain = domain, ev_timestamp = timestamp, ev_signing_kid = sv_kid ae, ev_sig = sv_sig ae,
                ev_operational_countersig = sv_sig op,
                ev_body = IssuanceEvent \<lparr>is_governance_id = gi, is_entity_key = Some entity_key,
                  is_operational_key = Some operational_key\<rparr>\<rparr>)))))"

definition parse_key_rotation :: "jdict \<Rightarrow> sigdict \<Rightarrow> pydatetime \<Rightarrow> pystr \<Rightarrow> LogEvent res" where
  "parse_key_rotation e sigs timestamp domain =
     rbind (as_jwk (field_of e ''new_ku'') ''new_ku'') (\<lambda>new_key.
     rbind (sig_at sigs ''prev_op'') (\<lambda>prev_op.
     rbind (sig_at sigs ''new_op'') (\<lambda>new_op.
       if JStr (sv_kid new_op) \<noteq> jwk_kid new_key
       then parse_err ''KEY_ROTATION new_op kid does not match new_ku''
       else
         rbind (as_str (field_of e ''prev_thumb'') ''prev_thumb'') (\<lambda>prev_thumb.
         rbind (as_str (field_of e ''new_thumb'') ''new_thumb'') (\<lambda>new_thumb.
           Inr \<lparr>ev_domain = domain, ev_timestamp = timestamp, ev_signing_kid = sv_kid prev_op,
                ev_sig = sv_sig prev_op, ev_operational_countersig = [],
                ev_body = KeyRotationEvent \<lparr>kr_previous_kid = sv_kid prev_op,
                  kr_previous_thumbprint = prev_thumb, kr_previous_public_key = None,
                  kr_new_kid = kid_text new_key, kr_new_thumbprint = new_thumb,
                  kr_new_public_key = Some new_key, kr_new_operational_proof = sv_sig new_op\<rparr>\<rparr>)))))"

definition entity_event :: "C2spSignatureValue \<Rightarrow> pydatetime \<Rightarrow> pystr \<Rightarrow> event_body \<Rightarrow> LogEvent" where
  "entity_event ae timestamp domain body =
     \<lparr>ev_domain = domain, ev_timestamp = timestamp, ev_signing_kid = sv_kid ae, ev_sig = sv_sig ae,
      ev_operational_countersig = [], ev_body = body\<rparr>"

definition parse_migration :: "jdict \<Rightarrow> MigrationData res" where
  "parse_migration e =
     rbind (as_str (field_of e ''prev_lr'') ''prev_lr'') (\<lambda>prev_lr.
     rbind (as_str (field_of e ''new_lr'') ''new_lr'') (\<lambda>new_lr.
     rbind (as_str (field_of e ''prev_ref'') ''prev_ref'') (\<lambda>prev_ref.
       Inr \<lparr>mg_previous_log = prev_lr, mg_new_log = new_lr, mg_final_entry_ref = prev_ref\<rparr>)))"

definition parse_delegation :: "jdict \<Rightarrow> DelegationData res" where
  "parse_delegation e =
     rbind (as_str (field_of e ''delegatee'') ''delegatee'') (\<lambda>delegatee.
     rbind (as_str (field_of e ''scope'') ''scope'') (\<lambda>scope.
     rbind (as_safe_int (field_of e ''expiry'') ''expiry'') (\<lambda>expiry.
     rbind (date_from_seconds expiry) (\<lambda>d.
       Inr \<lparr>dg_delegatee = delegatee, dg_scope = scope, dg_expiry = d\<rparr>))))"

definition parse_entity_body :: "jdict \<Rightarrow> pystr \<Rightarrow> event_body res" where
  "parse_entity_body e ty =
     (if ty = str ''REVOCATION''
      then rbind (as_revocation_reason (field_of e ''reason'')) (\<lambda>r. Inr (RevocationEvent r))
      else if ty = str ''RETIREMENT'' then Inr RetirementEvent
      else if ty = str ''MIGRATION'' then rbind (parse_migration e) (\<lambda>d. Inr (MigrationEvent d))
      else rbind (parse_delegation e) (\<lambda>d. Inr (DelegationEvent d)))"

definition c2sp_envelope_to_event :: "json \<Rightarrow> LogEvent res" where
  "c2sp_envelope_to_event value =
     (case value of
        JObj e \<Rightarrow>
          if \<not> is_one (field_of e ''v'') \<or> field_of e ''kind'' \<noteq> JStr (str ''dnsid.lifecycle'')
          then parse_err ''unsupported C2SP event envelope''
          else if has_field e ''method'' \<and> field_of e ''method'' \<noteq> JStr (str ''c2sp-tlog'')
          then parse_err ''C2SP event method mismatch''
          else
            rbind (as_str (field_of e ''type'') ''type'') (\<lambda>ty.
              if ty \<notin> set SUPPORTED then parse_err ''unsupported DNSid lifecycle event type''
              else
                rbind (as_safe_int (field_of e ''ts'') ''ts'') (\<lambda>ts.
                rbind (date_from_seconds ts) (\<lambda>timestamp.
                rbind (as_str (field_of e ''fqdn'') ''fqdn'') (\<lambda>domain.
                rbind (parse_c2sp_signatures (field_of e ''sigs'') (JStr ty) True) (\<lambda>sigs.
                  if ty = str ''ISSUANCE'' then parse_issuance e sigs timestamp domain
                  else if ty = str ''KEY_ROTATION'' then parse_key_rotation e sigs timestamp domain
                  else
                    rbind (sig_at sigs ''ae'') (\<lambda>ae.
                    rbind (parse_entity_body e ty) (\<lambda>body. Inr (entity_event ae timestamp domain body))))))))
      | _ \<Rightarrow> parse_err ''C2SP event entry must be an object'')"

record chain_fields =
  ch_seq :: "int option"
  ch_prev_event_id :: "pystr option"
  ch_prev_state_hash :: "pystr option"

definition chain_hash :: "jdict \<Rightarrow> string \<Rightarrow> pystr option res" where
  "chain_hash obj name =
     (if \<not> has_field obj name then Inr None
      else
        rbind (as_str (field_of obj name) name) (\<lambda>value.
        rbind (b64url_decode_strict value) (\<lambda>decoded.
          if length decoded \<noteq> 32 \<or> b64url_encode decoded False \<noteq> value
          then parse_err (name @ '' must be a canonical 32-byte hash'') else Inr (Some value))))"

definition parse_chain_fields :: "json \<Rightarrow> chain_fields res" where
  "parse_chain_fields value =
     (case value of
        JObj obj \<Rightarrow>
          rbind (if has_field obj ''seq''
                 then rbind (as_safe_int (field_of obj ''seq'') ''seq'') (\<lambda>n. Inr (Some n)) else Inr None)
            (\<lambda>seq.
             if has_field obj ''event_id'' \<or> has_field obj ''prev_index'' \<or> has_field obj ''prev_leaf_hash''
             then parse_err ''prohibited logical-chain field''
             else
               rbind (chain_hash obj ''prev_event_id'') (\<lambda>prev_event_id.
               rbind (chain_hash obj ''prev_state_hash'') (\<lambda>prev_state_hash.
                 Inr \<lparr>ch_seq = seq, ch_prev_event_id = prev_event_id, ch_prev_state_hash = prev_state_hash\<rparr>)))
      | _ \<Rightarrow> parse_err ''C2SP event entry must be an object'')"

text \<open>\<^verbatim>\<open>_assert_public_chain_shape\<close> of \<^verbatim>\<open>prepared.py\<close>\<close>

definition assert_public_chain_shape :: "jdict \<Rightarrow> unit res" where
  "assert_public_chain_shape envelope =
     (case field_of envelope ''seq'' of
        JInt seq \<Rightarrow>
          if seq < 0 then parse_err ''public C2SP event has invalid seq''
          else
            rbind (parse_chain_fields (JObj envelope)) (\<lambda>_.
              if seq = 0 then
                (if has_field envelope ''prev_event_id'' \<or> has_field envelope ''prev_state_hash''
                 then parse_err ''public seq=0 event must not contain previous-chain fields''
                 else Inr ())
              else
                iterR (\<lambda>name. (case field_of envelope name of
                                JStr s \<Rightarrow> guard (s \<noteq> []) (C2spTlogParseError (''public C2SP event missing '' @ name))
                              | _ \<Rightarrow> parse_err (''public C2SP event missing '' @ name)))
                  [''prev_event_id'', ''prev_state_hash''])
      | _ \<Rightarrow> parse_err ''public C2SP event has invalid seq'')"

text \<open>The common start of the entry readers: size, strict parse, canonical form.\<close>

definition read_entry :: "platform \<Rightarrow> bytes \<Rightarrow> json res" where
  "read_entry pf data =
     rbind (assert_entry_size data) (\<lambda>_.
     rbind (parse_json_no_duplicate_members (pf_float_text pf) data) (\<lambda>obj.
     rbind (assert_canonical_json_bytes (pf_float_int pf) data obj) (\<lambda>_. Inr obj)))"

definition parse_c2sp_event_entry ::
  "platform \<Rightarrow> bytes \<Rightarrow> C2spEventContext \<Rightarrow> bool \<Rightarrow> LogEvent res" where
  "parse_c2sp_event_entry pf data context candidate =
     rbind (read_entry pf data) (\<lambda>obj.
     rbind (validate_public_fields pf obj context) (\<lambda>_.
     rbind (if candidate then Inr ()
            else (case obj of JObj e \<Rightarrow> assert_public_chain_shape e | _ \<Rightarrow> Inl (TypeError ''AttributeError'')))
       (\<lambda>_. c2sp_envelope_to_event obj)))"

definition signed_c2sp_entry_bytes :: "platform \<Rightarrow> bytes \<Rightarrow> bytes res" where
  "signed_c2sp_entry_bytes pf data =
     rbind (read_entry pf data) (\<lambda>obj.
       (case obj of
          JObj e \<Rightarrow> canon_bytes pf (JObj (dict_pop (str ''sigs'') e))
        | _ \<Rightarrow> parse_err ''C2SP event entry must be an object''))"

definition event_id_prefix :: bytes where
  "event_id_prefix = map word_of_nat (str ''dnsid-c2sp-event-v1'') @ [0]"

definition c2sp_event_id :: "platform \<Rightarrow> bytes \<Rightarrow> pystr res" where
  "c2sp_event_id pf data =
     rbind (signed_c2sp_entry_bytes pf data) (\<lambda>signed.
       Inr (b64url_encode (sha256 [event_id_prefix, signed]) False))"


section \<open>Sorting the members of an object\<close>

definition sort_members :: "jdict \<Rightarrow> jdict" where
  "sort_members ms = map (\<lambda>(k, v). (k, sort_json v)) (sort_key (\<lambda>(k, v). utf16_sort_key k) ms)"

lemma sort_json_JObj: "sort_json (JObj ms) = JObj (sort_members ms)"
  by (simp add: sort_members_def)

lemma map_of_sort_members:
  assumes "distinct (map fst ms)"
  shows "map_of (sort_members ms) k = map_option sort_json (map_of ms k)"
proof -
  let ?ms = "sort_key (\<lambda>(k, v :: json). utf16_sort_key k) ms"
  have "distinct (map fst ?ms) = distinct (map fst ms)" by (rule mset_eq_imp_distinct_iff) simp
  then have "map_of ?ms = map_of ms" using assms by (intro map_of_inject_set [THEN iffD2]) auto
  then show ?thesis by (simp add: sort_members_def map_of_map [of sort_json])
qed

lemma dget_sort_members:
  "distinct (map fst ms) \<Longrightarrow> dget (sort_members ms) k JNull = sort_json (dget ms k JNull)"
  by (simp add: dget_def map_of_sort_members split: option.splits)

lemma has_field_sort_members:
  "distinct (map fst ms) \<Longrightarrow> has_field (sort_members ms) k = has_field ms k"
  by (simp add: has_field_def map_of_sort_members)

lemma ex_sort_members: "(\<exists>(k, v) \<in> set (sort_members ms). P k) \<longleftrightarrow> (\<exists>(k, v) \<in> set ms. P k)"
proof -
  have "fst ` set (sort_members ms) = fst ` set ms" by (force simp: sort_members_def)
  moreover have "(\<exists>(k, v) \<in> S. P k) \<longleftrightarrow> (\<exists>k \<in> fst ` S. P k)" for S :: "(pystr \<times> json) set" by force
  ultimately show ?thesis by (simp only:)
qed

lemma sort_json_eq_iff [simp]:
  "sort_json v = JStr s \<longleftrightarrow> v = JStr s" "sort_json v = JInt n \<longleftrightarrow> v = JInt n"
  "sort_json v = JNull \<longleftrightarrow> v = JNull" "JStr s = sort_json v \<longleftrightarrow> JStr s = v"
  by (cases v; auto)+

lemma as_str_sort [simp]: "as_str (sort_json v) n = as_str v n"
  by (cases v) (simp_all add: as_str_def)

lemma as_safe_int_sort [simp]: "as_safe_int (sort_json v) n = as_safe_int v n"
  by (cases v) (simp_all add: as_safe_int_def)

lemma as_revocation_reason_sort [simp]: "as_revocation_reason (sort_json v) = as_revocation_reason v"
  by (cases v) (simp_all add: as_revocation_reason_def)

lemma is_one_sort [simp]: "is_one (sort_json v) = is_one v"
  by (cases v) (simp_all add: is_one_def)

lemma public_field_sort:
  "distinct (map fst ms) \<Longrightarrow> public_field (sort_members ms) k e = public_field ms k e"
  by (cases "dget ms k JNull") (simp_all add: public_field_def dget_sort_members)

lemma validate_public_fields_sort:
  assumes "distinct (map fst ms)"
  shows "validate_public_fields pf (JObj (sort_members ms)) ctx = validate_public_fields pf (JObj ms) ctx"
  by (simp add: validate_public_fields_def dget_sort_members [OF assms] public_field_sort [OF assms]
      cong: if_cong)

lemma parse_signature_value_sort:
  assumes "dup_free v"
  shows "parse_signature_value (sort_json v) n = parse_signature_value v n"
proof (cases v)
  case (JObj d)
  with assms have d: "distinct (map fst d)" by simp
  show ?thesis
    by (simp only: JObj sort_json_JObj parse_signature_value_def json.case dget_sort_members [OF d] as_str_sort
        ex_sort_members)
qed (simp_all add: parse_signature_value_def)

lemma parse_roles_sort:
  assumes "distinct (map fst d)" "\<And>k v. (k, v) \<in> set d \<Longrightarrow> dup_free v"
  shows "parse_roles (sort_members d) full ks = parse_roles d full ks"
proof (induction ks)
  case (Cons k ks)
  have "dup_free (dget d k JNull)"
    using assms(2) by (auto simp: dget_def split: option.splits dest: map_of_SomeD)
  then have p: "parse_signature_value (sort_json (dget d k JNull)) n = parse_signature_value (dget d k JNull) n" for n
    by (rule parse_signature_value_sort)
  show ?case
    using Cons p
    by (cases "dget d k JNull"; cases full) (simp_all add: dget_sort_members [OF assms(1)] sort_json_JObj del: sort_json.simps(2))
qed simp

lemma parse_c2sp_signatures_sort:
  assumes "dup_free v"
  shows "parse_c2sp_signatures (sort_json v) ty full = parse_c2sp_signatures v ty full"
proof (cases v)
  case (JObj d)
  with assms have d: "distinct (map fst d)" "\<And>k v. (k, v) \<in> set d \<Longrightarrow> dup_free v" by auto
  show ?thesis
    by (simp only: JObj sort_json_JObj parse_c2sp_signatures_def json.case ex_sort_members parse_roles_sort [OF d]
        json.distinct simp_thms)
qed (simp_all add: parse_c2sp_signatures_def)


section \<open>Reading back what was written\<close>

lemma canonical_encodable: "canonical_value fi v = Inr t \<Longrightarrow> encodable_json v"
proof (induction fi v arbitrary: t rule: canonical_value.induct)
  case (7 fi vs)
  then obtain ts where "list_all2 (\<lambda>v t. canonical_value fi v = Inr t) vs ts" by (auto simp: res_simps)
  then have "\<exists>t. canonical_value fi v = Inr t" if "v \<in> set vs" for v
    using that by (auto simp: list_all2_conv_all_nth in_set_conv_nth)
  then show ?case using 7(1) by auto
next
  case (8 fi ms)
  let ?ms = "sort_key (\<lambda>(k, v). utf16_sort_key k) ms"
  from 8(2) obtain ps where ps: "list_all2 (\<lambda>(k, v) p. rbind (assert_valid_unicode k) (\<lambda>_.
       rbind (canonical_value fi v) (\<lambda>t. Inr (quote_str k @ [58] @ t))) = Inr p) ?ms ps"
    and enc: "\<not> (\<exists>(k, v) \<in> set ms. \<not> encodable k)"
    by (auto simp: res_simps case_prod_unfold split: if_splits)
  have "encodable_json v" if kv: "(k, v) \<in> set ms" for k v
  proof -
    have "(k, v) \<in> set ?ms" using kv by simp
    then obtain i where "i < length ?ms" "?ms ! i = (k, v)" by (metis in_set_conv_nth)
    then have "\<exists>t. canonical_value fi v = Inr t" "encodable k"
      using list_all2_nthD [OF ps, of i] by (auto simp: res_simps assert_valid_unicode_def)
    then show ?thesis using 8(1) [OF enc] kv by (auto simp: assert_valid_unicode_def)
  qed
  then show ?case using enc by auto
qed (auto simp: assert_valid_unicode_def res_simps)

lemma canonical_bytes_ok:
  assumes "canonical_bytes fi v = Inr b"
  shows "encodable_json v" "json_depth v \<le> MAX_JSON_DEPTH"
  using assms canonical_encodable
  by (auto simp: canonical_bytes_def canonical_json_def res_simps split: if_splits)

text \<open>The bytes written for an object are read back as the object with its members sorted.\<close>

lemma read_entry_written:
  assumes "canon_bytes pf (JObj ms) = Inr data" "plain (JObj ms)" "dup_free (JObj ms)"
    and "assert_entry_size data = Inr ()"
  shows "read_entry pf data = Inr (JObj (sort_members ms))"
proof -
  obtain b where "canon_bytes pf (JObj ms) = Inr b"
    "parse_json_no_duplicate_members (pf_float_text pf) b = Inr (sort_json (JObj ms))"
    "assert_canonical_json_bytes (pf_float_int pf) b (sort_json (JObj ms)) = Inr ()"
    using canonical_bytes_read_back [OF assms(2) canonical_bytes_ok(1) [OF assms(1)] assms(3)
        canonical_bytes_ok(2) [OF assms(1)]] by blast
  with assms(1,4) show ?thesis by (simp add: read_entry_def sort_json_JObj del: sort_json.simps(2))
qed

lemma dict_pop_distinct: "distinct (map fst ms) \<Longrightarrow> distinct (map fst (dict_pop k ms))"
  by (rule distinct_dict_pop)

lemma canonical_pop_sorted:
  assumes "distinct (map fst ms)"
  shows "canon_bytes pf (JObj (dict_pop k (sort_members ms))) = canon_bytes pf (JObj (dict_pop k ms))"
proof -
  let ?f = "\<lambda>(k, v). (k :: pystr, sort_json v)" and ?key = "\<lambda>(k, v :: json). utf16_sort_key k"
  have "dict_pop k (sort_members ms) = map ?f (dict_pop k (sort_key ?key ms))"
    by (simp add: sort_members_def dict_pop_def filter_map o_def case_prod_unfold)
  also have "dict_pop k (sort_key ?key ms) = sort_key ?key (dict_pop k ms)"
    by (simp add: dict_pop_def filter_sort)
  finally have "JObj (dict_pop k (sort_members ms)) = sort_json (JObj (dict_pop k ms))" by simp
  then show ?thesis
    by (simp add: canonical_bytes_def canonical_json_def canonical_sort_json json_depth_sort
        del: sort_json.simps(2) json_depth.simps canonical_value.simps)
qed


text \<open>Times of whole seconds in the range of \<^verbatim>\<open>datetime\<close> are written and read back exactly.\<close>

definition whole_utc :: "pydatetime \<Rightarrow> bool" where
  "whole_utc ts \<longleftrightarrow> dt_aware ts \<and> 0 \<le> dt_us ts \<and> dt_us ts mod 1000000 = 0
     \<and> dt_us ts div 1000000 \<le> MAX_DATE_SECONDS"

lemma float_div_exact:
  assumes "0 < b" "0 \<le> q"
  obtains j where "float_div (q * b) b = (q * 2 ^ j, j)"
proof -
  have "round_div (q * b * 2 ^ j) b = q * 2 ^ j" for j
    using assms(1) by (simp add: round_div_def mult.assoc mult.commute [of b])
  moreover have "\<not> q * b < 0" using assms by (simp add: mult_less_0_iff)
  ultimately show thesis using that unfolding float_div_def Let_def by (simp only: if_False)
qed

lemma timestamp_millis_whole:
  assumes "whole_utc ts"
  obtains i where "timestamp_millis ts = (dt_us ts div 1000000 * 1000 * 2 ^ i, i)"
proof -
  let ?s = "dt_us ts div 1000000"
  have us: "dt_us ts = ?s * 1000000" and s: "0 \<le> ?s" using assms by (auto simp: whole_utc_def)
  obtain j where j: "float_div (?s * 1000000) 1000000 = (?s * 2 ^ j, j)"
    by (rule float_div_exact [of 1000000 ?s]) (use s in auto)
  obtain i where i: "float_div (?s * 1000 * 2 ^ j) (2 ^ j) = (?s * 1000 * 2 ^ i, i)"
    by (rule float_div_exact [of "2 ^ j" "?s * 1000"]) (use s in auto)
  have "?s * 2 ^ j * 1000 = ?s * 1000 * 2 ^ j" by simp
  then have "timestamp_millis ts = (?s * 1000 * 2 ^ i, i)"
    unfolding timestamp_millis_def by (subst us) (simp only: j i Let_def prod.case)
  then show thesis using that by blast
qed

lemma epoch_seconds_whole:
  assumes "whole_utc ts"
  shows "epoch_seconds ts = Inr (dt_us ts div 1000000)"
proof -
  obtain i where "timestamp_millis ts = (dt_us ts div 1000000 * 1000 * 2 ^ i, i)"
    using timestamp_millis_whole [OF assms] .
  moreover have "\<not> dt_us ts div 1000000 * 1000 * 2 ^ i < 0"
    using assms by (simp add: whole_utc_def mult_less_0_iff not_less pos_imp_zdiv_nonneg_iff)
  ultimately show ?thesis using assms by (simp add: epoch_seconds_def whole_utc_def)
qed

lemma whole_utc_read:
  assumes "whole_utc ts"
  shows "as_safe_int (JInt (dt_us ts div 1000000)) n = Inr (dt_us ts div 1000000)"
    "date_from_seconds (dt_us ts div 1000000) = Inr ts" "\<bar>dt_us ts div 1000000\<bar> \<le> 9007199254740992"
  using assms by (auto simp: whole_utc_def as_safe_int_def date_from_seconds_def utc_seconds_def
      MAX_SAFE_INT_def MAX_DATE_SECONDS_def)

text \<open>
  The events that an envelope can carry without loss: times as above, keys as they come from a JSON
  object with sorted members, required texts not empty, key identifiers consistent.
\<close>

definition json_key :: "JWK \<Rightarrow> bool" where
  "json_key k \<longleftrightarrow> k = jwk_from_dict (jwk_raw k) \<and> sort_members (jwk_raw k) = jwk_raw k
     \<and> plain (JObj (jwk_raw k)) \<and> dup_free (JObj (jwk_raw k)) \<and> is_ok (as_jwk (JObj (jwk_raw k)) [])"

definition written_body :: "LogEvent \<Rightarrow> bool" where
  "written_body ev =
     (case ev_body ev of
        IssuanceEvent d \<Rightarrow>
          is_governance_id d \<noteq> [] \<and>
          (case (is_entity_key d, is_operational_key d) of
             (Some e, Some k) \<Rightarrow> json_key e \<and> json_key k \<and> JStr (ev_signing_kid ev) = jwk_kid e
           | _ \<Rightarrow> False)
      | KeyRotationEvent d \<Rightarrow>
          ev_operational_countersig ev = [] \<and> ev_signing_kid ev = kr_previous_kid d
          \<and> kr_previous_thumbprint d \<noteq> [] \<and> kr_new_thumbprint d \<noteq> [] \<and> kr_previous_public_key d = None
          \<and> (case kr_new_public_key d of Some k \<Rightarrow> json_key k \<and> JStr (kr_new_kid d) = jwk_kid k | None \<Rightarrow> False)
      | RevocationEvent reason \<Rightarrow> ev_operational_countersig ev = [] \<and> reason \<in> set RevocationReason
      | RetirementEvent \<Rightarrow> ev_operational_countersig ev = []
      | MigrationEvent d \<Rightarrow>
          ev_operational_countersig ev = [] \<and> mg_previous_log d \<noteq> [] \<and> mg_new_log d \<noteq> []
          \<and> mg_final_entry_ref d \<noteq> []
      | DelegationEvent d \<Rightarrow>
          ev_operational_countersig ev = [] \<and> dg_delegatee d \<noteq> [] \<and> dg_scope d \<noteq> []
          \<and> whole_utc (dg_expiry d))"

definition written_event :: "LogEvent \<Rightarrow> bool" where
  "written_event ev \<longleftrightarrow> whole_utc (ev_timestamp ev) \<and> written_body ev"

lemma as_str_Inr: "as_str v n = Inr s \<longleftrightarrow> v = JStr s \<and> s \<noteq> []"
  by (cases v) (auto simp: as_str_def)

lemma json_key_as_jwk: "json_key k \<Longrightarrow> as_jwk (JObj (jwk_raw k)) n = Inr k"
  by (auto simp: json_key_def as_jwk_def is_ok_iff res_simps as_str_Inr)

lemma context_field_names:
  "fst ` set (context_fields ctx) \<subseteq>
     str ` {''method'', ''log_origin'', ''stream_id'', ''lr'', ''seq'', ''prev_event_id'', ''prev_state_hash''}"
  by (auto simp: context_fields_def set_member_def split: option.splits if_splits)

lemma distinct_context_fields: "distinct (map fst (context_fields ctx))"
proof -
  have m: "subseq (map fst (set_member k v)) [str k]" for k v
    by (auto simp: set_member_def split: option.splits)
  let ?a = "[str ''method'']" and ?b = "[str ''log_origin''] @ [str ''stream_id''] @ [str ''lr'']"
  have "subseq (map fst (set_member ''log_origin'' (cx_log_origin ctx) @ set_member ''stream_id'' (cx_stream_id ctx)
      @ set_member ''lr'' (cx_lr ctx))) ?b"
    unfolding map_append by (intro list_emb_append_mono m)
  then have "subseq (map fst (if P then (str ''method'', JStr (str ''c2sp-tlog'')) #
      set_member ''log_origin'' (cx_log_origin ctx) @ set_member ''stream_id'' (cx_stream_id ctx)
      @ set_member ''lr'' (cx_lr ctx) else [])) (?a @ ?b)" for P
    by simp
  moreover have "subseq (map fst (case cx_seq ctx of None \<Rightarrow> [] | Some n \<Rightarrow> [(str ''seq'', JInt n)])) [str ''seq'']"
    "subseq (map fst (case cx_prev_event_id ctx of None \<Rightarrow> [] | Some s \<Rightarrow> [(str ''prev_event_id'', JStr s)]))
      [str ''prev_event_id'']"
    by (auto split: option.splits)
  ultimately have "subseq (map fst (context_fields ctx))
      ((?a @ ?b) @ [str ''seq''] @ [str ''prev_event_id''] @ [str ''prev_state_hash''])"
    unfolding context_fields_def map_append by (intro list_emb_append_mono m)
  then have "map fst (context_fields ctx)
      \<in> set (subseqs ((?a @ ?b) @ [str ''seq''] @ [str ''prev_event_id''] @ [str ''prev_state_hash'']))"
    unfolding set_subseqs_eq by simp
  then show ?thesis by (rule subseqs_distinctD) simp
qed

lemma parse_signature_value_written:
  "parse_signature_value (JObj [(str ''kid'', kid), (str ''sig'', JStr s)]) n = Inr v \<Longrightarrow>
   kid = JStr (sv_kid v) \<and> s = sv_sig v"
  by (auto simp: parse_signature_value_def dget_def res_simps as_str_Inr split: if_splits sum.splits)


lemma body_field_names:
  assumes "body_fields b = Inr body"
  shows "distinct (map fst body)"
    and "fst ` set body \<subseteq> str ` {''gi'', ''ek'', ''ku'', ''prev_thumb'', ''new_ku'', ''new_thumb'', ''reason'',
      ''prev_lr'', ''new_lr'', ''prev_ref'', ''delegatee'', ''scope'', ''expiry''}"
  using assms by (auto simp: body_fields_def res_simps split: event_body.splits option.splits prod.splits)

lemma distinct_block:
  assumes "distinct (map fst a)" "distinct (map fst b)" "fst ` set a \<subseteq> A" "fst ` set b \<subseteq> B" "A \<inter> B = {}"
  shows "distinct (map fst (a @ b))" "fst ` set (a @ b) \<subseteq> A \<union> B"
proof -
  have "set (map fst a) \<inter> set (map fst b) = {}" using assms(3,4,5) unfolding set_map by blast
  with assms(1,2) show "distinct (map fst (a @ b))" by (simp only: map_append distinct_append)
  show "fst ` set (a @ b) \<subseteq> A \<union> B" using assms(3,4) unfolding set_append image_Un by blast
qed

lemma distinct_envelope:
  assumes "body_fields b = Inr body" "sg = [] \<or> (\<exists>v. sg = [(str ''sigs'', v)])"
  shows "distinct (map fst (base_fields ev ts @ body @ context_fields ctx @ sg))"
proof -
  let ?B = "str ` {''gi'', ''ek'', ''ku'', ''prev_thumb'', ''new_ku'', ''new_thumb'', ''reason'', ''prev_lr'', ''new_lr'',
      ''prev_ref'', ''delegatee'', ''scope'', ''expiry''}"
  let ?C = "str ` {''method'', ''log_origin'', ''stream_id'', ''lr'', ''seq'', ''prev_event_id'', ''prev_state_hash''}"
  let ?A = "str ` {''v'', ''kind'', ''type'', ''fqdn'', ''ts''}" and ?D = "str ` {''sigs''}"
  have sub: "fst ` set (base_fields ev ts) \<subseteq> ?A" "fst ` set body \<subseteq> ?B" "fst ` set (context_fields ctx) \<subseteq> ?C"
    "fst ` set sg \<subseteq> ?D"
    using body_field_names(2) [OF assms(1)] context_field_names assms(2) by (auto simp: base_fields_def)
  have dis: "?A \<inter> (?B \<union> (?C \<union> ?D)) = {}" "?B \<inter> (?C \<union> ?D) = {}" "?C \<inter> ?D = {}" by simp_all
  have d: "distinct (map fst (base_fields ev ts))" "distinct (map fst sg)"
    using assms(2) by (auto simp: base_fields_def)
  note cd = distinct_block [OF distinct_context_fields d(2) sub(3,4) dis(3)]
  note bcd = distinct_block [OF body_field_names(1) [OF assms(1)] cd(1) sub(2) cd(2) dis(2)]
  show ?thesis by (rule distinct_block(1) [OF d(1) bcd(1) sub(1) bcd(2) dis(1)])
qed

lemma dget_append:
  "dget (a @ b) k JNull = (case map_of a (str k) of Some v \<Rightarrow> v | None \<Rightarrow> dget b k JNull)"
  by (simp add: dget_def map_add_def split: option.splits)

lemma to_event_sort:
  assumes "distinct (map fst env)" "dup_free (field_of env ''sigs'')"
    and "\<And>n. n \<in> {''ek'', ''ku'', ''new_ku''} \<Longrightarrow> sort_json (field_of env n) = field_of env n"
  shows "c2sp_envelope_to_event (JObj (sort_members env)) = c2sp_envelope_to_event (JObj env)"
  by (simp add: c2sp_envelope_to_event_def parse_issuance_def parse_key_rotation_def parse_migration_def
      parse_delegation_def parse_entity_body_def dget_sort_members [OF assms(1)] has_field_sort_members [OF assms(1)]
      parse_c2sp_signatures_sort [OF assms(2)] assms(3) cong: if_cong)


lemma parse_roles_written:
  assumes "parse_c2sp_signatures (JObj (sig_member r1 k1 s1 @ sig_member r2 k2 s2)) ty True = Inr sigs"
    and "required_c2sp_signature_names ty = Inr [r1, r2]" "r1 \<noteq> r2"
  obtains x1 x2 where "k1 = JStr x1" "k2 = JStr x2" "s1 \<noteq> []" "s2 \<noteq> []"
    "sigs = [(r1, \<lparr>sv_kid = x1, sv_sig = s1\<rparr>), (r2, \<lparr>sv_kid = x2, sv_sig = s2\<rparr>)]"
proof -
  let ?d = "sig_member r1 k1 s1 @ sig_member r2 k2 s2"
  have r: "str r1 \<noteq> str r2" using assms(3) by (simp add: inj_map_eq_map inj_of_char)
  have roles: "parse_roles ?d True [r1, r2] = Inr sigs"
    using assms(1,2) by (auto simp: parse_c2sp_signatures_def split: if_splits)
  have f1: "dget ?d r1 JNull = (if s1 = [] then JNull else JObj [(str ''kid'', k1), (str ''sig'', JStr s1)])"
    and f2: "dget ?d r2 JNull = (if s2 = [] then JNull else JObj [(str ''kid'', k2), (str ''sig'', JStr s2)])"
    using r by (auto simp: dget_def sig_member_def)
  from roles have "s1 \<noteq> []" "s2 \<noteq> []" by (auto simp: f1 f2 res_simps split: if_splits)
  with roles obtain v1 v2 where
    "parse_signature_value (JObj [(str ''kid'', k1), (str ''sig'', JStr s1)]) (''sigs.'' @ r1) = Inr v1"
    "parse_signature_value (JObj [(str ''kid'', k2), (str ''sig'', JStr s2)]) (''sigs.'' @ r2) = Inr v2"
    "sigs = [(r1, v1), (r2, v2)]"
    by (auto simp: f1 f2 res_simps)
  with \<open>s1 \<noteq> []\<close> \<open>s2 \<noteq> []\<close> that show thesis
    by (metis C2spSignatureValue.surjective old.unit.exhaust parse_signature_value_written)
qed

lemma parse_role_written:
  assumes "parse_c2sp_signatures (JObj (sig_member r k s)) ty True = Inr sigs"
    and "required_c2sp_signature_names ty = Inr [r]"
  obtains x where "k = JStr x" "s \<noteq> []" "sigs = [(r, \<lparr>sv_kid = x, sv_sig = s\<rparr>)]"
proof -
  have roles: "parse_roles (sig_member r k s) True [r] = Inr sigs"
    using assms by (auto simp: parse_c2sp_signatures_def split: if_splits)
  have f: "dget (sig_member r k s) r JNull = (if s = [] then JNull else JObj [(str ''kid'', k), (str ''sig'', JStr s)])"
    by (simp add: dget_def sig_member_def)
  from roles have "s \<noteq> []" by (auto simp: f res_simps split: if_splits)
  with roles obtain v where
    "parse_signature_value (JObj [(str ''kid'', k), (str ''sig'', JStr s)]) (''sigs.'' @ r) = Inr v" "sigs = [(r, v)]"
    by (auto simp: f res_simps)
  with \<open>s \<noteq> []\<close> that show thesis
    by (metis C2spSignatureValue.surjective old.unit.exhaust parse_signature_value_written)
qed

lemma required_names [simp]:
  "required_c2sp_signature_names (JStr (str ''ISSUANCE'')) = Inr [''ae'', ''op'']"
  "required_c2sp_signature_names (JStr (str ''KEY_ROTATION'')) = Inr [''prev_op'', ''new_op'']"
  "t \<in> {REVOCATION, RETIREMENT, MIGRATION, DELEGATION} \<Longrightarrow>
   required_c2sp_signature_names (JStr (str (event_type_name t))) = Inr [''ae'']"
  by (auto simp: required_c2sp_signature_names_def SUPPORTED_def)


text \<open>What a written envelope consists of.\<close>

lemma envelope_parts:
  assumes "event_to_c2sp_envelope pf ev ctx True = Inr env"
  obtains ts body sigs where "epoch_seconds (ev_timestamp ev) = Inr ts" "body_fields (ev_body ev) = Inr body"
    "signatures_from_event ev = Inr sigs"
    "validate_public_fields pf (JObj (base_fields ev ts @ body @ context_fields ctx)) ctx = Inr ()"
    "event_to_c2sp_envelope pf ev ctx False = Inr (base_fields ev ts @ body @ context_fields ctx)"
    "env = base_fields ev ts @ body @ context_fields ctx @ (if sigs = [] then [] else [(str ''sigs'', JObj sigs)])"
  using assms by (auto simp: event_to_c2sp_envelope_def res_simps Let_def)

lemma body_plain:
  assumes "written_event ev" "body_fields (ev_body ev) = Inr body" "(k, v) \<in> set body"
  shows "plain v" "dup_free v"
proof -
  have "plain v \<and> dup_free v"
    using assms
    by (auto simp: written_event_def written_body_def body_fields_def res_simps require_issuance_keys_def json_key_def
        epoch_seconds_whole whole_utc_read(3) split: event_body.splits option.splits if_splits)
  then show "plain v" "dup_free v" by auto
qed

lemma context_plain: "(k, v) \<in> set (context_fields ctx) \<Longrightarrow> dup_free v \<and> (plain v \<or> (\<exists>n. cx_seq ctx = Some n \<and> v = JInt n))"
  by (auto simp: context_fields_def set_member_def split: option.splits if_splits)

lemma json_key_kid: "json_key k \<Longrightarrow> \<exists>s. jwk_kid k = JStr s \<and> s \<noteq> []"
  proof -
  assume "json_key k"
  then have k: "k = jwk_from_dict (jwk_raw k)" and "is_ok (as_jwk (JObj (jwk_raw k)) [])" by (auto simp: json_key_def)
  then obtain s where s: "field_of (jwk_raw k) ''kid'' = JStr s" "s \<noteq> []"
    by (auto simp: as_jwk_def is_ok_iff res_simps as_str_Inr)
  then have "dget (jwk_raw k) ''kid'' (JStr []) = JStr s" by (auto simp: dget_def split: option.splits)
  with s(2) show ?thesis by (subst k) (simp add: jwk_from_dict_def)
qed

lemma sig_member_plain:
  "(k, v) \<in> set (sig_member r (JStr kid) s) \<Longrightarrow> plain v \<and> dup_free v"
  by (auto simp: sig_member_def split: if_splits)

lemma sigs_plain:
  assumes "written_event ev" "signatures_from_event ev = Inr sigs" "(k, v) \<in> set sigs"
  shows "plain v \<and> dup_free v"
proof (cases "ev_body ev")
  case (IssuanceEvent d)
  then obtain e o' where k: "is_entity_key d = Some e" "is_operational_key d = Some o'" "json_key o'"
    "JStr (ev_signing_kid ev) = jwk_kid e"
    using assms(1) by (auto simp: written_event_def written_body_def split: option.splits)
  then obtain s where "jwk_kid o' = JStr s" using json_key_kid by blast
  with k IssuanceEvent assms(2,3) show ?thesis
    by (auto simp: signatures_from_event_def require_issuance_keys_def res_simps simp flip: k(4)
        split: if_splits dest!: sig_member_plain)
qed (use assms(2,3) in \<open>auto simp: signatures_from_event_def dest!: sig_member_plain\<close>)


lemma str_eq_iff: "(str a :: pystr) = str b \<longleftrightarrow> a = b"
  by (simp add: inj_map_eq_map inj_of_char)

lemma str_mem_iff: "(str a :: pystr) \<in> str ` A \<longleftrightarrow> a \<in> A"
  by (simp add: image_iff str_eq_iff)

lemma dget_sigs:
  assumes "env = obj @ [(str ''sigs'', v)]" "distinct (map fst env)"
  shows "dget env ''sigs'' JNull = v" and "dict_pop (str ''sigs'') env = obj"
    and "n \<noteq> ''sigs'' \<Longrightarrow> dget env n JNull = dget obj n JNull"
    and "n \<noteq> ''sigs'' \<Longrightarrow> has_field env n = has_field obj n"
proof -
  have "str ''sigs'' \<notin> fst ` set obj" using assms by auto
  then have *: "map_of obj (str ''sigs'') = None" "dict_pop (str ''sigs'') obj = obj"
    unfolding map_of_eq_None_iff by (auto intro: dict_pop_absent)
  show "dget env ''sigs'' JNull = v" unfolding assms(1) dget_append *(1) by (simp add: dget_def)
  show "dict_pop (str ''sigs'') env = obj"
    using *(2) unfolding assms(1) dict_pop_def filter_append by simp
  assume "n \<noteq> ''sigs''"
  then have "str n \<noteq> str ''sigs''" using inj_map_eq_map [OF inj_of_char] by blast
  then have "map_of [(str ''sigs'', v)] (str n) = None" by simp
  then have "map_of env (str n) = map_of obj (str n)" unfolding assms(1) map_of_append map_add_def
    by (simp split: option.splits)
  then show "dget env n JNull = dget obj n JNull" "has_field env n = has_field obj n"
    by (simp_all add: dget_def has_field_def)
qed

lemma validate_public_fields_sigs:
  assumes "env = obj @ [(str ''sigs'', v)]" "distinct (map fst env)"
  shows "validate_public_fields pf (JObj env) ctx = validate_public_fields pf (JObj obj) ctx"
  by (simp add: validate_public_fields_def public_field_def dget_sigs(3) [OF assms] cong: if_cong)

lemma body_lookup:
  assumes "obj = base_fields ev ts @ body @ context_fields ctx"
  shows "field_of obj ''v'' = JInt 1" "field_of obj ''kind'' = JStr (str ''dnsid.lifecycle'')"
    "field_of obj ''type'' = JStr (event_type ev)" "field_of obj ''fqdn'' = JStr (ev_domain ev)"
    "field_of obj ''ts'' = JInt ts"
    and "n \<notin> {''v'', ''kind'', ''type'', ''fqdn'', ''ts''} \<Longrightarrow> map_of body (str n) = Some v \<Longrightarrow> field_of obj n = v"
proof -
  show "field_of obj ''v'' = JInt 1" "field_of obj ''kind'' = JStr (str ''dnsid.lifecycle'')"
    "field_of obj ''type'' = JStr (event_type ev)" "field_of obj ''fqdn'' = JStr (ev_domain ev)"
    "field_of obj ''ts'' = JInt ts"
    unfolding assms dget_append by (simp_all add: base_fields_def)
  assume n: "n \<notin> {''v'', ''kind'', ''type'', ''fqdn'', ''ts''}" "map_of body (str n) = Some v"
  have "str m \<noteq> str n" if "m \<in> {''v'', ''kind'', ''type'', ''fqdn'', ''ts''}" for m
  proof
    assume "str m = str n"
    then have "m = n" by (simp only: str_eq_iff)
    with n(1) that show False by (simp only:)
  qed
  then have "map_of (base_fields ev ts) (str n) = None"
    unfolding map_of_eq_None_iff base_fields_def
    by (simp only: list.set image_insert image_empty fst_conv insert_iff empty_iff simp_thms) (metis insertCI)
  then show "field_of obj n = v" using n(2) unfolding assms dget_append by simp
qed


text \<open>An envelope written with a complete set of signatures is read as the event it was written from.\<close>

lemma parse_issuance_written:
  assumes w: "written_event ev" and body: "body_fields (ev_body ev) = Inr body"
    and sg: "signatures_from_event ev = Inr sigs"
    and look: "\<And>n v. map_of body (str n) = Some v \<Longrightarrow> field_of env n = v"
    and parsed: "parse_c2sp_signatures (JObj sigs) (JStr (event_type ev)) True = Inr parsed"
    and IssuanceEvent: "ev_body ev = IssuanceEvent d"
  shows "parse_issuance env parsed (ev_timestamp ev) (ev_domain ev) = Inr ev"
proof -
  from w IssuanceEvent obtain e k where k: "is_entity_key d = Some e" "is_operational_key d = Some k" "json_key e" "json_key k"
    "JStr (ev_signing_kid ev) = jwk_kid e" "is_governance_id d \<noteq> []"
    by (auto simp: written_event_def written_body_def split: option.splits)
  have ty: "event_type ev = str ''ISSUANCE''" by (simp add: event_type_def IssuanceEvent)
  have req: "require_issuance_keys d = Inr (e, k)"
    using k(1-4) json_key_kid [of e] json_key_kid [of k] by (auto simp: require_issuance_keys_def)
  have sigs: "sigs = sig_member ''ae'' (jwk_kid e) (ev_sig ev) @ sig_member ''op'' (jwk_kid k) (ev_operational_countersig ev)"
    using sg by (simp add: signatures_from_event_def IssuanceEvent req k(5) cong: if_cong)
  obtain x1 x2 where x: "jwk_kid e = JStr x1" "jwk_kid k = JStr x2"
    "parsed = [(''ae'', \<lparr>sv_kid = x1, sv_sig = ev_sig ev\<rparr>), (''op'', \<lparr>sv_kid = x2, sv_sig = ev_operational_countersig ev\<rparr>)]"
    by (rule parse_roles_written [OF parsed [unfolded sigs ty] required_names(1)]) auto
  have f: "field_of env ''gi'' = JStr (is_governance_id d)" "field_of env ''ek'' = JObj (jwk_raw e)"
    "field_of env ''ku'' = JObj (jwk_raw k)"
    using body by (auto simp: body_fields_def IssuanceEvent req intro!: look)
  have "ev = \<lparr>ev_domain = ev_domain ev, ev_timestamp = ev_timestamp ev, ev_signing_kid = x1, ev_sig = ev_sig ev,
      ev_operational_countersig = ev_operational_countersig ev, ev_body = IssuanceEvent \<lparr>is_governance_id =
      is_governance_id d, is_entity_key = Some e, is_operational_key = Some k\<rparr>\<rparr>"
    using k(1,2,5) x(1) IssuanceEvent by (cases ev; cases d) simp
  then show ?thesis
    using k(6) x by (simp add: parse_issuance_def f json_key_as_jwk [OF k(3)] json_key_as_jwk [OF k(4)] sig_at_def as_str_def)
qed

lemma parse_key_rotation_written:
  assumes w: "written_event ev" and body: "body_fields (ev_body ev) = Inr body"
    and sg: "signatures_from_event ev = Inr sigs"
    and look: "\<And>n v. map_of body (str n) = Some v \<Longrightarrow> field_of env n = v"
    and parsed: "parse_c2sp_signatures (JObj sigs) (JStr (event_type ev)) True = Inr parsed"
    and KeyRotationEvent: "ev_body ev = KeyRotationEvent d"
  shows "parse_key_rotation env parsed (ev_timestamp ev) (ev_domain ev) = Inr ev"
proof -
  from w KeyRotationEvent obtain k where k: "kr_new_public_key d = Some k" "json_key k" "JStr (kr_new_kid d) = jwk_kid k"
    and wr: "ev_operational_countersig ev = []" "ev_signing_kid ev = kr_previous_kid d"
      "kr_previous_thumbprint d \<noteq> []" "kr_new_thumbprint d \<noteq> []" "kr_previous_public_key d = None"
    by (auto simp: written_event_def written_body_def split: option.splits)
  have ty: "event_type ev = str ''KEY_ROTATION''" by (simp add: event_type_def KeyRotationEvent)
  have sigs: "sigs = sig_member ''prev_op'' (JStr (kr_previous_kid d)) (ev_sig ev)
      @ sig_member ''new_op'' (JStr (kr_new_kid d)) (kr_new_operational_proof d)"
    using sg by (simp add: signatures_from_event_def KeyRotationEvent wr(2) cong: if_cong)
  have parsed_eq: "parsed = [(''prev_op'', \<lparr>sv_kid = kr_previous_kid d, sv_sig = ev_sig ev\<rparr>),
      (''new_op'', \<lparr>sv_kid = kr_new_kid d, sv_sig = kr_new_operational_proof d\<rparr>)]"
    by (rule parse_roles_written [OF parsed [unfolded sigs ty] required_names(2)]) auto
  have f: "field_of env ''prev_thumb'' = JStr (kr_previous_thumbprint d)" "field_of env ''new_ku'' = JObj (jwk_raw k)"
    "field_of env ''new_thumb'' = JStr (kr_new_thumbprint d)"
    using body by (auto simp: body_fields_def KeyRotationEvent k(1) intro!: look)
  have kid: "kid_text k = kr_new_kid d" by (simp add: kid_text_def k(3) [symmetric])
  have "ev = \<lparr>ev_domain = ev_domain ev, ev_timestamp = ev_timestamp ev, ev_signing_kid = kr_previous_kid d,
      ev_sig = ev_sig ev, ev_operational_countersig = [], ev_body = KeyRotationEvent \<lparr>kr_previous_kid =
      kr_previous_kid d, kr_previous_thumbprint = kr_previous_thumbprint d, kr_previous_public_key = None,
      kr_new_kid = kr_new_kid d, kr_new_thumbprint = kr_new_thumbprint d, kr_new_public_key = Some k,
      kr_new_operational_proof = kr_new_operational_proof d\<rparr>\<rparr>"
    using k(1) wr KeyRotationEvent by (cases ev; cases d) simp
  then show ?thesis
    using wr(3,4) k(3)
    by (simp add: parse_key_rotation_def f json_key_as_jwk [OF k(2)] parsed_eq sig_at_def as_str_def kid)
qed

lemma entity_event_written:
  assumes sg: "signatures_from_event ev = Inr sigs"
    and parsed: "parse_c2sp_signatures (JObj sigs) (JStr (event_type ev)) True = Inr parsed"
    and that: "body_type (ev_body ev) = t" "t \<in> {REVOCATION, RETIREMENT, MIGRATION, DELEGATION}"
  shows "sig_at parsed ''ae'' = Inr \<lparr>sv_kid = ev_signing_kid ev, sv_sig = ev_sig ev\<rparr>
      \<and> (ev_operational_countersig ev = [] \<longrightarrow>
         entity_event \<lparr>sv_kid = ev_signing_kid ev, sv_sig = ev_sig ev\<rparr> (ev_timestamp ev) (ev_domain ev) (ev_body ev) = ev)"
proof -
  have ty: "event_type ev = str (event_type_name t)" using that(1) by (simp add: event_type_def)
  have sigs: "sigs = sig_member ''ae'' (JStr (ev_signing_kid ev)) (ev_sig ev)"
    using sg that by (auto simp: signatures_from_event_def split: event_body.splits)
  have "parsed = [(''ae'', \<lparr>sv_kid = ev_signing_kid ev, sv_sig = ev_sig ev\<rparr>)]"
    by (rule parse_role_written [OF parsed [unfolded sigs ty] required_names(3) [OF that(2)]]) simp
  then show ?thesis by (simp add: sig_at_def entity_event_def)
qed

lemma parse_entity_body_written:
  assumes "written_event ev" and body: "body_fields (ev_body ev) = Inr body"
    and look: "\<And>n v. map_of body (str n) = Some v \<Longrightarrow> field_of env n = v"
    and "body_type (ev_body ev) \<in> {REVOCATION, RETIREMENT, MIGRATION, DELEGATION}"
  shows "parse_entity_body env (event_type ev) = Inr (ev_body ev)" "ev_operational_countersig ev = []"
proof -
  show "ev_operational_countersig ev = []"
    using assms(1,4) by (auto simp: written_event_def written_body_def split: event_body.splits)
  show "parse_entity_body env (event_type ev) = Inr (ev_body ev)"
  proof (cases "ev_body ev")
    case (RevocationEvent r)
    then have "field_of env ''reason'' = JStr r" "r \<in> set RevocationReason"
      using assms(1) body by (auto simp: body_fields_def written_event_def written_body_def intro!: look)
    then show ?thesis by (simp add: parse_entity_body_def RevocationEvent event_type_def as_revocation_reason_def)
  next
    case RetirementEvent
    then show ?thesis by (simp add: parse_entity_body_def event_type_def)
  next
    case (MigrationEvent d)
    then have f: "field_of env ''prev_lr'' = JStr (mg_previous_log d)" "field_of env ''new_lr'' = JStr (mg_new_log d)"
      "field_of env ''prev_ref'' = JStr (mg_final_entry_ref d)"
      using body by (auto simp: body_fields_def intro!: look)
    have "parse_migration env = Inr d"
      using assms(1) MigrationEvent by (simp add: parse_migration_def f as_str_def written_event_def written_body_def)
    then show ?thesis by (simp add: parse_entity_body_def MigrationEvent event_type_def)
  next
    case (DelegationEvent d)
    then have w: "dg_delegatee d \<noteq> []" "dg_scope d \<noteq> []" "whole_utc (dg_expiry d)"
      using assms(1) by (auto simp: written_event_def written_body_def)
    have f: "field_of env ''delegatee'' = JStr (dg_delegatee d)" "field_of env ''scope'' = JStr (dg_scope d)"
      "field_of env ''expiry'' = JInt (dt_us (dg_expiry d) div 1000000)"
      using body by (auto simp: body_fields_def DelegationEvent epoch_seconds_whole [OF w(3)] intro!: look)
    have "parse_delegation env = Inr d"
      using w by (simp add: parse_delegation_def f as_str_def whole_utc_read(1,2) [OF w(3)])
    then show ?thesis by (simp add: parse_entity_body_def DelegationEvent event_type_def)
  qed (use assms(4) in auto)
qed

lemma to_event_written:
  assumes "written_event ev" "body_fields (ev_body ev) = Inr body" "signatures_from_event ev = Inr sigs"
    and "epoch_seconds (ev_timestamp ev) = Inr ts" "ev_domain ev \<noteq> []"
    and obj: "obj = base_fields ev ts @ body @ context_fields ctx"
    and meth: "field_of obj ''method'' = JStr (str ''c2sp-tlog'')"
    and env: "env = obj @ [(str ''sigs'', JObj sigs)]" "distinct (map fst env)"
    and parsed: "parse_c2sp_signatures (JObj sigs) (JStr (event_type ev)) True = Inr parsed"
  shows "c2sp_envelope_to_event (JObj env) = Inr ev"
proof -
  note fld = dget_sigs(3) [OF env] and base = body_lookup(1-5) [OF obj]
  have time: "whole_utc (ev_timestamp ev)" "ts = dt_us (ev_timestamp ev) div 1000000"
    using assms(1,4) by (auto simp: written_event_def epoch_seconds_whole)
  have sup: "event_type ev \<in> set SUPPORTED" "event_type ev \<noteq> []"
    by (cases "ev_body ev"; simp add: event_type_def SUPPORTED_def)+
  have look: "field_of env n = v" if "map_of body (str n) = Some v" for n v
  proof -
    have "str n \<in> fst ` set body" using that by (metis domI dom_map_of_conv_image_fst)
    then have n: "n \<in> {''gi'', ''ek'', ''ku'', ''prev_thumb'', ''new_ku'', ''new_thumb'', ''reason'', ''prev_lr'',
        ''new_lr'', ''prev_ref'', ''delegatee'', ''scope'', ''expiry''}"
      using body_field_names(2) [OF assms(2)] by (simp only: str_mem_iff [symmetric] subset_iff)
    then have "n \<noteq> ''sigs''" "n \<notin> {''v'', ''kind'', ''type'', ''fqdn'', ''ts''}" by auto
    with that show ?thesis using fld body_lookup(6) [OF obj] by metis
  qed
  have start: "c2sp_envelope_to_event (JObj env) =
     (if event_type ev = str ''ISSUANCE'' then parse_issuance env parsed (ev_timestamp ev) (ev_domain ev)
      else if event_type ev = str ''KEY_ROTATION'' then parse_key_rotation env parsed (ev_timestamp ev) (ev_domain ev)
      else
        rbind (sig_at parsed ''ae'') (\<lambda>ae. rbind (parse_entity_body env (event_type ev))
          (\<lambda>body. Inr (entity_event ae (ev_timestamp ev) (ev_domain ev) body))))"
    using sup assms(5) meth parsed whole_utc_read(1,2) [OF time(1)]
    by (simp add: c2sp_envelope_to_event_def base is_one_def as_str_def fld dget_sigs(1) [OF env]
        time(2))
  show ?thesis
  proof (cases "body_type (ev_body ev) \<in> {REVOCATION, RETIREMENT, MIGRATION, DELEGATION}")
    case True
    then have "event_type ev \<noteq> str ''ISSUANCE''" "event_type ev \<noteq> str ''KEY_ROTATION''"
      by (auto simp: event_type_def)
    then show ?thesis
      using parse_entity_body_written [OF assms(1,2) look True] entity_event_written [OF assms(3) parsed refl True]
      unfolding start by simp
  next
    case False
    then consider d where "ev_body ev = IssuanceEvent d" | d where "ev_body ev = KeyRotationEvent d"
      by (cases "ev_body ev") auto
    then show ?thesis
      using parse_issuance_written [OF assms(1,2,3) look parsed]
        parse_key_rotation_written [OF assms(1,2,3) look parsed] unfolding start
      by cases (simp_all add: event_type_def)
  qed
qed


section \<open>Properties\<close>

lemma validate_public_fields_ok:
  assumes "validate_public_fields pf (JObj obj) ctx = Inr ()"
  obtains name lr reference where "field_of obj ''fqdn'' = JStr name" "name \<noteq> []"
    "normalize_fqdn (pf_idna pf) name True = Inr name" "field_of obj ''lr'' = JStr lr"
    "parse_c2sp_tlog_lr (pf_lower pf) (pf_netloc_ok pf) lr = Inr reference"
    "lr_entry_index reference = None" "lr_lr reference = lr"
    "cx_scope ctx \<noteq> None \<longrightarrow> cx_scope ctx = Some (lr_scope reference)"
    "field_of obj ''log_origin'' = JStr (lr_origin reference)"
    "field_of obj ''stream_id'' = JStr (lr_stream_id reference)" "lr_stream_id reference \<noteq> name"
    "field_of obj ''method'' = JStr (str ''c2sp-tlog'')"
    "cx_log_origin ctx \<noteq> None \<longrightarrow> cx_log_origin ctx = Some (lr_origin reference)"
    "cx_stream_id ctx \<noteq> None \<longrightarrow> cx_stream_id ctx = Some (lr_stream_id reference)"
    "cx_lr ctx \<noteq> None \<longrightarrow> cx_lr ctx = Some lr"
proof -
  have pub: "public_field obj k e = Inr () \<Longrightarrow> \<exists>v. field_of obj k = JStr v \<and> v \<noteq> [] \<and> (e \<noteq> None \<longrightarrow> e = Some v)" for k e
    by (auto simp: public_field_def split: json.splits if_splits)
  from assms obtain name lr reference where n: "as_str (field_of obj ''fqdn'') ''fqdn'' = Inr name"
    "normalize_fqdn (pf_idna pf) name True = Inr name" "field_of obj ''stream_id'' \<noteq> JStr name"
    "as_str (field_of obj ''lr'') ''lr'' = Inr lr"
    "parse_c2sp_tlog_lr (pf_lower pf) (pf_netloc_ok pf) lr = Inr reference"
    "lr_entry_index reference = None" "lr_lr reference = lr"
    "cx_scope ctx \<noteq> None \<longrightarrow> cx_scope ctx = Some (lr_scope reference)"
    "JStr (lr_origin reference) = field_of obj ''log_origin''"
    "JStr (lr_stream_id reference) = field_of obj ''stream_id''"
    "public_field obj ''method'' (Some (str ''c2sp-tlog'')) = Inr ()"
    "public_field obj ''log_origin'' (cx_log_origin ctx) = Inr ()"
    "public_field obj ''stream_id'' (cx_stream_id ctx) = Inr ()" "public_field obj ''lr'' (cx_lr ctx) = Inr ()"
    by (auto simp: validate_public_fields_def res_simps split: if_splits)
  show thesis
    by (rule that [of name lr reference])
       (use n(1-10) pub [OF n(11)] pub [OF n(12)] pub [OF n(13)] pub [OF n(14)] in \<open>auto simp: as_str_Inr\<close>)
qed

lemma envelope_sorted:
  assumes "written_event ev" "body_fields (ev_body ev) = Inr body"
  shows "sort_json (field_of (base_fields ev ts @ body @ context_fields ctx) n)
    = field_of (base_fields ev ts @ body @ context_fields ctx) n"
proof -
  have "sort_json v = v" if "(k, v) \<in> set body" for k v
    using assms that
    by (auto simp: written_event_def written_body_def body_fields_def res_simps require_issuance_keys_def json_key_def
        sort_json_JObj simp del: sort_json.simps(2) split: event_body.splits option.splits if_splits)
  moreover have "sort_json v = v" if "(k, v) \<in> set (base_fields ev ts @ context_fields ctx)" for k v
    using that by (auto simp: base_fields_def context_fields_def set_member_def split: option.splits if_splits)
  ultimately have "sort_json v = v" if "(k, v) \<in> set (base_fields ev ts @ body @ context_fields ctx)" for k v
    using that by auto
  then show ?thesis by (auto simp: dget_def split: option.splits dest!: map_of_SomeD simp del: map_of_append set_append)
qed

lemma sigs_distinct: "signatures_from_event ev = Inr sigs \<Longrightarrow> distinct (map fst sigs)"
  by (auto simp: signatures_from_event_def sig_member_def res_simps split: event_body.splits prod.splits if_splits)

lemma envelope_values:
  assumes "written_event ev" "epoch_seconds (ev_timestamp ev) = Inr ts" "body_fields (ev_body ev) = Inr body"
    and "signatures_from_event ev = Inr sigs"
    and "case cx_seq ctx of None \<Rightarrow> True | Some n \<Rightarrow> \<bar>n\<bar> \<le> 9007199254740992"
    and "(k, v) \<in> set (base_fields ev ts @ body @ context_fields ctx @ [(str ''sigs'', JObj sigs)])"
  shows "plain v \<and> dup_free v"
proof -
  have ts: "\<bar>ts\<bar> \<le> 9007199254740992"
    using assms(1,2) whole_utc_read(3) [of "ev_timestamp ev"] by (auto simp: written_event_def epoch_seconds_whole)
  consider "(k, v) \<in> set (base_fields ev ts)" | "(k, v) \<in> set body" | "(k, v) \<in> set (context_fields ctx)"
    | "v = JObj sigs" using assms(6) by auto
  then show ?thesis
  proof cases
    case 1
    then show ?thesis using ts by (auto simp: base_fields_def)
  next
    case 2
    then show ?thesis using body_plain [OF assms(1,3)] by blast
  next
    case 3
    then show ?thesis using context_plain [of k v ctx] assms(5) by (auto split: option.splits)
  next
    case 4
    then show ?thesis using sigs_plain [OF assms(1,4)] sigs_distinct [OF assms(4)] by auto
  qed
qed

lemma envelope_sigs:
  assumes "body_fields b = Inr body"
  shows "field_of (base_fields ev ts @ body @ context_fields ctx) ''sigs'' = JNull"
proof -
  have "str ''sigs'' \<notin> str ` {''method'', ''log_origin'', ''stream_id'', ''lr'', ''seq'', ''prev_event_id'', ''prev_state_hash''}"
    "str ''sigs'' \<notin> str ` {''gi'', ''ek'', ''ku'', ''prev_thumb'', ''new_ku'', ''new_thumb'', ''reason'', ''prev_lr'',
      ''new_lr'', ''prev_ref'', ''delegatee'', ''scope'', ''expiry''}"
    "str ''sigs'' \<notin> fst ` set (base_fields ev ts)"
    by (simp_all add: base_fields_def)
  note no = contra_subsetD [OF context_field_names this(1), of ctx] contra_subsetD [OF body_field_names(2) [OF assms] this(2)]
    this(3)
  then have "str ''sigs'' \<notin> fst ` set (base_fields ev ts @ body @ context_fields ctx)"
    unfolding set_append image_Un Un_iff by (simp only: simp_thms)
  then have "map_of (base_fields ev ts @ body @ context_fields ctx) (str ''sigs'') = None"
    by (simp only: map_of_eq_None_iff not_False_eq_True)
  then show ?thesis unfolding dget_def by (simp only: option.case)
qed

lemma written_entry_reads_back:
  assumes "canonicalize_c2sp_event pf ev ctx = Inr data" "written_event ev"
    and "case cx_seq ctx of None \<Rightarrow> True | Some n \<Rightarrow> \<bar>n\<bar> \<le> 9007199254740992"
  shows "parse_c2sp_event_entry pf data ctx True = Inr ev
    \<and> signed_c2sp_entry_bytes pf data = signed_c2sp_event_bytes pf ev ctx"
proof -
  from assms(1) obtain env parsed where envelope: "event_to_c2sp_envelope pf ev ctx True = Inr env"
    and parsed: "parse_c2sp_signatures (field_of env ''sigs'') (JStr (event_type ev)) True = Inr parsed"
    and bytes: "canon_bytes pf (JObj env) = Inr data" "assert_entry_size data = Inr ()"
    by (auto simp: canonicalize_c2sp_event_def res_simps)
  from envelope obtain ts body sigs where parts: "epoch_seconds (ev_timestamp ev) = Inr ts"
    "body_fields (ev_body ev) = Inr body" "signatures_from_event ev = Inr sigs"
    and valid: "validate_public_fields pf (JObj (base_fields ev ts @ body @ context_fields ctx)) ctx = Inr ()"
    and unsigned: "event_to_c2sp_envelope pf ev ctx False = Inr (base_fields ev ts @ body @ context_fields ctx)"
    and env: "env = base_fields ev ts @ body @ context_fields ctx @ (if sigs = [] then [] else [(str ''sigs'', JObj sigs)])"
    by (rule envelope_parts)
  define obj where "obj = base_fields ev ts @ body @ context_fields ctx"
  have dist: "distinct (map fst env)" unfolding env by (rule distinct_envelope [OF parts(2)]) auto
  have "sigs \<noteq> []"
    using parsed envelope_sigs [OF parts(2)] by (auto simp: env parse_c2sp_signatures_def)
  then have e: "env = obj @ [(str ''sigs'', JObj sigs)]" by (simp add: env obj_def)
  note sg = dget_sigs [OF e dist]
  have vals: "plain v \<and> dup_free v" if "(k, v) \<in> set env" for k v
    using envelope_values [OF assms(2) parts assms(3)] that by (simp add: e obj_def)
  have read: "read_entry pf data = Inr (JObj (sort_members env))"
    by (rule read_entry_written [OF bytes(1) _ _ bytes(2)]) (use vals dist in auto)
  have ctx_ok: "validate_public_fields pf (JObj (sort_members env)) ctx = Inr ()"
    using valid by (simp add: validate_public_fields_sort [OF dist] validate_public_fields_sigs [OF e dist] obj_def)
  obtain name where name: "field_of obj ''fqdn'' = JStr name" "name \<noteq> []"
    and meth: "field_of obj ''method'' = JStr (str ''c2sp-tlog'')"
    using validate_public_fields_ok [OF valid [folded obj_def]] .
  have dom: "ev_domain ev \<noteq> []" using name body_lookup(4) [OF obj_def] by simp
  have "(str ''sigs'', JObj sigs) \<in> set env" by (simp add: e)
  then have sigs_df: "dup_free (field_of env ''sigs'')" unfolding sg(1) using vals by blast
  have "c2sp_envelope_to_event (JObj env) = Inr ev"
    using to_event_written [OF assms(2) parts(2,3,1) dom obj_def meth e dist] parsed sg(1) by simp
  moreover have "sort_json (field_of env n) = field_of env n" if "n \<in> {''ek'', ''ku'', ''new_ku''}" for n
  proof -
    have "field_of env n = field_of obj n" using that by (intro sg(3)) auto
    then show ?thesis using envelope_sorted [OF assms(2) parts(2), of ts ctx n] by (simp add: obj_def)
  qed
  ultimately have "c2sp_envelope_to_event (JObj (sort_members env)) = Inr ev"
    using to_event_sort [OF dist sigs_df] by simp
  then have "parse_c2sp_event_entry pf data ctx True = Inr ev"
    by (simp add: parse_c2sp_event_entry_def read ctx_ok)
  moreover have "signed_c2sp_entry_bytes pf data = signed_c2sp_event_bytes pf ev ctx"
    using unsigned canonical_pop_sorted [OF dist, of pf "str ''sigs''"]
    by (simp add: signed_c2sp_entry_bytes_def read signed_c2sp_event_bytes_def sg(2) [simplified] obj_def [symmetric])
  ultimately show ?thesis ..
qed



definition sample_event :: LogEvent where
  "sample_event =
     \<lparr>ev_domain = str ''a.example'', ev_timestamp = utc_seconds 17, ev_signing_kid = str ''k1'',
      ev_sig = str ''AQID'', ev_operational_countersig = [], ev_body = RevocationEvent (str ''superseded'')\<rparr>"

definition sample_context :: C2spEventContext where
  "sample_context =
     \<lparr>cx_scope = Some (str ''testnet''), cx_log_origin = Some (str ''log.example/a''),
      cx_stream_id = Some (str ''s1''), cx_lr = Some (str ''c2sp-tlog:testnet:https://log.example/a#s1''),
      cx_seq = Some 3, cx_prev_event_id = None, cx_prev_state_hash = None\<rparr>"

text \<open>The bytes of
  \<^verbatim>\<open>{"fqdn":"a.example","kind":"dnsid.lifecycle","log_origin":"log.example/a","lr":"c2sp-tlog:testnet:https://log.example/a#s1","method":"c2sp-tlog","reason":"superseded","seq":3,"sigs":{"ae":{"kid":"k1","sig":"AQID"}},"stream_id":"s1","ts":17,"type":"REVOCATION","v":1}\<close>.\<close>

definition sample_entry :: bytes where
  "sample_entry =
     [123, 34, 102, 113, 100, 110, 34, 58, 34, 97, 46, 101, 120, 97, 109, 112, 108, 101, 34, 44, 34, 107,
      105, 110, 100, 34, 58, 34, 100, 110, 115, 105, 100, 46, 108, 105, 102, 101, 99, 121, 99, 108, 101,
      34, 44, 34, 108, 111, 103, 95, 111, 114, 105, 103, 105, 110, 34, 58, 34, 108, 111, 103, 46, 101,
      120, 97, 109, 112, 108, 101, 47, 97, 34, 44, 34, 108, 114, 34, 58, 34, 99, 50, 115, 112, 45, 116,
      108, 111, 103, 58, 116, 101, 115, 116, 110, 101, 116, 58, 104, 116, 116, 112, 115, 58, 47, 47, 108,
      111, 103, 46, 101, 120, 97, 109, 112, 108, 101, 47, 97, 35, 115, 49, 34, 44, 34, 109, 101, 116,
      104, 111, 100, 34, 58, 34, 99, 50, 115, 112, 45, 116, 108, 111, 103, 34, 44, 34, 114, 101, 97, 115,
      111, 110, 34, 58, 34, 115, 117, 112, 101, 114, 115, 101, 100, 101, 100, 34, 44, 34, 115, 101, 113,
      34, 58, 51, 44, 34, 115, 105, 103, 115, 34, 58, 123, 34, 97, 101, 34, 58, 123, 34, 107, 105, 100,
      34, 58, 34, 107, 49, 34, 44, 34, 115, 105, 103, 34, 58, 34, 65, 81, 73, 68, 34, 125, 125, 44, 34,
      115, 116, 114, 101, 97, 109, 95, 105, 100, 34, 58, 34, 115, 49, 34, 44, 34, 116, 115, 34, 58, 49,
      55, 44, 34, 116, 121, 112, 101, 34, 58, 34, 82, 69, 86, 79, 67, 65, 84, 73, 79, 78, 34, 44, 34,
      118, 34, 58, 49, 125]"

lemma sample_entry_written:
  "canonicalize_c2sp_event sample_platform sample_event sample_context = Inr sample_entry"
  by code_simp

lemma sample_event_written: "written_event sample_event"
  by code_simp


text \<open>
  C26: The logical identifier of an entry does not depend on its signatures and fixes everything else:
  entries whose objects agree after removing \<^verbatim>\<open>sigs\<close> have the same identifier, and entries of safe
  integers with the same identifier agree after removing \<^verbatim>\<open>sigs\<close>, up to member order, unless the two
  hashed strings collide.
\<close>

theorem event_id_identifies_content:
  assumes "read_entry pf a = Inr (JObj x)" "read_entry pf b = Inr (JObj y)"
    and "plain (JObj x)" "plain (JObj y)" "c2sp_event_id pf a = Inr i"
  shows "(dict_pop (str ''sigs'') x = dict_pop (str ''sigs'') y \<longrightarrow> c2sp_event_id pf b = Inr i)
    \<and> (c2sp_event_id pf b = Inr i \<longrightarrow>
        sort_json (JObj (dict_pop (str ''sigs'') x)) = sort_json (JObj (dict_pop (str ''sigs'') y))
        \<or> (\<exists>s t. signed_c2sp_entry_bytes pf a = Inr s \<and> signed_c2sp_entry_bytes pf b = Inr t
             \<and> collides {event_id_prefix @ s, event_id_prefix @ t}))"
proof (intro conjI impI)
  assume "dict_pop (str ''sigs'') x = dict_pop (str ''sigs'') y"
  then have "signed_c2sp_entry_bytes pf a = signed_c2sp_entry_bytes pf b"
    unfolding signed_c2sp_entry_bytes_def assms(1,2) by (simp only: rbind_simps json.case)
  then show "c2sp_event_id pf b = Inr i" using assms(5) by (simp add: c2sp_event_id_def)
next
  assume b: "c2sp_event_id pf b = Inr i"
  obtain s t where st: "signed_c2sp_entry_bytes pf a = Inr s" "signed_c2sp_entry_bytes pf b = Inr t"
    and id: "b64url_encode (sha256 [event_id_prefix, s]) False = b64url_encode (sha256 [event_id_prefix, t]) False"
    using assms(5) b by (auto simp: c2sp_event_id_def res_simps)
  have "sha256 [event_id_prefix, s] = sha256 [event_id_prefix, t]"
    using id by (rule b64url_encode_inj)
  then have "s = t \<or> collides {event_id_prefix @ s, event_id_prefix @ t}"
    by (auto simp: sha256_def collides_def sha_collision_def)
  moreover have "sort_json (JObj (dict_pop (str ''sigs'') x)) = sort_json (JObj (dict_pop (str ''sigs'') y))" if "s = t"
  proof (rule canonical_bytes_inj)
    show "canon_bytes pf (JObj (dict_pop (str ''sigs'') x)) = Inr s"
      "canon_bytes pf (JObj (dict_pop (str ''sigs'') y)) = Inr s"
      using st that unfolding signed_c2sp_entry_bytes_def assms(1,2) by (simp_all only: rbind_simps json.case)
    show "plain (JObj (dict_pop (str ''sigs'') x))" "plain (JObj (dict_pop (str ''sigs'') y))"
      using assms(3,4) by (auto simp: dict_pop_def)
  qed
  ultimately show "sort_json (JObj (dict_pop (str ''sigs'') x)) = sort_json (JObj (dict_pop (str ''sigs'') y))
        \<or> (\<exists>s t. signed_c2sp_entry_bytes pf a = Inr s \<and> signed_c2sp_entry_bytes pf b = Inr t
             \<and> collides {event_id_prefix @ s, event_id_prefix @ t})"
    using st by blast
qed

text \<open>The entries \<^verbatim>\<open>{"a":1}\<close> and \<^verbatim>\<open>{"a":1,"sigs":{}}\<close>.\<close>

theorem event_id_identifies_content_witness:
  "\<exists>i. c2sp_event_id sample_platform [123, 34, 97, 34, 58, 49, 125] = Inr i
    \<and> c2sp_event_id sample_platform
        [123, 34, 97, 34, 58, 49, 44, 34, 115, 105, 103, 115, 34, 58, 123, 125, 125] = Inr i"
proof -
  let ?a = "[123, 34, 97, 34, 58, 49, 125] :: bytes"
    and ?b = "[123, 34, 97, 34, 58, 49, 44, 34, 115, 105, 103, 115, 34, 58, 123, 125, 125] :: bytes"
  have a: "read_entry sample_platform ?a = Inr (JObj [([97], JInt 1)])" by code_simp
  have b: "read_entry sample_platform ?b = Inr (JObj [([97], JInt 1), (str ''sigs'', JObj [])])" by code_simp
  have "is_ok (signed_c2sp_entry_bytes sample_platform ?a)" by code_simp
  then obtain i where i: "c2sp_event_id sample_platform ?a = Inr i"
    by (auto simp: c2sp_event_id_def is_ok_iff)
  have pop: "dict_pop (str ''sigs'') [([97], JInt 1)] = dict_pop (str ''sigs'') [([97], JInt 1), (str ''sigs'', JObj [])]"
    by code_simp
  from event_id_identifies_content [OF a b _ _ i] pop i show ?thesis by auto
qed

text \<open>
  A parsed entry is bound to its stream: the domain is a normalised name, the signed \<^verbatim>\<open>lr\<close> is a
  canonical bound reference whose origin and stream are the signed ones, the stream is not the bare
  domain, and every part of the context the caller expects is the one the entry signs.
\<close>

theorem parsed_entry_bound:
  assumes "parse_c2sp_event_entry pf data ctx candidate = Inr ev"
  shows "\<exists>obj lr reference. read_entry pf data = Inr (JObj obj)
    \<and> normalize_fqdn (pf_idna pf) (ev_domain ev) True = Inr (ev_domain ev)
    \<and> field_of obj ''lr'' = JStr lr
    \<and> parse_c2sp_tlog_lr (pf_lower pf) (pf_netloc_ok pf) lr = Inr reference \<and> lr_lr reference = lr
    \<and> field_of obj ''log_origin'' = JStr (lr_origin reference)
    \<and> field_of obj ''stream_id'' = JStr (lr_stream_id reference) \<and> lr_stream_id reference \<noteq> ev_domain ev
    \<and> (cx_scope ctx \<noteq> None \<longrightarrow> cx_scope ctx = Some (lr_scope reference))
    \<and> (cx_log_origin ctx \<noteq> None \<longrightarrow> cx_log_origin ctx = Some (lr_origin reference))
    \<and> (cx_stream_id ctx \<noteq> None \<longrightarrow> cx_stream_id ctx = Some (lr_stream_id reference))
    \<and> (cx_lr ctx \<noteq> None \<longrightarrow> cx_lr ctx = Some lr)"
proof -
  from assms obtain obj where obj: "read_entry pf data = Inr (JObj obj)"
    "validate_public_fields pf (JObj obj) ctx = Inr ()" "c2sp_envelope_to_event (JObj obj) = Inr ev"
    by (auto simp: parse_c2sp_event_entry_def res_simps validate_public_fields_def split: json.splits if_splits)
  have dom: "field_of obj ''fqdn'' = JStr (ev_domain ev)"
    using obj(3) by (auto simp: c2sp_envelope_to_event_def res_simps as_str_Inr parse_issuance_def
        parse_key_rotation_def entity_event_def split: if_splits)
  show ?thesis
    by (rule validate_public_fields_ok [OF obj(2)]) (use obj(1) dom in \<open>auto intro!: exI\<close>)
qed

theorem parsed_entry_bound_witness:
  "\<exists>obj lr reference. read_entry sample_platform sample_entry = Inr (JObj obj)
    \<and> field_of obj ''lr'' = JStr lr
    \<and> parse_c2sp_tlog_lr (pf_lower sample_platform) (pf_netloc_ok sample_platform) lr = Inr reference
    \<and> lr_lr reference = lr"
proof -
  have "parse_c2sp_event_entry sample_platform sample_entry sample_context True = Inr sample_event"
    using written_entry_reads_back [OF sample_entry_written sample_event_written] by (simp add: sample_context_def)
  from parsed_entry_bound [OF this] show ?thesis by blast
qed

text \<open>
  The whole-second check is made in floating point, so it misses a fraction that the rounding
  removes: one microsecond past the last second of year 9999 is accepted and written as that second.
\<close>

theorem far_future_fraction_accepted:
  "epoch_seconds \<lparr>dt_aware = True, dt_us = 253402300799000001\<rparr> = Inr 253402300799"
proof -
  have l1: "bit_len 253402300799 = 38" and l2: "bit_len 253402300799000 = 48" by (simp_all add: bit_len.simps)
  have "float_div 253402300799000001 1000000 = (8303486592581632, 15)"
    by (simp add: float_div_def round_div_def l1 Let_def)
  moreover have "float_div (8303486592581632 * 1000) (2 ^ 15) = (8108873625568000, 5)"
    by (simp add: float_div_def round_div_def l2 Let_def)
  ultimately show ?thesis by (simp add: epoch_seconds_def timestamp_millis_def)
qed

end
