(* ===== verification/Sha256_Eval.thy ===== *)
theory Sha256_Eval
  imports Sha256
begin

unbundle bit_operations_syntax

text \<open>
  Evaluation of the digest on a message of two blocks by rewriting: every word operation is computed
  on natural numbers and reduced modulo the word size at once.
\<close>

lemma w32_of_nat_mod: "(of_nat (n mod 4294967296) :: word32) = of_nat n"
proof -
  have "unat (of_nat (n mod 4294967296) :: word32) = unat (of_nat n :: word32)" by (simp add: unat_of_nat)
  then show ?thesis by (rule unsigned_word_eqI)
qed

lemma w32_add: "(numeral a :: word32) + numeral b = of_nat ((numeral a + numeral b) mod 4294967296)"
  by (simp only: w32_of_nat_mod of_nat_add of_nat_numeral)

lemma w32_push: "push_bit n (numeral a :: word32) = of_nat ((numeral a * 2 ^ n) mod 4294967296)"
  by (simp only: w32_of_nat_mod of_nat_mult of_nat_numeral of_nat_power push_bit_eq_mult)

lemma w32_of_nat_not: "n < 4294967296 \<Longrightarrow> NOT (of_nat n :: word32) = of_nat (4294967295 - n)"
proof -
  assume "n < 4294967296"
  then have "(of_nat (4294967295 - n) :: word32) = of_nat 4294967295 - of_nat n" by (intro of_nat_diff) arith
  moreover have "(of_nat 4294967295 :: word32) = - 1" by simp
  ultimately show ?thesis by (simp only: not_eq_complement) simp
qed

lemma w32_of_nat_drop: "n < 4294967296 \<Longrightarrow> drop_bit k (of_nat n :: word32) = of_nat (n div 2 ^ k)"
proof -
  assume n: "n < 4294967296"
  have "n div 2 ^ k \<le> n" by simp
  with n have "n div 2 ^ k < 4294967296" by linarith
  with n have "unat (of_nat n :: word32) = n" "unat (of_nat (n div 2 ^ k) :: word32) = n div 2 ^ k"
    by (simp_all add: unat_of_nat)
  then have "unat (drop_bit k (of_nat n :: word32)) = unat (of_nat (n div 2 ^ k) :: word32)"
    using n by (subst unsigned_drop_bit_eq) (simp add: drop_bit_eq_div take_bit_nat_eq_self)
  then show ?thesis by (rule unsigned_word_eqI)
qed

lemmas w32_not = w32_of_nat_not [of "numeral a" for a, unfolded of_nat_numeral]

lemmas w32_drop = w32_of_nat_drop [of "numeral a" for a, unfolded of_nat_numeral]

lemmas w32_simps = sha_rotr_def Let_def w32_add w32_not w32_push w32_drop sha_sched_word_def

lemma sched_step:
  "n \<noteq> 0 \<Longrightarrow> sha_sched_word ws = w \<Longrightarrow> n - 1 = n' \<Longrightarrow> sha_schedule n' (w # ws) = r \<Longrightarrow> sha_schedule n ws = r"
  by (cases n) auto

lemma round_step: "sha_round s kw = s' \<Longrightarrow> foldl sha_round s' kws = r \<Longrightarrow> foldl sha_round s (kw # kws) = r"
  by simp

lemma sha_block_eval:
  "rev (be_words blk) = ws \<Longrightarrow> sha_schedule 48 ws = ws' \<Longrightarrow> foldl sha_round s (zip sha_k (rev ws')) = t \<Longrightarrow>
   sha_add s t = s' \<Longrightarrow> sha_block s blk = s'"
  by (auto simp: sha_block_def)

lemma sha256_two_blocks:
  assumes "sha_pad m = m'" "length m' = 128" "take 64 m' = b1 \<and> drop 64 m' = b2" "sha_block sha_init b1 = s1" "sha_block s1 b2 = s2"
  shows "sha256_digest m = sha_output s2"
proof -
  from assms(2,3) have b: "m' \<noteq> []" "b2 \<noteq> []" "take 64 b2 = b2" "drop 64 b2 = []" by auto
  have "sha_blocks sha_init m' = sha_blocks s1 b2" using assms(3,4) b(1) by (subst sha_blocks.simps) simp
  also have "\<dots> = s2" using assms(5) b by (simp add: sha_blocks.simps [of _ b2] sha_blocks.simps [of _ "[]"])
  finally show ?thesis using assms(1) by (simp add: sha256_digest_def)
qed

text \<open>
  The RFC 7638 inputs \<^verbatim>\<open>{"crv":"Ed25519","kty":"OKP","x":...}\<close> of the public keys whose last byte is 1 and 2 and
  whose other bytes are 0. They differ in the second block only.
\<close>

lemma schedule_first:
  "sha_schedule 48 [1094795585, 1094795585, 1094795585, 1094795585, 1094795585, 1094795585, 1094795585, 975323457,
      740456482, 1330335778, 2032286242, 740453236, 892418338, 1164194357, 1981954594, 2065851250] =
   [3527478373, 3781397535, 448985475, 4188906159, 4102099834, 1015580281, 568484850, 2853491669,
    3524096303, 1147289668, 1105245604, 2492891302, 4051490318, 2458858139, 1823266989, 2392590711,
    128024430, 653837674, 1219056658, 3947849495, 4141931904, 788456252, 3011475230, 3730672681,
    3413973453, 3889420168, 806687212, 848924575, 3003346872, 1494186900, 2950423088, 3571566675,
    3649674383, 2558917052, 3610840074, 3237757372, 4246060361, 558517352, 3809518252, 811991103,
    3547330064, 1372212104, 890158946, 2610845516, 1157212270, 3235233354, 2930209718, 161291331,
    1094795585, 1094795585, 1094795585, 1094795585, 1094795585, 1094795585, 1094795585, 975323457,
    740456482, 1330335778, 2032286242, 740453236, 892418338, 1164194357, 1981954594, 2065851250]"
  by ((rule sched_step, simp, simp add: w32_simps del: numeral_plus_numeral, simp)+, rule sha_schedule.simps(1))

lemma rounds_first:
  "foldl sha_round sha_init (zip sha_k
     [2065851250, 1981954594, 1164194357, 892418338, 740453236, 2032286242, 1330335778, 740456482,
      975323457, 1094795585, 1094795585, 1094795585, 1094795585, 1094795585, 1094795585, 1094795585,
      161291331, 2930209718, 3235233354, 1157212270, 2610845516, 890158946, 1372212104, 3547330064,
      811991103, 3809518252, 558517352, 4246060361, 3237757372, 3610840074, 2558917052, 3649674383,
      3571566675, 2950423088, 1494186900, 3003346872, 848924575, 806687212, 3889420168, 3413973453,
      3730672681, 3011475230, 788456252, 4141931904, 3947849495, 1219056658, 653837674, 128024430,
      2392590711, 1823266989, 2458858139, 4051490318, 2492891302, 1105245604, 1147289668, 3524096303,
      2853491669, 568484850, 1015580281, 4102099834, 4188906159, 448985475, 3781397535, 3527478373]) =
   (71141531, 491615149, 2415887786, 1904226799, 1793529241, 2504606765, 2511224489, 3998679931)"
  by (simp only: sha_k_def sha_init_def zip_Cons_Cons zip_Nil,
      (rule round_step, simp add: w32_simps del: numeral_plus_numeral)+, rule foldl_Nil)

lemma block_first:
  "sha_block sha_init
     [123, 34, 99, 114, 118, 34, 58, 34, 69, 100, 50, 53, 53, 49, 57, 34, 44, 34, 107, 116, 121, 34, 58,
      34, 79, 75, 80, 34, 44, 34, 120, 34, 58, 34, 65, 65, 65, 65, 65, 65, 65, 65, 65, 65, 65, 65, 65,
      65, 65, 65, 65, 65, 65, 65, 65, 65, 65, 65, 65, 65, 65, 65, 65, 65] =
   (1850175234, 3635749426, 3429792028, 382740265, 3153422360, 810462393, 3039959124, 1245171860)"
  by (rule sha_block_eval, simp, rule schedule_first, unfold rev.simps append.simps, rule rounds_first,
      simp add: sha_init_def w32_simps del: numeral_plus_numeral)

lemma schedule_a:
  "sha_schedule 48 [632, 0, 0, 0, 0, 0, 0, 0, 0, 0, 0, 0, 1159888256, 1094795585, 1094795585, 1094795585] =
   [2351550431, 1918821771, 4059712017, 1241737583, 3499854609, 3452087216, 505685741, 950784724,
    327334903, 3667112603, 1347294981, 2356681523, 4161105415, 1810327303, 2191862174, 1605865457,
    3696327599, 1786372707, 2944699812, 2035388201, 1852046672, 4030326829, 1741619692, 4069592690,
    841571045, 1422743508, 3541175523, 511531768, 2810859549, 196659368, 2626409739, 949403089,
    140219720, 3449223176, 594661946, 3630819494, 3263167643, 3505791938, 3198412859, 3126317118,
    327633530, 562285483, 45930681, 961215516, 3200255021, 1915567578, 498023483, 473709627, 632, 0, 0,
    0, 0, 0, 0, 0, 0, 0, 0, 0, 1159888256, 1094795585, 1094795585, 1094795585]"
  by ((rule sched_step, simp, simp add: w32_simps del: numeral_plus_numeral, simp)+, rule sha_schedule.simps(1))

lemma rounds_a:
  "foldl sha_round (1850175234, 3635749426, 3429792028, 382740265, 3153422360, 810462393, 3039959124, 1245171860) (zip sha_k
     [1094795585, 1094795585, 1094795585, 1159888256, 0, 0, 0, 0, 0, 0, 0, 0, 0, 0, 0, 632, 473709627,
      498023483, 1915567578, 3200255021, 961215516, 45930681, 562285483, 327633530, 3126317118,
      3198412859, 3505791938, 3263167643, 3630819494, 594661946, 3449223176, 140219720, 949403089,
      2626409739, 196659368, 2810859549, 511531768, 3541175523, 1422743508, 841571045, 4069592690,
      1741619692, 4030326829, 1852046672, 2035388201, 2944699812, 1786372707, 3696327599, 1605865457,
      2191862174, 1810327303, 4161105415, 2356681523, 1347294981, 3667112603, 327334903, 950784724,
      505685741, 3452087216, 3499854609, 1241737583, 4059712017, 1918821771, 2351550431]) =
   (292447515, 2430413644, 3424687924, 1985358148, 1145801426, 2507165284, 1105519272, 2895224599)"
  by (simp only: sha_k_def  zip_Cons_Cons zip_Nil,
      (rule round_step, simp add: w32_simps del: numeral_plus_numeral)+, rule foldl_Nil)

lemma block_a:
  "sha_block (1850175234, 3635749426, 3429792028, 382740265, 3153422360, 810462393, 3039959124, 1245171860)
     [65, 65, 65, 65, 65, 65, 65, 65, 65, 65, 65, 65, 69, 34, 125, 128, 0, 0, 0, 0, 0, 0, 0, 0, 0, 0, 0,
      0, 0, 0, 0, 0, 0, 0, 0, 0, 0, 0, 0, 0, 0, 0, 0, 0, 0, 0, 0, 0, 0, 0, 0, 0, 0, 0, 0, 0, 0, 0, 0, 0,
      0, 0, 2, 120] =
   (2142622749, 1771195774, 2559512656, 2368098413, 4256490, 3317627677, 4145478396, 4140396459)"
  by (rule sha_block_eval, simp, rule schedule_a, unfold rev.simps append.simps, rule rounds_a,
      simp add: sha_init_def w32_simps del: numeral_plus_numeral)

lemma schedule_b:
  "sha_schedule 48 [632, 0, 0, 0, 0, 0, 0, 0, 0, 0, 0, 0, 1226997120, 1094795585, 1094795585, 1094795585] =
   [3503239125, 666134396, 3909908825, 360832714, 3840966777, 1225635537, 2147478676, 1540786482,
    1574599370, 880586262, 1439831315, 128119652, 3079572834, 2548632380, 1666560021, 2527149187,
    1717672873, 3157662417, 842668059, 2615738160, 2214548536, 1197433196, 1840089688, 1438852175,
    570053056, 2519658479, 2354619908, 4286198116, 1397503990, 1858280183, 4152756276, 1707269401,
    946241045, 2263471924, 1328656613, 63231455, 2231369458, 4079835082, 3181951086, 3476521115,
    2784446010, 1319863238, 44296505, 971643811, 3267363885, 1907703002, 498023483, 473709627, 632, 0,
    0, 0, 0, 0, 0, 0, 0, 0, 0, 0, 1226997120, 1094795585, 1094795585, 1094795585]"
  by ((rule sched_step, simp, simp add: w32_simps del: numeral_plus_numeral, simp)+, rule sha_schedule.simps(1))

lemma rounds_b:
  "foldl sha_round (1850175234, 3635749426, 3429792028, 382740265, 3153422360, 810462393, 3039959124, 1245171860) (zip sha_k
     [1094795585, 1094795585, 1094795585, 1226997120, 0, 0, 0, 0, 0, 0, 0, 0, 0, 0, 0, 632, 473709627,
      498023483, 1907703002, 3267363885, 971643811, 44296505, 1319863238, 2784446010, 3476521115,
      3181951086, 4079835082, 2231369458, 63231455, 1328656613, 2263471924, 946241045, 1707269401,
      4152756276, 1858280183, 1397503990, 4286198116, 2354619908, 2519658479, 570053056, 1438852175,
      1840089688, 1197433196, 2214548536, 2615738160, 842668059, 3157662417, 1717672873, 2527149187,
      1666560021, 2548632380, 3079572834, 128119652, 1439831315, 880586262, 1574599370, 1540786482,
      2147478676, 1225635537, 3840966777, 360832714, 3909908825, 666134396, 3503239125]) =
   (1635378259, 1827142773, 1136117344, 728524967, 1654543719, 4008513412, 2948107170, 3154618320)"
  by (simp only: sha_k_def  zip_Cons_Cons zip_Nil,
      (rule round_step, simp add: w32_simps del: numeral_plus_numeral)+, rule foldl_Nil)

lemma block_b:
  "sha_block (1850175234, 3635749426, 3429792028, 382740265, 3153422360, 810462393, 3039959124, 1245171860)
     [65, 65, 65, 65, 65, 65, 65, 65, 65, 65, 65, 65, 73, 34, 125, 128, 0, 0, 0, 0, 0, 0, 0, 0, 0, 0, 0,
      0, 0, 0, 0, 0, 0, 0, 0, 0, 0, 0, 0, 0, 0, 0, 0, 0, 0, 0, 0, 0, 0, 0, 0, 0, 0, 0, 0, 0, 0, 0, 0, 0,
      0, 0, 2, 120] =
   (3485553493, 1167924903, 270942076, 1111265232, 512998783, 524008509, 1693098998, 104822884)"
  by (rule sha_block_eval, simp, rule schedule_b, unfold rev.simps append.simps, rule rounds_b,
      simp add: sha_init_def w32_simps del: numeral_plus_numeral)

lemma digest_a:
  "sha256_digest
     [123, 34, 99, 114, 118, 34, 58, 34, 69, 100, 50, 53, 53, 49, 57, 34, 44, 34, 107, 116, 121, 34, 58,
      34, 79, 75, 80, 34, 44, 34, 120, 34, 58, 34, 65, 65, 65, 65, 65, 65, 65, 65, 65, 65, 65, 65, 65,
      65, 65, 65, 65, 65, 65, 65, 65, 65, 65, 65, 65, 65, 65, 65, 65, 65, 65, 65, 65, 65, 65, 65, 65, 65,
      65, 65, 65, 65, 69, 34, 125] =
   [127, 181, 212, 29, 105, 146, 77, 126, 152, 143, 16, 80, 141, 38, 80, 109, 0, 64, 242, 234, 197,
    190, 251, 29, 247, 22, 250, 252, 246, 201, 111, 171]"
  by (rule trans, rule sha256_two_blocks, code_simp, simp, simp, rule block_first, rule block_a,
      simp add: be_bytes_def unat_numeral w32_simps del: numeral_plus_numeral)

lemma digest_b:
  "sha256_digest
     [123, 34, 99, 114, 118, 34, 58, 34, 69, 100, 50, 53, 53, 49, 57, 34, 44, 34, 107, 116, 121, 34, 58,
      34, 79, 75, 80, 34, 44, 34, 120, 34, 58, 34, 65, 65, 65, 65, 65, 65, 65, 65, 65, 65, 65, 65, 65,
      65, 65, 65, 65, 65, 65, 65, 65, 65, 65, 65, 65, 65, 65, 65, 65, 65, 65, 65, 65, 65, 65, 65, 65, 65,
      65, 65, 65, 65, 73, 34, 125] =
   [207, 193, 83, 85, 69, 157, 30, 167, 16, 38, 63, 124, 66, 60, 143, 208, 30, 147, 189, 127, 31, 59,
    188, 61, 100, 234, 163, 246, 6, 63, 120, 100]"
  by (rule trans, rule sha256_two_blocks, code_simp, simp, simp, rule block_first, rule block_b,
      simp add: be_bytes_def unat_numeral w32_simps del: numeral_plus_numeral)

end
