(* ===== verification/Lifecycle.thy ===== *)
theory Lifecycle
  imports Events Sha256_Eval
begin

text \<open>
  The lifecycle check of \<^verbatim>\<open>dnsid/c2sp_tlog/stream_verifier.py\<close>: \<^verbatim>\<open>verify_lifecycle\<close> replays a list of
  logged events and raises unless they form one signed, chained lifecycle. The loop over the events is
  a fold of \<open>lifecycle_step\<close> over a record of the loop's variables.

  The callback that verifies the history behind a MIGRATION is a function of the event. The checkpoint
  integration time is a float, given as \<open>m / 2 ^ i\<close>. The verification budget never expires.
\<close>

section \<open>Data\<close>

record VerifiedLifecycleEvent =
  vl_index :: int
  vl_leaf_hash :: bytes
  vl_data :: bytes
  vl_event :: LogEvent
  vl_chain :: chain_fields
  vl_post_keys :: "(JWK \<times> JWK) option"

definition vl_event_id :: "platform \<Rightarrow> VerifiedLifecycleEvent \<Rightarrow> pystr res" where
  "vl_event_id pf item = c2sp_event_id pf (vl_data item)"

record MigrationVerificationResult =
  mr_entity_key :: JWK
  mr_operational_key :: JWK
  mr_prior_events :: "LogEvent list"
  mr_prior_event_refs :: "pystr list"

record StreamVerifierOptions =
  so_context :: "C2spEventContext option"
  so_unchained :: bool
  so_signer_key :: "JWK option"
  so_integration_ms :: "(int \<times> nat) option"
  so_verify_migration :: "(LogEvent \<Rightarrow> MigrationVerificationResult res) option"
  so_cutoff_index :: "int option"
  so_max_entries :: int
  so_max_entry_bytes :: int

definition so_ctx :: "StreamVerifierOptions \<Rightarrow> C2spEventContext" where
  "so_ctx opts = (case so_context opts of None \<Rightarrow> no_context | Some c \<Rightarrow> c)"

text \<open>\<^verbatim>\<open>event.timestamp.timestamp() * 1000 > t\<close>\<close>

definition later_than :: "pydatetime \<Rightarrow> int \<times> nat \<Rightarrow> bool" where
  "later_than ts t = (let (n, j) = timestamp_millis ts; (m, i) = t in n * 2 ^ i > m * 2 ^ j)"

section \<open>Signatures and states\<close>

definition verify_event_signature ::
  "platform \<Rightarrow> VerifiedLifecycleEvent \<Rightarrow> pystr \<Rightarrow> JWK \<Rightarrow> string \<Rightarrow> unit res" where
  "verify_event_signature pf item signature key message =
     (case rbind (b64url_decode signature) (\<lambda>sig_bytes.
           rbind (signed_c2sp_entry_bytes pf (vl_data item)) (\<lambda>signed. jwk_verify pf key signed sig_bytes)) of
        Inl e \<Rightarrow> if is_C2spTlogResourceLimitError e then Inl e
                else Inl (VerificationError SIGNATURE_INVALID message False)
      | Inr ok \<Rightarrow> if ok then Inr () else Inl (VerificationError SIGNATURE_INVALID message False))"

definition verify_logged_event_signature ::
  "platform \<Rightarrow> VerifiedLifecycleEvent \<Rightarrow> JWK \<Rightarrow> unit res" where
  "verify_logged_event_signature pf item signer_key =
     (if ev_sig (vl_event item) = []
      then verif_err (''missing signature for '' @ event_type_name (body_type (ev_body (vl_event item))))
      else verify_event_signature pf item (ev_sig (vl_event item)) signer_key ''invalid lifecycle event signature'')"

definition state_hash_prefix :: bytes where
  "state_hash_prefix = map word_of_nat (str ''dnsid-c2sp-state-v1'')"

definition state_hash :: "platform \<Rightarrow> json \<Rightarrow> pystr res" where
  "state_hash pf state =
     rbind (canon_bytes pf state) (\<lambda>b. Inr (b64url_encode (sha256 [state_hash_prefix, b]) False))"

definition state_dict :: "pystr \<Rightarrow> string \<Rightarrow> JWK \<Rightarrow> JWK \<Rightarrow> json res" where
  "state_dict domain status entity_key operational_key =
     rbind (thumbprint entity_key) (\<lambda>entity_thumb.
     rbind (thumbprint operational_key) (\<lambda>operational_thumb.
       Inr (JObj [(str ''fqdn'', JStr domain), (str ''status'', JStr (str status)),
                  (str ''entity_thumb'', JStr entity_thumb), (str ''operational_thumb'', JStr operational_thumb)])))"

definition active_state :: "pystr \<Rightarrow> JWK \<Rightarrow> JWK \<Rightarrow> json res" where
  "active_state domain entity_key operational_key = state_dict domain ''ACTIVE'' entity_key operational_key"

text \<open>\<^verbatim>\<open>_next_state\<close> builds the active state and then overwrites its \<^verbatim>\<open>status\<close>.\<close>

definition next_state :: "json \<Rightarrow> LogEvent \<Rightarrow> JWK \<Rightarrow> JWK \<Rightarrow> json res" where
  "next_state previous ev entity_key operational_key =
     (case ev_body ev of
        DelegationEvent _ \<Rightarrow> Inr previous
      | RevocationEvent _ \<Rightarrow> state_dict (ev_domain ev) ''REVOKED'' entity_key operational_key
      | RetirementEvent \<Rightarrow> state_dict (ev_domain ev) ''RETIRED'' entity_key operational_key
      | _ \<Rightarrow> active_state (ev_domain ev) entity_key operational_key)"

definition no_key_metadata :: "'a res" where
  "no_key_metadata = verif_err ''ISSUANCE is missing c2sp-tlog key metadata''"

definition distinct_keys_error :: "'a res" where
  "distinct_keys_error = verif_err ''entity and operational keys must be distinct by RFC 7638 thumbprint''"

definition assert_issuance_key_metadata :: "IssuanceData \<Rightarrow> unit res" where
  "assert_issuance_key_metadata d =
     (case (is_entity_key d, is_operational_key d) of
        (Some e, Some k) \<Rightarrow>
          if falsy (jwk_kid e) \<or> falsy (jwk_kid k) then no_key_metadata
          else
            rbind (thumbprint e) (\<lambda>te. rbind (thumbprint k) (\<lambda>tk. if te = tk then distinct_keys_error else Inr ()))
      | _ \<Rightarrow> no_key_metadata)"

definition assert_rotation_key_metadata :: "KeyRotationData \<Rightarrow> unit res" where
  "assert_rotation_key_metadata d =
     (case kr_new_public_key d of
        None \<Rightarrow> verif_err ''KEY_ROTATION is missing c2sp-tlog key metadata''
      | Some k \<Rightarrow>
          if kr_new_thumbprint d = [] then verif_err ''KEY_ROTATION is missing c2sp-tlog key metadata''
          else
            rbind (thumbprint k) (\<lambda>t.
              if kr_new_thumbprint d \<noteq> t then verif_err ''KEY_ROTATION new thumbprint does not match public key''
              else if JStr (kr_new_kid d) \<noteq> jwk_kid k then verif_err ''KEY_ROTATION new key metadata mismatch''
              else Inr ()))"

definition assert_chain_fields ::
  "platform \<Rightarrow> VerifiedLifecycleEvent \<Rightarrow> VerifiedLifecycleEvent \<Rightarrow> json \<Rightarrow> unit res" where
  "assert_chain_fields pf item prev prev_state =
     (case ch_seq (vl_chain prev) of
        None \<Rightarrow> verif_err ''invalid seq''
      | Some prev_seq \<Rightarrow>
          if ch_seq (vl_chain item) \<noteq> Some (prev_seq + 1) then verif_err ''invalid seq''
          else
            rbind (vl_event_id pf prev) (\<lambda>i.
              if ch_prev_event_id (vl_chain item) \<noteq> Some i then verif_err ''invalid prev_event_id''
              else
                rbind (state_hash pf prev_state) (\<lambda>h.
                  if ch_prev_state_hash (vl_chain item) \<noteq> Some h then verif_err ''invalid prev_state_hash''
                  else Inr ())))"

definition assert_first_chain_fields :: "VerifiedLifecycleEvent \<Rightarrow> unit res" where
  "assert_first_chain_fields item =
     (if ch_seq (vl_chain item) \<noteq> Some 0 then verif_err ''first public lifecycle event must have seq 0''
      else if ch_prev_event_id (vl_chain item) \<noteq> None \<or> ch_prev_state_hash (vl_chain item) \<noteq> None
      then verif_err ''first public lifecycle event must not contain previous-chain fields''
      else Inr ())"

section \<open>The lifecycle loop\<close>

record lifecycle_state =
  lc_terminal :: bool
  lc_prev_state :: json
  lc_entity_key :: "JWK option"
  lc_operational_key :: "JWK option"

definition lifecycle_init :: lifecycle_state where
  "lifecycle_init =
     \<lparr>lc_terminal = False, lc_prev_state = JNull, lc_entity_key = None, lc_operational_key = None\<rparr>"

definition invalid_migration :: "string \<Rightarrow> 'a res" where
  "invalid_migration m = Inl (C2spTlogVerificationError m (Some C_INVALID_MIGRATION) None)"

definition check_signer :: "StreamVerifierOptions \<Rightarrow> JWK \<Rightarrow> string \<Rightarrow> unit res" where
  "check_signer opts entity_key message =
     (case so_signer_key opts of
        None \<Rightarrow> Inr ()
      | Some k \<Rightarrow>
          rbind (thumbprint k) (\<lambda>a. rbind (thumbprint entity_key) (\<lambda>b. if a \<noteq> b then verif_err message else Inr ())))"

definition issuance_step ::
  "platform \<Rightarrow> StreamVerifierOptions \<Rightarrow> VerifiedLifecycleEvent \<Rightarrow> IssuanceData \<Rightarrow> lifecycle_state \<Rightarrow> lifecycle_state res" where
  "issuance_step pf opts item d st =
     (let ev = vl_event item in
      rbind (assert_issuance_key_metadata d) (\<lambda>_.
      (case (is_entity_key d, is_operational_key d) of
         (Some entity_key, Some operational_key) \<Rightarrow>
           rbind (check_signer opts entity_key ''ISSUANCE entity key does not match trusted entity key'') (\<lambda>_.
           rbind (verify_event_signature pf item (ev_sig ev) entity_key ''invalid ISSUANCE entity signature'') (\<lambda>_.
             if ev_operational_countersig ev = [] then verif_err ''ISSUANCE missing operational countersignature''
             else
               rbind (verify_event_signature pf item (ev_operational_countersig ev) operational_key
                        ''invalid ISSUANCE operational countersignature'') (\<lambda>_.
               rbind (active_state (ev_domain ev) entity_key operational_key) (\<lambda>s.
                 Inr (st\<lparr>lc_prev_state := s, lc_entity_key := Some entity_key,
                         lc_operational_key := Some operational_key\<rparr>)))))
       | _ \<Rightarrow> no_key_metadata)))"

definition migration_step ::
  "platform \<Rightarrow> StreamVerifierOptions \<Rightarrow> VerifiedLifecycleEvent \<Rightarrow> MigrationData \<Rightarrow> lifecycle_state \<Rightarrow> lifecycle_state res" where
  "migration_step pf opts item d st =
     (let ev = vl_event item in
      if mg_previous_log d = [] \<or> mg_previous_log d = mg_new_log d
      then invalid_migration ''MIGRATION must hand off from a different previous log''
      else
        (case so_verify_migration opts of
           None \<Rightarrow> verif_err ''MIGRATION requires verified prior-log history''
         | Some verify_migration \<Rightarrow>
             if is_set (cx_lr (so_ctx opts)) \<and> Some (mg_new_log d) \<noteq> cx_lr (so_ctx opts)
             then verif_err ''MIGRATION new_lr does not match the current C2SP stream''
             else
               rbind (verify_migration ev) (\<lambda>migrated.
                 let entity_key = mr_entity_key migrated; operational_key = mr_operational_key migrated in
                 rbind (thumbprint entity_key) (\<lambda>te.
                 rbind (thumbprint operational_key) (\<lambda>tk.
                   if te = tk then distinct_keys_error
                   else
                     rbind (check_signer opts entity_key ''MIGRATION entity key does not match trusted entity key'') (\<lambda>_.
                       if JStr (ev_signing_kid ev) \<noteq> jwk_kid entity_key
                       then verif_err ''MIGRATION signature kid does not match entity key''
                       else
                         rbind (verify_event_signature pf item (ev_sig ev) entity_key
                                  ''invalid MIGRATION entity signature'') (\<lambda>_.
                         rbind (active_state (ev_domain ev) entity_key operational_key) (\<lambda>s.
                           Inr (st\<lparr>lc_prev_state := s, lc_entity_key := Some entity_key,
                                   lc_operational_key := Some operational_key\<rparr>)))))))))"

definition rotation_step ::
  "platform \<Rightarrow> VerifiedLifecycleEvent \<Rightarrow> KeyRotationData \<Rightarrow> JWK \<Rightarrow> JWK \<Rightarrow> JWK res" where
  "rotation_step pf item d entity_key operational_key =
     (let ev = vl_event item in
      rbind (thumbprint operational_key) (\<lambda>t_op.
        if kr_previous_thumbprint d \<noteq> t_op \<or> JStr (kr_previous_kid d) \<noteq> jwk_kid operational_key
        then verif_err ''KEY_ROTATION previous operational key does not match active key''
        else
          rbind (assert_rotation_key_metadata d) (\<lambda>_.
          (case kr_new_public_key d of
             None \<Rightarrow> verif_err ''KEY_ROTATION is missing c2sp-tlog key metadata''
           | Some new_key \<Rightarrow>
               rbind (thumbprint new_key) (\<lambda>t_new.
                 if t_new = t_op then verif_err ''KEY_ROTATION new operational key must differ from active key''
                 else
                   rbind (thumbprint entity_key) (\<lambda>t_ent.
                     if t_new = t_ent then distinct_keys_error
                     else
                       rbind (verify_event_signature pf item (ev_sig ev) operational_key
                                ''invalid KEY_ROTATION signature'') (\<lambda>_.
                         if kr_new_operational_proof d = []
                         then verif_err ''KEY_ROTATION missing new operational proof of possession''
                         else
                           rbind (verify_event_signature pf item (kr_new_operational_proof d) new_key
                                    ''invalid KEY_ROTATION new-key proof of possession'') (\<lambda>_. Inr new_key))))))))"

definition entity_step :: "platform \<Rightarrow> VerifiedLifecycleEvent \<Rightarrow> JWK \<Rightarrow> unit res" where
  "entity_step pf item entity_key =
     (let ev = vl_event item; name = event_type_name (body_type (ev_body ev)) in
      rbind (case ev_body ev of
               MigrationEvent d \<Rightarrow>
                 if mg_previous_log d = [] \<or> mg_previous_log d = mg_new_log d
                 then invalid_migration ''MIGRATION must hand off to a different log'' else Inr ()
             | _ \<Rightarrow> Inr ()) (\<lambda>_.
        if JStr (ev_signing_kid ev) \<noteq> jwk_kid entity_key
        then verif_err (name @ '' signature kid does not match entity key'')
        else
          rbind (verify_event_signature pf item (ev_sig ev) entity_key (''invalid '' @ name @ '' entity signature''))
            (\<lambda>_. (case ev_body ev of
                    RevocationEvent reason \<Rightarrow>
                      if reason \<notin> set RevocationReason then verif_err ''invalid REVOCATION reason'' else Inr ()
                  | _ \<Rightarrow> Inr ()))))"

definition later_step ::
  "platform \<Rightarrow> VerifiedLifecycleEvent \<Rightarrow> lifecycle_state \<Rightarrow> lifecycle_state res" where
  "later_step pf item st =
     (let ev = vl_event item in
      (case (lc_entity_key st, lc_operational_key st) of
         (Some entity_key, Some operational_key) \<Rightarrow>
           rbind (case ev_body ev of
                    KeyRotationEvent d \<Rightarrow> rotation_step pf item d entity_key operational_key
                  | _ \<Rightarrow> rbind (entity_step pf item entity_key) (\<lambda>_. Inr operational_key)) (\<lambda>operational'.
           rbind (next_state (lc_prev_state st) ev entity_key operational') (\<lambda>s.
             Inr (st\<lparr>lc_prev_state := s, lc_operational_key := Some operational'\<rparr>)))
       | _ \<Rightarrow> verif_err ''lifecycle keys were not established by ISSUANCE''))"

fun is_issuance :: "event_body \<Rightarrow> bool" where
  "is_issuance (IssuanceEvent _) = True"
| "is_issuance _ = False"

fun is_migration :: "event_body \<Rightarrow> bool" where
  "is_migration (MigrationEvent _) = True"
| "is_migration _ = False"

fun is_terminal :: "event_body \<Rightarrow> bool" where
  "is_terminal (RevocationEvent _) = True"
| "is_terminal RetirementEvent = True"
| "is_terminal _ = False"

text \<open>One iteration; \<open>prev\<close> is \<^verbatim>\<open>events[pos - 1]\<close>, absent in the first.\<close>

definition lifecycle_step ::
  "platform \<Rightarrow> StreamVerifierOptions \<Rightarrow> VerifiedLifecycleEvent option \<Rightarrow> VerifiedLifecycleEvent \<Rightarrow>
   lifecycle_state \<Rightarrow> lifecycle_state res" where
  "lifecycle_step pf opts prev item st =
     (let ev = vl_event item; body = ev_body ev in
      if lc_terminal st
      then Inl (C2spTlogVerificationError ''event appears after terminal lifecycle event'' (Some C_TERMINAL_STATE) None)
      else if prev = None \<and> \<not> is_issuance body \<and> \<not> is_migration body
      then verif_err ''first lifecycle event must be ISSUANCE or verified MIGRATION''
      else if prev \<noteq> None \<and> is_issuance body then verif_err ''duplicate ISSUANCE event''
      else if prev \<noteq> None \<and> is_migration body
      then invalid_migration ''MIGRATION is valid only as destination stream genesis''
      else
        (case so_integration_ms opts of
           None \<Rightarrow> verif_err ''accepted checkpoint integration time is required''
         | Some t \<Rightarrow>
             if later_than (ev_timestamp ev) t
             then verif_err ''event timestamp is later than checkpoint integration time''
             else
               rbind (case prev of None \<Rightarrow> assert_first_chain_fields item
                      | Some p \<Rightarrow> assert_chain_fields pf item p (lc_prev_state st)) (\<lambda>_.
                 if ev_sig ev = [] then verif_err (''missing signature for '' @ event_type_name (body_type body))
                 else
                   rbind (case body of
                            IssuanceEvent d \<Rightarrow> issuance_step pf opts item d st
                          | MigrationEvent d \<Rightarrow>
                              if prev = None then migration_step pf opts item d st else later_step pf item st
                          | _ \<Rightarrow> later_step pf item st)
                     (\<lambda>st'. Inr (if is_terminal body then st'\<lparr>lc_terminal := True\<rparr> else st')))))"

fun lifecycle_loop ::
  "platform \<Rightarrow> StreamVerifierOptions \<Rightarrow> VerifiedLifecycleEvent option \<Rightarrow> VerifiedLifecycleEvent list \<Rightarrow>
   lifecycle_state \<Rightarrow> lifecycle_state res" where
  "lifecycle_loop pf opts prev [] st = Inr st"
| "lifecycle_loop pf opts prev (item # items) st =
     rbind (lifecycle_step pf opts prev item st) (\<lambda>st'. lifecycle_loop pf opts (Some item) items st')"

definition verify_lifecycle ::
  "platform \<Rightarrow> VerifiedLifecycleEvent list \<Rightarrow> StreamVerifierOptions \<Rightarrow> unit res" where
  "verify_lifecycle pf events opts =
     (if events = [] then verif_err ''lifecycle contains no ISSUANCE event''
      else if so_unchained opts then verif_err ''unchained lifecycle verification is not supported''
      else rbind (lifecycle_loop pf opts None events lifecycle_init) (\<lambda>_. Inr ()))"


section \<open>A declarative specification\<close>

text \<open>A role's signature: present, decodable, and valid for the key over the signed bytes of the entry.\<close>

definition signed_by :: "platform \<Rightarrow> VerifiedLifecycleEvent \<Rightarrow> pystr \<Rightarrow> JWK \<Rightarrow> bool" where
  "signed_by pf item signature key \<longleftrightarrow> signature \<noteq> [] \<and>
     (\<exists>sig_bytes signed. b64url_decode signature = Inr sig_bytes
        \<and> signed_c2sp_entry_bytes pf (vl_data item) = Inr signed \<and> jwk_verify pf key signed sig_bytes = Inr True)"

definition timely :: "StreamVerifierOptions \<Rightarrow> LogEvent \<Rightarrow> bool" where
  "timely opts ev \<longleftrightarrow> (\<exists>t. so_integration_ms opts = Some t \<and> \<not> later_than (ev_timestamp ev) t)"

definition trusted_entity :: "StreamVerifierOptions \<Rightarrow> JWK \<Rightarrow> bool" where
  "trusted_entity opts ek \<longleftrightarrow>
     (\<forall>k. so_signer_key opts = Some k \<longrightarrow> (\<exists>t. thumbprint k = Inr t \<and> thumbprint ek = Inr t))"

definition separate_keys :: "JWK \<Rightarrow> JWK \<Rightarrow> bool" where
  "separate_keys a b \<longleftrightarrow> (\<exists>s t. thumbprint a = Inr s \<and> thumbprint b = Inr t \<and> s \<noteq> t)"

definition first_in_chain :: "VerifiedLifecycleEvent \<Rightarrow> bool" where
  "first_in_chain item \<longleftrightarrow>
     vl_chain item = \<lparr>ch_seq = Some 0, ch_prev_event_id = None, ch_prev_state_hash = None\<rparr>"

definition chained :: "platform \<Rightarrow> VerifiedLifecycleEvent \<Rightarrow> json \<Rightarrow> VerifiedLifecycleEvent \<Rightarrow> bool" where
  "chained pf prev state item \<longleftrightarrow>
     (\<exists>n i h. ch_seq (vl_chain prev) = Some n \<and> vl_event_id pf prev = Inr i \<and> state_hash pf state = Inr h
        \<and> vl_chain item = \<lparr>ch_seq = Some (n + 1), ch_prev_event_id = Some i, ch_prev_state_hash = Some h\<rparr>)"

text \<open>
  The lifecycles: events with the entity key, the operational key and the state they leave. Each rule
  is one of the ways the last event may extend a lifecycle.
\<close>

inductive lifecycle ::
  "platform \<Rightarrow> StreamVerifierOptions \<Rightarrow> VerifiedLifecycleEvent list \<Rightarrow> JWK \<Rightarrow> JWK \<Rightarrow> json \<Rightarrow> bool"
  for pf :: platform and opts :: StreamVerifierOptions
where
  issued: "ev_body (vl_event item) = IssuanceEvent d \<Longrightarrow> is_entity_key d = Some ek \<Longrightarrow>
    is_operational_key d = Some ok \<Longrightarrow> \<not> falsy (jwk_kid ek) \<Longrightarrow> \<not> falsy (jwk_kid ok) \<Longrightarrow>
    timely opts (vl_event item) \<Longrightarrow> first_in_chain item \<Longrightarrow> separate_keys ek ok \<Longrightarrow> trusted_entity opts ek \<Longrightarrow>
    signed_by pf item (ev_sig (vl_event item)) ek \<Longrightarrow>
    signed_by pf item (ev_operational_countersig (vl_event item)) ok \<Longrightarrow>
    active_state (ev_domain (vl_event item)) ek ok = Inr s \<Longrightarrow> lifecycle pf opts [item] ek ok s"
| migrated: "ev_body (vl_event item) = MigrationEvent d \<Longrightarrow> so_verify_migration opts = Some vm \<Longrightarrow>
    vm (vl_event item) = Inr r \<Longrightarrow> mg_previous_log d \<noteq> [] \<Longrightarrow> mg_previous_log d \<noteq> mg_new_log d \<Longrightarrow>
    (is_set (cx_lr (so_ctx opts)) \<longrightarrow> cx_lr (so_ctx opts) = Some (mg_new_log d)) \<Longrightarrow>
    timely opts (vl_event item) \<Longrightarrow> first_in_chain item \<Longrightarrow>
    separate_keys (mr_entity_key r) (mr_operational_key r) \<Longrightarrow> trusted_entity opts (mr_entity_key r) \<Longrightarrow>
    JStr (ev_signing_kid (vl_event item)) = jwk_kid (mr_entity_key r) \<Longrightarrow>
    signed_by pf item (ev_sig (vl_event item)) (mr_entity_key r) \<Longrightarrow>
    active_state (ev_domain (vl_event item)) (mr_entity_key r) (mr_operational_key r) = Inr s \<Longrightarrow>
    lifecycle pf opts [item] (mr_entity_key r) (mr_operational_key r) s"
| rotated: "lifecycle pf opts evs ek ok s \<Longrightarrow> \<not> is_terminal (ev_body (vl_event (last evs))) \<Longrightarrow>
    ev_body (vl_event item) = KeyRotationEvent d \<Longrightarrow> kr_new_public_key d = Some nk \<Longrightarrow>
    timely opts (vl_event item) \<Longrightarrow> chained pf (last evs) s item \<Longrightarrow>
    thumbprint ok = Inr (kr_previous_thumbprint d) \<Longrightarrow> JStr (kr_previous_kid d) = jwk_kid ok \<Longrightarrow>
    kr_new_thumbprint d \<noteq> [] \<Longrightarrow> thumbprint nk = Inr (kr_new_thumbprint d) \<Longrightarrow>
    JStr (kr_new_kid d) = jwk_kid nk \<Longrightarrow> separate_keys nk ok \<Longrightarrow> separate_keys ek nk \<Longrightarrow>
    signed_by pf item (ev_sig (vl_event item)) ok \<Longrightarrow> signed_by pf item (kr_new_operational_proof d) nk \<Longrightarrow>
    active_state (ev_domain (vl_event item)) ek nk = Inr s' \<Longrightarrow> lifecycle pf opts (evs @ [item]) ek nk s'"
| entity_signed: "lifecycle pf opts evs ek ok s \<Longrightarrow> \<not> is_terminal (ev_body (vl_event (last evs))) \<Longrightarrow>
    body_type (ev_body (vl_event item)) \<in> {REVOCATION, RETIREMENT, DELEGATION} \<Longrightarrow>
    (\<forall>reason. ev_body (vl_event item) = RevocationEvent reason \<longrightarrow> reason \<in> set RevocationReason) \<Longrightarrow>
    timely opts (vl_event item) \<Longrightarrow> chained pf (last evs) s item \<Longrightarrow>
    JStr (ev_signing_kid (vl_event item)) = jwk_kid ek \<Longrightarrow> signed_by pf item (ev_sig (vl_event item)) ek \<Longrightarrow>
    next_state s (vl_event item) ek ok = Inr s' \<Longrightarrow> lifecycle pf opts (evs @ [item]) ek ok s'"

inductive_cases lifecycle_NilE [elim!]: "lifecycle pf opts [] ek ok s"

section \<open>The loop computes the specification\<close>

lemma verify_event_signature_ok:
  "signature \<noteq> [] \<Longrightarrow> verify_event_signature pf item signature key m = Inr () \<longleftrightarrow> signed_by pf item signature key"
  by (auto simp: verify_event_signature_def signed_by_def rbind_Inr_iff split: sum.splits if_splits)

lemma check_signer_ok: "check_signer opts ek m = Inr () \<and> is_ok (thumbprint ek) \<longleftrightarrow>
    trusted_entity opts ek \<and> is_ok (thumbprint ek)"
  by (auto simp: check_signer_def trusted_entity_def res_simps is_ok_iff split: option.splits)

lemma assert_first_chain_fields_ok: "assert_first_chain_fields item = Inr () \<longleftrightarrow> first_in_chain item"
  by (cases "vl_chain item") (auto simp: assert_first_chain_fields_def first_in_chain_def)

lemma assert_chain_fields_ok: "assert_chain_fields pf item prev s = Inr () \<longleftrightarrow> chained pf prev s item"
  by (cases "vl_chain item") (auto simp: assert_chain_fields_def chained_def res_simps split: option.splits)

lemma lifecycle_loop_snoc:
  "lifecycle_loop pf opts prev (xs @ [y]) st =
   rbind (lifecycle_loop pf opts prev xs st)
     (\<lambda>st'. lifecycle_step pf opts (if xs = [] then prev else Some (last xs)) y st')"
proof (induction xs arbitrary: prev st)
  case Nil
  then show ?case by (cases "lifecycle_step pf opts prev y st") auto
next
  case (Cons x xs)
  then show ?case by (cases "lifecycle_step pf opts prev x st") (auto simp: rbind_assoc)
qed

definition keyed_state :: "bool \<Rightarrow> json \<Rightarrow> JWK \<Rightarrow> JWK \<Rightarrow> lifecycle_state" where
  "keyed_state t s ek ok =
     \<lparr>lc_terminal = t, lc_prev_state = s, lc_entity_key = Some ek, lc_operational_key = Some ok\<rparr>"


lemma thumbprints_separate:
  "rbind (thumbprint a) (\<lambda>s. rbind (thumbprint b) (\<lambda>t. if s = t then distinct_keys_error else k)) = Inr y \<longleftrightarrow>
   separate_keys a b \<and> k = Inr y"
  by (auto simp: separate_keys_def res_simps distinct_keys_error_def split: if_splits)

lemma separate_keys_ok: "separate_keys a b \<Longrightarrow> is_ok (thumbprint a) \<and> is_ok (thumbprint b)"
  by (auto simp: separate_keys_def is_ok_iff)

lemma check_signer_trusted: "separate_keys ek ok \<Longrightarrow> check_signer opts ek m = Inr () \<longleftrightarrow> trusted_entity opts ek"
  using check_signer_ok [of opts ek m] separate_keys_ok [of ek ok] by blast

lemma issuance_step_ok:
  assumes "ev_sig (vl_event item) \<noteq> []"
  shows "issuance_step pf opts item d st = Inr st' \<longleftrightarrow>
    (\<exists>ek ok s. is_entity_key d = Some ek \<and> is_operational_key d = Some ok \<and> \<not> falsy (jwk_kid ek)
       \<and> \<not> falsy (jwk_kid ok) \<and> separate_keys ek ok \<and> trusted_entity opts ek
       \<and> signed_by pf item (ev_sig (vl_event item)) ek
       \<and> signed_by pf item (ev_operational_countersig (vl_event item)) ok
       \<and> active_state (ev_domain (vl_event item)) ek ok = Inr s
       \<and> st' = st\<lparr>lc_prev_state := s, lc_entity_key := Some ek, lc_operational_key := Some ok\<rparr>)"
proof (cases "\<exists>ek ok. is_entity_key d = Some ek \<and> is_operational_key d = Some ok")
  case True
  then obtain ek ok where k: "is_entity_key d = Some ek" "is_operational_key d = Some ok" by blast
  have m: "assert_issuance_key_metadata d = Inr () \<longleftrightarrow>
      \<not> falsy (jwk_kid ek) \<and> \<not> falsy (jwk_kid ok) \<and> separate_keys ek ok"
    by (simp add: assert_issuance_key_metadata_def k thumbprints_separate no_key_metadata_def)
  show ?thesis
  proof (cases "assert_issuance_key_metadata d")
    case (Inl e)
    then have "\<not> (\<not> falsy (jwk_kid ek) \<and> \<not> falsy (jwk_kid ok) \<and> separate_keys ek ok)" using m by simp
    with Inl show ?thesis by (auto simp: issuance_step_def k Let_def)
  next
    case (Inr u)
    then have s: "\<not> falsy (jwk_kid ek)" "\<not> falsy (jwk_kid ok)" "separate_keys ek ok" using m by auto
    have c: "ev_operational_countersig (vl_event item) = [] \<Longrightarrow>
        \<not> signed_by pf item (ev_operational_countersig (vl_event item)) ok" by (simp add: signed_by_def)
    show ?thesis
      using Inr s assms c
      by (auto simp: issuance_step_def k Let_def rbind_Inr_iff verify_event_signature_ok
            check_signer_trusted [OF s(3)] split: if_splits)
  qed
next
  case False
  then show ?thesis
    by (auto simp: issuance_step_def Let_def assert_issuance_key_metadata_def no_key_metadata_def split: option.splits)
qed

lemma migration_step_ok:
  assumes "ev_sig (vl_event item) \<noteq> []"
  shows "migration_step pf opts item d st = Inr st' \<longleftrightarrow>
    (\<exists>vm r s. so_verify_migration opts = Some vm \<and> vm (vl_event item) = Inr r \<and> mg_previous_log d \<noteq> []
       \<and> mg_previous_log d \<noteq> mg_new_log d
       \<and> (is_set (cx_lr (so_ctx opts)) \<longrightarrow> cx_lr (so_ctx opts) = Some (mg_new_log d))
       \<and> separate_keys (mr_entity_key r) (mr_operational_key r) \<and> trusted_entity opts (mr_entity_key r)
       \<and> JStr (ev_signing_kid (vl_event item)) = jwk_kid (mr_entity_key r)
       \<and> signed_by pf item (ev_sig (vl_event item)) (mr_entity_key r)
       \<and> active_state (ev_domain (vl_event item)) (mr_entity_key r) (mr_operational_key r) = Inr s
       \<and> st' = st\<lparr>lc_prev_state := s, lc_entity_key := Some (mr_entity_key r),
                  lc_operational_key := Some (mr_operational_key r)\<rparr>)"
proof (cases "so_verify_migration opts")
  case None
  then show ?thesis by (auto simp: migration_step_def Let_def invalid_migration_def)
next
  case (Some vm)
  have guards: ?thesis if "mg_previous_log d = [] \<or> mg_previous_log d = mg_new_log d
      \<or> is_set (cx_lr (so_ctx opts)) \<and> cx_lr (so_ctx opts) \<noteq> Some (mg_new_log d)"
    using that by (auto simp: migration_step_def Let_def invalid_migration_def Some)
  have ?thesis if g: "mg_previous_log d \<noteq> []" "mg_previous_log d \<noteq> mg_new_log d"
    "is_set (cx_lr (so_ctx opts)) \<longrightarrow> cx_lr (so_ctx opts) = Some (mg_new_log d)"
  proof (cases "vm (vl_event item)")
    case (Inl e)
    with g show ?thesis by (auto simp: migration_step_def Let_def Some)
  next
    case (Inr r)
    have n1: "\<not> (mg_previous_log d = [] \<or> mg_previous_log d = mg_new_log d)"
      and n2: "\<not> (is_set (cx_lr (so_ctx opts)) \<and> Some (mg_new_log d) \<noteq> cx_lr (so_ctx opts))" using g by auto
    have "migration_step pf opts item d st = Inr st' \<longleftrightarrow>
        separate_keys (mr_entity_key r) (mr_operational_key r) \<and>
        rbind (check_signer opts (mr_entity_key r) ''MIGRATION entity key does not match trusted entity key'') (\<lambda>_.
          if JStr (ev_signing_kid (vl_event item)) \<noteq> jwk_kid (mr_entity_key r)
          then verif_err ''MIGRATION signature kid does not match entity key''
          else
            rbind (verify_event_signature pf item (ev_sig (vl_event item)) (mr_entity_key r)
                     ''invalid MIGRATION entity signature'') (\<lambda>_.
            rbind (active_state (ev_domain (vl_event item)) (mr_entity_key r) (mr_operational_key r)) (\<lambda>s.
              Inr (st\<lparr>lc_prev_state := s, lc_entity_key := Some (mr_entity_key r),
                      lc_operational_key := Some (mr_operational_key r)\<rparr>)))) = Inr st'"
      unfolding migration_step_def Let_def Some option.case if_not_P [OF n1] if_not_P [OF n2] Inr
      by (simp only: rbind_simps thumbprints_separate)
    then show ?thesis
      using g assms by (auto simp: Some Inr rbind_Inr_iff verify_event_signature_ok check_signer_trusted split: if_splits)
  qed
  with guards show ?thesis by blast
qed

lemma rotation_step_ok:
  assumes "ev_sig (vl_event item) \<noteq> []"
  shows "rotation_step pf item d ek ok = Inr nk \<longleftrightarrow>
    kr_new_public_key d = Some nk \<and> thumbprint ok = Inr (kr_previous_thumbprint d)
    \<and> JStr (kr_previous_kid d) = jwk_kid ok \<and> kr_new_thumbprint d \<noteq> []
    \<and> thumbprint nk = Inr (kr_new_thumbprint d) \<and> JStr (kr_new_kid d) = jwk_kid nk
    \<and> separate_keys nk ok \<and> separate_keys ek nk
    \<and> signed_by pf item (ev_sig (vl_event item)) ok \<and> signed_by pf item (kr_new_operational_proof d) nk"
proof (cases "kr_new_public_key d")
  case None
  then show ?thesis
    by (auto simp: rotation_step_def assert_rotation_key_metadata_def Let_def rbind_Inr_iff split: if_splits)
next
  case (Some k)
  have e: "\<not> signed_by pf item [] k" by (simp add: signed_by_def)
  show ?thesis
    using assms e
    by (auto simp: rotation_step_def assert_rotation_key_metadata_def Let_def rbind_Inr_iff Some
          verify_event_signature_ok separate_keys_def distinct_keys_error_def split: if_splits) metis
qed

lemma entity_step_ok:
  assumes "ev_sig (vl_event item) \<noteq> []" "\<not> is_migration (ev_body (vl_event item))"
  shows "entity_step pf item ek = Inr () \<longleftrightarrow>
    JStr (ev_signing_kid (vl_event item)) = jwk_kid ek \<and> signed_by pf item (ev_sig (vl_event item)) ek
    \<and> (\<forall>reason. ev_body (vl_event item) = RevocationEvent reason \<longrightarrow> reason \<in> set RevocationReason)"
  using assms
  by (cases "ev_body (vl_event item)")
    (simp_all add: entity_step_def Let_def rbind_Inr_iff verify_event_signature_ok
       del: set_simps)


lemma first_step_ok:
  "lifecycle_step pf opts None item lifecycle_init = Inr st \<longleftrightarrow>
   (\<exists>ek ok s. lifecycle pf opts [item] ek ok s \<and> st = keyed_state False s ek ok)"
  (is "?l \<longleftrightarrow> ?r")
proof
  assume l: ?l
  then have t: "timely opts (vl_event item)" "first_in_chain item" "ev_sig (vl_event item) \<noteq> []"
    by (auto simp: lifecycle_step_def lifecycle_init_def Let_def timely_def rbind_Inr_iff
        assert_first_chain_fields_ok split: option.splits if_splits)
  show ?r
  proof (cases "ev_body (vl_event item)")
    case (IssuanceEvent d)
    with l have "issuance_step pf opts item d lifecycle_init = Inr st"
      by (auto simp: lifecycle_step_def lifecycle_init_def Let_def rbind_Inr_iff split: option.splits if_splits)
    then obtain ek ok s where "lifecycle pf opts [item] ek ok s"
      "st = lifecycle_init\<lparr>lc_prev_state := s, lc_entity_key := Some ek, lc_operational_key := Some ok\<rparr>"
      unfolding issuance_step_ok [OF t(3)] using t IssuanceEvent by (blast intro: lifecycle.issued)
    then show ?thesis by (auto simp: keyed_state_def lifecycle_init_def)
  next
    case (MigrationEvent d)
    with l have "migration_step pf opts item d lifecycle_init = Inr st"
      by (auto simp: lifecycle_step_def lifecycle_init_def Let_def rbind_Inr_iff split: option.splits if_splits)
    then obtain ek ok s where "lifecycle pf opts [item] ek ok s"
      "st = lifecycle_init\<lparr>lc_prev_state := s, lc_entity_key := Some ek, lc_operational_key := Some ok\<rparr>"
      unfolding migration_step_ok [OF t(3)] using t MigrationEvent by (blast intro: lifecycle.migrated)
    then show ?thesis by (auto simp: keyed_state_def lifecycle_init_def)
  qed (use l in \<open>auto simp: lifecycle_step_def lifecycle_init_def Let_def\<close>)
next
  assume ?r
  then obtain ek ok s where L: "lifecycle pf opts [item] ek ok s" and st: "st = keyed_state False s ek ok" by blast
  from L show ?l
  proof cases
    case (issued d)
    then have e: "ev_sig (vl_event item) \<noteq> []" by (simp add: signed_by_def)
    with issued have "issuance_step pf opts item d lifecycle_init = Inr st"
      by (simp add: issuance_step_ok st keyed_state_def lifecycle_init_def)
    with issued e show ?thesis
      by (auto simp: lifecycle_step_def timely_def assert_first_chain_fields_ok [THEN iffD2] lifecycle_init_def)
  next
    case (migrated d vm r)
    then have e: "ev_sig (vl_event item) \<noteq> []" by (simp add: signed_by_def)
    with migrated have "migration_step pf opts item d lifecycle_init = Inr st"
      by (simp add: migration_step_ok st keyed_state_def lifecycle_init_def)
    with migrated e show ?thesis
      by (auto simp: lifecycle_step_def timely_def assert_first_chain_fields_ok [THEN iffD2] lifecycle_init_def)
  qed (auto simp: append_eq_Cons_conv)
qed


lemma lifecycle_nonempty: "lifecycle pf opts evs ek ok s \<Longrightarrow> evs \<noteq> []"
  by (induction rule: lifecycle.induct) auto

lemma genesis_not_terminal: "lifecycle pf opts [x] ek ok s \<Longrightarrow> \<not> is_terminal (ev_body (vl_event x))"
  by (erule lifecycle.cases) (auto dest: lifecycle_nonempty)

text \<open>What a later iteration checks before it looks at the event's own kind.\<close>

definition follows :: "platform \<Rightarrow> StreamVerifierOptions \<Rightarrow> VerifiedLifecycleEvent \<Rightarrow> json \<Rightarrow> VerifiedLifecycleEvent \<Rightarrow> bool" where
  "follows pf opts p s item \<longleftrightarrow> timely opts (vl_event item) \<and> chained pf p s item \<and> ev_sig (vl_event item) \<noteq> []"

lemma step_unfold:
  "lifecycle_step pf opts (Some p) item (keyed_state t s ek ok) = Inr st \<longleftrightarrow>
   \<not> t \<and> \<not> is_issuance (ev_body (vl_event item)) \<and> \<not> is_migration (ev_body (vl_event item))
   \<and> follows pf opts p s item
   \<and> (\<exists>st'. later_step pf item (keyed_state t s ek ok) = Inr st'
        \<and> st = (if is_terminal (ev_body (vl_event item)) then st'\<lparr>lc_terminal := True\<rparr> else st'))"
  by (cases "ev_body (vl_event item)")
    (auto simp: lifecycle_step_def Let_def keyed_state_def invalid_migration_def follows_def timely_def rbind_Inr_iff
       assert_chain_fields_ok split: option.splits if_splits)

lemma later_step_rotation:
  "ev_body (vl_event item) = KeyRotationEvent d \<Longrightarrow>
   later_step pf item (keyed_state t s ek ok) = Inr st \<longleftrightarrow>
   (\<exists>nk s'. rotation_step pf item d ek ok = Inr nk \<and> active_state (ev_domain (vl_event item)) ek nk = Inr s'
      \<and> st = keyed_state t s' ek nk)"
  by (auto simp: later_step_def keyed_state_def Let_def rbind_Inr_iff next_state_def)

lemma later_step_entity:
  "body_type (ev_body (vl_event item)) \<noteq> KEY_ROTATION \<Longrightarrow>
   later_step pf item (keyed_state t s ek ok) = Inr st \<longleftrightarrow>
   (\<exists>s'. entity_step pf item ek = Inr () \<and> next_state s (vl_event item) ek ok = Inr s' \<and> st = keyed_state t s' ek ok)"
  by (cases "ev_body (vl_event item)") (auto simp: later_step_def keyed_state_def Let_def rbind_Inr_iff)

lemma lifecycle_snoc_cases:
  assumes "lifecycle pf opts (evs @ [item]) ek ok s'" "evs \<noteq> []"
  obtains (rotated) d okb s where "lifecycle pf opts evs ek okb s" "\<not> is_terminal (ev_body (vl_event (last evs)))"
      "ev_body (vl_event item) = KeyRotationEvent d" "follows pf opts (last evs) s item"
      "rotation_step pf item d ek okb = Inr ok" "active_state (ev_domain (vl_event item)) ek ok = Inr s'"
  | (entity) s where "lifecycle pf opts evs ek ok s" "\<not> is_terminal (ev_body (vl_event (last evs)))"
      "body_type (ev_body (vl_event item)) \<in> {REVOCATION, RETIREMENT, DELEGATION}"
      "follows pf opts (last evs) s item" "entity_step pf item ek = Inr ()" "next_state s (vl_event item) ek ok = Inr s'"
  using assms(1)
proof cases
  case (rotated evs' okb s item' d)
  then have "ev_sig (vl_event item) \<noteq> []" by (simp add: signed_by_def)
  with rotated show ?thesis
    by (intro that(1) [of okb s d]) (simp_all add: follows_def rotation_step_ok)
next
  case (entity_signed evs' s item')
  then have e: "ev_sig (vl_event item) \<noteq> []" by (simp add: signed_by_def)
  have m: "\<not> is_migration (ev_body (vl_event item))" using entity_signed by (cases "ev_body (vl_event item)") auto
  have "follows pf opts (last evs) s item" using e entity_signed by (simp add: follows_def)
  moreover have "entity_step pf item ek = Inr ()" using entity_signed e m by (auto simp add: entity_step_ok)
  ultimately show ?thesis using entity_signed by (intro that(2)) simp_all
qed (use assms(2) in auto)

lemma lifecycle_snocI_rotated:
  "lifecycle pf opts evs ek ok s \<Longrightarrow> \<not> is_terminal (ev_body (vl_event (last evs))) \<Longrightarrow>
   ev_body (vl_event item) = KeyRotationEvent d \<Longrightarrow> follows pf opts (last evs) s item \<Longrightarrow>
   rotation_step pf item d ek ok = Inr nk \<Longrightarrow> active_state (ev_domain (vl_event item)) ek nk = Inr s' \<Longrightarrow>
   lifecycle pf opts (evs @ [item]) ek nk s'"
  unfolding follows_def by (elim conjE, subst (asm) rotation_step_ok) (auto intro: lifecycle.rotated)

lemma lifecycle_snocI_entity:
  "lifecycle pf opts evs ek ok s \<Longrightarrow> \<not> is_terminal (ev_body (vl_event (last evs))) \<Longrightarrow>
   body_type (ev_body (vl_event item)) \<in> {REVOCATION, RETIREMENT, DELEGATION} \<Longrightarrow>
   follows pf opts (last evs) s item \<Longrightarrow> entity_step pf item ek = Inr () \<Longrightarrow>
   next_state s (vl_event item) ek ok = Inr s' \<Longrightarrow> lifecycle pf opts (evs @ [item]) ek ok s'"
  unfolding follows_def
  by (elim conjE, subst (asm) entity_step_ok) (cases "ev_body (vl_event item)"; auto intro: lifecycle.entity_signed)+


lemma terminal_state: "keyed_state t s ek ok\<lparr>lc_terminal := u\<rparr> = keyed_state u s ek ok"
  by (simp add: keyed_state_def)

lemma later_step_extends:
  assumes "lifecycle pf opts evs ek ok s"
  shows "lifecycle_step pf opts (Some (last evs)) item
           (keyed_state (is_terminal (ev_body (vl_event (last evs)))) s ek ok) = Inr st \<longleftrightarrow>
         \<not> is_terminal (ev_body (vl_event (last evs))) \<and> follows pf opts (last evs) s item \<and>
         ((\<exists>d nk s'. ev_body (vl_event item) = KeyRotationEvent d \<and> rotation_step pf item d ek ok = Inr nk
             \<and> active_state (ev_domain (vl_event item)) ek nk = Inr s' \<and> st = keyed_state False s' ek nk) \<or>
          (\<exists>s'. body_type (ev_body (vl_event item)) \<in> {REVOCATION, RETIREMENT, DELEGATION}
             \<and> entity_step pf item ek = Inr () \<and> next_state s (vl_event item) ek ok = Inr s'
             \<and> st = keyed_state (is_terminal (ev_body (vl_event item))) s' ek ok))"
  by (cases "ev_body (vl_event item)")
    (auto simp: step_unfold later_step_rotation later_step_entity terminal_state)

text \<open>The loop accepts exactly the lifecycles, and its variables are those of the specification.\<close>

lemma lifecycle_loop_computes:
  "xs \<noteq> [] \<Longrightarrow> lifecycle_loop pf opts None xs lifecycle_init = Inr st \<longleftrightarrow>
   (\<exists>ek ok s. lifecycle pf opts xs ek ok s \<and> st = keyed_state (is_terminal (ev_body (vl_event (last xs)))) s ek ok)"
proof (induction xs arbitrary: st rule: rev_induct)
  case Nil
  then show ?case by simp
next
  case (snoc item xs)
  show ?case
  proof (cases "xs = []")
    case True
    then show ?thesis by (simp add: rbind_Inr_iff first_step_ok) (use genesis_not_terminal in metis)
  next
    case False
    have "lifecycle_loop pf opts None (xs @ [item]) lifecycle_init = Inr st \<longleftrightarrow>
        (\<exists>ek ok s. lifecycle pf opts xs ek ok s \<and> lifecycle_step pf opts (Some (last xs)) item
           (keyed_state (is_terminal (ev_body (vl_event (last xs)))) s ek ok) = Inr st)"
      using snoc.IH [OF False] False by (auto simp: lifecycle_loop_snoc rbind_Inr_iff)
    also have "\<dots> \<longleftrightarrow> (\<exists>ek ok s. lifecycle pf opts (xs @ [item]) ek ok s
        \<and> st = keyed_state (is_terminal (ev_body (vl_event item))) s ek ok)" (is "?l \<longleftrightarrow> ?r")
    proof
      assume ?l
      then show ?r
        using lifecycle_snocI_rotated lifecycle_snocI_entity by (fastforce simp: later_step_extends)
    next
      assume ?r
      then obtain ek ok s where L: "lifecycle pf opts (xs @ [item]) ek ok s"
        and st: "st = keyed_state (is_terminal (ev_body (vl_event item))) s ek ok" by blast
      from L False show ?l
      proof (cases rule: lifecycle_snoc_cases)
        case (rotated d okb s0)
        then have "lifecycle_step pf opts (Some (last xs)) item
            (keyed_state (is_terminal (ev_body (vl_event (last xs)))) s0 ek okb) = Inr st"
          using st by (subst later_step_extends) simp_all
        with rotated show ?thesis by blast
      next
        case (entity s0)
        then have "lifecycle_step pf opts (Some (last xs)) item
            (keyed_state (is_terminal (ev_body (vl_event (last xs)))) s0 ek ok) = Inr st"
          using st by (subst later_step_extends) simp_all
        with entity show ?thesis by blast
      qed
    qed
    finally show ?thesis by simp
  qed
qed

lemma verify_lifecycle_computes:
  "verify_lifecycle pf evs opts = Inr () \<longleftrightarrow> \<not> so_unchained opts \<and> (\<exists>ek ok s. lifecycle pf opts evs ek ok s)"
  by (cases "evs = []") (auto simp: verify_lifecycle_def rbind_Inr_iff lifecycle_loop_computes)


section \<open>Properties\<close>

text \<open>
  The shape of an accepted list: a genesis event at the front and nowhere else, nothing after a
  terminal event, sequence numbers that count the positions, every later event naming its
  predecessor by identifier.
\<close>

definition genesis :: "VerifiedLifecycleEvent \<Rightarrow> bool" where
  "genesis item \<longleftrightarrow> is_issuance (ev_body (vl_event item)) \<or> is_migration (ev_body (vl_event item))"

definition well_placed :: "platform \<Rightarrow> VerifiedLifecycleEvent list \<Rightarrow> nat \<Rightarrow> bool" where
  "well_placed pf evs i \<longleftrightarrow>
     (genesis (evs ! i) \<longleftrightarrow> i = 0)
     \<and> (is_terminal (ev_body (vl_event (evs ! i))) \<longrightarrow> Suc i = length evs)
     \<and> ch_seq (vl_chain (evs ! i)) = Some (int i)
     \<and> (if i = 0 then ch_prev_event_id (vl_chain (evs ! i)) = None
        else (\<exists>p. vl_event_id pf (evs ! (i - 1)) = Inr p \<and> ch_prev_event_id (vl_chain (evs ! i)) = Some p))"

lemma well_placed_snoc:
  assumes "\<forall>i < length evs. well_placed pf evs i" "evs \<noteq> []" "\<not> is_terminal (ev_body (vl_event (last evs)))"
    and "chained pf (last evs) s item" "\<not> genesis item"
  shows "\<forall>i < length (evs @ [item]). well_placed pf (evs @ [item]) i"
proof (intro allI impI)
  fix i
  assume i: "i < length (evs @ [item])"
  have l: "last evs = evs ! (length evs - 1)" using assms(2) by (rule last_conv_nth)
  show "well_placed pf (evs @ [item]) i"
  proof (cases "i < length evs")
    case True
    have "Suc i = length evs \<Longrightarrow> i = length evs - 1" by simp
    with True have "well_placed pf evs i" "Suc i = length evs \<Longrightarrow> \<not> is_terminal (ev_body (vl_event (evs ! i)))"
      using assms(1,3) l by (metis, metis)
    with True show ?thesis by (auto simp: well_placed_def nth_append split: if_splits)
  next
    case False
    then have e: "i = length evs" using i by simp
    have "well_placed pf evs (length evs - 1)" using assms(1,2) by simp
    then have "ch_seq (vl_chain (last evs)) = Some (int (length evs) - 1)"
      using assms(2) l by (auto simp: well_placed_def of_nat_diff Suc_le_eq)
    then show ?thesis
      using assms(2,4,5) l by (auto simp: e well_placed_def nth_append chained_def)
  qed
qed

lemma lifecycle_placed: "lifecycle pf opts evs ek ok s \<Longrightarrow> \<forall>i < length evs. well_placed pf evs i"
proof (induction rule: lifecycle.induct)
  case (rotated evs ek ok s item)
  then show ?case
    by (intro well_placed_snoc) (auto simp: genesis_def dest: lifecycle_nonempty)
next
  case (entity_signed evs ek ok s item)
  moreover have "\<not> genesis item" using entity_signed.hyps(3) by (cases "ev_body (vl_event item)") (auto simp: genesis_def)
  ultimately show ?case by (intro well_placed_snoc) (auto dest: lifecycle_nonempty)
qed (auto simp: well_placed_def genesis_def first_in_chain_def)

lemma lifecycle_prefix:
  "lifecycle pf opts (xs @ ys) ek ok s \<Longrightarrow> xs \<noteq> [] \<Longrightarrow>
   \<exists>ok' s'. lifecycle pf opts xs ek ok' s' \<and> (ys \<noteq> [] \<longrightarrow> \<not> is_terminal (ev_body (vl_event (last xs))))"
proof (induction ys arbitrary: ok s rule: rev_induct)
  case Nil
  then show ?case by auto
next
  case (snoc y ys)
  have L: "lifecycle pf opts ((xs @ ys) @ [y]) ek ok s" using snoc.prems(1) by simp
  have n: "xs @ ys \<noteq> []" using snoc.prems(2) by simp
  obtain ok' s' where p: "lifecycle pf opts (xs @ ys) ek ok' s'" "\<not> is_terminal (ev_body (vl_event (last (xs @ ys))))"
    using L n by (rule lifecycle_snoc_cases) blast+
  show ?case
    using snoc.IH [OF p(1) snoc.prems(2)] p by (cases "ys = []") auto
qed

lemma lifecycle_keys: "lifecycle pf opts evs ek ok s \<Longrightarrow> separate_keys ek ok \<and> trusted_entity opts ek"
  by (induction rule: lifecycle.induct) auto


text \<open>
  C5: \<^verbatim>\<open>verify_lifecycle\<close> accepts exactly the declaratively specified lifecycles: a genesis event
  signed by the entity key and the operational key it names (or a MIGRATION whose prior history the
  callback verified), then rotations signed by the key they replace and by the key they introduce,
  and delegations or one final revocation or retirement signed by the entity key, each chained to its
  predecessor's identifier and to the hash of the state before it.
\<close>

theorem lifecycle_refines_spec:
  "verify_lifecycle pf evs opts = Inr () \<longleftrightarrow> \<not> so_unchained opts \<and> (\<exists>ek ok s. lifecycle pf opts evs ek ok s)"
  by (rule verify_lifecycle_computes)

text \<open>
  C16: An accepted event list has one shape: only its first event is a genesis event, a terminal event
  can only be its last, the signed sequence numbers are the positions, and every later event carries
  the identifier of the event before it. Every nonempty prefix is accepted too.
\<close>

theorem accepted_lifecycle_shape:
  assumes "verify_lifecycle pf evs opts = Inr ()" "i < length evs"
  shows "well_placed pf evs i \<and> verify_lifecycle pf (take (Suc i) evs) opts = Inr ()"
proof -
  obtain ek ok s where L: "lifecycle pf opts evs ek ok s" and u: "\<not> so_unchained opts"
    using assms(1) by (auto simp: verify_lifecycle_computes)
  have n: "take (Suc i) evs \<noteq> []" using assms(2) by auto
  have "lifecycle pf opts (take (Suc i) evs @ drop (Suc i) evs) ek ok s" using L by simp
  from lifecycle_prefix [OF this n] have "verify_lifecycle pf (take (Suc i) evs) opts = Inr ()"
    using u by (auto simp: verify_lifecycle_computes)
  then show ?thesis using lifecycle_placed [OF L] assms(2) by blast
qed


section \<open>A sample lifecycle\<close>

text \<open>
  Two Ed25519 keys, whose last byte is 1 and 2 and whose other bytes are 0; the sample platform accepts the public
  key as signature.
\<close>

abbreviation sample_ek_x :: pystr where
  "sample_ek_x \<equiv> str ''AAAAAAAAAAAAAAAAAAAAAAAAAAAAAAAAAAAAAAAAAAE''"

abbreviation sample_ok_x :: pystr where
  "sample_ok_x \<equiv> str ''AAAAAAAAAAAAAAAAAAAAAAAAAAAAAAAAAAAAAAAAAAI''"

definition sample_ek :: JWK where
  "sample_ek = jwk_from_dict
     [(str ''alg'', JStr (str ''EdDSA'')), (str ''crv'', JStr (str ''Ed25519'')), (str ''kid'', JStr (str ''e'')),
      (str ''kty'', JStr (str ''OKP'')), (str ''x'', JStr sample_ek_x)]"

definition sample_ok :: JWK where
  "sample_ok = jwk_from_dict
     [(str ''alg'', JStr (str ''EdDSA'')), (str ''crv'', JStr (str ''Ed25519'')), (str ''kid'', JStr (str ''o'')),
      (str ''kty'', JStr (str ''OKP'')), (str ''x'', JStr sample_ok_x)]"

lemma sample_thumbprint_inputs:
  "thumbprint_input (jwk_raw sample_ek) = Inr
     [123, 34, 99, 114, 118, 34, 58, 34, 69, 100, 50, 53, 53, 49, 57, 34, 44, 34, 107, 116, 121, 34,
      58, 34, 79, 75, 80, 34, 44, 34, 120, 34, 58, 34, 65, 65, 65, 65, 65, 65, 65, 65, 65, 65, 65,
      65, 65, 65, 65, 65, 65, 65, 65, 65, 65, 65, 65, 65, 65, 65, 65, 65, 65, 65, 65, 65, 65, 65,
      65, 65, 65, 65, 65, 65, 65, 65, 69, 34, 125]"
  "thumbprint_input (jwk_raw sample_ok) = Inr
     [123, 34, 99, 114, 118, 34, 58, 34, 69, 100, 50, 53, 53, 49, 57, 34, 44, 34, 107, 116, 121, 34,
      58, 34, 79, 75, 80, 34, 44, 34, 120, 34, 58, 34, 65, 65, 65, 65, 65, 65, 65, 65, 65, 65, 65,
      65, 65, 65, 65, 65, 65, 65, 65, 65, 65, 65, 65, 65, 65, 65, 65, 65, 65, 65, 65, 65, 65, 65,
      65, 65, 65, 65, 65, 65, 65, 65, 73, 34, 125]"
  by code_simp+

lemma sample_keys_separate: "separate_keys sample_ek sample_ok"
proof -
  obtain x y where x: "thumbprint_input (jwk_raw sample_ek) = Inr x" and y: "thumbprint_input (jwk_raw sample_ok) = Inr y"
    and "sha256_digest x \<noteq> sha256_digest y"
    using sample_thumbprint_inputs digest_a digest_b by auto
  then have "b64url_encode (sha256_digest x) False \<noteq> b64url_encode (sha256_digest y) False"
    using b64url_encode_inj by blast
  then show ?thesis
    by (simp add: separate_keys_def thumbprint_def compute_thumbprint_def x y sha256_def)
qed

text \<open>The entry
  \<^verbatim>\<open>{"ek":{"alg":"EdDSA","crv":"Ed25519","kid":"e","kty":"OKP","x":"AAAAAAAAAAAAAAAAAAAAAAAAAAAAAAAAAAAAAAAAAAE"},"fqdn":"a.example","gi":"g","kind":"dnsid.lifecycle","ku":{"alg":"EdDSA","crv":"Ed25519","kid":"o","kty":"OKP","x":"AAAAAAAAAAAAAAAAAAAAAAAAAAAAAAAAAAAAAAAAAAI"},"log_origin":"log.example/a","lr":"c2sp-tlog:testnet:https://log.example/a#s1","method":"c2sp-tlog","seq":0,"sigs":{"ae":{"kid":"e","sig":"AAAAAAAAAAAAAAAAAAAAAAAAAAAAAAAAAAAAAAAAAAE"},"op":{"kid":"o","sig":"AAAAAAAAAAAAAAAAAAAAAAAAAAAAAAAAAAAAAAAAAAI"}},"stream_id":"s1","ts":17,"type":"ISSUANCE","v":1}\<close>.\<close>

definition sample_issuance_entry :: bytes where
  "sample_issuance_entry =
     [123, 34, 101, 107, 34, 58, 123, 34, 97, 108, 103, 34, 58, 34, 69, 100, 68, 83, 65, 34, 44, 34,
      99, 114, 118, 34, 58, 34, 69, 100, 50, 53, 53, 49, 57, 34, 44, 34, 107, 105, 100, 34, 58, 34,
      101, 34, 44, 34, 107, 116, 121, 34, 58, 34, 79, 75, 80, 34, 44, 34, 120, 34, 58, 34, 65, 65,
      65, 65, 65, 65, 65, 65, 65, 65, 65, 65, 65, 65, 65, 65, 65, 65, 65, 65, 65, 65, 65, 65, 65,
      65, 65, 65, 65, 65, 65, 65, 65, 65, 65, 65, 65, 65, 65, 65, 65, 65, 69, 34, 125, 44, 34, 102,
      113, 100, 110, 34, 58, 34, 97, 46, 101, 120, 97, 109, 112, 108, 101, 34, 44, 34, 103, 105, 34,
      58, 34, 103, 34, 44, 34, 107, 105, 110, 100, 34, 58, 34, 100, 110, 115, 105, 100, 46, 108,
      105, 102, 101, 99, 121, 99, 108, 101, 34, 44, 34, 107, 117, 34, 58, 123, 34, 97, 108, 103, 34,
      58, 34, 69, 100, 68, 83, 65, 34, 44, 34, 99, 114, 118, 34, 58, 34, 69, 100, 50, 53, 53, 49,
      57, 34, 44, 34, 107, 105, 100, 34, 58, 34, 111, 34, 44, 34, 107, 116, 121, 34, 58, 34, 79, 75,
      80, 34, 44, 34, 120, 34, 58, 34, 65, 65, 65, 65, 65, 65, 65, 65, 65, 65, 65, 65, 65, 65, 65,
      65, 65, 65, 65, 65, 65, 65, 65, 65, 65, 65, 65, 65, 65, 65, 65, 65, 65, 65, 65, 65, 65, 65,
      65, 65, 65, 65, 73, 34, 125, 44, 34, 108, 111, 103, 95, 111, 114, 105, 103, 105, 110, 34, 58,
      34, 108, 111, 103, 46, 101, 120, 97, 109, 112, 108, 101, 47, 97, 34, 44, 34, 108, 114, 34, 58,
      34, 99, 50, 115, 112, 45, 116, 108, 111, 103, 58, 116, 101, 115, 116, 110, 101, 116, 58, 104,
      116, 116, 112, 115, 58, 47, 47, 108, 111, 103, 46, 101, 120, 97, 109, 112, 108, 101, 47, 97,
      35, 115, 49, 34, 44, 34, 109, 101, 116, 104, 111, 100, 34, 58, 34, 99, 50, 115, 112, 45, 116,
      108, 111, 103, 34, 44, 34, 115, 101, 113, 34, 58, 48, 44, 34, 115, 105, 103, 115, 34, 58, 123,
      34, 97, 101, 34, 58, 123, 34, 107, 105, 100, 34, 58, 34, 101, 34, 44, 34, 115, 105, 103, 34,
      58, 34, 65, 65, 65, 65, 65, 65, 65, 65, 65, 65, 65, 65, 65, 65, 65, 65, 65, 65, 65, 65, 65,
      65, 65, 65, 65, 65, 65, 65, 65, 65, 65, 65, 65, 65, 65, 65, 65, 65, 65, 65, 65, 65, 69, 34,
      125, 44, 34, 111, 112, 34, 58, 123, 34, 107, 105, 100, 34, 58, 34, 111, 34, 44, 34, 115, 105,
      103, 34, 58, 34, 65, 65, 65, 65, 65, 65, 65, 65, 65, 65, 65, 65, 65, 65, 65, 65, 65, 65, 65,
      65, 65, 65, 65, 65, 65, 65, 65, 65, 65, 65, 65, 65, 65, 65, 65, 65, 65, 65, 65, 65, 65, 65,
      73, 34, 125, 125, 44, 34, 115, 116, 114, 101, 97, 109, 95, 105, 100, 34, 58, 34, 115, 49, 34,
      44, 34, 116, 115, 34, 58, 49, 55, 44, 34, 116, 121, 112, 101, 34, 58, 34, 73, 83, 83, 85, 65,
      78, 67, 69, 34, 44, 34, 118, 34, 58, 49, 125]"

definition sample_issuance :: LogEvent where
  "sample_issuance =
     \<lparr>ev_domain = str ''a.example'', ev_timestamp = utc_seconds 17, ev_signing_kid = str ''e'',
      ev_sig = sample_ek_x, ev_operational_countersig = sample_ok_x,
      ev_body = IssuanceEvent \<lparr>is_governance_id = str ''g'', is_entity_key = Some sample_ek,
        is_operational_key = Some sample_ok\<rparr>\<rparr>"

definition sample_item :: VerifiedLifecycleEvent where
  "sample_item =
     \<lparr>vl_index = 0, vl_leaf_hash = leaf_hash sample_issuance_entry, vl_data = sample_issuance_entry,
      vl_event = sample_issuance,
      vl_chain = \<lparr>ch_seq = Some 0, ch_prev_event_id = None, ch_prev_state_hash = None\<rparr>, vl_post_keys = None\<rparr>"

definition sample_options :: StreamVerifierOptions where
  "sample_options =
     \<lparr>so_context = None, so_unchained = False, so_signer_key = None, so_integration_ms = Some (17000, 0),
      so_verify_migration = None, so_cutoff_index = None, so_max_entries = 100000, so_max_entry_bytes = 67108864\<rparr>"

text \<open>The object of the entry. The entry is its canonical form, so reading gives it back.\<close>

definition sample_obj :: jdict where
  "sample_obj =
     [(str ''ek'', JObj (jwk_raw sample_ek)), (str ''fqdn'', JStr (str ''a.example'')), (str ''gi'', JStr (str ''g'')),
      (str ''kind'', JStr (str ''dnsid.lifecycle'')), (str ''ku'', JObj (jwk_raw sample_ok)),
      (str ''log_origin'', JStr (str ''log.example/a'')),
      (str ''lr'', JStr (str ''c2sp-tlog:testnet:https://log.example/a#s1'')),
      (str ''method'', JStr (str ''c2sp-tlog'')), (str ''seq'', JInt 0),
      (str ''sigs'', JObj [(str ''ae'', JObj [(str ''kid'', JStr (str ''e'')), (str ''sig'', JStr sample_ek_x)]),
        (str ''op'', JObj [(str ''kid'', JStr (str ''o'')), (str ''sig'', JStr sample_ok_x)])]),
      (str ''stream_id'', JStr (str ''s1'')), (str ''ts'', JInt 17), (str ''type'', JStr (str ''ISSUANCE'')),
      (str ''v'', JInt 1)]"

lemma sample_bytes: "canon_bytes sample_platform (JObj sample_obj) = Inr sample_issuance_entry"
  by code_simp

lemma sample_read: "read_entry sample_platform sample_issuance_entry = Inr (JObj sample_obj)"
proof -
  have "read_entry sample_platform sample_issuance_entry = Inr (JObj (sort_members sample_obj))"
    by (rule read_entry_written [OF sample_bytes]; code_simp)
  moreover have "sort_members sample_obj = sample_obj" by code_simp
  ultimately show ?thesis by simp
qed

lemma sample_fields_valid: "validate_public_fields sample_platform (JObj sample_obj) no_context = Inr ()"
  by code_simp

lemma sample_envelope: "c2sp_envelope_to_event (JObj sample_obj) = Inr sample_issuance"
  by code_simp

lemma sample_entry_parses:
  "parse_c2sp_event_entry sample_platform sample_issuance_entry no_context True = Inr sample_issuance"
  by (simp add: parse_c2sp_event_entry_def sample_read sample_fields_valid sample_envelope)

lemma sample_signed: "is_ok (signed_c2sp_entry_bytes sample_platform sample_issuance_entry)"
proof -
  have "is_ok (canon_bytes sample_platform (JObj (dict_pop (str ''sigs'') sample_obj)))" by code_simp
  then show ?thesis unfolding signed_c2sp_entry_bytes_def sample_read by (simp only: rbind_simps json.case)
qed

lemma sample_decodes:
  "b64url_decode sample_ek_x = Inr (replicate 31 0 @ [1])" "b64url_decode sample_ok_x = Inr (replicate 31 0 @ [2])"
  by code_simp+

lemma sample_points:
  "valid_ed25519_public_key (replicate 31 0 @ [1])" "valid_ed25519_public_key (replicate 31 0 @ [2])"
  by code_simp+

lemma sample_accepts:
  "jwk_verify sample_platform sample_ek b (replicate 31 0 @ [1]) = Inr True"
  "jwk_verify sample_platform sample_ok b (replicate 31 0 @ [2]) = Inr True"
  by code_simp+

lemma sample_signed_by:
  "signed_by sample_platform sample_item sample_ek_x sample_ek"
  "signed_by sample_platform sample_item sample_ok_x sample_ok"
proof -
  obtain b where b: "signed_c2sp_entry_bytes sample_platform (vl_data sample_item) = Inr b"
    using sample_signed by (auto simp: is_ok_iff sample_item_def)
  show "signed_by sample_platform sample_item sample_ek_x sample_ek"
    unfolding signed_by_def using b sample_accepts(1) sample_decodes(1) by blast
  show "signed_by sample_platform sample_item sample_ok_x sample_ok"
    unfolding signed_by_def using b sample_accepts(2) sample_decodes(2) by blast
qed

lemma sample_fields:
  "vl_event sample_item = sample_issuance" "ev_sig sample_issuance = sample_ek_x"
  "ev_operational_countersig sample_issuance = sample_ok_x" "ev_domain sample_issuance = str ''a.example''"
  "ev_body sample_issuance = IssuanceEvent \<lparr>is_governance_id = str ''g'', is_entity_key = Some sample_ek,
     is_operational_key = Some sample_ok\<rparr>"
  by (simp_all add: sample_item_def sample_issuance_def)

lemma sample_kids: "\<not> falsy (jwk_kid sample_ek)" "\<not> falsy (jwk_kid sample_ok)"
  by code_simp+

lemma sample_lifecycle: "\<exists>s. lifecycle sample_platform sample_options [sample_item] sample_ek sample_ok s"
proof -
  obtain s where s: "active_state (ev_domain (vl_event sample_item)) sample_ek sample_ok = Inr s"
    using sample_keys_separate by (auto simp: separate_keys_def active_state_def state_dict_def)
  have "timely sample_options sample_issuance"
    by (simp add: timely_def sample_options_def) code_simp
  then have "lifecycle sample_platform sample_options [sample_item] sample_ek sample_ok s"
    by (intro lifecycle.issued [OF _ _ _ sample_kids _ _ sample_keys_separate _ _ _ s])
       (simp_all only: sample_fields sample_signed_by IssuanceData.simps,
        simp_all add: first_in_chain_def sample_item_def trusted_entity_def sample_options_def)
  then show ?thesis ..
qed


lemma sample_verifies: "verify_lifecycle sample_platform [sample_item] sample_options = Inr ()"
  using sample_lifecycle by (auto simp: verify_lifecycle_computes sample_options_def)

theorem accepted_lifecycle_shape_witness:
  "well_placed sample_platform [sample_item] 0
    \<and> verify_lifecycle sample_platform (take (Suc 0) [sample_item]) sample_options = Inr ()"
  by (rule accepted_lifecycle_shape [OF sample_verifies]) simp

end
