(* ===== verification/Stream_Verifier.thy ===== *)
theory Stream_Verifier
  imports Lifecycle
begin

text \<open>
  The selection of \<^verbatim>\<open>dnsid/c2sp_tlog/stream_verifier.py\<close>: \<^verbatim>\<open>verify_stream_lifecycle\<close> scans the entries of
  a stream in index order and keeps those that extend the domain's lifecycle. The generator and the
  driver \<^verbatim>\<open>run_verification\<close> that answers its requests for the history behind a MIGRATION are one
  function: the callback is a function of the event, so asking it once and remembering the answer is
  asking it every time. The deadline error of the callback passes the generator's handlers by.
\<close>

section \<open>Data\<close>

record IndexedEntry =
  ie_index :: int
  ie_data :: bytes

text \<open>
  The variables of the loop. \<^verbatim>\<open>applied\<close> maps the identifier of each selected event to the event; the
  two hold the same objects.
\<close>

record selection =
  sl_selected :: "VerifiedLifecycleEvent list"
  sl_applied :: "(pystr \<times> VerifiedLifecycleEvent) list"

definition selection_init :: selection where
  "selection_init = \<lparr>sl_selected = [], sl_applied = []\<rparr>"

definition default_options :: StreamVerifierOptions where
  "default_options =
     \<lparr>so_context = None, so_unchained = False, so_signer_key = None, so_integration_ms = None,
      so_verify_migration = None, so_cutoff_index = None, so_max_entries = 100000,
      so_max_entry_bytes = 64 * 1024 * 1024\<rparr>"

text \<open>\<^verbatim>\<open>selected[:selected.index(item)]\<close> with one more event where \<open>k\<close> is 1.\<close>

definition list_index :: "'a list \<Rightarrow> 'a \<Rightarrow> nat" where
  "list_index xs x = length (takeWhile (\<lambda>y. y \<noteq> x) xs)"

definition upto_item :: "'a list \<Rightarrow> 'a \<Rightarrow> nat \<Rightarrow> 'a list res" where
  "upto_item xs x k =
     (if x \<in> set xs then Inr (take (list_index xs x + k) xs) else Inl (ValueError ''not in list''))"

section \<open>Keys in force\<close>

definition genesis_keys :: "StreamVerifierOptions \<Rightarrow> LogEvent \<Rightarrow> (JWK \<times> JWK) res" where
  "genesis_keys opts first =
     (case ev_body first of
        IssuanceEvent d \<Rightarrow>
          (case (is_entity_key d, is_operational_key d) of
             (Some entity_key, Some operational_key) \<Rightarrow> Inr (entity_key, operational_key)
           | _ \<Rightarrow> no_key_metadata)
      | MigrationEvent d \<Rightarrow>
          (case so_verify_migration opts of
             None \<Rightarrow> verif_err ''lifecycle keys require ISSUANCE or verified MIGRATION''
           | Some verify_migration \<Rightarrow>
               rbind (verify_migration first) (\<lambda>migrated. Inr (mr_entity_key migrated, mr_operational_key migrated)))
      | _ \<Rightarrow> verif_err ''lifecycle keys require ISSUANCE or verified MIGRATION'')"

fun rotated_key :: "JWK \<Rightarrow> VerifiedLifecycleEvent list \<Rightarrow> JWK res" where
  "rotated_key operational_key [] = Inr operational_key"
| "rotated_key operational_key (item # items) =
     (case ev_body (vl_event item) of
        KeyRotationEvent d \<Rightarrow>
          (case kr_new_public_key d of
             None \<Rightarrow> verif_err ''KEY_ROTATION is missing c2sp-tlog key metadata''
           | Some k \<Rightarrow> rotated_key k items)
      | _ \<Rightarrow> rotated_key operational_key items)"

definition applied_keys ::
  "VerifiedLifecycleEvent list \<Rightarrow> StreamVerifierOptions \<Rightarrow> (JWK \<times> JWK) res" where
  "applied_keys selected opts =
     (case selected of
        [] \<Rightarrow> Inl (RuntimeError ''IndexError'')
      | first # items \<Rightarrow>
          (case vl_post_keys (last selected) of
             Some keys \<Rightarrow> Inr keys
           | None \<Rightarrow>
               rbind (genesis_keys opts (vl_event first)) (\<lambda>(entity_key, operational_key).
               rbind (rotated_key operational_key items) (\<lambda>k. Inr (entity_key, k)))))"

section \<open>Authentication of a candidate\<close>

text \<open>\<^verbatim>\<open>except C2spTlogResourceLimitError: raise\<close>, then \<^verbatim>\<open>return False\<close> for the verification errors.\<close>

definition unverified_is_false :: "bool res \<Rightarrow> bool res" where
  "unverified_is_false r =
     (case r of
        Inr ok \<Rightarrow> Inr ok
      | Inl e \<Rightarrow>
          if is_C2spTlogResourceLimitError e then Inl e
          else if is_C2spTlogVerificationError e \<or> is_VerificationError e then Inr False else Inl e)"

text \<open>\<^verbatim>\<open>except C2spTlogResourceLimitError: raise\<close>, then \<^verbatim>\<open>except Exception\<close>.\<close>

definition on_error :: "'a res \<Rightarrow> (exn \<Rightarrow> 'a res) \<Rightarrow> 'a res" where
  "on_error r h = (case r of Inr x \<Rightarrow> Inr x | Inl e \<Rightarrow> if is_C2spTlogResourceLimitError e then Inl e else h e)"

definition migration_signed_by ::
  "platform \<Rightarrow> VerifiedLifecycleEvent \<Rightarrow> JWK \<Rightarrow> bool res" where
  "migration_signed_by pf candidate key =
     (if JStr (ev_signing_kid (vl_event candidate)) \<noteq> jwk_kid key then Inr False
      else
        unverified_is_false
          (rbind (verify_event_signature pf candidate (ev_sig (vl_event candidate)) key
                    ''invalid MIGRATION entity signature'') (\<lambda>_. Inr True)))"

definition genesis_authenticated ::
  "platform \<Rightarrow> VerifiedLifecycleEvent \<Rightarrow> StreamVerifierOptions \<Rightarrow> bool res" where
  "genesis_authenticated pf candidate opts =
     (let ev = vl_event candidate in
      (case ev_body ev of
         IssuanceEvent d \<Rightarrow>
           (case (is_entity_key d, is_operational_key d) of
              (Some entity_key, Some operational_key) \<Rightarrow>
                if JStr (ev_signing_kid ev) \<noteq> jwk_kid entity_key then Inr False
                else
                  rbind (case so_signer_key opts of
                           None \<Rightarrow> Inr True
                         | Some k \<Rightarrow>
                             rbind (thumbprint k) (\<lambda>a. rbind (thumbprint entity_key) (\<lambda>b. Inr (a = b))))
                    (\<lambda>trusted.
                       if \<not> trusted then Inr False
                       else
                         rbind (verify_event_signature pf candidate (ev_sig ev) entity_key
                                  ''invalid ISSUANCE entity signature'') (\<lambda>_.
                         rbind (verify_event_signature pf candidate (ev_operational_countersig ev) operational_key
                                  ''invalid ISSUANCE operational countersignature'') (\<lambda>_. Inr True)))
            | _ \<Rightarrow> Inr False)
       | _ \<Rightarrow> Inr False))"

definition countersigned ::
  "platform \<Rightarrow> VerifiedLifecycleEvent \<Rightarrow> IssuanceData \<Rightarrow> JWK \<Rightarrow> bool res" where
  "countersigned pf candidate d entity_key =
     (case (is_entity_key d, is_operational_key d) of
        (Some e, Some k) \<Rightarrow>
          rbind (thumbprint e) (\<lambda>a.
          rbind (thumbprint entity_key) (\<lambda>b.
            if a \<noteq> b then Inr False
            else
              rbind (verify_event_signature pf candidate (ev_operational_countersig (vl_event candidate)) k
                       ''invalid ISSUANCE countersignature'') (\<lambda>_. Inr True)))
      | _ \<Rightarrow> Inr False)"

definition later_authenticated ::
  "platform \<Rightarrow> VerifiedLifecycleEvent \<Rightarrow> JWK \<Rightarrow> JWK \<Rightarrow> bool res" where
  "later_authenticated pf candidate entity_key operational_key =
     (let ev = vl_event candidate in
      rbind (case ev_body ev of IssuanceEvent d \<Rightarrow> countersigned pf candidate d entity_key | _ \<Rightarrow> Inr True) (\<lambda>go.
        if \<not> go then Inr False
        else
          (case ev_body ev of
             KeyRotationEvent d \<Rightarrow>
               if JStr (kr_previous_kid d) \<noteq> jwk_kid operational_key then Inr False
               else
                 rbind (verify_event_signature pf candidate (ev_sig ev) operational_key
                          ''invalid KEY_ROTATION signature'') (\<lambda>_.
                 (case kr_new_public_key d of
                    None \<Rightarrow> Inr False
                  | Some new_key \<Rightarrow>
                      rbind (verify_event_signature pf candidate (kr_new_operational_proof d) new_key
                               ''invalid KEY_ROTATION proof'') (\<lambda>_. Inr True)))
           | _ \<Rightarrow>
               if JStr (ev_signing_kid ev) \<noteq> jwk_kid entity_key then Inr False
               else
                 rbind (verify_event_signature pf candidate (ev_sig ev) entity_key
                          ''invalid lifecycle entity signature'') (\<lambda>_. Inr True))))"

definition candidate_is_authenticated ::
  "platform \<Rightarrow> VerifiedLifecycleEvent \<Rightarrow> VerifiedLifecycleEvent list \<Rightarrow> StreamVerifierOptions \<Rightarrow> bool res" where
  "candidate_is_authenticated pf candidate selected opts =
     (let ev = vl_event candidate in
      if selected = [] \<and> is_migration (ev_body ev) then
        (case so_verify_migration opts of
           None \<Rightarrow> verif_err ''MIGRATION requires verified prior-log history''
         | Some verify_migration \<Rightarrow>
             (case so_signer_key opts of
                None \<Rightarrow> rbind (verify_migration ev) (\<lambda>migrated. migration_signed_by pf candidate (mr_entity_key migrated))
              | Some key \<Rightarrow>
                  rbind (migration_signed_by pf candidate key) (\<lambda>ok.
                    if \<not> ok then Inr False else rbind (verify_migration ev) (\<lambda>_. Inr True))))
      else
        unverified_is_false
          (if selected = [] then genesis_authenticated pf candidate opts
           else
             rbind (applied_keys selected opts) (\<lambda>(entity_key, operational_key).
               later_authenticated pf candidate entity_key operational_key)))"

text \<open>\<^verbatim>\<open>next((v for v in selected if v.event_id == i), None)\<close>\<close>

fun find_event :: "platform \<Rightarrow> VerifiedLifecycleEvent list \<Rightarrow> json \<Rightarrow> VerifiedLifecycleEvent option res" where
  "find_event pf [] i = Inr None"
| "find_event pf (v # vs) i =
     rbind (vl_event_id pf v) (\<lambda>j. if JStr j = i then Inr (Some v) else find_event pf vs i)"

text \<open>\<^verbatim>\<open>jwk_from_dict(obj[name])\<close>\<close>

definition key_member :: "jdict \<Rightarrow> string \<Rightarrow> JWK res" where
  "key_member obj name =
     (case map_of obj (str name) of
        None \<Rightarrow> Inl (KeyError name)
      | Some (JObj d) \<Rightarrow> Inr (jwk_from_dict d)
      | Some _ \<Rightarrow> Inl (TypeError ''AttributeError''))"

text \<open>The keys an unparsable entry would have to be signed with; \<open>None\<close> where the code returns False.\<close>

definition malformed_authority ::
  "platform \<Rightarrow> jdict \<Rightarrow> VerifiedLifecycleEvent list \<Rightarrow> StreamVerifierOptions \<Rightarrow> (JWK \<times> JWK) option res" where
  "malformed_authority pf obj selected opts =
     (if selected = [] then
        (if field_of obj ''type'' \<noteq> JStr (str ''ISSUANCE'') then Inr None
         else
           rbind (key_member obj ''ek'') (\<lambda>entity.
           rbind (key_member obj ''ku'') (\<lambda>operational.
             (case so_signer_key opts of
                None \<Rightarrow> Inr (Some (entity, operational))
              | Some k \<Rightarrow>
                  rbind (thumbprint entity) (\<lambda>a. rbind (thumbprint k) (\<lambda>b.
                    Inr (if a \<noteq> b then None else Some (entity, operational))))))))
      else
        rbind (find_event pf selected (field_of obj ''prev_event_id'')) (\<lambda>predecessor.
        rbind (case predecessor of None \<Rightarrow> Inr selected | Some v \<Rightarrow> upto_item selected v 1) (\<lambda>authority.
        rbind (applied_keys authority opts) (\<lambda>keys. Inr (Some keys)))))"

definition role_keys :: "jdict \<Rightarrow> sigdict \<Rightarrow> JWK \<Rightarrow> JWK \<Rightarrow> (string \<times> JWK) list option res" where
  "role_keys obj sigs entity operational =
     rbind (if map_of sigs ''op'' = None then Inr (Some [])
            else
              rbind (key_member obj ''ek'') (\<lambda>ek.
              rbind (thumbprint ek) (\<lambda>a.
              rbind (thumbprint entity) (\<lambda>b.
                if a \<noteq> b then Inr None
                else rbind (key_member obj ''ku'') (\<lambda>ku. Inr (Some [(''op'', ku)])))))) (\<lambda>ops.
     rbind (if ops = None \<or> map_of sigs ''new_op'' = None then Inr []
            else rbind (key_member obj ''new_ku'') (\<lambda>k. Inr [(''new_op'', k)])) (\<lambda>news.
       Inr (map_option (\<lambda>extra. [(''ae'', entity), (''prev_op'', operational)] @ extra @ news) ops)))"

fun roles_verified ::
  "platform \<Rightarrow> (string \<times> JWK) list \<Rightarrow> bytes \<Rightarrow> sigdict \<Rightarrow> bool res" where
  "roles_verified pf keys payload [] = Inr True"
| "roles_verified pf keys payload ((role, sig) # sigs) =
     (case map_of keys role of
        None \<Rightarrow> Inl (KeyError role)
      | Some key \<Rightarrow>
          if JStr (sv_kid sig) \<noteq> jwk_kid key then Inr False
          else
            rbind (b64url_decode (sv_sig sig)) (\<lambda>b.
            rbind (jwk_verify pf key payload b) (\<lambda>ok.
              if \<not> ok then Inr False else roles_verified pf keys payload sigs)))"

definition malformed_check ::
  "platform \<Rightarrow> bytes \<Rightarrow> pystr \<Rightarrow> VerifiedLifecycleEvent list \<Rightarrow> StreamVerifierOptions \<Rightarrow> bool res" where
  "malformed_check pf data domain selected opts =
     rbind (parse_json_no_duplicate_members (pf_float_text pf) data) (\<lambda>value.
     rbind (signed_c2sp_entry_bytes pf data) (\<lambda>signed.
     rbind (validate_public_fields pf value (so_ctx opts)) (\<lambda>_.
       (case value of
          JObj obj \<Rightarrow>
            if field_of obj ''fqdn'' \<noteq> JStr domain \<or> \<not> is_one (field_of obj ''v'')
               \<or> field_of obj ''kind'' \<noteq> JStr (str ''dnsid.lifecycle'')
            then Inr False
            else
              rbind (parse_c2sp_signatures (field_of obj ''sigs'') (field_of obj ''type'') True) (\<lambda>sigs.
              rbind (malformed_authority pf obj selected opts) (\<lambda>keys.
                (case keys of
                   None \<Rightarrow> Inr False
                 | Some (entity, operational) \<Rightarrow>
                     rbind (role_keys obj sigs entity operational) (\<lambda>ks.
                       (case ks of None \<Rightarrow> Inr False | Some k \<Rightarrow> roles_verified pf k signed sigs)))))
        | _ \<Rightarrow> Inl (TypeError ''AttributeError'')))))"

definition malformed_authenticated ::
  "platform \<Rightarrow> bytes \<Rightarrow> pystr \<Rightarrow> VerifiedLifecycleEvent list \<Rightarrow> StreamVerifierOptions \<Rightarrow> bool res" where
  "malformed_authenticated pf data domain selected opts =
     on_error (malformed_check pf data domain selected opts) (\<lambda>_. Inr False)"

section \<open>The selection loop\<close>

fun contains :: "string \<Rightarrow> string \<Rightarrow> bool" where
  "contains p [] = (p = [])"
| "contains p (c # cs) = (take (length p) (c # cs) = p \<or> contains p cs)"

definition authenticated_failure_category :: "exn \<Rightarrow> LogEvent \<Rightarrow> C2spLifecycleErrorCategory option" where
  "authenticated_failure_category e ev =
     (if is_C2spTlogVerificationError e \<and> exn_category e \<noteq> None then exn_category e
      else
        let message = exn_text e in
        if contains ''seq'' message \<or> contains ''prev_'' message \<or> contains ''public lifecycle event'' message
        then Some CHAIN_CONTINUITY
        else
          (case ev_body ev of
             KeyRotationEvent _ \<Rightarrow> Some C_KEY_CONTINUITY
           | MigrationEvent _ \<Rightarrow> Some C_INVALID_MIGRATION
           | _ \<Rightarrow> if contains ''terminal lifecycle'' message then Some C_TERMINAL_STATE else None))"

definition candidate_error :: "string \<Rightarrow> C2spLifecycleErrorCategory option \<Rightarrow> int \<Rightarrow> 'a res" where
  "candidate_error m category index = Inl (C2spTlogVerificationError m category (Some index))"

text \<open>
  \<^verbatim>\<open>applied.get(str(raw.get("prev_event_id", "")))\<close>: identifiers are 43 base64url characters, which the
  text of a null, a boolean, a float, an array or an object never is.
\<close>

definition predecessor_of :: "jdict \<Rightarrow> (pystr \<times> 'a) list \<Rightarrow> 'a option" where
  "predecessor_of obj applied =
     (case dget obj ''prev_event_id'' (JStr []) of
        JStr s \<Rightarrow> map_of applied s
      | JInt n \<Rightarrow> map_of applied (dec_of_int n)
      | _ \<Rightarrow> None)"

text \<open>
  The request for the history behind a genesis MIGRATION. The outer error leaves the generator at
  once; the inner one is thrown into it.
\<close>

definition resolve_migration :: "StreamVerifierOptions \<Rightarrow> LogEvent \<Rightarrow> (unit res) res" where
  "resolve_migration opts ev =
     (case so_verify_migration opts of
        None \<Rightarrow> record_invalid ''verification requires a resource resolver''
      | Some verify_migration \<Rightarrow>
          (case verify_migration ev of
             Inl (VerificationError DEADLINE_EXCEEDED m t) \<Rightarrow> Inl (VerificationError DEADLINE_EXCEEDED m t)
           | Inl e \<Rightarrow> Inr (Inl e)
           | Inr _ \<Rightarrow> Inr (Inr ())))"

definition request_history ::
  "platform \<Rightarrow> VerifiedLifecycleEvent \<Rightarrow> VerifiedLifecycleEvent list \<Rightarrow> StreamVerifierOptions \<Rightarrow> (unit res) res" where
  "request_history pf candidate selected opts =
     (if selected = [] \<and> is_migration (ev_body (vl_event candidate)) then
        (case (case so_signer_key opts of None \<Rightarrow> Inr True | Some key \<Rightarrow> migration_signed_by pf candidate key) of
           Inl e \<Rightarrow> Inr (Inl e)
         | Inr wanted \<Rightarrow> if wanted then resolve_migration opts (vl_event candidate) else Inr (Inr ()))
      else Inr (Inr ()))"

definition authenticate ::
  "platform \<Rightarrow> jdict \<Rightarrow> VerifiedLifecycleEvent \<Rightarrow> selection \<Rightarrow> StreamVerifierOptions \<Rightarrow> (bool res) res" where
  "authenticate pf obj candidate st opts =
     (let selected = sl_selected st in
      (case (case predecessor_of obj (sl_applied st) of None \<Rightarrow> Inr selected | Some p \<Rightarrow> upto_item selected p 1) of
         Inl e \<Rightarrow> Inr (Inl e)
       | Inr authority \<Rightarrow>
           rbind (request_history pf candidate selected opts) (\<lambda>r.
             Inr (rbind r (\<lambda>_. candidate_is_authenticated pf candidate authority opts)))))"

definition apply_candidate ::
  "platform \<Rightarrow> VerifiedLifecycleEvent \<Rightarrow> bool \<Rightarrow> selection \<Rightarrow> StreamVerifierOptions \<Rightarrow> selection res" where
  "apply_candidate pf candidate chain_error st opts =
     (let selected = sl_selected st; ev = vl_event candidate in
      if chain_error
      then candidate_error ''authenticated lifecycle candidate has invalid chain fields'' (Some CHAIN_CONTINUITY)
             (vl_index candidate)
      else if selected \<noteq> [] \<and> is_issuance (ev_body ev)
      then candidate_error ''authenticated duplicate ISSUANCE event'' (Some C_DUPLICATE_ISSUANCE) (vl_index candidate)
      else
        rbind (on_error (verify_lifecycle pf (selected @ [candidate]) opts) (\<lambda>e.
                 candidate_error ''authenticated lifecycle candidate is invalid''
                   (authenticated_failure_category e ev) (vl_index candidate))) (\<lambda>_.
        rbind (applied_keys (selected @ [candidate]) opts) (\<lambda>keys.
          let item = candidate\<lparr>vl_post_keys := Some keys\<rparr> in
          rbind (vl_event_id pf item) (\<lambda>i.
            Inr \<lparr>sl_selected = selected @ [item], sl_applied = dict_set i item (sl_applied st)\<rparr>))))"

definition no_chain :: chain_fields where
  "no_chain = \<lparr>ch_seq = None, ch_prev_event_id = None, ch_prev_state_hash = None\<rparr>"

definition candidate_of :: "IndexedEntry \<Rightarrow> LogEvent \<Rightarrow> chain_fields \<Rightarrow> VerifiedLifecycleEvent" where
  "candidate_of entry ev chain =
     \<lparr>vl_index = ie_index entry, vl_leaf_hash = leaf_hash (ie_data entry), vl_data = ie_data entry,
      vl_event = ev, vl_chain = chain, vl_post_keys = None\<rparr>"

definition judge_candidate ::
  "platform \<Rightarrow> jdict \<Rightarrow> VerifiedLifecycleEvent \<Rightarrow> bool \<Rightarrow> selection \<Rightarrow> StreamVerifierOptions \<Rightarrow> selection res" where
  "judge_candidate pf obj candidate chain_error st opts =
     (let selected = sl_selected st; body = ev_body (vl_event candidate) in
      if selected = [] \<and> \<not> is_issuance body \<and> \<not> is_migration body then Inr st
      else if selected = [] \<and> is_migration body \<and> so_verify_migration opts = None
      then candidate_error ''MIGRATION requires verified prior-log history'' (Some C_INVALID_MIGRATION)
             (vl_index candidate)
      else
        rbind (authenticate pf obj candidate st opts) (\<lambda>r.
          (case r of
             Inl e \<Rightarrow>
               if is_C2spTlogResourceLimitError e then Inl e
               else if selected = [] \<and> is_migration body
               then candidate_error ''MIGRATION prior-log history could not be verified'' (Some C_INVALID_MIGRATION)
                      (vl_index candidate)
               else Inr st
           | Inr ok \<Rightarrow> if ok then apply_candidate pf candidate chain_error st opts else Inr st)))"

definition select_event ::
  "platform \<Rightarrow> IndexedEntry \<Rightarrow> jdict \<Rightarrow> LogEvent \<Rightarrow> selection \<Rightarrow> StreamVerifierOptions \<Rightarrow> selection res" where
  "select_event pf entry obj ev st opts =
     (case parse_chain_fields (JObj obj) of
        Inr chain \<Rightarrow> judge_candidate pf obj (candidate_of entry ev chain) False st opts
      | Inl e \<Rightarrow>
          if is_C2spTlogResourceLimitError e then Inl e
          else judge_candidate pf obj (candidate_of entry ev no_chain) True st opts)"

text \<open>The first \<^verbatim>\<open>try\<close> of an iteration: the entry as an object, its signed bytes and its identifier.\<close>

definition read_candidate ::
  "platform \<Rightarrow> bytes \<Rightarrow> StreamVerifierOptions \<Rightarrow> (jdict \<times> bytes \<times> pystr) res" where
  "read_candidate pf data opts =
     rbind (parse_json_no_duplicate_members (pf_float_text pf) data) (\<lambda>value.
     rbind (validate_public_fields pf value (so_ctx opts)) (\<lambda>_.
     rbind (signed_c2sp_entry_bytes pf data) (\<lambda>signed.
     rbind (c2sp_event_id pf data) (\<lambda>identifier.
       (case value of JObj obj \<Rightarrow> Inr (obj, signed, identifier) | _ \<Rightarrow> Inl (TypeError ''AttributeError''))))))"

definition select_entry ::
  "platform \<Rightarrow> pystr \<Rightarrow> StreamVerifierOptions \<Rightarrow> IndexedEntry \<Rightarrow> selection \<Rightarrow> selection res" where
  "select_entry pf domain opts entry st =
     (case read_candidate pf (ie_data entry) opts of
        Inl e \<Rightarrow> if is_C2spTlogResourceLimitError e then Inl e else Inr st
      | Inr (obj, payload, identifier) \<Rightarrow>
          if field_of obj ''fqdn'' \<noteq> JStr domain then Inr st
          else
            (case map_of (sl_applied st) identifier of
               Some previous_copy \<Rightarrow>
                 rbind (signed_c2sp_entry_bytes pf (vl_data previous_copy)) (\<lambda>s.
                   if s \<noteq> payload then verif_err ''logical event ID collision'' else Inr st)
             | None \<Rightarrow>
                 (case parse_c2sp_event_entry pf (ie_data entry) (so_ctx opts) True of
                    Inl e \<Rightarrow>
                      if is_C2spTlogResourceLimitError e then Inl e
                      else
                        rbind (malformed_authenticated pf (ie_data entry) domain (sl_selected st) opts) (\<lambda>forged.
                          if forged
                          then candidate_error ''authenticated lifecycle candidate is malformed''
                                 (Some INVALID_EVIDENCE) (ie_index entry)
                          else Inr st)
                  | Inr ev \<Rightarrow> if ev_domain ev \<noteq> domain then Inr st else select_event pf entry obj ev st opts)))"

fun select_loop ::
  "platform \<Rightarrow> pystr \<Rightarrow> StreamVerifierOptions \<Rightarrow> IndexedEntry list \<Rightarrow> selection \<Rightarrow> selection res" where
  "select_loop pf domain opts [] st = Inr st"
| "select_loop pf domain opts (e # es) st =
     rbind (select_entry pf domain opts e st) (\<lambda>st'. select_loop pf domain opts es st')"

definition verify_occurrence ::
  "platform \<Rightarrow> IndexedEntry \<Rightarrow> VerifiedLifecycleEvent list \<Rightarrow> StreamVerifierOptions \<Rightarrow> VerifiedLifecycleEvent res" where
  "verify_occurrence pf entry selected opts =
     rbind (parse_c2sp_event_entry pf (ie_data entry) (so_ctx opts) False) (\<lambda>ev.
     rbind (parse_json_no_duplicate_members (pf_float_text pf) (ie_data entry)) (\<lambda>value.
     rbind (parse_chain_fields value) (\<lambda>chain.
       let item = candidate_of entry ev chain in
       rbind (vl_event_id pf item) (\<lambda>i.
       rbind (find_event pf selected (JStr i)) (\<lambda>original.
         (case original of
            None \<Rightarrow> verif_err ''occurrence is not in the verified lifecycle''
          | Some v \<Rightarrow>
              rbind (signed_c2sp_entry_bytes pf (vl_data v)) (\<lambda>a.
              rbind (signed_c2sp_entry_bytes pf (vl_data item)) (\<lambda>b.
                if a \<noteq> b then verif_err ''occurrence is not in the verified lifecycle''
                else
                  rbind (upto_item selected v 0) (\<lambda>authority.
                    let opts' = (case (authority, vl_post_keys v) of
                                   ([], Some (entity, operational)) \<Rightarrow>
                                     if is_migration (ev_body ev)
                                     then opts\<lparr>so_verify_migration := Some (\<lambda>_. Inr
                                            \<lparr>mr_entity_key = entity, mr_operational_key = operational,
                                             mr_prior_events = [], mr_prior_event_refs = []\<rparr>)\<rparr>
                                     else opts
                                 | _ \<Rightarrow> opts) in
                    rbind (candidate_is_authenticated pf item authority opts') (\<lambda>ok.
                      if \<not> ok then verif_err ''invalid signed occurrence'' else Inr item))))))))))"

definition apply_cutoff ::
  "platform \<Rightarrow> IndexedEntry list \<Rightarrow> VerifiedLifecycleEvent list \<Rightarrow> StreamVerifierOptions \<Rightarrow>
   VerifiedLifecycleEvent list res" where
  "apply_cutoff pf entries selected opts =
     (case so_cutoff_index opts of
        None \<Rightarrow> Inr selected
      | Some n \<Rightarrow>
          (case find (\<lambda>e. ie_index e = n) entries of
             None \<Rightarrow> verif_err ''missing exact migration cutoff occurrence''
           | Some cutoff_entry \<Rightarrow>
               rbind (verify_occurrence pf cutoff_entry selected opts) (\<lambda>occurrence.
               rbind (vl_event_id pf occurrence) (\<lambda>i.
               rbind (vl_event_id pf (last selected)) (\<lambda>j.
                 if i \<noteq> j then verif_err ''cutoff does not identify final logical event''
                 else
                   Inr (butlast selected @
                     [(last selected)\<lparr>vl_index := ie_index cutoff_entry, vl_data := ie_data cutoff_entry,
                                      vl_leaf_hash := vl_leaf_hash occurrence\<rparr>]))))))"

definition verify_stream_lifecycle ::
  "platform \<Rightarrow> IndexedEntry list \<Rightarrow> pystr \<Rightarrow> StreamVerifierOptions \<Rightarrow> VerifiedLifecycleEvent list res" where
  "verify_stream_lifecycle pf entries domain opts =
     (if so_max_entries opts \<le> 0 \<or> so_max_entry_bytes opts \<le> 0
      then verif_err ''lifecycle limits must be positive integers''
      else if int (length entries) > so_max_entries opts
              \<or> int (sum_list (map (\<lambda>e. length (ie_data e)) entries)) > so_max_entry_bytes opts
      then verif_err ''lifecycle input limit exceeded''
      else
        rbind (select_loop pf domain opts (sort_key ie_index entries) selection_init) (\<lambda>st.
        rbind (verify_lifecycle pf (sl_selected st) opts) (\<lambda>_.
          apply_cutoff pf entries (sl_selected st) opts)))"


section \<open>Keys of a lifecycle\<close>

lemma rotated_key_snoc:
  "rotated_key k (xs @ [y]) = rbind (rotated_key k xs) (\<lambda>k'. rotated_key k' [y])"
  by (induction xs arbitrary: k) (auto split: event_body.splits option.splits)

text \<open>The key replay of \<^verbatim>\<open>_applied_keys\<close> finds the keys that the lifecycle rules compute.\<close>

lemma lifecycle_replay:
  "lifecycle pf opts evs ek ok s \<Longrightarrow>
   \<exists>k. genesis_keys opts (vl_event (hd evs)) = Inr (ek, k) \<and> rotated_key k (tl evs) = Inr ok"
proof (induction rule: lifecycle.induct)
  case (rotated evs ek ok s item d nk s')
  then show ?case by (auto simp: rotated_key_snoc dest: lifecycle_nonempty)
next
  case (entity_signed evs ek ok s item s')
  moreover have "rotated_key k [item] = Inr k" for k
    using entity_signed.hyps(3) by (cases "ev_body (vl_event item)") auto
  ultimately show ?case by (auto simp: rotated_key_snoc dest: lifecycle_nonempty)
qed (simp_all add: genesis_keys_def)

lemma applied_keys_replay:
  assumes "lifecycle pf opts evs ek ok s" "vl_post_keys (last evs) = None"
  shows "applied_keys evs opts = Inr (ek, ok)"
proof (cases evs)
  case Nil
  with assms show ?thesis by auto
next
  case (Cons a list)
  with assms lifecycle_replay [OF assms(1)] show ?thesis
    by (auto simp: applied_keys_def split del: if_split)
qed

text \<open>A lifecycle does not depend on the cached keys of its items.\<close>

definition same_item :: "VerifiedLifecycleEvent \<Rightarrow> VerifiedLifecycleEvent \<Rightarrow> bool" where
  "same_item x y \<longleftrightarrow> x\<lparr>vl_post_keys := None\<rparr> = y\<lparr>vl_post_keys := None\<rparr>"

lemma same_item_fields:
  "same_item x y \<Longrightarrow> vl_index y = vl_index x \<and> vl_data y = vl_data x \<and> vl_event y = vl_event x \<and> vl_chain y = vl_chain x"
  by (cases x; cases y) (simp add: same_item_def)

lemma same_item_refl [simp]: "same_item x x" "same_item x (x\<lparr>vl_post_keys := k\<rparr>)"
  by (simp_all add: same_item_def)

lemma same_item_preds:
  assumes "same_item x y"
  shows "signed_by pf y = signed_by pf x" "first_in_chain y = first_in_chain x"
    "chained pf y = chained pf x" "chained pf p s y = chained pf p s x" "vl_event_id pf y = vl_event_id pf x"
  using same_item_fields [OF assms]
  by (auto simp: signed_by_def first_in_chain_def chained_def vl_event_id_def fun_eq_iff)

lemma lifecycle_same_items:
  "lifecycle pf opts evs ek ok s \<Longrightarrow> list_all2 same_item evs evs' \<Longrightarrow> lifecycle pf opts evs' ek ok s"
proof (induction arbitrary: evs' rule: lifecycle.induct)
  case (issued item d ek ok s)
  then obtain y where y: "evs' = [y]" "same_item item y" by (auto simp: list_all2_Cons1)
  then show ?case
    using issued.hyps same_item_fields [OF y(2)] same_item_preds [OF y(2)] by (auto intro!: lifecycle.issued)
next
  case (migrated item d vm r s)
  then obtain y where y: "evs' = [y]" "same_item item y" by (auto simp: list_all2_Cons1)
  then show ?case
    using migrated.hyps same_item_fields [OF y(2)] same_item_preds [OF y(2)] by (auto intro!: lifecycle.migrated)
next
  case (rotated evs ek ok s item d nk s')
  then obtain ys y where y: "evs' = ys @ [y]" "list_all2 same_item evs ys" "same_item item y"
    by (auto simp: list_all2_append1 list_all2_Cons1)
  have l: "same_item (last evs) (last ys)"
    using y(2) lifecycle_nonempty [OF rotated.hyps(1)] by (metis last_conv_nth list_all2_conv_all_nth diff_less length_greater_0_conv zero_less_one)
  show ?case
    unfolding y(1)
    by (rule lifecycle.rotated [OF rotated.IH [OF y(2)], where d = d])
       (use rotated.hyps same_item_fields [OF y(3)] same_item_preds [OF y(3)] same_item_fields [OF l] same_item_preds [OF l] in simp_all)
next
  case (entity_signed evs ek ok s item s')
  then obtain ys y where y: "evs' = ys @ [y]" "list_all2 same_item evs ys" "same_item item y"
    by (auto simp: list_all2_append1 list_all2_Cons1)
  have l: "same_item (last evs) (last ys)"
    using y(2) lifecycle_nonempty [OF entity_signed.hyps(1)] by (metis last_conv_nth list_all2_conv_all_nth diff_less length_greater_0_conv zero_less_one)
  show ?case
    unfolding y(1)
    by (rule lifecycle.entity_signed [OF entity_signed.IH [OF y(2)]])
       (use entity_signed.hyps same_item_fields [OF y(3)] same_item_preds [OF y(3)] same_item_fields [OF l] same_item_preds [OF l] in simp_all)
qed


section \<open>The selection invariant\<close>

text \<open>A selected item is an entry of the input, parsed.\<close>

definition from_entry ::
  "platform \<Rightarrow> pystr \<Rightarrow> StreamVerifierOptions \<Rightarrow> IndexedEntry \<Rightarrow> VerifiedLifecycleEvent \<Rightarrow> bool" where
  "from_entry pf domain opts e v \<longleftrightarrow>
     vl_index v = ie_index e \<and> vl_data v = ie_data e \<and> vl_leaf_hash v = leaf_hash (ie_data e)
     \<and> parse_c2sp_event_entry pf (ie_data e) (so_ctx opts) True = Inr (vl_event v) \<and> ev_domain (vl_event v) = domain
     \<and> (\<exists>obj. read_entry pf (ie_data e) = Inr (JObj obj) \<and> parse_chain_fields (JObj obj) = Inr (vl_chain v))"

text \<open>The keys cached with an item are those in force after it.\<close>

definition keys_cached :: "platform \<Rightarrow> StreamVerifierOptions \<Rightarrow> VerifiedLifecycleEvent list \<Rightarrow> nat \<Rightarrow> bool" where
  "keys_cached pf opts evs k \<longleftrightarrow>
     (\<exists>ek ok s. lifecycle pf opts (take (Suc k) evs) ek ok s \<and> vl_post_keys (evs ! k) = Some (ek, ok))"

definition indexes :: "platform \<Rightarrow> (pystr \<times> VerifiedLifecycleEvent) list \<Rightarrow> VerifiedLifecycleEvent list \<Rightarrow> bool" where
  "indexes pf applied selected \<longleftrightarrow> map snd applied = selected \<and> distinct (map fst applied)
     \<and> (\<forall>(i, v) \<in> set applied. vl_event_id pf v = Inr i)"

definition selection_inv ::
  "platform \<Rightarrow> pystr \<Rightarrow> StreamVerifierOptions \<Rightarrow> IndexedEntry set \<Rightarrow> selection \<Rightarrow> bool" where
  "selection_inv pf domain opts seen st \<longleftrightarrow>
     (sl_selected st \<noteq> [] \<longrightarrow> \<not> so_unchained opts)
     \<and> (\<forall>k < length (sl_selected st). keys_cached pf opts (sl_selected st) k)
     \<and> indexes pf (sl_applied st) (sl_selected st)
     \<and> (\<forall>v \<in> set (sl_selected st). \<exists>e \<in> seen. from_entry pf domain opts e v)"

lemma selection_inv_init: "selection_inv pf domain opts seen selection_init"
  by (simp add: selection_inv_def selection_init_def indexes_def)

lemma selection_inv_lifecycle:
  assumes "selection_inv pf domain opts seen st" "sl_selected st \<noteq> []"
  obtains ek ok s where "lifecycle pf opts (sl_selected st) ek ok s" "vl_post_keys (last (sl_selected st)) = Some (ek, ok)"
proof -
  have "keys_cached pf opts (sl_selected st) (length (sl_selected st) - 1)"
    using assms by (simp add: selection_inv_def)
  then show thesis using assms(2) that by (auto simp: keys_cached_def last_conv_nth)
qed

text \<open>What a successful application does.\<close>

lemma apply_candidate_Inr:
  assumes "apply_candidate pf candidate chain_error st opts = Inr st'"
  obtains keys i where "\<not> chain_error" "verify_lifecycle pf (sl_selected st @ [candidate]) opts = Inr ()"
    "applied_keys (sl_selected st @ [candidate]) opts = Inr keys" "vl_event_id pf candidate = Inr i"
    "st' = \<lparr>sl_selected = sl_selected st @ [candidate\<lparr>vl_post_keys := Some keys\<rparr>],
            sl_applied = dict_set i (candidate\<lparr>vl_post_keys := Some keys\<rparr>) (sl_applied st)\<rparr>"
  using assms
  by (auto simp: apply_candidate_def Let_def res_simps candidate_error_def on_error_def vl_event_id_def
      split: if_splits sum.splits)

lemma apply_candidate_inv:
  assumes "apply_candidate pf candidate chain_error st opts = Inr st'" "selection_inv pf domain opts seen st"
    and "vl_post_keys candidate = None" "from_entry pf domain opts e candidate" "e \<in> seen"
    and "c2sp_event_id pf (vl_data candidate) = Inr i" "map_of (sl_applied st) i = None"
  shows "selection_inv pf domain opts seen st'"
proof -
  from assms(1) obtain keys where v: "verify_lifecycle pf (sl_selected st @ [candidate]) opts = Inr ()"
    and k: "applied_keys (sl_selected st @ [candidate]) opts = Inr keys"
    and st': "st' = \<lparr>sl_selected = sl_selected st @ [candidate\<lparr>vl_post_keys := Some keys\<rparr>],
            sl_applied = dict_set i (candidate\<lparr>vl_post_keys := Some keys\<rparr>) (sl_applied st)\<rparr>"
    by (rule apply_candidate_Inr) (use assms(6) in \<open>auto simp: vl_event_id_def\<close>)
  let ?item = "candidate\<lparr>vl_post_keys := Some keys\<rparr>"
  from v obtain ek ok s where L: "lifecycle pf opts (sl_selected st @ [candidate]) ek ok s" and u: "\<not> so_unchained opts"
    by (auto simp: verify_lifecycle_computes)
  have keys: "keys = (ek, ok)" using applied_keys_replay [OF L] assms(3) k by simp
  have L': "lifecycle pf opts (sl_selected st @ [?item]) ek ok s"
    by (rule lifecycle_same_items [OF L]) (auto intro!: list_all2_appendI list.rel_refl)
  have "keys_cached pf opts (sl_selected st @ [?item]) j" if "j < length (sl_selected st @ [?item])" for j
  proof (cases "j < length (sl_selected st)")
    case True
    then have "keys_cached pf opts (sl_selected st) j" using assms(2) by (simp add: selection_inv_def)
    with True show ?thesis by (simp add: keys_cached_def nth_append)
  next
    case False
    with that have "j = length (sl_selected st)" by simp
    with L' show ?thesis by (auto simp: keys_cached_def keys)
  qed
  moreover have "from_entry pf domain opts e ?item" using assms(4) by (simp add: from_entry_def)
  moreover have "indexes pf (sl_applied st @ [(i, ?item)]) (sl_selected st @ [?item])"
    using assms(2,6,7) by (auto simp: selection_inv_def indexes_def vl_event_id_def map_of_eq_None_iff)
  ultimately show ?thesis
    using assms(2,5) u by (auto simp: selection_inv_def st' dict_set_new [OF assms(7)])
qed


text \<open>An iteration leaves the state as it is or applies the entry as a candidate.\<close>

lemma judge_candidate_Inr:
  assumes "judge_candidate pf obj candidate err st opts = Inr st'"
  shows "st' = st \<or> authenticate pf obj candidate st opts = Inr (Inr True) \<and> \<not> err
    \<and> apply_candidate pf candidate err st opts = Inr st'"
proof -
  have "st' = st \<or> authenticate pf obj candidate st opts = Inr (Inr True) \<and> apply_candidate pf candidate err st opts = Inr st'"
    using assms
    by (cases "authenticate pf obj candidate st opts")
       (auto simp: judge_candidate_def Let_def candidate_error_def split: if_splits sum.splits)
  moreover have "\<not> err" if "apply_candidate pf candidate err st opts = Inr st'"
    using that by (rule apply_candidate_Inr) blast
  ultimately show ?thesis by blast
qed

lemma select_event_Inr:
  assumes "select_event pf entry obj ev st opts = Inr st'"
  obtains "st' = st"
  | chain where "parse_chain_fields (JObj obj) = Inr chain"
      "authenticate pf obj (candidate_of entry ev chain) st opts = Inr (Inr True)"
      "apply_candidate pf (candidate_of entry ev chain) False st opts = Inr st'"
  using assms judge_candidate_Inr unfolding select_event_def by (fastforce split: sum.splits if_splits)

lemma read_candidate_Inr:
  "read_candidate pf data opts = Inr (obj, payload, i) \<longleftrightarrow>
   parse_json_no_duplicate_members (pf_float_text pf) data = Inr (JObj obj)
   \<and> validate_public_fields pf (JObj obj) (so_ctx opts) = Inr ()
   \<and> signed_c2sp_entry_bytes pf data = Inr payload \<and> c2sp_event_id pf data = Inr i"
proof (cases "parse_json_no_duplicate_members (pf_float_text pf) data")
  case (Inr v)
  then show ?thesis by (cases v) (auto simp: read_candidate_def rbind_Inr_iff)
qed (simp add: read_candidate_def)

lemma parsed_entry_read:
  assumes "parse_c2sp_event_entry pf data ctx c = Inr ev"
    and "parse_json_no_duplicate_members (pf_float_text pf) data = Inr value"
  shows "read_entry pf data = Inr value"
  using assms by (auto simp: parse_c2sp_event_entry_def read_entry_def rbind_Inr_iff)

lemma select_entry_Inr:
  assumes "select_entry pf domain opts entry st = Inr st'"
  obtains "st' = st"
  | obj payload i ev chain where "read_candidate pf (ie_data entry) opts = Inr (obj, payload, i)"
      "map_of (sl_applied st) i = None" "parse_c2sp_event_entry pf (ie_data entry) (so_ctx opts) True = Inr ev"
      "ev_domain ev = domain" "parse_chain_fields (JObj obj) = Inr chain"
      "authenticate pf obj (candidate_of entry ev chain) st opts = Inr (Inr True)"
      "apply_candidate pf (candidate_of entry ev chain) False st opts = Inr st'"
proof (cases "read_candidate pf (ie_data entry) opts")
  case (Inl e)
  with assms show ?thesis using that(1) by (auto simp: select_entry_def split: if_splits)
next
  case (Inr r)
  obtain obj payload i where r: "r = (obj, payload, i)" by (cases r)
  show ?thesis
  proof (cases "st' = st")
    case True
    then show ?thesis by (rule that(1))
  next
    case False
    with assms Inr r obtain ev where a: "map_of (sl_applied st) i = None"
      "parse_c2sp_event_entry pf (ie_data entry) (so_ctx opts) True = Inr ev" "ev_domain ev = domain"
      "select_event pf entry obj ev st opts = Inr st'"
      by (auto simp: select_entry_def rbind_Inr_iff candidate_error_def split: if_splits option.splits sum.splits)
    from a(4) False Inr r a show ?thesis by (elim select_event_Inr) (auto intro: that(2))
  qed
qed

lemma select_entry_inv:
  assumes "select_entry pf domain opts entry st = Inr st'" "selection_inv pf domain opts seen st" "entry \<in> seen"
  shows "selection_inv pf domain opts seen st'"
  using assms(1)
proof (cases rule: select_entry_Inr)
  case 1
  with assms(2) show ?thesis by simp
next
  case (2 obj payload i ev chain)
  from 2(1) have r: "parse_json_no_duplicate_members (pf_float_text pf) (ie_data entry) = Inr (JObj obj)"
    "c2sp_event_id pf (ie_data entry) = Inr i" by (simp_all add: read_candidate_Inr)
  have "from_entry pf domain opts entry (candidate_of entry ev chain)"
    using 2 parsed_entry_read [OF 2(3) r(1)] by (simp add: from_entry_def candidate_of_def)
  then show ?thesis
    using 2 r(2) assms(3) by (intro apply_candidate_inv [OF 2(7) assms(2)]) (auto simp: candidate_of_def)
qed

lemma select_loop_inv:
  "select_loop pf domain opts es st = Inr st' \<Longrightarrow> selection_inv pf domain opts seen st \<Longrightarrow> set es \<subseteq> seen \<Longrightarrow>
   selection_inv pf domain opts seen st'"
proof (induction es arbitrary: st)
  case Nil
  then show ?case by simp
next
  case (Cons e es)
  from Cons.prems(1) obtain st1 where 1: "select_entry pf domain opts e st = Inr st1"
    "select_loop pf domain opts es st1 = Inr st'" by (auto simp: rbind_Inr_iff)
  from select_entry_inv [OF 1(1) Cons.prems(2)] Cons.prems(3) Cons.IH [OF 1(2)] show ?case by simp
qed

text \<open>The events are selected in the order of the log.\<close>

lemma select_entry_extends:
  assumes "select_entry pf domain opts entry st = Inr st'"
  shows "st' = st \<or> (\<exists>v. sl_selected st' = sl_selected st @ [v] \<and> vl_index v = ie_index entry)"
  using assms
proof (cases rule: select_entry_Inr)
  case (2 obj payload i ev chain)
  from 2(7) show ?thesis by (rule apply_candidate_Inr) (auto simp: candidate_of_def)
qed simp

lemma select_loop_sorted:
  "select_loop pf domain opts es st = Inr st' \<Longrightarrow> sorted (map ie_index es) \<Longrightarrow> sorted (map vl_index (sl_selected st)) \<Longrightarrow>
   \<forall>v \<in> set (sl_selected st). \<forall>e \<in> set es. vl_index v \<le> ie_index e \<Longrightarrow> sorted (map vl_index (sl_selected st'))"
proof (induction es arbitrary: st)
  case Nil
  then show ?case by simp
next
  case (Cons e es)
  from Cons.prems(1) obtain st1 where 1: "select_entry pf domain opts e st = Inr st1"
    "select_loop pf domain opts es st1 = Inr st'" by (auto simp: rbind_Inr_iff)
  have x: "st1 = st \<or> (\<exists>v. sl_selected st1 = sl_selected st @ [v] \<and> vl_index v = ie_index e)"
    using select_entry_extends [OF 1(1)] .
  show ?case
    by (rule Cons.IH [OF 1(2)]) (use x Cons.prems(2-4) in \<open>auto simp: sorted_append\<close>)
qed


section \<open>Soundness of the selection\<close>

lemma find_event_Some:
  "find_event pf vs (JStr i) = Inr (Some v) \<Longrightarrow> v \<in> set vs \<and> vl_event_id pf v = Inr i"
  by (induction vs) (auto simp: rbind_Inr_iff split: if_splits)

lemma verify_occurrence_Inr:
  assumes "verify_occurrence pf entry selected opts = Inr item"
  obtains v i where "v \<in> set selected" "vl_event_id pf v = Inr i" "vl_event_id pf item = Inr i"
    "signed_c2sp_entry_bytes pf (ie_data entry) = signed_c2sp_entry_bytes pf (vl_data v)"
    "vl_leaf_hash item = leaf_hash (ie_data entry)" "vl_data item = ie_data entry"
proof -
  from assms obtain ev chain i v a where i: "item = candidate_of entry ev chain" "vl_event_id pf item = Inr i"
    and f: "find_event pf selected (JStr i) = Inr (Some v)"
    and "signed_c2sp_entry_bytes pf (vl_data v) = Inr a" "signed_c2sp_entry_bytes pf (vl_data item) = Inr a"
    unfolding verify_occurrence_def Let_def by (auto simp: rbind_Inr_iff split: option.splits if_splits)
  then show thesis
    using find_event_Some [OF f] by (intro that [of v i]) (auto simp: candidate_of_def)
qed

definition moved_to :: "IndexedEntry \<Rightarrow> VerifiedLifecycleEvent \<Rightarrow> VerifiedLifecycleEvent" where
  "moved_to e v = v\<lparr>vl_index := ie_index e, vl_data := ie_data e, vl_leaf_hash := leaf_hash (ie_data e)\<rparr>"

lemma apply_cutoff_Inr:
  assumes "apply_cutoff pf entries selected opts = Inr result" "distinct (map (vl_event_id pf) selected)" "selected \<noteq> []"
  shows "case so_cutoff_index opts of
      None \<Rightarrow> result = selected
    | Some n \<Rightarrow> \<exists>e \<in> set entries. ie_index e = n \<and> result = butlast selected @ [moved_to e (last selected)]
        \<and> signed_c2sp_entry_bytes pf (ie_data e) = signed_c2sp_entry_bytes pf (vl_data (last selected))"
proof (cases "so_cutoff_index opts")
  case None
  with assms(1) show ?thesis by (simp add: apply_cutoff_def)
next
  case (Some n)
  with assms(1) obtain e occ i where e: "find (\<lambda>e. ie_index e = n) entries = Some e"
    and occ: "verify_occurrence pf e selected opts = Inr occ"
    and i: "vl_event_id pf occ = Inr i" "vl_event_id pf (last selected) = Inr i"
    and r: "result = butlast selected @ [(last selected)\<lparr>vl_index := ie_index e, vl_data := ie_data e,
                                      vl_leaf_hash := vl_leaf_hash occ\<rparr>]"
    by (auto simp: apply_cutoff_def rbind_Inr_iff split: option.splits if_splits)
  obtain v where v: "v \<in> set selected" "vl_event_id pf v = Inr i" "vl_leaf_hash occ = leaf_hash (ie_data e)"
    "signed_c2sp_entry_bytes pf (ie_data e) = signed_c2sp_entry_bytes pf (vl_data v)"
    using occ by (rule verify_occurrence_Inr) (use i in auto)
  have "v = last selected"
    using assms(2,3) v(1,2) i(2) last_in_set [OF assms(3)] by (metis distinct_map inj_onD)
  with v e r show ?thesis by (auto simp: Some moved_to_def find_Some_iff)
qed

lemma distinct_ids: "indexes pf applied selected \<Longrightarrow> distinct (map (vl_event_id pf) selected)"
proof -
  assume x: "indexes pf applied selected"
  then have "map (vl_event_id pf) selected = map Inr (map fst applied)"
    by (force simp: indexes_def)
  with x show ?thesis by (auto simp: indexes_def distinct_map inj_on_def)
qed

lemma stream_lifecycle_selected:
  assumes "verify_stream_lifecycle pf entries domain opts = Inr result"
  shows "\<exists>selected ek ok s. lifecycle pf opts selected ek ok s
    \<and> (\<forall>v \<in> set selected. \<exists>e \<in> set entries. from_entry pf domain opts e v)
    \<and> sorted (map vl_index selected) \<and> distinct (map (vl_event_id pf) selected)
    \<and> (\<forall>k < length selected. keys_cached pf opts selected k)
    \<and> (case so_cutoff_index opts of
         None \<Rightarrow> result = selected
       | Some n \<Rightarrow> \<exists>e \<in> set entries. ie_index e = n \<and> result = butlast selected @ [moved_to e (last selected)]
           \<and> signed_c2sp_entry_bytes pf (ie_data e) = signed_c2sp_entry_bytes pf (vl_data (last selected)))"
proof -
  from assms obtain st where loop: "select_loop pf domain opts (sort_key ie_index entries) selection_init = Inr st"
    and v: "verify_lifecycle pf (sl_selected st) opts = Inr ()"
    and c: "apply_cutoff pf entries (sl_selected st) opts = Inr result"
    by (auto simp: verify_stream_lifecycle_def rbind_Inr_iff split: if_splits)
  from v obtain ek ok s where L: "lifecycle pf opts (sl_selected st) ek ok s" by (auto simp: verify_lifecycle_computes)
  have inv: "selection_inv pf domain opts (set entries) st"
    by (rule select_loop_inv [OF loop selection_inv_init]) simp
  have "sorted (map vl_index (sl_selected st))"
    by (rule select_loop_sorted [OF loop]) (simp_all add: selection_init_def)
  moreover have "distinct (map (vl_event_id pf) (sl_selected st))"
    using inv by (auto simp: selection_inv_def intro: distinct_ids)
  ultimately show ?thesis
    using L inv apply_cutoff_Inr [OF c _ lifecycle_nonempty [OF L]]
    by (intro exI [of _ "sl_selected st"] exI [of _ ek] exI [of _ ok] exI [of _ s]) (simp add: selection_inv_def)
qed

text \<open>
  C8: What \<^verbatim>\<open>verify_stream_lifecycle\<close> returns is a lifecycle of the domain made of entries of the stream:
  every event is the parse of an entry it was given, for the requested domain, in the order of the
  log, with no event twice, the keys cached with an event are those in force after it, and the
  whole satisfies the lifecycle rules. A cutoff only exchanges the final event's entry for the
  exact copy at the cutoff index, which has the same signed bytes.
\<close>

theorem selected_lifecycle_sound:
  assumes "verify_stream_lifecycle pf entries domain opts = Inr result"
  shows "\<exists>selected ek ok s. lifecycle pf opts selected ek ok s
    \<and> (\<forall>v \<in> set selected. \<exists>e \<in> set entries. from_entry pf domain opts e v)
    \<and> sorted (map vl_index selected) \<and> distinct (map (vl_event_id pf) selected)
    \<and> (\<forall>k < length selected. keys_cached pf opts selected k)
    \<and> (case so_cutoff_index opts of
         None \<Rightarrow> result = selected
       | Some n \<Rightarrow> \<exists>e \<in> set entries. ie_index e = n \<and> result = butlast selected @ [moved_to e (last selected)]
           \<and> signed_c2sp_entry_bytes pf (ie_data e) = signed_c2sp_entry_bytes pf (vl_data (last selected)))"
  using assms by (rule stream_lifecycle_selected)

section \<open>Noise\<close>

text \<open>Entries that are unreadable as events of the stream, or belong to another domain.\<close>

definition noise :: "platform \<Rightarrow> pystr \<Rightarrow> StreamVerifierOptions \<Rightarrow> IndexedEntry \<Rightarrow> bool" where
  "noise pf domain opts e \<longleftrightarrow>
     (case read_candidate pf (ie_data e) opts of
        Inl x \<Rightarrow> \<not> is_C2spTlogResourceLimitError x
      | Inr (obj, _, _) \<Rightarrow> field_of obj ''fqdn'' \<noteq> JStr domain)"

lemma select_entry_noise: "noise pf domain opts e \<Longrightarrow> select_entry pf domain opts e st = Inr st"
  by (auto simp: noise_def select_entry_def split: sum.splits)

lemma select_loop_noise:
  "select_loop pf domain opts (filter (\<lambda>e. \<not> noise pf domain opts e) es) st = select_loop pf domain opts es st"
  by (induction es arbitrary: st) (auto simp: select_entry_noise intro!: rbind_cong)

text \<open>
  Log noise has no influence. Removing every entry that cannot be read as an event of the stream,
  and every entry of another domain, leaves the outcome as it is: the same events, or the same error.
\<close>

theorem noise_has_no_influence:
  assumes "0 < so_max_entries opts" "0 < so_max_entry_bytes opts" "int (length entries) \<le> so_max_entries opts"
    and "int (sum_list (map (\<lambda>e. length (ie_data e)) entries)) \<le> so_max_entry_bytes opts" "so_cutoff_index opts = None"
  shows "verify_stream_lifecycle pf (filter (\<lambda>e. \<not> noise pf domain opts e) entries) domain opts
    = verify_stream_lifecycle pf entries domain opts"
proof -
  let ?f = "filter (\<lambda>e. \<not> noise pf domain opts e)"
  have "length (?f entries) \<le> length entries" by (rule length_filter_le)
  moreover have "sum_list (map (\<lambda>e. length (ie_data e)) (?f es)) \<le> sum_list (map (\<lambda>e. length (ie_data e)) es)" for es
    by (induction es) auto
  ultimately have "int (length (?f entries)) \<le> so_max_entries opts"
    "int (sum_list (map (\<lambda>e. length (ie_data e)) (?f entries))) \<le> so_max_entry_bytes opts"
    using assms(3,4) by (meson of_nat_mono order_trans)+
  then show ?thesis
    using assms select_loop_noise [of pf domain opts "sort_key ie_index entries" selection_init]
    by (simp add: verify_stream_lifecycle_def apply_cutoff_def filter_sort)
qed


section \<open>Forged entries\<close>

text \<open>No key verifies any signature over the signed bytes of the entry.\<close>

definition forged :: "platform \<Rightarrow> bytes \<Rightarrow> bool" where
  "forged pf data \<longleftrightarrow>
     (\<forall>payload key sig. signed_c2sp_entry_bytes pf data = Inr payload \<longrightarrow> jwk_verify pf key payload sig \<noteq> Inr True)"








lemma candidate_not_migration:
  assumes "\<not> (selected = [] \<and> is_migration (ev_body (vl_event item)))"
  shows "candidate_is_authenticated pf item selected opts = unverified_is_false
    (if selected = [] then genesis_authenticated pf item opts
     else rbind (applied_keys selected opts) (\<lambda>(ek, ok). later_authenticated pf item ek ok))"
  unfolding candidate_is_authenticated_def Let_def if_not_P [OF assms] ..











section \<open>Completeness of the selection\<close>

lemma parsed_entry_parts:
  assumes "parse_c2sp_event_entry pf data ctx c = Inr ev"
  obtains obj where "read_entry pf data = Inr (JObj obj)" "validate_public_fields pf (JObj obj) ctx = Inr ()"
    "c2sp_envelope_to_event (JObj obj) = Inr ev" "field_of obj ''fqdn'' = JStr (ev_domain ev)"
proof -
  from assms obtain obj where obj: "read_entry pf data = Inr (JObj obj)"
    "validate_public_fields pf (JObj obj) ctx = Inr ()" "c2sp_envelope_to_event (JObj obj) = Inr ev"
    by (auto simp: parse_c2sp_event_entry_def res_simps validate_public_fields_def split: json.splits if_splits)
  moreover have "field_of obj ''fqdn'' = JStr (ev_domain ev)"
    using obj(3) by (auto simp: c2sp_envelope_to_event_def res_simps as_str_Inr parse_issuance_def
        parse_key_rotation_def entity_event_def split: if_splits)
  ultimately show thesis by (rule that)
qed

lemma parsed_issuance_kid:
  assumes "c2sp_envelope_to_event (JObj obj) = Inr ev" "ev_body ev = IssuanceEvent d" "is_entity_key d = Some ek"
  shows "JStr (ev_signing_kid ev) = jwk_kid ek"
proof -
  have "(\<exists>sigs t dom. parse_issuance obj sigs t dom = Inr ev) \<or> (\<exists>sigs t dom. parse_key_rotation obj sigs t dom = Inr ev)
      \<or> (\<exists>ae t dom ty body. parse_entity_body obj ty = Inr body \<and> ev = entity_event ae t dom body)"
    using assms(1) unfolding c2sp_envelope_to_event_def json.case by (auto simp: rbind_Inr_iff split: if_splits) blast+
  moreover have "\<not> is_issuance body" if "parse_entity_body obj ty = Inr body" for ty body
    using that by (auto simp: parse_entity_body_def rbind_Inr_iff split: if_splits)
  moreover have "\<not> is_issuance (ev_body ev)" if "parse_key_rotation obj sigs t dom = Inr ev" for sigs t dom
    using that by (auto simp: parse_key_rotation_def rbind_Inr_iff split: if_splits)
  ultimately obtain sigs t dom where "parse_issuance obj sigs t dom = Inr ev" using assms(2) by (fastforce simp: entity_event_def)
  then show ?thesis using assms(2,3) by (auto simp: parse_issuance_def rbind_Inr_iff split: if_splits)
qed

lemma chain_prev_field:
  assumes "parse_chain_fields (JObj obj) = Inr chain" "ch_prev_event_id chain = Some p"
  shows "dget obj ''prev_event_id'' d = JStr p"
proof -
  have "chain_hash obj ''prev_event_id'' = Inr (Some p)"
    using assms unfolding parse_chain_fields_def json.case by (auto simp: rbind_Inr_iff split: if_splits)
  then show ?thesis
    by (auto simp: chain_hash_def rbind_Inr_iff as_str_Inr has_field_def dget_def split: if_splits option.splits)
qed

lemma upto_last: "distinct xs \<Longrightarrow> xs \<noteq> [] \<Longrightarrow> upto_item xs (last xs) 1 = Inr xs"
proof (induction xs rule: rev_induct)
  case (snoc x xs)
  then have "takeWhile (\<lambda>y. y \<noteq> x) (xs @ [x]) = xs" by (subst takeWhile_append2) auto
  then show ?case by (simp add: upto_item_def list_index_def)
qed simp

lemma lifecycle_last_signed:
  assumes "lifecycle pf opts (xs @ [v]) ek ok s"
  shows "\<exists>key. signed_by pf v (ev_sig (vl_event v)) key"
  using assms by cases auto

lemma indexes_lookup:
  "indexes pf applied selected \<Longrightarrow> v \<in> set selected \<Longrightarrow> vl_event_id pf v = Inr i \<Longrightarrow> map_of applied i = Some v"
proof -
  assume x: "indexes pf applied selected" "v \<in> set selected" "vl_event_id pf v = Inr i"
  then obtain j where j: "(j, v) \<in> set applied" by (force simp: indexes_def)
  with x have "j = i" by (auto simp: indexes_def)
  with j x(1) show ?thesis by (simp add: indexes_def)
qed

lemma indexes_fresh:
  "indexes pf applied selected \<Longrightarrow> \<forall>w \<in> set selected. vl_event_id pf w \<noteq> Inr i \<Longrightarrow> map_of applied i = None"
  by (force simp: indexes_def map_of_eq_None_iff)

text \<open>An event that extends the lifecycle is authenticated by the keys in force before it.\<close>

lemma extension_authenticated:
  assumes "lifecycle pf opts (evs @ [v]) ek ok s" "evs \<noteq> []" "applied_keys evs opts = Inr (ek', okb)"
    and "\<And>ek ok s. lifecycle pf opts evs ek ok s \<Longrightarrow> (ek', okb) = (ek, ok)"
  shows "candidate_is_authenticated pf v evs opts = Inr True"
proof -
  have "later_authenticated pf v ek' okb = Inr True"
    using assms(1,2)
  proof (cases rule: lifecycle_snoc_cases)
    case (rotated d okb' s0)
    have "ek' = ek" "okb = okb'" using assms(4) [OF rotated(1)] by auto
    moreover have "ev_sig (vl_event v) \<noteq> []" using rotated(4) by (simp add: follows_def)
    moreover note rotated(5) [unfolded rotation_step_ok [OF this]]
    ultimately show ?thesis
      using rotated(3) by (auto simp: later_authenticated_def Let_def verify_event_signature_ok [THEN iffD2] signed_by_def)
  next
    case (entity s0)
    have k: "ek' = ek" using assms(4) [OF entity(1)] by auto
    have e: "ev_sig (vl_event v) \<noteq> []" using entity(4) by (simp add: follows_def)
    have "\<not> is_migration (ev_body (vl_event v))" using entity(3) by (cases "ev_body (vl_event v)") auto
    note entity(5) [unfolded entity_step_ok [OF e this]]
    with entity(3) e k show ?thesis
      by (cases "ev_body (vl_event v)") (auto simp: later_authenticated_def Let_def verify_event_signature_ok [THEN iffD2])
  qed
  with assms(2,3) show ?thesis by (simp add: candidate_not_migration unverified_is_false_def)
qed

lemma genesis_is_authenticated:
  assumes "lifecycle pf opts [v] ek ok s" "ev_body (vl_event v) = IssuanceEvent d"
    and "\<And>ek. is_entity_key d = Some ek \<Longrightarrow> JStr (ev_signing_kid (vl_event v)) = jwk_kid ek"
  shows "candidate_is_authenticated pf v [] opts = Inr True"
  using assms(1)
proof cases
  case (issued d')
  moreover have "ev_sig (vl_event v) \<noteq> []" "ev_operational_countersig (vl_event v) \<noteq> []"
    using issued by (auto simp: signed_by_def)
  ultimately show ?thesis
    using assms(2,3)
    by (auto simp: candidate_not_migration genesis_authenticated_def Let_def verify_event_signature_ok [THEN iffD2]
        unverified_is_false_def trusted_entity_def split: option.splits)
qed (use assms(2) in \<open>auto dest: lifecycle_nonempty\<close>)


text \<open>The authentication block of the loop accepts an event that extends the lifecycle.\<close>

lemma extension_passes:
  assumes inv: "selection_inv pf domain opts seen st" and L: "lifecycle pf opts (sl_selected st @ [v]) ek ok s"
    and g: "sl_selected st = [] \<Longrightarrow> is_issuance (ev_body (vl_event v))"
    and obj: "c2sp_envelope_to_event (JObj obj) = Inr (vl_event v)" "parse_chain_fields (JObj obj) = Inr (vl_chain v)"
  shows "authenticate pf obj v st opts = Inr (Inr True)"
proof -
  have ix: "indexes pf (sl_applied st) (sl_selected st)" using inv by (simp add: selection_inv_def)
  show ?thesis
  proof (cases "sl_selected st = []")
  case True
  then have a: "sl_applied st = []" using ix by (simp add: indexes_def)
  obtain dd where b: "ev_body (vl_event v) = IssuanceEvent dd" using g [OF True] by (cases "ev_body (vl_event v)") auto
  have "candidate_is_authenticated pf v [] opts = Inr True"
    by (rule genesis_is_authenticated [OF L [unfolded True, simplified] b])
       (rule parsed_issuance_kid [OF obj(1) b])
  with True a b show ?thesis
    by (auto simp: authenticate_def predecessor_of_def request_history_def Let_def split: json.split)
next
  case False
  obtain ek' okb sb where K: "lifecycle pf opts (sl_selected st) ek' okb sb" "vl_post_keys (last (sl_selected st)) = Some (ek', okb)"
    using inv False by (rule selection_inv_lifecycle)
  have ak: "applied_keys (sl_selected st) opts = Inr (ek', okb)" using K(2) False by (auto simp: applied_keys_def split: list.split)
  have same: "(ek', okb) = (a, b)" if "lifecycle pf opts (sl_selected st) a b c" for a b c
    using lifecycle_replay [OF K(1)] lifecycle_replay [OF that] by auto
  have "\<exists>sx. chained pf (last (sl_selected st)) sx v"
    using L False by (elim lifecycle_snoc_cases) (auto simp: follows_def)
  then obtain pid where pid: "vl_event_id pf (last (sl_selected st)) = Inr pid" "ch_prev_event_id (vl_chain v) = Some pid"
    by (auto simp: chained_def)
  have "predecessor_of obj (sl_applied st) = Some (last (sl_selected st))"
    using chain_prev_field [OF obj(2) pid(2)] indexes_lookup [OF ix last_in_set [OF False] pid(1)]
    by (simp add: predecessor_of_def)
  moreover have "upto_item (sl_selected st) (last (sl_selected st)) 1 = Inr (sl_selected st)"
    by (rule upto_last [OF _ False]) (use distinct_ids [OF ix] in \<open>simp add: distinct_map\<close>)
  ultimately show ?thesis
    using extension_authenticated [OF L False ak same] False
    by (simp add: authenticate_def request_history_def Let_def)
qed
qed

text \<open>An entry whose event extends the lifecycle is selected.\<close>

lemma select_entry_complete:
  assumes inv: "selection_inv pf domain opts seen st" and L: "lifecycle pf opts (sl_selected st @ [v]) ek ok s"
    and e: "from_entry pf domain opts e v" "vl_post_keys v = None" and u: "\<not> so_unchained opts"
    and g: "sl_selected st = [] \<Longrightarrow> is_issuance (ev_body (vl_event v))"
    and fresh: "\<forall>w \<in> set (sl_selected st). vl_event_id pf w \<noteq> vl_event_id pf v"
  shows "\<exists>st'. select_entry pf domain opts e st = Inr st'
    \<and> sl_selected st' = sl_selected st @ [v\<lparr>vl_post_keys := Some (ek, ok)\<rparr>]"
proof -
  let ?sel = "sl_selected st" and ?item = "v\<lparr>vl_post_keys := Some (ek, ok)\<rparr>"
  obtain obj where obj: "read_entry pf (ie_data e) = Inr (JObj obj)" "validate_public_fields pf (JObj obj) (so_ctx opts) = Inr ()"
    "c2sp_envelope_to_event (JObj obj) = Inr (vl_event v)" "field_of obj ''fqdn'' = JStr domain"
    using e(1) unfolding from_entry_def by (metis parsed_entry_parts)
  have d: "vl_data v = ie_data e" "vl_index v = ie_index e" and chain: "parse_chain_fields (JObj obj) = Inr (vl_chain v)"
    using e(1) obj(1) by (auto simp: from_entry_def)
  have v: "candidate_of e (vl_event v) (vl_chain v) = v"
    using e by (cases v) (simp add: candidate_of_def from_entry_def)
  obtain payload i where p: "signed_c2sp_entry_bytes pf (ie_data e) = Inr payload" "c2sp_event_id pf (ie_data e) = Inr i"
    using lifecycle_last_signed [OF L] d by (auto simp: signed_by_def c2sp_event_id_def)
  have read: "read_candidate pf (ie_data e) opts = Inr (obj, payload, i)"
    using obj p by (auto simp: read_candidate_Inr read_entry_def rbind_Inr_iff)
  have ix: "indexes pf (sl_applied st) ?sel" using inv by (simp add: selection_inv_def)
  have new: "map_of (sl_applied st) i = None"
    using indexes_fresh [OF ix] fresh p(2) d by (auto simp: vl_event_id_def)
  have parse: "parse_c2sp_event_entry pf (ie_data e) (so_ctx opts) True = Inr (vl_event v)" "ev_domain (vl_event v) = domain"
    using e(1) by (auto simp: from_entry_def)
  have auth: "authenticate pf obj v st opts = Inr (Inr True)"
    by (rule extension_passes [OF inv L g obj(3) chain])
  have not_dup: "\<not> (?sel \<noteq> [] \<and> is_issuance (ev_body (vl_event v)))"
    using lifecycle_placed [OF L, rule_format, of "length ?sel"] by (auto simp: well_placed_def genesis_def)
  have "verify_lifecycle pf (?sel @ [v]) opts = Inr ()" using L u by (auto simp: verify_lifecycle_computes)
  moreover have "applied_keys (?sel @ [v]) opts = Inr (ek, ok)" using applied_keys_replay [OF L] e(2) by simp
  moreover have "vl_event_id pf ?item = Inr i" using p(2) d by (simp add: vl_event_id_def)
  ultimately have "apply_candidate pf v False st opts = Inr \<lparr>sl_selected = ?sel @ [?item], sl_applied = dict_set i ?item (sl_applied st)\<rparr>"
    using not_dup by (auto simp: apply_candidate_def Let_def on_error_def)
  moreover have "\<not> (?sel = [] \<and> \<not> is_issuance (ev_body (vl_event v)))" using g by blast
  ultimately have "judge_candidate pf obj v False st opts = Inr \<lparr>sl_selected = ?sel @ [?item], sl_applied = dict_set i ?item (sl_applied st)\<rparr>"
    using auth by (cases "ev_body (vl_event v)") (auto simp: judge_candidate_def Let_def)
  then show ?thesis
    using new parse obj(4) by (simp add: select_entry_def read select_event_def chain v)
qed


lemma select_loop_append:
  "select_loop pf domain opts (xs @ ys) st = rbind (select_loop pf domain opts xs st) (\<lambda>st'. select_loop pf domain opts ys st')"
  by (induction xs arbitrary: st) (auto simp: rbind_assoc intro!: rbind_cong)

lemma select_loop_complete:
  assumes "lifecycle pf opts items ek ok s" "\<not> so_unchained opts" "is_issuance (ev_body (vl_event (hd items)))"
    and "list_all2 (from_entry pf domain opts) es items" "\<forall>v \<in> set items. vl_post_keys v = None"
    and "distinct (map (vl_event_id pf) items)"
  shows "\<exists>st. select_loop pf domain opts es selection_init = Inr st \<and> list_all2 same_item items (sl_selected st)"
  using assms
proof (induction items arbitrary: es ek ok s rule: rev_induct)
  case (snoc v items)
  from snoc.prems(4) obtain es' e where es: "es = es' @ [e]" "list_all2 (from_entry pf domain opts) es' items"
    "from_entry pf domain opts e v" by (auto simp: list_all2_append2 list_all2_Cons2)
  have "\<exists>st. select_loop pf domain opts es' selection_init = Inr st \<and> list_all2 same_item items (sl_selected st)"
  proof (cases "items = []")
    case True
    with es show ?thesis by (simp add: selection_init_def)
  next
    case False
    with lifecycle_prefix [OF snoc.prems(1)] snoc.prems es(2) snoc.IH [of ek _ _ es'] show ?thesis by auto
  qed
  then obtain st where st: "select_loop pf domain opts es' selection_init = Inr st" "list_all2 same_item items (sl_selected st)"
    by blast
  have inv: "selection_inv pf domain opts (set es') st" by (rule select_loop_inv [OF st(1) selection_inv_init]) simp
  have L: "lifecycle pf opts (sl_selected st @ [v]) ek ok s"
    by (rule lifecycle_same_items [OF snoc.prems(1)]) (simp add: list_all2_appendI st(2))
  have "vl_event_id pf w \<noteq> vl_event_id pf v" if w: "w \<in> set (sl_selected st)" for w
  proof -
    obtain x where x: "x \<in> set items" "same_item x w" using st(2) w by (metis in_set_conv_nth list_all2_conv_all_nth)
    have "vl_event_id pf v \<notin> vl_event_id pf ` set items" using snoc.prems(6) by simp
    with x(1) have "vl_event_id pf x \<noteq> vl_event_id pf v" by (metis imageI)
    then show ?thesis by (simp add: same_item_preds(5) [OF x(2)])
  qed
  moreover have "is_issuance (ev_body (vl_event v))" if "sl_selected st = []" using snoc.prems(3) st(2) that by simp
  ultimately obtain st' where "select_entry pf domain opts e st = Inr st'"
    "sl_selected st' = sl_selected st @ [v\<lparr>vl_post_keys := Some (ek, ok)\<rparr>]"
    using select_entry_complete [OF inv L es(3) _ snoc.prems(2)] snoc.prems(5) by auto
  then show ?case using st es(1) by (simp add: select_loop_append list_all2_appendI)
qed (auto dest: lifecycle_nonempty)

lemma honest_stream:
  assumes "lifecycle pf opts items ek ok s" "\<not> so_unchained opts" "is_issuance (ev_body (vl_event (hd items)))"
    and "list_all2 (from_entry pf domain opts) (filter (\<lambda>e. \<not> noise pf domain opts e) (sort_key ie_index entries)) items"
    and "\<forall>v \<in> set items. vl_post_keys v = None" "distinct (map (vl_event_id pf) items)"
    and "int (length entries) \<le> so_max_entries opts"
    and "int (sum_list (map (\<lambda>e. length (ie_data e)) entries)) \<le> so_max_entry_bytes opts"
    and "0 < so_max_entry_bytes opts" "so_cutoff_index opts = None"
  shows "\<exists>result. verify_stream_lifecycle pf entries domain opts = Inr result \<and> list_all2 same_item items result"
proof -
  obtain st where st: "select_loop pf domain opts (sort_key ie_index entries) selection_init = Inr st"
    "list_all2 same_item items (sl_selected st)"
    using select_loop_complete [OF assms(1-6)] by (auto simp: select_loop_noise)
  have "lifecycle pf opts (sl_selected st) ek ok s" by (rule lifecycle_same_items [OF assms(1) st(2)])
  then have "verify_lifecycle pf (sl_selected st) opts = Inr ()" using assms(2) by (auto simp: verify_lifecycle_computes)
  moreover have "entries \<noteq> []" using assms(4) lifecycle_nonempty [OF assms(1)] by auto
  then have "0 < so_max_entries opts" using assms(7) by (cases entries) auto
  ultimately show ?thesis using assms(7-10) st by (auto simp: verify_stream_lifecycle_def apply_cutoff_def)
qed




section \<open>A sample stream\<close>

definition sample_indexed :: IndexedEntry where
  "sample_indexed = \<lparr>ie_index = 0, ie_data = sample_issuance_entry\<rparr>"

lemma sample_context_none: "so_ctx sample_options = no_context"
  by (simp add: so_ctx_def sample_options_def)

lemma sample_from_entry: "from_entry sample_platform (str ''a.example'') sample_options sample_indexed sample_item"
proof -
  have "parse_chain_fields (JObj sample_obj) = Inr (vl_chain sample_item)"
    unfolding sample_item_def VerifiedLifecycleEvent.simps by code_simp
  moreover have "ev_domain sample_issuance = str ''a.example''" by (rule sample_fields)
  ultimately show ?thesis
    using sample_entry_parses sample_read
    by (auto simp: from_entry_def sample_item_def sample_indexed_def sample_context_none)
qed

lemma sample_not_noise: "\<not> noise sample_platform (str ''a.example'') sample_options sample_indexed"
proof -
  have "field_of sample_obj ''fqdn'' = JStr (str ''a.example'')" by code_simp
  moreover have "read_candidate sample_platform sample_issuance_entry sample_options = Inr r \<Longrightarrow> fst r = sample_obj" for r
    using sample_read by (cases r) (auto simp: read_candidate_Inr read_entry_def rbind_Inr_iff)
  moreover obtain p where p: "signed_c2sp_entry_bytes sample_platform sample_issuance_entry = Inr p"
    using sample_signed by (auto simp: is_ok_iff)
  then have "\<exists>r. read_candidate sample_platform sample_issuance_entry sample_options = Inr r"
    using sample_read sample_fields_valid
    by (auto simp: read_candidate_def read_entry_def rbind_Inr_iff c2sp_event_id_def sample_context_none)
  ultimately show ?thesis by (fastforce simp: noise_def sample_indexed_def)
qed

lemma sample_sizes: "length sample_issuance_entry \<le> 1000"
  by code_simp

lemma sample_accepted:
  "\<exists>result. verify_stream_lifecycle sample_platform [sample_indexed] (str ''a.example'') sample_options = Inr result
    \<and> list_all2 same_item [sample_item] result"
proof -
  obtain s where L: "lifecycle sample_platform sample_options [sample_item] sample_ek sample_ok s"
    using sample_lifecycle by blast
  show ?thesis
    by (rule honest_stream [OF L])
       (use sample_from_entry sample_not_noise sample_fields sample_sizes in
         \<open>simp_all add: sample_options_def sample_item_def sample_indexed_def\<close>)
qed



theorem selected_lifecycle_sound_witness:
  "\<exists>result ek ok s. verify_stream_lifecycle sample_platform [sample_indexed] (str ''a.example'') sample_options = Inr result
    \<and> lifecycle sample_platform sample_options result ek ok s
    \<and> (\<forall>v \<in> set result. from_entry sample_platform (str ''a.example'') sample_options sample_indexed v)"
proof -
  obtain result where r: "verify_stream_lifecycle sample_platform [sample_indexed] (str ''a.example'') sample_options = Inr result"
    using sample_accepted by blast
  moreover have "so_cutoff_index sample_options = None" by (simp add: sample_options_def)
  ultimately show ?thesis using selected_lifecycle_sound [OF r] by auto
qed

theorem noise_has_no_influence_witness:
  "verify_stream_lifecycle sample_platform
     (filter (\<lambda>e. \<not> noise sample_platform (str ''a.example'') sample_options e) [sample_indexed, \<lparr>ie_index = 1, ie_data = []\<rparr>])
     (str ''a.example'') sample_options
   = verify_stream_lifecycle sample_platform [sample_indexed, \<lparr>ie_index = 1, ie_data = []\<rparr>] (str ''a.example'') sample_options"
  by (rule noise_has_no_influence) (use sample_sizes in \<open>simp_all add: sample_options_def sample_indexed_def\<close>)





section \<open>Identifiers commit to the history\<close>

lemma read_entry_distinct: "read_entry pf data = Inr (JObj obj) \<Longrightarrow> distinct (map fst obj)"
  by (auto simp: read_entry_def rbind_Inr_iff parse_json_no_duplicate_members_def split: if_splits option.splits sum.splits)

text \<open>The chain fields are part of what the identifier hashes.\<close>

lemma chain_fields_sorted:
  assumes "distinct (map fst a)" "distinct (map fst b)"
    and "sort_json (JObj (dict_pop (str ''sigs'') a)) = sort_json (JObj (dict_pop (str ''sigs'') b))"
  shows "parse_chain_fields (JObj a) = parse_chain_fields (JObj b)"
proof -
  let ?p = "dict_pop (str ''sigs'')"
  have s: "sort_members (?p a) = sort_members (?p b)" using assms(3) unfolding sort_json_JObj by (rule json.inject(7) [THEN iffD1])
  have d: "distinct (map fst (?p a))" "distinct (map fst (?p b))" using assms(1,2) by simp_all
  have h: "has_field a n = has_field b n" and g: "sort_json (field_of a n) = sort_json (field_of b n)" if "n \<noteq> ''sigs''" for n
  proof -
    have n: "str n \<noteq> (str ''sigs'' :: pystr)" using that by (simp only: str_eq_iff not_False_eq_True)
    then have e: "has_field (?p x) n = has_field x n" "field_of (?p x) n = field_of x n" for x
      by (simp_all only: has_field_def dget_def map_of_dict_pop if_False)
    show "has_field a n = has_field b n"
      using has_field_sort_members [OF d(1), of n] has_field_sort_members [OF d(2), of n] s e(1) by simp
    show "sort_json (field_of a n) = sort_json (field_of b n)"
      using dget_sort_members [OF d(1), of n] dget_sort_members [OF d(2), of n] s e(2) by simp
  qed
  have c: "chain_hash a n = chain_hash b n" if "n \<noteq> ''sigs''" for n
    using h [OF that] g [OF that] as_str_sort [of "field_of a n" n] as_str_sort [of "field_of b n" n]
    by (simp add: chain_hash_def)
  have "as_safe_int (field_of a ''seq'') ''seq'' = as_safe_int (field_of b ''seq'') ''seq''"
    using g [of "''seq''"] as_safe_int_sort [of "field_of a ''seq''" "''seq''"] as_safe_int_sort [of "field_of b ''seq''" "''seq''"]
    by simp
  then show ?thesis
    using h [of "''seq''"] h [of "''event_id''"] h [of "''prev_index''"] h [of "''prev_leaf_hash''"]
      c [of "''prev_event_id''"] c [of "''prev_state_hash''"]
    by (simp add: parse_chain_fields_def)
qed


text \<open>The item carries the chain fields of its own bytes, which hold no floats and no huge integers.\<close>

definition logged :: "platform \<Rightarrow> VerifiedLifecycleEvent \<Rightarrow> bool" where
  "logged pf v \<longleftrightarrow> (\<exists>obj. read_entry pf (vl_data v) = Inr (JObj obj) \<and> plain (JObj obj)
     \<and> parse_chain_fields (JObj obj) = Inr (vl_chain v))"

definition hashed :: "platform \<Rightarrow> VerifiedLifecycleEvent list \<Rightarrow> bytes set" where
  "hashed pf vs = {event_id_prefix @ p | p v. v \<in> set vs \<and> signed_c2sp_entry_bytes pf (vl_data v) = Inr p}"

lemma same_id_same_chain:
  assumes "logged pf a" "logged pf b" "a \<in> set vs" "b \<in> set vs" "vl_event_id pf a = Inr i" "vl_event_id pf b = Inr i"
    and "\<not> collides (hashed pf vs)"
  shows "vl_chain a = vl_chain b"
proof -
  from assms(1,2) obtain x y where x: "read_entry pf (vl_data a) = Inr (JObj x)" "plain (JObj x)"
      "parse_chain_fields (JObj x) = Inr (vl_chain a)"
    and y: "read_entry pf (vl_data b) = Inr (JObj y)" "plain (JObj y)" "parse_chain_fields (JObj y) = Inr (vl_chain b)"
    by (auto simp: logged_def)
  from assms(5,6) obtain p q where p: "signed_c2sp_entry_bytes pf (vl_data a) = Inr p" "signed_c2sp_entry_bytes pf (vl_data b) = Inr q"
    and e: "b64url_encode (sha256 [event_id_prefix, p]) False = b64url_encode (sha256 [event_id_prefix, q]) False"
    by (auto simp: vl_event_id_def c2sp_event_id_def rbind_Inr_iff)
  have "event_id_prefix @ p \<in> hashed pf vs" "event_id_prefix @ q \<in> hashed pf vs"
    using p assms(3,4) unfolding hashed_def by blast+
  then have "p = q"
    using assms(7) sha256_eq_collision [OF b64url_encode_inj [OF e]] by (auto simp: collides_def)
  have "sort_json (JObj (dict_pop (str ''sigs'') x)) = sort_json (JObj (dict_pop (str ''sigs'') y))"
  proof (rule canonical_bytes_inj)
    show "canon_bytes pf (JObj (dict_pop (str ''sigs'') x)) = Inr p" "canon_bytes pf (JObj (dict_pop (str ''sigs'') y)) = Inr p"
      using p \<open>p = q\<close> unfolding signed_c2sp_entry_bytes_def x(1) y(1) by (simp_all only: rbind_simps json.case)
    show "plain (JObj (dict_pop (str ''sigs'') x))" "plain (JObj (dict_pop (str ''sigs'') y))"
      using x(2) y(2) by (auto simp: dict_pop_def)
  qed
  from chain_fields_sorted [OF read_entry_distinct [OF x(1)] read_entry_distinct [OF y(1)] this] x(3) y(3)
  show ?thesis by simp
qed

lemma hashed_mono: "set xs \<subseteq> set ys \<Longrightarrow> collides (hashed pf xs) \<Longrightarrow> collides (hashed pf ys)"
  by (auto simp: collides_def hashed_def) blast

lemma lifecycle_snoc_prev:
  assumes "lifecycle pf opts (xs @ [x]) ek ok s"
  shows "ch_seq (vl_chain x) = Some (int (length xs))"
    "xs \<noteq> [] \<Longrightarrow> (\<exists>ok s. lifecycle pf opts xs ek ok s) \<and>
      (\<exists>p. vl_event_id pf (last xs) = Inr p \<and> ch_prev_event_id (vl_chain x) = Some p)"
proof -
  have w: "well_placed pf (xs @ [x]) (length xs)" using lifecycle_placed [OF assms] by simp
  then show "ch_seq (vl_chain x) = Some (int (length xs))" by (simp add: well_placed_def)
  assume n: "xs \<noteq> []"
  then have "(xs @ [x]) ! (length xs - 1) = last xs" by (simp add: nth_append last_conv_nth)
  with w n lifecycle_prefix [OF assms n]
  show "(\<exists>ok s. lifecycle pf opts xs ek ok s) \<and>
      (\<exists>p. vl_event_id pf (last xs) = Inr p \<and> ch_prev_event_id (vl_chain x) = Some p)"
    by (auto simp: well_placed_def)
qed

lemma head_determines_history:
  assumes "lifecycle pf opts xs ek ok s" "lifecycle pf opts' ys ek' ok' s'" "\<forall>v \<in> set xs \<union> set ys. logged pf v"
    and "vl_event_id pf (last xs) = vl_event_id pf (last ys)" "\<not> collides (hashed pf (xs @ ys))"
  shows "map (vl_event_id pf) xs = map (vl_event_id pf) ys"
  using assms
proof (induction xs arbitrary: ys ok s ok' s' rule: rev_induct)
  case (snoc x xs)
  obtain ys' y where ys: "ys = ys' @ [y]" using lifecycle_nonempty [OF snoc.prems(2)] by (metis rev_exhaust)
  obtain i where "vl_event_id pf x = Inr i"
    using lifecycle_last_signed [OF snoc.prems(1)] by (auto simp: signed_by_def vl_event_id_def c2sp_event_id_def)
  then have chain: "vl_chain x = vl_chain y"
    using snoc.prems(3,4) ys by (intro same_id_same_chain [where i = i, OF _ _ _ _ _ _ snoc.prems(5)]) auto
  note X = lifecycle_snoc_prev [OF snoc.prems(1)] and Y = lifecycle_snoc_prev [OF snoc.prems(2) [unfolded ys]]
  have len: "length xs = length ys'" using X(1) Y(1) chain by simp
  show ?case
  proof (cases "xs = []")
    case True
    with len snoc.prems(4) show ?thesis by (simp add: ys)
  next
    case False
    with len have f: "ys' \<noteq> []" by auto
    from X(2) [OF False] Y(2) [OF f] chain obtain ok1 s1 ok2 s2 where
      P: "lifecycle pf opts xs ek ok1 s1" "lifecycle pf opts' ys' ek' ok2 s2" "vl_event_id pf (last xs) = vl_event_id pf (last ys')"
      by auto
    have "\<not> collides (hashed pf (xs @ ys'))" using snoc.prems(5) hashed_mono [of "xs @ ys'" "(xs @ [x]) @ ys"] ys by auto
    with snoc.IH [OF P(1,2) _ P(3)] snoc.prems(3,4) ys show ?thesis by auto
  qed
qed (auto dest: lifecycle_nonempty)

text \<open>
  C11: The identifier of the last event commits to the whole history. If two accepted lifecycles, seen by
  two verifiers with their own options, end in events with the same logical identifier, they have
  the same events by identifier at every position, unless two of the byte strings hashed for these
  events collide.
\<close>

theorem head_commits_to_history:
  assumes "verify_lifecycle pf xs opts = Inr ()" "verify_lifecycle pf ys opts' = Inr ()" "\<forall>v \<in> set xs \<union> set ys. logged pf v"
    and "vl_event_id pf (last xs) = vl_event_id pf (last ys)"
  shows "map (vl_event_id pf) xs = map (vl_event_id pf) ys \<or> collides (hashed pf (xs @ ys))"
  using assms head_determines_history by (auto simp: verify_lifecycle_computes)

theorem head_commits_to_history_witness:
  "map (vl_event_id sample_platform) [sample_item] = map (vl_event_id sample_platform) [sample_item]
    \<or> collides (hashed sample_platform ([sample_item] @ [sample_item]))"
proof (rule head_commits_to_history [OF sample_verifies sample_verifies])
  have "plain (JObj sample_obj)" by code_simp
  then show "\<forall>v \<in> set [sample_item] \<union> set [sample_item]. logged sample_platform v"
    using sample_from_entry sample_read by (auto simp: logged_def from_entry_def sample_item_def sample_indexed_def)
qed simp

end
