(* ===== verification/Domain_Log.thy ===== *)
theory Domain_Log
  imports Lifecycle
begin

text \<open>
  \<^verbatim>\<open>DomainLog.snapshot_at\<close> of \<^verbatim>\<open>dnsid/models.py\<close>: the state of a domain at a time, by replaying its
  verified events. The loop is a fold of \<open>snapshot_step\<close> over a record of its variables. Comparing a
  naive with an aware time raises \<^verbatim>\<open>TypeError\<close>.
\<close>

definition ZERO_TIME :: pydatetime where
  "ZERO_TIME = \<lparr>dt_aware = True, dt_us = - 62135596800000000\<rparr>"

record DomainSnapshot =
  sn_domain :: pystr
  sn_historical_state :: string
  sn_active_key :: "JWK option"
  sn_active_key_thumbprint :: pystr
  sn_key_bound_at :: pydatetime
  sn_governance_id :: pystr
  sn_snapshot_at :: pydatetime
  sn_events :: "LogEvent list"

record DomainLog =
  dl_domain :: pystr
  dl_events :: "LogEvent list"

record snapshot_state =
  ss_state :: string
  ss_entity_key :: "JWK option"
  ss_active_key :: "JWK option"
  ss_active_key_thumbprint :: pystr
  ss_key_bound_at :: pydatetime
  ss_governance_id :: pystr
  ss_events_up_to :: "LogEvent list"
  ss_past_boundary :: bool

definition snapshot_init :: snapshot_state where
  "snapshot_init =
     \<lparr>ss_state = '''', ss_entity_key = None, ss_active_key = None, ss_active_key_thumbprint = [],
      ss_key_bound_at = ZERO_TIME, ss_governance_id = [], ss_events_up_to = [], ss_past_boundary = False\<rparr>"

definition log_error :: "LifecycleErrorCategory \<Rightarrow> string \<Rightarrow> nat option \<Rightarrow> 'a res" where
  "log_error category message index = Inl (LifecycleVerificationError category message index)"

text \<open>\<^verbatim>\<open>a > b\<close> on times\<close>

definition time_after :: "pydatetime \<Rightarrow> pydatetime \<Rightarrow> bool res" where
  "time_after a b =
     (if dt_aware a \<noteq> dt_aware b then Inl (TypeError ''can't compare offset-naive and offset-aware datetimes'')
      else Inr (dt_us a > dt_us b))"

definition issuance_binding_invalid :: "IssuanceData \<Rightarrow> bool res" where
  "issuance_binding_invalid d =
     (case (is_entity_key d, is_operational_key d) of
        (Some e, Some k) \<Rightarrow> rbind (thumbprint e) (\<lambda>a. rbind (thumbprint k) (\<lambda>b. Inr (a = b)))
      | _ \<Rightarrow> Inr True)"

definition rotation_breaks :: "snapshot_state \<Rightarrow> KeyRotationData \<Rightarrow> bool res" where
  "rotation_breaks st d =
     (case (ss_active_key st, ss_entity_key st, kr_new_public_key d) of
        (Some _, Some entity_key, Some new_key) \<Rightarrow>
          if kr_previous_thumbprint d \<noteq> ss_active_key_thumbprint st then Inr True
          else
            rbind (thumbprint new_key) (\<lambda>t.
              if kr_new_thumbprint d \<noteq> t \<or> kr_new_thumbprint d = ss_active_key_thumbprint st then Inr True
              else rbind (thumbprint entity_key) (\<lambda>te. Inr (kr_new_thumbprint d = te)))
      | _ \<Rightarrow> Inr True)"

text \<open>The branch on the type of the event.\<close>

definition apply_event :: "nat \<Rightarrow> LogEvent \<Rightarrow> snapshot_state \<Rightarrow> snapshot_state res" where
  "apply_event index ev st =
     (case ev_body ev of
        IssuanceEvent d \<Rightarrow>
          if ss_state st \<noteq> ''''
          then log_error DUPLICATE_ISSUANCE ''duplicate ISSUANCE in one identity history'' (Some index)
          else
            rbind (issuance_binding_invalid d) (\<lambda>bad.
              (case is_operational_key d of
                 Some k \<Rightarrow>
                   if bad then log_error INVALID_ISSUANCE ''ISSUANCE key binding is invalid'' (Some index)
                   else
                     rbind (thumbprint k) (\<lambda>t.
                       Inr (st\<lparr>ss_state := ''ACTIVE'', ss_entity_key := is_entity_key d, ss_active_key := Some k,
                               ss_active_key_thumbprint := t, ss_key_bound_at := ev_timestamp ev,
                               ss_governance_id := is_governance_id d\<rparr>))
               | None \<Rightarrow> log_error INVALID_ISSUANCE ''ISSUANCE key binding is invalid'' (Some index)))
      | KeyRotationEvent d \<Rightarrow>
          rbind (rotation_breaks st d) (\<lambda>bad.
            if bad
            then log_error KEY_CONTINUITY ''KEY_ROTATION does not continue from the active key'' (Some index)
            else
              Inr (st\<lparr>ss_active_key := kr_new_public_key d, ss_active_key_thumbprint := kr_new_thumbprint d,
                      ss_key_bound_at := ev_timestamp ev\<rparr>))
      | RevocationEvent reason \<Rightarrow>
          if reason \<notin> set RevocationReason
          then log_error INVALID_REVOCATION_REASON ''invalid REVOCATION reason'' (Some index)
          else Inr (st\<lparr>ss_state := ''REVOKED''\<rparr>)
      | RetirementEvent \<Rightarrow> Inr (st\<lparr>ss_state := ''RETIRED''\<rparr>)
      | MigrationEvent d \<Rightarrow>
          if mg_previous_log d = [] \<or> mg_new_log d = [] \<or> mg_final_entry_ref d = [] \<or> mg_previous_log d = mg_new_log d
          then log_error INVALID_MIGRATION ''invalid MIGRATION'' (Some index)
          else Inr st
      | DelegationEvent _ \<Rightarrow> Inr st)"

definition snapshot_step ::
  "pystr \<Rightarrow> pydatetime \<Rightarrow> nat \<Rightarrow> LogEvent \<Rightarrow> snapshot_state \<Rightarrow> snapshot_state res" where
  "snapshot_step domain moment index ev st =
     (if ev_domain ev \<noteq> domain then log_error DOMAIN_MISMATCH ''lifecycle event domain mismatch'' (Some index)
      else
        rbind (time_after (ev_timestamp ev) moment) (\<lambda>later.
          if later then Inr (st\<lparr>ss_past_boundary := True\<rparr>)
          else if ss_past_boundary st
          then log_error SNAPSHOT_NON_PREFIX ''snapshot time is not a verified lifecycle prefix'' (Some index)
          else
            let st = st\<lparr>ss_events_up_to := ss_events_up_to st @ [ev]\<rparr> in
            if ss_state st = '''' \<and> \<not> is_issuance (ev_body ev)
            then log_error GENESIS_REQUIRED ''first lifecycle event must be ISSUANCE'' (Some index)
            else if ss_state st = ''REVOKED'' \<or> ss_state st = ''RETIRED''
            then log_error TERMINAL_STATE ''event after terminal identity state'' (Some index)
            else apply_event index ev st))"

fun snapshot_loop ::
  "pystr \<Rightarrow> pydatetime \<Rightarrow> nat \<Rightarrow> LogEvent list \<Rightarrow> snapshot_state \<Rightarrow> snapshot_state res" where
  "snapshot_loop domain moment index [] st = Inr st"
| "snapshot_loop domain moment index (ev # evs) st =
     rbind (snapshot_step domain moment index ev st) (\<lambda>st'. snapshot_loop domain moment (Suc index) evs st')"

definition snapshot_at :: "DomainLog \<Rightarrow> pydatetime \<Rightarrow> DomainSnapshot res" where
  "snapshot_at history moment =
     (if dl_events history = [] then log_error SNAPSHOT_EMPTY ''no lifecycle events'' None
      else
        rbind (snapshot_loop (dl_domain history) moment 0 (dl_events history) snapshot_init) (\<lambda>st.
          if ss_events_up_to st = [] then log_error SNAPSHOT_EMPTY ''no lifecycle events at or before'' None
          else if ss_state st = '''' \<or> ss_active_key st = None
          then log_error GENESIS_REQUIRED ''no ISSUANCE event found at or before'' None
          else
            Inr \<lparr>sn_domain = dl_domain history, sn_historical_state = ss_state st, sn_active_key = ss_active_key st,
                 sn_active_key_thumbprint = ss_active_key_thumbprint st, sn_key_bound_at = ss_key_bound_at st,
                 sn_governance_id = ss_governance_id st, sn_snapshot_at = moment, sn_events = ss_events_up_to st\<rparr>))"

section \<open>The snapshot of a prefix\<close>

definition at_or_before :: "pydatetime \<Rightarrow> LogEvent \<Rightarrow> bool" where
  "at_or_before moment ev \<longleftrightarrow> time_after (ev_timestamp ev) moment = Inr False"

lemma snapshot_step_cases:
  assumes "snapshot_step domain moment index ev st = Inr st'"
  shows "ev_domain ev = domain \<and>
    (time_after (ev_timestamp ev) moment = Inr True \<and> st' = st\<lparr>ss_past_boundary := True\<rparr> \<or>
     at_or_before moment ev \<and> \<not> ss_past_boundary st
     \<and> (ss_state st = '''' \<longrightarrow> is_issuance (ev_body ev)) \<and> ss_state st \<noteq> ''REVOKED'' \<and> ss_state st \<noteq> ''RETIRED''
     \<and> apply_event index ev (st\<lparr>ss_events_up_to := ss_events_up_to st @ [ev]\<rparr>) = Inr st')"
  using assms
  by (auto simp: snapshot_step_def rbind_Inr_iff log_error_def at_or_before_def Let_def split: if_splits)


lemma snapshot_loop_append:
  "snapshot_loop domain moment i (xs @ ys) st =
   rbind (snapshot_loop domain moment i xs st) (\<lambda>st'. snapshot_loop domain moment (i + length xs) ys st')"
  by (induction xs arbitrary: i st) (auto simp: rbind_assoc intro!: rbind_cong)

lemma snapshot_loop_later:
  assumes "\<forall>ev \<in> set evs. ev_domain ev = domain \<and> time_after (ev_timestamp ev) moment = Inr True"
  shows "snapshot_loop domain moment i evs st = Inr (if evs = [] then st else st\<lparr>ss_past_boundary := True\<rparr>)"
  using assms by (induction evs arbitrary: i st) (auto simp: snapshot_step_def)

text \<open>
  A snapshot is stable under growth of the log: appending events that are later than the moment asked
  for changes nothing, neither the snapshot nor the error.
\<close>

theorem snapshot_stable:
  assumes "\<forall>ev \<in> set new. ev_domain ev = domain \<and> time_after (ev_timestamp ev) moment = Inr True" "evs \<noteq> []"
  shows "snapshot_at \<lparr>dl_domain = domain, dl_events = evs @ new\<rparr> moment
    = snapshot_at \<lparr>dl_domain = domain, dl_events = evs\<rparr> moment"
  using assms(2)
  by (cases "snapshot_loop domain moment 0 evs snapshot_init")
     (auto simp: snapshot_at_def snapshot_loop_append snapshot_loop_later [OF assms(1)])

section \<open>Agreement with the lifecycle check\<close>

text \<open>The reducer's variables after the events of a lifecycle.\<close>

definition reduced :: "pystr \<Rightarrow> pydatetime \<Rightarrow> LogEvent list \<Rightarrow> JWK \<Rightarrow> JWK \<Rightarrow> json \<Rightarrow> snapshot_state \<Rightarrow> bool" where
  "reduced domain moment evs ek ok s st \<longleftrightarrow>
     snapshot_loop domain moment 0 evs snapshot_init = Inr st
     \<and> ss_entity_key st = Some ek \<and> ss_active_key st = Some ok \<and> thumbprint ok = Inr (ss_active_key_thumbprint st)
     \<and> ss_events_up_to st = evs \<and> \<not> ss_past_boundary st
     \<and> ss_state st = (case ev_body (last evs) of RevocationEvent _ \<Rightarrow> ''REVOKED'' | RetirementEvent \<Rightarrow> ''RETIRED'' | _ \<Rightarrow> ''ACTIVE'')
     \<and> state_dict domain (ss_state st) ek ok = Inr s"

lemma state_dict_status:
  "state_dict domain a ek ok = Inr s \<Longrightarrow> \<exists>s'. state_dict domain b ek ok = Inr s'"
  by (auto simp: state_dict_def rbind_Inr_iff)

lemma reduced_snoc:
  assumes "reduced domain moment evs ek ok s st" "\<not> is_terminal (ev_body (last evs))"
    and "ev_domain ev = domain" "at_or_before moment ev"
    and "apply_event (length evs) ev (st\<lparr>ss_events_up_to := evs @ [ev]\<rparr>) = Inr st'"
  shows "snapshot_loop domain moment 0 (evs @ [ev]) snapshot_init = Inr st'"
proof -
  have "ss_state st = ''ACTIVE''"
    using assms(1,2) by (auto simp: reduced_def split: event_body.splits)
  then show ?thesis
    using assms by (auto simp: reduced_def snapshot_loop_append snapshot_step_def at_or_before_def)
qed

lemma lifecycle_reduced:
  assumes "lifecycle pf opts items ek ok s" "is_issuance (ev_body (vl_event (hd items)))"
    and "\<forall>v \<in> set items. ev_domain (vl_event v) = domain \<and> at_or_before moment (vl_event v)"
  shows "\<exists>st. reduced domain moment (map vl_event items) ek ok s st"
  using assms
proof (induction rule: lifecycle.induct)
  case (issued item d ek ok s)
  from issued.hyps obtain te tk where "thumbprint ek = Inr te" "thumbprint ok = Inr tk" "te \<noteq> tk"
    by (auto simp: separate_keys_def)
  with issued.hyps issued.prems show ?case
    by (auto simp: reduced_def snapshot_step_def at_or_before_def snapshot_init_def apply_event_def
        issuance_binding_invalid_def active_state_def)
next
  case (migrated item)
  then show ?case by simp
next
  case (rotated evs ek ok s item d nk s')
  have n: "evs \<noteq> []" using rotated.hyps(1) by (rule lifecycle_nonempty)
  from rotated n obtain st where st: "reduced domain moment (map vl_event evs) ek ok s st" by auto
  have nt: "\<not> is_terminal (ev_body (last (map vl_event evs)))" using rotated.hyps n by (simp add: last_map)
  from rotated.hyps obtain te where te: "thumbprint ek = Inr te" "te \<noteq> kr_new_thumbprint d"
    "kr_new_thumbprint d \<noteq> kr_previous_thumbprint d" by (auto simp: separate_keys_def)
  have "apply_event (length evs) (vl_event item) (st\<lparr>ss_events_up_to := map vl_event evs @ [vl_event item]\<rparr>) =
      Inr (st\<lparr>ss_events_up_to := map vl_event evs @ [vl_event item], ss_active_key := Some nk,
              ss_active_key_thumbprint := kr_new_thumbprint d, ss_key_bound_at := ev_timestamp (vl_event item)\<rparr>)"
    using rotated.hyps st te by (auto simp: apply_event_def rotation_breaks_def reduced_def)
  note loop = reduced_snoc [OF st nt _ _ this [unfolded length_map [of vl_event evs, symmetric]]]
  show ?case
    using loop rotated.prems rotated.hyps st nt
    by (auto simp: reduced_def active_state_def split: event_body.splits)
next
  case (entity_signed evs ek ok s item s')
  have n: "evs \<noteq> []" using entity_signed.hyps(1) by (rule lifecycle_nonempty)
  from entity_signed n obtain st where st: "reduced domain moment (map vl_event evs) ek ok s st" by auto
  have nt: "\<not> is_terminal (ev_body (last (map vl_event evs)))" using entity_signed.hyps n by (simp add: last_map)
  then have active: "ss_state st = ''ACTIVE''" using st by (auto simp: reduced_def split: event_body.splits)
  let ?st = "st\<lparr>ss_events_up_to := map vl_event evs @ [vl_event item],
      ss_state := case ev_body (vl_event item) of RevocationEvent _ \<Rightarrow> ''REVOKED'' | RetirementEvent \<Rightarrow> ''RETIRED'' | _ \<Rightarrow> ''ACTIVE''\<rparr>"
  have "apply_event (length evs) (vl_event item) (st\<lparr>ss_events_up_to := map vl_event evs @ [vl_event item]\<rparr>) = Inr ?st"
    using entity_signed.hyps(3,4) active by (cases "ev_body (vl_event item)") (auto simp: apply_event_def)
  note loop = reduced_snoc [OF st nt _ _ this [unfolded length_map [of vl_event evs, symmetric]]]
  have "state_dict domain (ss_state ?st) ek ok = Inr s'"
    using entity_signed.hyps(3,9) entity_signed.prems(2) st active
    by (cases "ev_body (vl_event item)") (auto simp: next_state_def reduced_def)
  with loop entity_signed.prems st show ?case by (intro exI [of _ ?st]) (auto simp: reduced_def)
qed


lemma lifecycle_snapshot:
  assumes "verify_lifecycle pf items opts = Inr ()" "is_issuance (ev_body (vl_event (hd items)))"
    and "\<forall>v \<in> set items. ev_domain (vl_event v) = domain \<and> at_or_before moment (vl_event v)"
  shows "\<exists>sn ek ok s. snapshot_at \<lparr>dl_domain = domain, dl_events = map vl_event items\<rparr> moment = Inr sn
    \<and> lifecycle pf opts items ek ok s \<and> sn_active_key sn = Some ok
    \<and> thumbprint ok = Inr (sn_active_key_thumbprint sn)
    \<and> state_dict domain (sn_historical_state sn) ek ok = Inr s \<and> sn_events sn = map vl_event items"
proof -
  from assms(1) obtain ek ok s where L: "lifecycle pf opts items ek ok s" by (auto simp: verify_lifecycle_computes)
  from lifecycle_reduced [OF L assms(2,3)] obtain st where st: "reduced domain moment (map vl_event items) ek ok s st" ..
  then have "ss_state st \<noteq> ''''" by (auto simp: reduced_def split: event_body.splits)
  with st lifecycle_nonempty [OF L] have sn: "snapshot_at \<lparr>dl_domain = domain, dl_events = map vl_event items\<rparr> moment = Inr
      \<lparr>sn_domain = domain, sn_historical_state = ss_state st, sn_active_key = ss_active_key st,
       sn_active_key_thumbprint = ss_active_key_thumbprint st, sn_key_bound_at = ss_key_bound_at st,
       sn_governance_id = ss_governance_id st, sn_snapshot_at = moment, sn_events = ss_events_up_to st\<rparr>"
    by (simp add: snapshot_at_def reduced_def)
  have "sn_active_key sn = Some ok \<and> thumbprint ok = Inr (sn_active_key_thumbprint sn)
      \<and> state_dict domain (sn_historical_state sn) ek ok = Inr s \<and> sn_events sn = map vl_event items"
    if "snapshot_at \<lparr>dl_domain = domain, dl_events = map vl_event items\<rparr> moment = Inr sn" for sn
    using that st unfolding sn by (auto simp: reduced_def)
  with sn L show ?thesis by blast
qed

text \<open>
  C25: The reducer and the lifecycle check agree. On the events of an accepted lifecycle that starts with an
  ISSUANCE, \<^verbatim>\<open>snapshot_at\<close> never raises for a moment at or after all of them; the active key and its
  thumbprint are the operational key the check ended with, and the historical state is the status in
  the state object that the next event's \<^verbatim>\<open>prev_state_hash\<close> would commit to.
\<close>

theorem snapshot_agrees_with_lifecycle:
  assumes "verify_lifecycle pf items opts = Inr ()" "is_issuance (ev_body (vl_event (hd items)))"
    and "\<forall>v \<in> set items. ev_domain (vl_event v) = domain \<and> at_or_before moment (vl_event v)"
  shows "\<exists>sn ek ok s. snapshot_at \<lparr>dl_domain = domain, dl_events = map vl_event items\<rparr> moment = Inr sn
    \<and> lifecycle pf opts items ek ok s \<and> sn_active_key sn = Some ok
    \<and> thumbprint ok = Inr (sn_active_key_thumbprint sn)
    \<and> state_dict domain (sn_historical_state sn) ek ok = Inr s \<and> sn_events sn = map vl_event items"
  by (rule lifecycle_snapshot [OF assms])

lemma sample_before:
  "\<forall>v \<in> set [sample_item]. ev_domain (vl_event v) = str ''a.example'' \<and> at_or_before (utc_seconds 20) (vl_event v)"
  "is_issuance (ev_body (vl_event (hd [sample_item])))"
proof -
  have "at_or_before (utc_seconds 20) sample_issuance" unfolding at_or_before_def by code_simp
  then show "\<forall>v \<in> set [sample_item]. ev_domain (vl_event v) = str ''a.example'' \<and> at_or_before (utc_seconds 20) (vl_event v)"
    using sample_fields(1,4) by simp
qed (simp add: sample_fields(1,5))

theorem snapshot_agrees_with_lifecycle_witness:
  "\<exists>sn ek ok s. snapshot_at \<lparr>dl_domain = str ''a.example'', dl_events = map vl_event [sample_item]\<rparr> (utc_seconds 20) = Inr sn
    \<and> lifecycle sample_platform sample_options [sample_item] ek ok s \<and> sn_active_key sn = Some ok
    \<and> thumbprint ok = Inr (sn_active_key_thumbprint sn)
    \<and> state_dict (str ''a.example'') (sn_historical_state sn) ek ok = Inr s \<and> sn_events sn = map vl_event [sample_item]"
  by (rule snapshot_agrees_with_lifecycle [OF sample_verifies sample_before(2,1)])

theorem snapshot_stable_witness:
  "snapshot_at \<lparr>dl_domain = str ''a.example'', dl_events = [sample_issuance] @ [sample_event]\<rparr> (utc_seconds 16)
    = snapshot_at \<lparr>dl_domain = str ''a.example'', dl_events = [sample_issuance]\<rparr> (utc_seconds 16)"
proof (rule snapshot_stable)
  have "ev_domain sample_event = str ''a.example''" "time_after (ev_timestamp sample_event) (utc_seconds 16) = Inr True"
    by code_simp+
  then show "\<forall>ev \<in> set [sample_event]. ev_domain ev = str ''a.example'' \<and> time_after (ev_timestamp ev) (utc_seconds 16) = Inr True"
    by simp
qed simp

section \<open>What a snapshot contains\<close>

lemma snapshot_loop_prefix:
  "snapshot_loop domain moment i evs st = Inr st' \<Longrightarrow>
   \<exists>n \<le> length evs. ss_events_up_to st' = ss_events_up_to st @ take n evs \<and> (\<forall>ev \<in> set (take n evs). at_or_before moment ev)
     \<and> (\<forall>ev \<in> set (drop n evs). time_after (ev_timestamp ev) moment = Inr True)
     \<and> (\<forall>ev \<in> set evs. ev_domain ev = domain) \<and> (ss_past_boundary st \<longrightarrow> n = 0)"
proof (induction evs arbitrary: i st)
  case Nil
  then show ?case by simp
next
  case (Cons ev evs)
  from Cons.prems obtain st1 where 1: "snapshot_step domain moment i ev st = Inr st1"
    "snapshot_loop domain moment (Suc i) evs st1 = Inr st'" by (auto simp: rbind_Inr_iff)
  from Cons.IH [OF 1(2)] obtain n where n: "n \<le> length evs" "ss_events_up_to st' = ss_events_up_to st1 @ take n evs"
    "\<forall>ev \<in> set (take n evs). at_or_before moment ev" "\<forall>ev \<in> set (drop n evs). time_after (ev_timestamp ev) moment = Inr True"
    "\<forall>ev \<in> set evs. ev_domain ev = domain" "ss_past_boundary st1 \<longrightarrow> n = 0" by blast
  have d: "ev_domain ev = domain" using snapshot_step_cases [OF 1(1)] by blast
  have keep: "ss_events_up_to st1 = ss_events_up_to st @ [ev] \<and> ss_past_boundary st1 = ss_past_boundary st"
    if "apply_event i ev (st\<lparr>ss_events_up_to := ss_events_up_to st @ [ev]\<rparr>) = Inr st1"
    using that by (auto simp: apply_event_def rbind_Inr_iff log_error_def split: event_body.splits if_splits option.splits)
  show ?case
  proof (cases "time_after (ev_timestamp ev) moment = Inr True")
    case True
    then have "st1 = st\<lparr>ss_past_boundary := True\<rparr>" using snapshot_step_cases [OF 1(1)] by (auto simp: at_or_before_def)
    with n True d show ?thesis by (intro exI [of _ 0]) auto
  next
    case False
    then have "at_or_before moment ev" "\<not> ss_past_boundary st" "ss_events_up_to st1 = ss_events_up_to st @ [ev]"
      using snapshot_step_cases [OF 1(1)] keep by auto
    with n d show ?thesis by (intro exI [of _ "Suc n"]) auto
  qed
qed

definition keys_bound :: "snapshot_state \<Rightarrow> bool" where
  "keys_bound st \<longleftrightarrow>
     (if ss_state st = '''' then ss_events_up_to st = [] else
      ss_state st \<in> {''ACTIVE'', ''REVOKED'', ''RETIRED''} \<and>
      (\<exists>e k te. ss_entity_key st = Some e \<and> ss_active_key st = Some k \<and> thumbprint k = Inr (ss_active_key_thumbprint st)
         \<and> thumbprint e = Inr te \<and> te \<noteq> ss_active_key_thumbprint st))"

lemma snapshot_step_keys:
  assumes "snapshot_step domain moment i ev st = Inr st'" "keys_bound st"
  shows "keys_bound st'"
proof -
  have "keys_bound st'" if "apply_event i ev (st\<lparr>ss_events_up_to := ss_events_up_to st @ [ev]\<rparr>) = Inr st'"
    "ss_state st = '''' \<longrightarrow> is_issuance (ev_body ev)"
    using that assms(2)
    by (cases "ev_body ev")
       (auto simp: apply_event_def keys_bound_def rbind_Inr_iff log_error_def issuance_binding_invalid_def rotation_breaks_def
          split: if_splits option.splits)
  moreover have "keys_bound (st\<lparr>ss_past_boundary := True\<rparr>)" using assms(2) by (auto simp: keys_bound_def split: if_splits)
  ultimately show ?thesis using snapshot_step_cases [OF assms(1)] by auto
qed

lemma snapshot_loop_keys:
  "snapshot_loop domain moment i evs st = Inr st' \<Longrightarrow> keys_bound st \<Longrightarrow> keys_bound st'"
  by (induction evs arbitrary: i st) (auto simp: rbind_Inr_iff dest: snapshot_step_keys)

text \<open>
  A snapshot reports a point of the history: its events are the longest prefix not later than the
  moment asked for and everything after them is later, all for the domain; the state is one of ACTIVE,
  REVOKED and RETIRED; and the active key has the reported thumbprint.
\<close>

theorem snapshot_is_prefix:
  assumes "snapshot_at history moment = Inr sn"
  shows "(\<exists>n \<le> length (dl_events history). sn_events sn = take n (dl_events history) \<and> 0 < n
      \<and> (\<forall>ev \<in> set (drop n (dl_events history)). time_after (ev_timestamp ev) moment = Inr True))
    \<and> (\<forall>ev \<in> set (sn_events sn). at_or_before moment ev \<and> ev_domain ev = sn_domain sn)
    \<and> sn_historical_state sn \<in> {''ACTIVE'', ''REVOKED'', ''RETIRED''}
    \<and> (\<exists>k. sn_active_key sn = Some k \<and> thumbprint k = Inr (sn_active_key_thumbprint sn))"
proof -
  from assms obtain st where loop: "snapshot_loop (dl_domain history) moment 0 (dl_events history) snapshot_init = Inr st"
    and ne: "ss_events_up_to st \<noteq> []" "ss_state st \<noteq> ''''" and sn: "sn_events sn = ss_events_up_to st"
    "sn_historical_state sn = ss_state st" "sn_active_key sn = ss_active_key st" "sn_domain sn = dl_domain history"
    "sn_active_key_thumbprint sn = ss_active_key_thumbprint st"
    by (auto simp: snapshot_at_def rbind_Inr_iff log_error_def split: if_splits)
  have "keys_bound snapshot_init" by (simp add: keys_bound_def snapshot_init_def)
  with loop have k: "keys_bound st" by (rule snapshot_loop_keys)
  from snapshot_loop_prefix [OF loop] obtain n where n: "n \<le> length (dl_events history)" "ss_events_up_to st = take n (dl_events history)"
    "\<forall>ev \<in> set (take n (dl_events history)). at_or_before moment ev"
    "\<forall>ev \<in> set (drop n (dl_events history)). time_after (ev_timestamp ev) moment = Inr True"
    "\<forall>ev \<in> set (dl_events history). ev_domain ev = dl_domain history" by (auto simp: snapshot_init_def)
  moreover have "0 < n" using n(2) ne(1) by (cases n) auto
  ultimately show ?thesis using sn ne k by (auto simp: keys_bound_def dest: in_set_takeD)
qed

theorem snapshot_is_prefix_witness:
  "\<exists>sn. snapshot_at \<lparr>dl_domain = str ''a.example'', dl_events = map vl_event [sample_item]\<rparr> (utc_seconds 20) = Inr sn
    \<and> sn_historical_state sn \<in> {''ACTIVE'', ''REVOKED'', ''RETIRED''}
    \<and> (\<exists>k. sn_active_key sn = Some k \<and> thumbprint k = Inr (sn_active_key_thumbprint sn))"
proof -
  obtain sn where sn: "snapshot_at \<lparr>dl_domain = str ''a.example'', dl_events = map vl_event [sample_item]\<rparr> (utc_seconds 20) = Inr sn"
    using lifecycle_snapshot [OF sample_verifies sample_before(2,1)] by blast
  with snapshot_is_prefix [OF sn] show ?thesis by blast
qed

end
