(* ===== verification/Stream_Source.thy ===== *)
theory Stream_Source
  imports Tiles Signed_Note Merkle Stream_Verifier
begin

text \<open>
  \<^verbatim>\<open>ScanStreamSource\<close> of \<^verbatim>\<open>dnsid/c2sp_tlog/stream_source.py\<close>: fetching a checkpoint and every entry bundle
  beneath it. The generator \<^verbatim>\<open>_load_steps\<close> and the driver that answers its requests are one function
  of the transport; a transport is a function of the URL, as the callable the code is given. What
  \<^verbatim>\<open>fetch_bounded_bytes\<close> of \<^verbatim>\<open>resource_fetcher.py\<close> adds for a bounded fetcher is modelled too.
\<close>

section \<open>Transports\<close>

datatype response = RBytes bytes | RText pystr | ROther

text \<open>
  How a fetch can fail, as the handlers tell it apart: an error of the package, a \<^verbatim>\<open>VerificationError\<close>,
  a \<^verbatim>\<open>httpx.ConnectError\<close> with the marker of the address filter or without, a timeout (the built-in
  \<^verbatim>\<open>TimeoutError\<close> or that of httpx), another \<^verbatim>\<open>OSError\<close> or \<^verbatim>\<open>httpx.TransportError\<close> (the first flag tells the
  built-in, the second that the marker or a redirect loop is the cause), or any other exception.
\<close>

datatype failure = TlogFailure exn | VerificationFailure exn | ConnectFailure bool | TimeoutFailure bool
  | OsFailure bool bool | OtherFailure

datatype transport =
    Callable "pystr \<Rightarrow> failure + response"
  | Bounded "pystr \<Rightarrow> int \<Rightarrow> failure + response"

definition transport_err :: "string \<Rightarrow> bool \<Rightarrow> 'a res" where
  "transport_err m transient = Inl (C2spTlogTransportError m transient None)"

definition checked_resource_response :: "response \<Rightarrow> int \<Rightarrow> bytes res" where
  "checked_resource_response response max_bytes =
     (case response of
        RBytes data \<Rightarrow>
          if int (length data) > max_bytes then transport_err ''C2SP response exceeds configured byte maximum'' False
          else Inr data
      | _ \<Rightarrow> transport_err ''C2SP resource fetcher returned a non-bytes response'' False)"

definition fetch_bounded_bytes :: "(pystr \<Rightarrow> int \<Rightarrow> failure + response) \<Rightarrow> pystr \<Rightarrow> int \<Rightarrow> bytes res" where
  "fetch_bounded_bytes fetch url max_bytes =
     (if max_bytes < 1 then Inl (ArgumentError ''c2sp-tlog max_bytes must be a positive integer'')
      else
        (case fetch url max_bytes of
           Inl (TlogFailure e) \<Rightarrow>
             (case e of C2spTlogTransportError _ _ _ \<Rightarrow> Inl e | _ \<Rightarrow> transport_err ''failed to fetch C2SP resource'' False)
         | Inl (VerificationFailure e) \<Rightarrow> Inl e
         | Inl (ConnectFailure blocked) \<Rightarrow> transport_err ''failed to connect while fetching C2SP resource'' (\<not> blocked)
         | Inl (TimeoutFailure _) \<Rightarrow> transport_err ''timed out fetching C2SP resource'' True
         | Inl (OsFailure _ permanent) \<Rightarrow> transport_err ''failed to fetch C2SP resource'' (\<not> permanent)
         | Inl OtherFailure \<Rightarrow> transport_err ''failed to fetch C2SP resource'' False
         | Inr response \<Rightarrow> checked_resource_response response max_bytes))"

definition source_bytes :: "transport \<Rightarrow> pystr \<Rightarrow> int \<Rightarrow> bytes res" where
  "source_bytes transport url maximum =
     (case transport of
        Bounded fetch \<Rightarrow> fetch_bounded_bytes fetch url maximum
      | Callable fetch \<Rightarrow>
          (case fetch url of
             Inl (TlogFailure e) \<Rightarrow> Inl e
           | Inl (TimeoutFailure builtin) \<Rightarrow> transport_err ''failed to fetch C2SP resource'' builtin
           | Inl (OsFailure builtin _) \<Rightarrow> transport_err ''failed to fetch C2SP resource'' builtin
           | Inl _ \<Rightarrow> transport_err ''failed to fetch C2SP resource'' False
           | Inr ROther \<Rightarrow> transport_err ''C2SP transport returned a non-bytes response'' False
           | Inr response \<Rightarrow>
               rbind (case response of
                        RText s \<Rightarrow> (case utf8_encode s of None \<Rightarrow> Inl (ValueError ''UnicodeEncodeError'') | Some b \<Rightarrow> Inr b)
                      | RBytes b \<Rightarrow> Inr b
                      | ROther \<Rightarrow> Inr []) (\<lambda>data.
                 if int (length data) > maximum
                 then transport_err ''C2SP response exceeds configured byte maximum'' False else Inr data)))"

section \<open>Scanning\<close>

definition ENTRIES_PER_BUNDLE :: int where
  "ENTRIES_PER_BUNDLE = 256"

record C2spScanLimits =
  sc_max_tree_size :: int
  sc_max_checkpoint_bytes :: int
  sc_max_entry_bundle_bytes :: int
  sc_max_total_entry_bytes :: int

definition positive :: "int \<Rightarrow> string \<Rightarrow> int res" where
  "positive x name = (if x < 1 then verif_err (name @ '' must be a positive integer'') else Inr x)"

definition default_scan_limits :: C2spScanLimits where
  "default_scan_limits =
     \<lparr>sc_max_tree_size = 1000000, sc_max_checkpoint_bytes = 1048576, sc_max_entry_bundle_bytes = 16777472,
      sc_max_total_entry_bytes = 268435456\<rparr>"

definition check_scan_limits :: "C2spScanLimits \<Rightarrow> unit res" where
  "check_scan_limits l =
     rbind (positive (sc_max_tree_size l) ''max_tree_size'') (\<lambda>_.
     rbind (positive (sc_max_checkpoint_bytes l) ''max_checkpoint_bytes'') (\<lambda>_.
     rbind (positive (sc_max_entry_bundle_bytes l) ''max_entry_bundle_bytes'') (\<lambda>_.
     rbind (positive (sc_max_total_entry_bytes l) ''max_total_entry_bytes'') (\<lambda>_. Inr ()))))"

record StreamEvidence =
  se_checkpoint :: Checkpoint
  se_entries :: "IndexedEntry list"
  se_complete :: bool
  se_checkpoint_bytes :: bytes
  se_completeness_mode :: pystr
  se_complete_through_size :: "int option"
  se_response_bytes :: "int option"

definition indexed_from :: "int \<Rightarrow> bytes list \<Rightarrow> IndexedEntry list" where
  "indexed_from start bundle =
     map (\<lambda>(i, entry). \<lparr>ie_index = start + int i, ie_data = entry\<rparr>) (enumerate 0 bundle)"

text \<open>The \<^verbatim>\<open>while\<close> loop: the entries of bundle \<open>n\<close> and later, and the total number of bundle bytes.\<close>

function load_bundles ::
  "transport \<Rightarrow> C2spScanLimits \<Rightarrow> pystr \<Rightarrow> int \<Rightarrow> int \<Rightarrow> int \<Rightarrow> (IndexedEntry list \<times> int) res" where
  "load_bundles transport limits log_prefix tree_size n used =
     (if n * ENTRIES_PER_BUNDLE < tree_size then
        (let want = min ENTRIES_PER_BUNDLE (tree_size - n * ENTRIES_PER_BUNDLE);
             width = (if want = ENTRIES_PER_BUNDLE then None else Some want) in
         rbind (entry_bundle_path log_prefix n width) (\<lambda>url.
         rbind (source_bytes transport url (sc_max_entry_bundle_bytes limits)) (\<lambda>bundle_bytes.
           let used' = used + int (length bundle_bytes) in
           if used' > sc_max_total_entry_bytes limits
           then verif_err ''entry bundles exceed configured total byte maximum''
           else
             rbind (parse_entry_bundle bundle_bytes) (\<lambda>bundle.
               if int (length bundle) \<noteq> want then verif_err ''entry bundle width mismatch''
               else
                 rbind (load_bundles transport limits log_prefix tree_size (n + 1) used') (\<lambda>(rest, used'').
                   Inr (indexed_from (n * ENTRIES_PER_BUNDLE) bundle @ rest, used''))))))
      else Inr ([], used))"
  by pat_completeness auto
termination
  by (relation "measure (\<lambda>(_, _, _, tree_size, n, _). nat (tree_size - n * ENTRIES_PER_BUNDLE))")
     (auto simp: ENTRIES_PER_BUNDLE_def)

declare load_bundles.simps [simp del]

definition load :: "transport \<Rightarrow> (Checkpoint \<Rightarrow> unit res) \<Rightarrow> C2spScanLimits \<Rightarrow> pystr \<Rightarrow> StreamEvidence res" where
  "load transport authenticate_checkpoint limits log_prefix =
     rbind (source_bytes transport (checkpoint_path log_prefix) (sc_max_checkpoint_bytes limits)) (\<lambda>checkpoint_bytes.
     rbind (case utf8_decode checkpoint_bytes of None \<Rightarrow> Inl (ValueError ''UnicodeDecodeError'') | Some t \<Rightarrow> Inr t) (\<lambda>text.
     rbind (parse_checkpoint text) (\<lambda>checkpoint.
     rbind (authenticate_checkpoint checkpoint) (\<lambda>_.
       if ck_tree_size checkpoint > sc_max_tree_size limits
       then verif_err ''checkpoint tree size exceeds configured maximum''
       else
         rbind (load_bundles transport limits log_prefix (ck_tree_size checkpoint) 0 0) (\<lambda>(entries, used).
           Inr \<lparr>se_checkpoint = checkpoint, se_entries = entries, se_complete = True,
                se_checkpoint_bytes = checkpoint_bytes, se_completeness_mode = str ''full-scan'',
                se_complete_through_size = Some (ck_tree_size checkpoint),
                se_response_bytes = Some (int (length checkpoint_bytes) + used)\<rparr>)))))"

section \<open>Single entries\<close>

record C2spProvenEntry =
  pe_index :: int
  pe_entry_bytes :: bytes
  pe_inclusion_proof :: "bytes list"
  pe_checkpoint :: bytes

definition proven_entry :: "StreamEvidence \<Rightarrow> int \<Rightarrow> C2spProvenEntry res" where
  "proven_entry evidence index =
     (let entries = sort_key ie_index (se_entries evidence) in
      if index < 0 \<or> index \<ge> int (length entries) \<or> ie_index (entries ! nat index) \<noteq> index
      then verif_err ''C2SP entry index out of range''
      else
        rbind (inclusion_proof (map ie_data entries) index) (\<lambda>proof.
          Inr \<lparr>pe_index = index, pe_entry_bytes = ie_data (entries ! nat index), pe_inclusion_proof = proof,
               pe_checkpoint = se_checkpoint_bytes evidence\<rparr>))"

definition fetch_checkpoint :: "transport \<Rightarrow> C2spScanLimits \<Rightarrow> pystr \<Rightarrow> bytes res" where
  "fetch_checkpoint transport limits log_prefix =
     source_bytes transport (checkpoint_path log_prefix) (sc_max_checkpoint_bytes limits)"

definition source_read_entry ::
  "transport \<Rightarrow> (Checkpoint \<Rightarrow> unit res) \<Rightarrow> C2spScanLimits \<Rightarrow> pystr \<Rightarrow> int \<Rightarrow> C2spProvenEntry res" where
  "source_read_entry transport authenticate_checkpoint limits log_prefix index =
     rbind (load transport authenticate_checkpoint limits log_prefix) (\<lambda>evidence. proven_entry evidence index)"

section \<open>Public reads\<close>

record C2spResourceFetchGuarantees =
  fg_https_only :: bool
  fg_rejects_redirects :: bool
  fg_validates_all_resolved_addresses :: bool
  fg_connects_to_validated_address :: bool
  fg_bounds_response_during_read :: bool

definition enforce_public_read_guarantees :: "C2spResourceFetchGuarantees option \<Rightarrow> unit res" where
  "enforce_public_read_guarantees guarantees =
     (case guarantees of
        None \<Rightarrow> verif_err ''public c2sp-tlog source must declare resource-fetch security capabilities''
      | Some g \<Rightarrow>
          if \<not> fg_https_only g \<or> \<not> fg_rejects_redirects g \<or> \<not> fg_validates_all_resolved_addresses g
             \<or> \<not> fg_connects_to_validated_address g \<or> \<not> fg_bounds_response_during_read g
          then verif_err ''public c2sp-tlog source lacks capabilities'' else Inr ())"

section \<open>What a scan returns\<close>

lemma indexed_from_simps [simp]:
  "length (indexed_from start b) = length b" "map ie_data (indexed_from start b) = b"
  "map ie_index (indexed_from start b) = map (\<lambda>i. start + int i) [0..<length b]"
proof -
  have e: "enumerate 0 b = zip [0..<length b] b" by (simp add: enumerate_eq_zip)
  show "length (indexed_from start b) = length b" by (simp add: indexed_from_def)
  show "map ie_data (indexed_from start b) = b" by (rule nth_equalityI) (simp_all add: indexed_from_def e)
  show "map ie_index (indexed_from start b) = map (\<lambda>i. start + int i) [0..<length b]"
    by (rule nth_equalityI) (simp_all add: indexed_from_def e)
qed

lemma upto_chunk:
  assumes "int k = w" "s + w \<le> m"
  shows "map (\<lambda>i. s + int i) [0..<k] @ [s + w..m - 1] = [s..m - 1]"
proof (rule nth_equalityI)
  show "length (map (\<lambda>i. s + int i) [0..<k] @ [s + w..m - 1]) = length [s..m - 1]" using assms by simp
  fix i assume "i < length (map (\<lambda>i. s + int i) [0..<k] @ [s + w..m - 1])"
  then show "(map (\<lambda>i. s + int i) [0..<k] @ [s + w..m - 1]) ! i = [s..m - 1] ! i"
    using assms by (cases "i < k") (auto simp: nth_append)
qed

lemma load_bundles_scan:
  "load_bundles transport limits log_prefix tree_size n used = Inr (es, used') \<Longrightarrow> 0 \<le> n \<Longrightarrow>
   map ie_index es = [n * ENTRIES_PER_BUNDLE..tree_size - 1]
   \<and> used' = used + int (sum_list (map (\<lambda>e. length (ie_data e) + 2) es)) \<and> used \<le> used'
   \<and> (es \<noteq> [] \<longrightarrow> used' \<le> sc_max_total_entry_bytes limits)"
proof (induction transport limits log_prefix tree_size n used arbitrary: es used' rule: load_bundles.induct)
  case (1 transport limits log_prefix tree_size n used)
  show ?case
  proof (cases "n * ENTRIES_PER_BUNDLE < tree_size")
    case False
    with "1.prems" show ?thesis by (subst (asm) load_bundles.simps) auto
  next
    case True
    define want where "want = min ENTRIES_PER_BUNDLE (tree_size - n * ENTRIES_PER_BUNDLE)"
    define width where "width = (if want = ENTRIES_PER_BUNDLE then None else Some want)"
    note step = "1.prems"(1) [unfolded load_bundles.simps [of transport limits log_prefix tree_size n used]]
    from step True obtain url b items rest where
      b: "entry_bundle_path log_prefix n width = Inr url" "source_bytes transport url (sc_max_entry_bundle_bytes limits) = Inr b"
        "used + int (length b) \<le> sc_max_total_entry_bytes limits" "parse_entry_bundle b = Inr items"
        "int (length items) = want"
      and r: "load_bundles transport limits log_prefix tree_size (n + 1) (used + int (length b)) = Inr (rest, used')"
      and es: "es = indexed_from (n * ENTRIES_PER_BUNDLE) items @ rest"
      unfolding Let_def want_def [symmetric] width_def [symmetric]
      by (auto simp: rbind_Inr_iff split: if_splits prod.splits)
    note IH = "1.IH" [OF True want_def width_def b(1,2) refl _ b(4) _ r]
    have wp: "0 < want" "want \<le> ENTRIES_PER_BUNDLE" using True by (auto simp: want_def ENTRIES_PER_BUNDLE_def)
    have ih: "map ie_index rest = [(n + 1) * ENTRIES_PER_BUNDLE..tree_size - 1]"
      "used' = used + int (length b) + int (sum_list (map (\<lambda>e. length (ie_data e) + 2) rest))"
      "rest \<noteq> [] \<longrightarrow> used' \<le> sc_max_total_entry_bytes limits"
      using IH b "1.prems"(2) by auto
    have bytes: "length b = sum_list (map (\<lambda>e. length e + 2) items)"
      using encode_parse_bundle [OF b(4)]
    proof (induction items arbitrary: b)
      case (Cons e items)
      then obtain out where "encode_entry_bundle items = Inr out" "b = to_bytes_be 2 (length e) @ e @ out"
        by (auto simp: rbind_Inr_iff split: if_splits)
      with Cons.IH show ?case by (simp add: to_bytes_be_2)
    qed simp
    have sums: "sum_list (map (\<lambda>e. length (ie_data e) + 2) (indexed_from s items)) = sum_list (map (\<lambda>e. length e + 2) items)" for s
    proof -
      have "map (\<lambda>e. length (ie_data e) + 2) (indexed_from s items) = map (\<lambda>e. length e + 2) (map ie_data (indexed_from s items))"
        by (simp only: map_map comp_def)
      then show ?thesis by simp
    qed
    have idx: "map (\<lambda>i. n * ENTRIES_PER_BUNDLE + int i) [0..<length items] @ [(n + 1) * ENTRIES_PER_BUNDLE..tree_size - 1]
        = [n * ENTRIES_PER_BUNDLE..tree_size - 1]"
    proof -
      have "[(n + 1) * ENTRIES_PER_BUNDLE..tree_size - 1] = [n * ENTRIES_PER_BUNDLE + want..tree_size - 1]"
        by (auto simp: want_def min_def algebra_simps)
      moreover have "n * ENTRIES_PER_BUNDLE + want \<le> tree_size" by (simp add: want_def)
      ultimately show ?thesis using upto_chunk [OF b(5)] by simp
    qed
    have ne: "items \<noteq> []" using wp b(5) by auto
    show ?thesis
      using ih bytes b(3) sums idx unfolding es by auto
  qed
qed


text \<open>
  C30: A scan is complete and bounded. The evidence that \<^verbatim>\<open>load\<close> returns holds exactly one entry for every
  index below the size of the authenticated checkpoint, in order, and the tree size, the checkpoint
  bytes and the bytes of all entry bundles (two bytes of length per entry) stay within the limits.
\<close>

theorem scan_complete_and_bounded:
  assumes "load transport auth limits log_prefix = Inr ev"
  shows "auth (se_checkpoint ev) = Inr () \<and> se_complete ev
    \<and> map ie_index (se_entries ev) = [0..ck_tree_size (se_checkpoint ev) - 1]
    \<and> ck_tree_size (se_checkpoint ev) \<le> sc_max_tree_size limits
    \<and> int (length (se_checkpoint_bytes ev)) \<le> sc_max_checkpoint_bytes limits
    \<and> (se_entries ev \<noteq> [] \<longrightarrow> int (sum_list (map (\<lambda>e. length (ie_data e) + 2) (se_entries ev))) \<le> sc_max_total_entry_bytes limits)
    \<and> se_response_bytes ev =
        Some (int (length (se_checkpoint_bytes ev)) + int (sum_list (map (\<lambda>e. length (ie_data e) + 2) (se_entries ev))))"
proof -
  from assms obtain cb decoded c es used where l: "source_bytes transport (checkpoint_path log_prefix) (sc_max_checkpoint_bytes limits) = Inr cb"
    "parse_checkpoint decoded = Inr c" "auth c = Inr ()" "ck_tree_size c \<le> sc_max_tree_size limits"
    "load_bundles transport limits log_prefix (ck_tree_size c) 0 0 = Inr (es, used)"
    and ev: "ev = \<lparr>se_checkpoint = c, se_entries = es, se_complete = True, se_checkpoint_bytes = cb,
        se_completeness_mode = str ''full-scan'', se_complete_through_size = Some (ck_tree_size c),
        se_response_bytes = Some (int (length cb) + used)\<rparr>"
    by (auto simp: load_def rbind_Inr_iff split: if_splits option.splits)
  have "int (length cb) \<le> sc_max_checkpoint_bytes limits"
    using l(1) by (auto simp: source_bytes_def fetch_bounded_bytes_def checked_resource_response_def transport_err_def
        rbind_Inr_iff split: transport.splits sum.splits failure.splits response.splits if_splits exn.splits option.splits)
  with l(3,4) load_bundles_scan [OF l(5)] show ?thesis unfolding ev by auto
qed

section \<open>Reading an honest log\<close>

text \<open>The entries of bundle \<open>n\<close> and the width in its path.\<close>

definition bundle_of :: "bytes list \<Rightarrow> nat \<Rightarrow> bytes list" where
  "bundle_of es n = take 256 (drop (n * 256) es)"

definition bundle_width :: "bytes list \<Rightarrow> nat \<Rightarrow> int option" where
  "bundle_width es n = (if length (bundle_of es n) = 256 then None else Some (int (length (bundle_of es n))))"

definition serves :: "transport \<Rightarrow> C2spScanLimits \<Rightarrow> pystr \<Rightarrow> bytes list \<Rightarrow> bool" where
  "serves transport limits log_prefix es \<longleftrightarrow>
     (\<forall>n. n * 256 < length es \<longrightarrow>
        (\<exists>url b. entry_bundle_path log_prefix (int n) (bundle_width es n) = Inr url
           \<and> encode_entry_bundle (bundle_of es n) = Inr b
           \<and> source_bytes transport url (sc_max_entry_bundle_bytes limits) = Inr b))"

lemma encoded_length: "encode_entry_bundle es = Inr b \<Longrightarrow> length b = sum_list (map (\<lambda>e. length e + 2) es)"
proof (induction es arbitrary: b)
  case (Cons e es)
  then obtain out where "encode_entry_bundle es = Inr out" "b = to_bytes_be 2 (length e) @ e @ out"
    by (auto simp: rbind_Inr_iff split: if_splits)
  with Cons.IH show ?case by (simp add: to_bytes_be_2)
qed simp

lemma indexed_from_append:
  "indexed_from s (xs @ ys) = indexed_from s xs @ indexed_from (s + int (length xs)) ys"
  by (rule nth_equalityI) (auto simp: indexed_from_def enumerate_eq_zip nth_append)

lemma load_bundles_honest:
  assumes "serves transport limits log_prefix es"
    and "used + int (sum_list (map (\<lambda>e. length e + 2) (drop (n * 256) es))) \<le> sc_max_total_entry_bytes limits"
  shows "load_bundles transport limits log_prefix (int (length es)) (int n) used
    = Inr (indexed_from (int n * 256) (drop (n * 256) es), used + int (sum_list (map (\<lambda>e. length e + 2) (drop (n * 256) es))))"
  using assms(2)
proof (induction "length es - n * 256" arbitrary: n used rule: less_induct)
  case less
  show ?case
  proof (cases "n * 256 < length es")
    case False
    then have "\<not> int n * ENTRIES_PER_BUNDLE < int (length es)" by (simp add: ENTRIES_PER_BUNDLE_def)
    with False show ?thesis by (subst load_bundles.simps) (simp add: indexed_from_def)
  next
    case True
    with assms(1) obtain url b where u: "entry_bundle_path log_prefix (int n) (bundle_width es n) = Inr url"
      "encode_entry_bundle (bundle_of es n) = Inr b" "source_bytes transport url (sc_max_entry_bundle_bytes limits) = Inr b"
      by (auto simp: serves_def)
    define w where "w = min ENTRIES_PER_BUNDLE (int (length es) - int n * ENTRIES_PER_BUNDLE)"
    have len: "int (length (bundle_of es n)) = w" using True by (auto simp: bundle_of_def w_def ENTRIES_PER_BUNDLE_def min_def)
    have width: "(if w = ENTRIES_PER_BUNDLE then None else Some w) = bundle_width es n"
      unfolding bundle_width_def len [symmetric] by (simp add: ENTRIES_PER_BUNDLE_def)
    have split: "drop (n * 256) es = bundle_of es n @ drop (Suc n * 256) es"
      by (simp add: bundle_of_def flip: drop_drop)
    have lt: "int n * ENTRIES_PER_BUNDLE < int (length es)" using True by (simp add: ENTRIES_PER_BUNDLE_def)
    have small: "used + int (length b) \<le> sc_max_total_entry_bytes limits"
      using less.prems encoded_length [OF u(2)] unfolding split by simp
    have sub: "used + int (length b) + int (sum_list (map (\<lambda>e. length e + 2) (drop (Suc n * 256) es))) \<le> sc_max_total_entry_bytes limits"
      using less.prems encoded_length [OF u(2)] unfolding split by simp
    have IH: "load_bundles transport limits log_prefix (int (length es)) (int n + 1) (used + int (length b))
      = Inr (indexed_from (int (Suc n) * 256) (drop (Suc n * 256) es),
             used + int (length b) + int (sum_list (map (\<lambda>e. length e + 2) (drop (Suc n * 256) es))))"
      using less.hyps [OF _ sub] True by (simp add: algebra_simps)
    have tail: "drop (Suc n * 256) es = [] \<or> w = 256" using True by (auto simp: w_def ENTRIES_PER_BUNDLE_def min_def)
    have "load_bundles transport limits log_prefix (int (length es)) (int n) used
      = Inr (indexed_from (int n * ENTRIES_PER_BUNDLE) (bundle_of es n) @ indexed_from (int (Suc n) * 256) (drop (Suc n * 256) es),
             used + int (length b) + int (sum_list (map (\<lambda>e. length e + 2) (drop (Suc n * 256) es))))"
      unfolding load_bundles.simps [of transport limits log_prefix "int (length es)" "int n" used] Let_def w_def [symmetric] width
      using lt u small len parse_encode_bundle [OF u(2)] IH by simp
    moreover have "indexed_from (int n * ENTRIES_PER_BUNDLE) (bundle_of es n) @ indexed_from (int (Suc n) * 256) (drop (Suc n * 256) es)
      = indexed_from (int n * 256) (drop (n * 256) es)"
      using tail len unfolding split indexed_from_append by (auto simp: ENTRIES_PER_BUNDLE_def algebra_simps indexed_from_def)
    moreover have "used + int (length b) + int (sum_list (map (\<lambda>e. length e + 2) (drop (Suc n * 256) es)))
      = used + int (sum_list (map (\<lambda>e. length e + 2) (drop (n * 256) es)))"
      using encoded_length [OF u(2)] unfolding split by simp
    ultimately show ?thesis by simp
  qed
qed


text \<open>
  C31: An honest log is read to the end. When the transport serves the checkpoint of \<open>es\<close> and, at the path
  of every bundle, the encoding of its slice of \<open>es\<close>, and everything is within the limits, the scan
  terminates with evidence that holds exactly \<open>es\<close>.
\<close>

theorem honest_log_scanned:
  assumes "source_bytes transport (checkpoint_path log_prefix) (sc_max_checkpoint_bytes limits) = Inr cb"
    and "utf8_decode cb = Some t" "parse_checkpoint t = Inr c" "auth c = Inr ()" "ck_tree_size c = int (length es)"
    and "int (length es) \<le> sc_max_tree_size limits"
    and "int (sum_list (map (\<lambda>e. length e + 2) es)) \<le> sc_max_total_entry_bytes limits"
    and "serves transport limits log_prefix es"
  shows "\<exists>ev. load transport auth limits log_prefix = Inr ev \<and> se_checkpoint ev = c \<and> se_complete ev
    \<and> se_entries ev = indexed_from 0 es"
  using assms load_bundles_honest [OF assms(8), of 0 0] by (simp add: load_def)

text \<open>The witness of both: a log of one entry.\<close>

definition sample_log_checkpoint :: Checkpoint where
  "sample_log_checkpoint =
     \<lparr>ck_origin = str ''l'', ck_tree_size = 1, ck_root_hash = replicate 32 0, ck_signatures = [],
      ck_signed_text = str ''l'' @ [10] @ str ''1'' @ [10] @ str ''AAAAAAAAAAAAAAAAAAAAAAAAAAAAAAAAAAAAAAAAAAA='' @ [10]\<rparr>"

definition sample_log_text :: pystr where
  "sample_log_text = ck_signed_text sample_log_checkpoint"

definition sample_transport :: transport where
  "sample_transport = Callable (\<lambda>url.
     if url = str ''p/checkpoint'' then Inr (RText sample_log_text)
     else if url = str ''p/tile/entries/000.p/1'' then Inr (RBytes [0, 1, 7]) else Inl OtherFailure)"

lemma sample_log_parses: "parse_checkpoint sample_log_text = Inr sample_log_checkpoint"
  by code_simp

lemma sample_log_bytes: "\<exists>cb. utf8_encode sample_log_text = Some cb \<and> length cb = 49"
proof -
  have "map_option length (utf8_encode sample_log_text) = Some 49" by code_simp
  then show ?thesis by (cases "utf8_encode sample_log_text") auto
qed

lemma sample_serves: "serves sample_transport default_scan_limits (str ''p'') [[7]]"
proof -
  have "encode_entry_bundle [[7 :: byte]] = Inr [0, 1, 7]" by code_simp
  moreover have "entry_bundle_path (str ''p'') 0 (Some 1) = Inr (str ''p/tile/entries/000.p/1'')" by code_simp
  moreover have "source_bytes sample_transport (str ''p/tile/entries/000.p/1'') (sc_max_entry_bundle_bytes default_scan_limits)
      = Inr [0, 1, 7]"
    by (simp add: source_bytes_def sample_transport_def default_scan_limits_def)
  ultimately show ?thesis by (auto simp: serves_def bundle_of_def bundle_width_def)
qed

theorem honest_log_scanned_witness:
  "\<exists>ev. load sample_transport (\<lambda>_. Inr ()) default_scan_limits (str ''p'') = Inr ev
    \<and> se_checkpoint ev = sample_log_checkpoint \<and> se_complete ev \<and> se_entries ev = indexed_from 0 [[7]]"
proof -
  obtain cb where cb: "utf8_encode sample_log_text = Some cb" "length cb = 49" using sample_log_bytes by blast
  have "source_bytes sample_transport (checkpoint_path (str ''p'')) (sc_max_checkpoint_bytes default_scan_limits) = Inr cb"
    using cb by (simp add: source_bytes_def sample_transport_def checkpoint_path_def default_scan_limits_def)
  then show ?thesis
    by (rule honest_log_scanned [OF _ utf8_decode_encode [OF cb(1)] sample_log_parses _ _ _ _ sample_serves])
       (simp_all add: sample_log_checkpoint_def default_scan_limits_def)
qed

lemma sample_load: "\<exists>ev. load sample_transport (\<lambda>_. Inr ()) default_scan_limits (str ''p'') = Inr ev"
proof -
  obtain cb where cb: "utf8_encode sample_log_text = Some cb" "length cb = 49" using sample_log_bytes by blast
  have "source_bytes sample_transport (checkpoint_path (str ''p'')) (sc_max_checkpoint_bytes default_scan_limits) = Inr cb"
    using cb by (simp add: source_bytes_def sample_transport_def checkpoint_path_def default_scan_limits_def)
  then show ?thesis
    using load_bundles_honest [OF sample_serves, of 0 0] sample_log_parses utf8_decode_encode [OF cb(1)]
    by (simp add: load_def sample_log_checkpoint_def default_scan_limits_def)
qed

theorem scan_complete_and_bounded_witness:
  "\<exists>ev. load sample_transport (\<lambda>_. Inr ()) default_scan_limits (str ''p'') = Inr ev
    \<and> map ie_index (se_entries ev) = [0..ck_tree_size (se_checkpoint ev) - 1]"
proof -
  from sample_load obtain ev where ev: "load sample_transport (\<lambda>_. Inr ()) default_scan_limits (str ''p'') = Inr ev" by blast
  from scan_complete_and_bounded [OF ev] ev show ?thesis by blast
qed

section \<open>Proofs of single entries\<close>

text \<open>
  What \<^verbatim>\<open>read_entry\<close> hands out verifies. For a scan whose entries hash to the root of its checkpoint,
  every index below the tree size yields its entry with an inclusion proof that \<^verbatim>\<open>verify_inclusion\<close>
  accepts against that checkpoint.
\<close>

lemma read_entry_provable:
  assumes "load transport auth limits log_prefix = Inr ev"
    and "merkle_root_from_entries (map ie_data (se_entries ev)) = ck_root_hash (se_checkpoint ev)"
    and "0 \<le> i" "i < ck_tree_size (se_checkpoint ev)"
  shows "\<exists>pe. source_read_entry transport auth limits log_prefix i = Inr pe \<and> pe_index pe = i
    \<and> \<lparr>ie_index = i, ie_data = pe_entry_bytes pe\<rparr> \<in> set (se_entries ev) \<and> pe_checkpoint pe = se_checkpoint_bytes ev
    \<and> verify_inclusion (pe_entry_bytes pe) i (ck_tree_size (se_checkpoint ev)) (ck_root_hash (se_checkpoint ev))
        (pe_inclusion_proof pe) = Inr True"
proof -
  let ?es = "se_entries ev" and ?n = "ck_tree_size (se_checkpoint ev)"
  have eq: "map ie_index ?es = [0..?n - 1]"
    using assms(1) by (auto simp: load_def rbind_Inr_iff split: if_splits option.splits dest: load_bundles_scan)
  from arg_cong [OF eq, of length] have len: "length ?es = nat ?n" by simp
  have idx: "ie_index (?es ! k) = int k" if "k < length ?es" for k
    using arg_cong [OF eq, of "\<lambda>xs. xs ! k"] that len by simp
  have srt: "sort_key ie_index ?es = ?es"
    using eq by (intro sort_key_id_if_sorted) simp
  have i: "nat i < length ?es" using assms(3,4) len by simp
  define path where "path = inclusion_proof_loop (map leaf_hash (map ie_data ?es)) (nat i)"
  have p: "inclusion_proof (map ie_data ?es) i = Inr path"
    using assms(3) i by (simp add: inclusion_proof_def path_def)
  have "verify_inclusion (ie_data (?es ! nat i)) i ?n (ck_root_hash (se_checkpoint ev)) path = Inr True"
    using inclusion_complete_loop [of "nat i" "map leaf_hash (map ie_data ?es)"] i assms(2-4) len
    by (auto simp: verify_inclusion_def inclusion_root_def path_def merkle_root_from_entries_def split: if_splits)
  moreover have "\<lparr>ie_index = i, ie_data = ie_data (?es ! nat i)\<rparr> \<in> set ?es"
  proof -
    have "?es ! nat i = \<lparr>ie_index = ie_index (?es ! nat i), ie_data = ie_data (?es ! nat i)\<rparr>" by simp
    then show ?thesis using idx [OF i] nth_mem [OF i] assms(3) by (metis int_nat_eq)
  qed
  ultimately show ?thesis using assms(1) p i idx [OF i] assms(3)
    by (auto simp: source_read_entry_def proven_entry_def srt Let_def)
qed

end
