(* ===== verification/Txt_Record.thy ===== *)
theory Txt_Record
  imports Domain_Log Log_Ref
begin

text \<open>
  The \<^verbatim>\<open>_dnsid\<close> TXT record of \<^verbatim>\<open>dnsid/models.py\<close> (\<^verbatim>\<open>DnsIdTxtRecord\<close>): parsing, the canonical form that
  the entity signs, serialisation and validation; with the data around it: \<^verbatim>\<open>TXTRecord\<close>, \<^verbatim>\<open>LogRef\<close>,
  \<^verbatim>\<open>TLSCertificate\<close>, \<^verbatim>\<open>AgentStatus\<close>.

  The attributes named by a tag are read and written by \<open>get_tag\<close> and \<open>set_tag\<close>. The parameters are those
  of \<open>Dnsid_Utils\<close> and \<open>Log_Ref\<close>: \<open>idna\<close>, \<open>lower\<close> and \<open>netloc_ok\<close>.
\<close>

section \<open>Versions and tags\<close>

definition KNOWN_TAGS :: "pystr list" where
  "KNOWN_TAGS =
     [str ''v'', str ''gi'', str ''ek'', str ''ku'', str ''lr'', str ''su'', str ''sg'', str ''fl'', str ''ka'', str ''cu'']"

definition V_DRAFT01 :: pystr where
  "V_DRAFT01 = str ''dnsid-draft-01''"

definition V_DNSID1 :: pystr where
  "V_DNSID1 = str ''DNSid1''"

definition IDENTITY_RECORD_VERSION :: pystr where
  "IDENTITY_RECORD_VERSION = V_DRAFT01"

definition publish_allowed_version :: "pystr \<Rightarrow> bool" where
  "publish_allowed_version v \<longleftrightarrow> v \<in> {V_DRAFT01}"

definition DRAFT01_REQUIRED :: "pystr list" where
  "DRAFT01_REQUIRED = [str ''v'', str ''gi'', str ''ek'', str ''ku'', str ''lr'', str ''su'', str ''sg'']"

definition is_supported_version :: "pystr \<Rightarrow> bool" where
  "is_supported_version v \<longleftrightarrow> v \<in> {V_DRAFT01, V_DNSID1}"

definition required_tags :: "pystr \<Rightarrow> pystr list" where
  "required_tags v = DRAFT01_REQUIRED"

record DnsIdTxtRecord =
  tr_v :: pystr
  tr_gi :: pystr
  tr_ek :: pystr
  tr_ku :: pystr
  tr_lr :: pystr
  tr_su :: pystr
  tr_sg :: pystr
  tr_fl :: pystr
  tr_ka :: pystr
  tr_cu :: pystr
  tr_identity_fqdn :: pystr
  tr_unknown_tags :: "pystr dict"
  tr_parsed_optional_tags :: "pystr set"

definition empty_record :: DnsIdTxtRecord where
  "empty_record =
     \<lparr>tr_v = IDENTITY_RECORD_VERSION, tr_gi = [], tr_ek = [], tr_ku = [], tr_lr = [], tr_su = [], tr_sg = [],
      tr_fl = [], tr_ka = [], tr_cu = [], tr_identity_fqdn = [], tr_unknown_tags = [], tr_parsed_optional_tags = {}\<rparr>"

definition get_tag :: "DnsIdTxtRecord \<Rightarrow> pystr \<Rightarrow> pystr" where
  "get_tag r tag =
     (if tag = str ''v'' then tr_v r else if tag = str ''gi'' then tr_gi r else if tag = str ''ek'' then tr_ek r
      else if tag = str ''ku'' then tr_ku r else if tag = str ''lr'' then tr_lr r else if tag = str ''su'' then tr_su r
      else if tag = str ''sg'' then tr_sg r else if tag = str ''fl'' then tr_fl r else if tag = str ''ka'' then tr_ka r
      else if tag = str ''cu'' then tr_cu r else [])"

definition set_tag :: "pystr \<Rightarrow> pystr \<Rightarrow> DnsIdTxtRecord \<Rightarrow> DnsIdTxtRecord" where
  "set_tag tag x r =
     (if tag = str ''v'' then r\<lparr>tr_v := x\<rparr> else if tag = str ''gi'' then r\<lparr>tr_gi := x\<rparr>
      else if tag = str ''ek'' then r\<lparr>tr_ek := x\<rparr> else if tag = str ''ku'' then r\<lparr>tr_ku := x\<rparr>
      else if tag = str ''lr'' then r\<lparr>tr_lr := x\<rparr> else if tag = str ''su'' then r\<lparr>tr_su := x\<rparr>
      else if tag = str ''sg'' then r\<lparr>tr_sg := x\<rparr> else if tag = str ''fl'' then r\<lparr>tr_fl := x\<rparr>
      else if tag = str ''ka'' then r\<lparr>tr_ka := x\<rparr> else if tag = str ''cu'' then r\<lparr>tr_cu := x\<rparr> else r)"

section \<open>Canonical form and serialisation\<close>

definition tag_text :: "pystr \<times> pystr \<Rightarrow> pystr" where
  "tag_text tv = fst tv @ [61] @ snd tv"

definition tag_emitted :: "DnsIdTxtRecord \<Rightarrow> pystr \<Rightarrow> bool" where
  "tag_emitted r tag \<longleftrightarrow> get_tag r tag \<noteq> [] \<or> tag \<in> tr_parsed_optional_tags r"

definition all_tags :: "DnsIdTxtRecord \<Rightarrow> pystr list" where
  "all_tags r =
     map (\<lambda>tag. tag_text (tag, get_tag r tag)) (filter (tag_emitted r) KNOWN_TAGS)
     @ map tag_text (tr_unknown_tags r)"

definition tag_name :: "pystr \<Rightarrow> pystr" where
  "tag_name t = fst (partition_char t 61)"

definition canonical :: "DnsIdTxtRecord \<Rightarrow> pystr" where
  "canonical r =
     join_with [59] (sort_key tag_name (filter (\<lambda>t. \<not> startswith t (str ''sg='')) (all_tags r)))"

definition known_tags_canonical :: "DnsIdTxtRecord \<Rightarrow> pystr" where
  "known_tags_canonical r =
     join_with [59] (sort (map (\<lambda>tag. tag_text (tag, get_tag r tag))
       (filter (tag_emitted r)
          [str ''v'', str ''gi'', str ''ek'', str ''ku'', str ''lr'', str ''su'', str ''fl'', str ''ka'', str ''cu''])))"

definition serialize :: "DnsIdTxtRecord \<Rightarrow> pystr" where
  "serialize r =
     str ''v='' @ tr_v r @ [59] @ join_with [59] (filter (\<lambda>t. \<not> startswith t (str ''v='')) (all_tags r))"

definition policy_flags :: "DnsIdTxtRecord \<Rightarrow> pystr set" where
  "policy_flags r =
     (if tr_fl r = [] then {} else set (filter (\<lambda>t. t \<noteq> []) (map py_strip (split_on 44 (tr_fl r)))))"

section \<open>Validation\<close>

definition parse_https_uri_host :: "(pystr \<Rightarrow> pystr) \<Rightarrow> (pystr \<Rightarrow> bool) \<Rightarrow> pystr \<Rightarrow> pystr res" where
  "parse_https_uri_host lower netloc_ok uri =
     (case urlsplit netloc_ok uri of
        Inl _ \<Rightarrow> Inl (ValidationError ''not a valid URI'')
      | Inr parsed \<Rightarrow>
          if sr_scheme parsed \<noteq> str ''https'' then Inl (ValidationError ''must use the https scheme'')
          else (case url_hostname lower parsed of
                  None \<Rightarrow> Inl (ValidationError ''must have a non-empty host'')
                | Some [] \<Rightarrow> Inl (ValidationError ''must have a non-empty host'')
                | Some host \<Rightarrow>
                    if 64 \<in> set (sr_netloc parsed) then Inl (ValidationError ''must not contain credentials'')
                    else if 35 \<in> set uri then Inl (ValidationError ''must not contain a fragment'')
                    else (case url_port parsed of
                            Inl _ \<Rightarrow> Inl (ValidationError ''not a valid URI'')
                          | Inr _ \<Rightarrow> Inr host)))"

definition validate_gi :: "(pystr \<Rightarrow> pystr option) \<Rightarrow> pystr \<Rightarrow> pystr res" where
  "validate_gi idna gi =
     (if \<not> is_domain_name gi then Inl (ValidationError ''draft 01 gi must be a lowercase ASCII DNS domain'')
      else
        rbind (normalize_fqdn idna gi False) (\<lambda>n.
          if gi \<noteq> n then Inl (ValidationError ''draft 01 gi must be a lowercase ASCII DNS domain'') else Inr n))"

definition validate_lr :: "pystr \<Rightarrow> unit res" where
  "validate_lr lr =
     (if lr = [] then Inr ()
      else (case parse_ledger_ref lr of Inl _ \<Rightarrow> Inl (ValidationError ''malformed lr value'') | Inr _ \<Rightarrow> Inr ()))"

definition validate_record ::
  "(pystr \<Rightarrow> pystr option) \<Rightarrow> (pystr \<Rightarrow> pystr) \<Rightarrow> (pystr \<Rightarrow> bool) \<Rightarrow> DnsIdTxtRecord \<Rightarrow> unit res" where
  "validate_record idna lower netloc_ok r =
     (if \<not> is_supported_version (tr_v r) then Inl (ValidationError ''unsupported DNSid profile'')
      else
        rbind (normalize_fqdn idna (tr_identity_fqdn r) True) (\<lambda>identity.
        rbind (validate_gi idna (tr_gi r)) (\<lambda>gi_domain.
        rbind (parse_https_uri_host lower netloc_ok (tr_ku r)) (\<lambda>ku_host.
        if endswith ku_host [46] then Inl (ValidationError ''ku host must equal identity FQDN'')
        else
        rbind (normalize_fqdn idna ku_host False) (\<lambda>ku_norm.
        if ku_norm \<noteq> identity then Inl (ValidationError ''ku host must equal identity FQDN'')
        else
        rbind (parse_https_uri_host lower netloc_ok (tr_ek r)) (\<lambda>ek_host.
        if endswith ek_host [46] then Inl (ValidationError ''ek host must not end with a root dot'')
        else
        rbind (normalize_fqdn idna ek_host False) (\<lambda>ek_norm.
        if ek_norm \<noteq> gi_domain \<and> \<not> endswith ek_norm (46 # gi_domain)
        then Inl (ValidationError ''ek host must equal or be beneath gi'')
        else
        rbind (parse_https_uri_host lower netloc_ok (tr_su r)) (\<lambda>_.
        rbind (validate_lr (tr_lr r)) (\<lambda>_.
        rbind (if tr_cu r = [] then Inr () else rbind (parse_https_uri_host lower netloc_ok (tr_cu r)) (\<lambda>_. Inr ())) (\<lambda>_.
        if tr_ka r \<noteq> [] \<and> tr_ka r \<notin> set PERMITTED_KA_VALUES
        then Inl (ValidationError ''ka must be one of the permitted values'') else Inr ()))))))))))"

section \<open>Parsing\<close>

text \<open>One element of the record, as both parsers read it: \<open>i\<close> is its position, \<open>seen\<close> the earlier names.\<close>

definition parse_element :: "nat \<Rightarrow> pystr \<Rightarrow> pystr set \<Rightarrow> (pystr \<times> pystr) res" where
  "parse_element i pair0 seen =
     (let pair = (if i > 0 \<and> startswith pair0 [32] then drop 1 pair0 else pair0) in
      if 61 \<notin> set pair then Inl (ParseError ''TXT element has no ='')
      else
        (let (tag, x) = partition_char pair 61 in
         if \<not> is_valid_tag_name tag then Inl (ParseError ''invalid TXT tag name'')
         else if \<not> is_valid_tag_value x then Inl (ParseError ''invalid TXT tag value'')
         else if tag \<in> seen then Inl (ParseError ''duplicate TXT tag'')
         else Inr (tag, x)))"

definition store_tag :: "pystr list \<Rightarrow> pystr \<times> pystr \<Rightarrow> DnsIdTxtRecord \<Rightarrow> DnsIdTxtRecord" where
  "store_tag required tv r =
     (let (tag, x) = tv in
      if tag \<in> set KNOWN_TAGS then
        (let r1 = (if tag \<notin> set required
                   then r\<lparr>tr_parsed_optional_tags := insert tag (tr_parsed_optional_tags r)\<rparr> else r)
         in if x \<noteq> [] \<or> tag \<in> set required then set_tag tag x r1 else r1)
      else r\<lparr>tr_unknown_tags := dict_set tag x (tr_unknown_tags r)\<rparr>)"

fun parse_loop ::
  "pystr list \<Rightarrow> nat \<Rightarrow> pystr list \<Rightarrow> pystr set \<Rightarrow> DnsIdTxtRecord \<Rightarrow> (pystr set \<times> DnsIdTxtRecord) res" where
  "parse_loop required i [] seen r = Inr (seen, r)"
| "parse_loop required i (pair # rest) seen r =
     (if pair = [] then
        (if rest = [] then Inr (seen, r) else Inl (ParseError ''empty TXT tag element''))
      else
        rbind (parse_element i pair seen) (\<lambda>tv.
          parse_loop required (Suc i) rest (insert (fst tv) seen) (store_tag required tv r)))"

definition parse_record :: "pystr \<Rightarrow> DnsIdTxtRecord res" where
  "parse_record raw =
     (let pairs = split_on 59 raw; first = py_strip (hd pairs) in
      if \<not> startswith first (str ''v='') then Inl (ParseError ''v= tag must be first'')
      else
        (let version = snd (partition_char first 61) in
         if \<not> is_supported_version version then Inl (ParseError ''unsupported DNSid TXT record profile'')
         else
           (let required = required_tags version in
            rbind (parse_loop required 0 pairs {} empty_record) (\<lambda>(seen, r).
              if \<not> set required \<subseteq> seen then Inl (ParseError ''missing required TXT tags'')
              else if \<exists>t \<in> set required. get_tag r t = []
              then Inl (ParseError ''required TXT tags have empty values'')
              else Inr r))))"

text \<open>The first loop of \<^verbatim>\<open>parse_unsigned_canonical\<close> collects the pairs and the version.\<close>

fun unsigned_loop :: "nat \<Rightarrow> pystr list \<Rightarrow> pystr set \<Rightarrow> (pystr \<times> pystr) list res" where
  "unsigned_loop i [] seen = Inr []"
| "unsigned_loop i (pair # rest) seen =
     (if pair = [] then
        (if rest = [] then Inr [] else Inl (ParseError ''empty TXT tag element''))
      else
        rbind (parse_element i pair seen) (\<lambda>tv.
          if fst tv = str ''sg'' then Inl (ParseError ''sg= tag must not appear in unsigned canonical form'')
          else rbind (unsigned_loop (Suc i) rest (insert (fst tv) seen)) (\<lambda>tvs. Inr (tv # tvs))))"

definition parse_unsigned_canonical ::
  "(pystr \<Rightarrow> pystr option) \<Rightarrow> (pystr \<Rightarrow> pystr) \<Rightarrow> (pystr \<Rightarrow> bool) \<Rightarrow> pystr \<Rightarrow> pystr option \<Rightarrow> DnsIdTxtRecord res" where
  "parse_unsigned_canonical idna lower netloc_ok raw identity_fqdn =
     rbind (unsigned_loop 0 (split_on 59 raw) {}) (\<lambda>tvs.
       let version = (case map_of tvs (str ''v'') of Some v \<Rightarrow> v | None \<Rightarrow> []) in
       if version = [] then Inl (ParseError ''missing required TXT tags in canonical form'')
       else if \<not> is_supported_version version then Inl (ParseError ''unsupported DNSid TXT record profile'')
       else
         (let required = filter (\<lambda>t. t \<noteq> str ''sg'') (required_tags version);
              r = fold (store_tag required) tvs empty_record in
          if \<not> set required \<subseteq> set (map fst tvs)
          then Inl (ParseError ''missing required TXT tags in canonical form'')
          else if canonical r \<noteq> raw then Inl (ParseError ''unsigned TXT record is not in canonical form'')
          else
            (case identity_fqdn of
               None \<Rightarrow> Inr r
             | Some fqdn \<Rightarrow>
                 (let r = r\<lparr>tr_identity_fqdn := fqdn\<rparr> in
                  rbind (validate_record idna lower netloc_ok r) (\<lambda>_. Inr r)))))"


section \<open>TXT strings, log references, certificates and status documents\<close>

record TXTRecord =
  tx_strings :: "bytes list"
  tx_ttl :: int

definition concatenate_strings :: "TXTRecord \<Rightarrow> pystr res" where
  "concatenate_strings t =
     (let b = concat (tx_strings t) in
      if \<exists>x \<in> set b. unat x \<ge> 128 then Inl (ValueError ''ascii codec cannot decode byte'')
      else Inr (map unat b))"

record LogRef =
  lgr_method :: pystr
  lgr_entry_ref :: pystr

definition logref_str :: "LogRef \<Rightarrow> pystr" where
  "logref_str l = lgr_method l @ [58] @ lgr_entry_ref l"

definition logref_parse :: "pystr \<Rightarrow> LogRef res" where
  "logref_parse lr =
     rbind (parse_ledger_ref lr) (\<lambda>(method, entry_ref). Inr \<lparr>lgr_method = method, lgr_entry_ref = entry_ref\<rparr>)"

record TLSCertificate =
  tls_not_after :: pydatetime
  tls_san_dns_names :: "pystr list"
  tls_der :: bytes

text \<open>The body of the loop over the SANs; a \<^verbatim>\<open>ValidationError\<close> means no match.\<close>

definition san_matches :: "(pystr \<Rightarrow> pystr option) \<Rightarrow> pystr \<Rightarrow> pystr \<Rightarrow> bool" where
  "san_matches idna expected presented =
     (if presented = [] then False
      else if startswith presented (str ''*.'') \<and> count_list presented 42 = 1 then
        (case normalize_fqdn idna (drop 2 presented) False of
           Inl _ \<Rightarrow> False
         | Inr base \<Rightarrow>
             length (split_on 46 expected) = length (split_on 46 base) + 1 \<and> endswith expected (46 # base))
      else if 42 \<notin> set presented then normalize_fqdn idna presented False = Inr expected
      else False)"

definition validate_against_fqdn :: "(pystr \<Rightarrow> pystr option) \<Rightarrow> TLSCertificate \<Rightarrow> pystr \<Rightarrow> unit res" where
  "validate_against_fqdn idna cert fqdn =
     rbind (normalize_fqdn idna fqdn True) (\<lambda>expected.
       if \<exists>presented \<in> set (tls_san_dns_names cert). san_matches idna expected presented then Inr ()
       else Inl (ValidationError ''TLS certificate dNSName SAN does not match''))"

record AgentStatus =
  as_state :: pystr
  as_last_transition_at :: pydatetime
  as_revocation_reason :: pystr

definition status_validate :: "AgentStatus \<Rightarrow> unit res" where
  "status_validate s =
     (if as_state s \<notin> set AgentState then Inl (ValidationError ''unknown agent status state'')
      else if as_last_transition_at s = ZERO_TIME then Inl (ValidationError ''lastTransitionAt is required'')
      else if as_state s = str ''REVOKED'' \<and> as_revocation_reason s \<notin> set RevocationReason
      then Inl (ValidationError ''valid revocationReason is required when state is REVOKED'')
      else Inr ())"

section \<open>The pairs of a record\<close>

definition tag_pairs :: "DnsIdTxtRecord \<Rightarrow> (pystr \<times> pystr) list" where
  "tag_pairs r = map (\<lambda>tag. (tag, get_tag r tag)) (filter (tag_emitted r) KNOWN_TAGS) @ tr_unknown_tags r"

text \<open>A pair that can stand in the text of a record.\<close>

definition valid_pair :: "pystr \<times> pystr \<Rightarrow> bool" where
  "valid_pair tv \<longleftrightarrow> is_valid_tag_name (fst tv) \<and> is_valid_tag_value (snd tv)"

lemma all_tags_pairs: "all_tags r = map tag_text (tag_pairs r)"
  by (simp add: all_tags_def tag_pairs_def)

lemma tag_name_chars:
  assumes "is_valid_tag_name t" shows "t \<noteq> []" "61 \<notin> set t" "59 \<notin> set t" "hd t \<noteq> 32"
  using assms
  by (auto simp: is_valid_tag_name_def is_alnum_def is_alpha_def is_lower_def is_upper_def is_digit_def split: list.splits)

lemma tag_value_chars: "is_valid_tag_value x \<Longrightarrow> 59 \<notin> set x"
  by (auto simp: is_valid_tag_value_def)

lemma tag_text_chars: "valid_pair tv \<Longrightarrow> 59 \<notin> set (tag_text tv)"
  using tag_name_chars tag_value_chars by (auto simp: valid_pair_def tag_text_def)

lemma tag_text_name: "valid_pair tv \<Longrightarrow> tag_name (tag_text tv) = fst tv"
  using tag_name_chars by (auto simp: valid_pair_def tag_text_def tag_name_def partition_char_append)

lemma tag_text_inj: "valid_pair a \<Longrightarrow> valid_pair b \<Longrightarrow> tag_text a = tag_text b \<Longrightarrow> a = b"
  using tag_name_chars(2) split_first [of 61 "fst a" "fst b" "snd a" "snd b"]
  by (auto simp: valid_pair_def tag_text_def prod_eq_iff)

lemma tag_text_starts:
  assumes "valid_pair tv" "61 \<notin> set p"
  shows "startswith (tag_text tv) (p @ [61]) \<longleftrightarrow> fst tv = p"
proof
  assume "startswith (tag_text tv) (p @ [61])"
  then obtain t where "fst tv @ 61 # snd tv = p @ 61 # t" by (auto simp: startswith_iff tag_text_def)
  then show "fst tv = p" using split_first tag_name_chars(2) assms by (metis valid_pair_def)
next
  assume "fst tv = p"
  then have "tag_text tv = (p @ [61]) @ snd tv" by (simp add: tag_text_def)
  then show "startswith (tag_text tv) (p @ [61])" by (simp only: startswith_append)
qed

definition signed_pairs :: "DnsIdTxtRecord \<Rightarrow> (pystr \<times> pystr) list" where
  "signed_pairs r = sort_key fst (filter (\<lambda>tv. fst tv \<noteq> str ''sg'') (tag_pairs r))"

lemma sort_key_cong: "(\<And>x. x \<in> set xs \<Longrightarrow> f x = g x) \<Longrightarrow> sort_key f xs = sort_key g xs"
proof (induction xs)
  case (Cons a xs)
  have "insort_key f a ys = insort_key g a ys" if "set ys \<subseteq> set xs" for ys
    using that Cons.prems by (induction ys) auto
  with Cons show ?case by simp
qed simp

lemma canonical_pairs:
  assumes "\<forall>tv \<in> set (tag_pairs r). valid_pair tv"
  shows "canonical r = join_with [59] (map tag_text (signed_pairs r))"
proof -
  have "filter (\<lambda>t. \<not> startswith t (str ''sg='')) (all_tags r)
      = map tag_text (filter (\<lambda>tv. fst tv \<noteq> str ''sg'') (tag_pairs r))"
    unfolding all_tags_pairs filter_map
    using assms tag_text_starts [of _ "str ''sg''"] by (auto intro!: map_cong filter_cong)
  moreover have "sort_key tag_name (map tag_text (filter (\<lambda>tv. fst tv \<noteq> str ''sg'') (tag_pairs r)))
      = map tag_text (sort_key fst (filter (\<lambda>tv. fst tv \<noteq> str ''sg'') (tag_pairs r)))"
    unfolding sort_key_map using assms tag_text_name
    by (intro arg_cong [where f = "map tag_text"] sort_key_cong) auto
  ultimately show ?thesis by (simp add: canonical_def signed_pairs_def)
qed


section \<open>Parsed records\<close>

text \<open>
  The invariant of a parsed record: a supported version, every name and value within the grammar, the
  required tags present with a value, an optional tag set only when it was in the text, and the
  unknown tags a dictionary of other names.
\<close>

definition wf_record :: "DnsIdTxtRecord \<Rightarrow> bool" where
  "wf_record r \<longleftrightarrow>
     is_supported_version (tr_v r) \<and> (\<forall>t \<in> set KNOWN_TAGS. is_valid_tag_value (get_tag r t))
     \<and> (\<forall>t \<in> set DRAFT01_REQUIRED. get_tag r t \<noteq> [])
     \<and> tr_parsed_optional_tags r \<subseteq> {str ''fl'', str ''ka'', str ''cu''}
     \<and> (\<forall>t \<in> {str ''fl'', str ''ka'', str ''cu''}. get_tag r t \<noteq> [] \<longrightarrow> t \<in> tr_parsed_optional_tags r)
     \<and> distinct (map fst (tr_unknown_tags r))
     \<and> (\<forall>tv \<in> set (tr_unknown_tags r). valid_pair tv \<and> fst tv \<notin> set KNOWN_TAGS)
     \<and> tr_identity_fqdn r = []"

lemma known_tag_names: "t \<in> set KNOWN_TAGS \<Longrightarrow> is_valid_tag_name t"
  by (auto simp: KNOWN_TAGS_def is_valid_tag_name_def is_alnum_def is_alpha_def is_lower_def is_upper_def)

lemma wf_valid_pairs: "wf_record r \<Longrightarrow> tv \<in> set (tag_pairs r) \<Longrightarrow> valid_pair tv"
  by (auto simp: wf_record_def tag_pairs_def valid_pair_def known_tag_names)

lemma known_tags_distinct: "distinct KNOWN_TAGS"
  by code_simp

lemma wf_pairs_distinct: "wf_record r \<Longrightarrow> distinct (map fst (tag_pairs r))"
  using known_tags_distinct by (fastforce simp: wf_record_def tag_pairs_def comp_def)

lemma parse_element_text:
  assumes "valid_pair tv" "fst tv \<notin> seen"
  shows "parse_element i (tag_text tv) seen = Inr tv"
proof -
  have n: "\<not> startswith (tag_text tv) [32]"
    using tag_name_chars [of "fst tv"] assms(1)
    by (cases "fst tv") (auto simp: startswith_def tag_text_def valid_pair_def)
  have p: "partition_char (tag_text tv) 61 = tv"
    using tag_name_chars(2) assms(1) by (simp add: tag_text_def valid_pair_def partition_char_append)
  show ?thesis using assms n p
    by (cases tv) (auto simp: parse_element_def Let_def valid_pair_def tag_text_def)
qed

lemma parse_element_Inr:
  assumes "parse_element i pair seen = Inr tv"
  shows "valid_pair tv" "fst tv \<notin> seen"
  using assms by (auto simp: parse_element_def Let_def valid_pair_def case_prod_beta split: if_splits)

lemma tag_text_not_Nil [simp]: "tag_text tv \<noteq> []"
  by (simp add: tag_text_def)

lemma parse_loop_texts:
  assumes "\<forall>tv \<in> set tvs. valid_pair tv" "distinct (map fst tvs)" "seen \<inter> fst ` set tvs = {}"
  shows "parse_loop required i (map tag_text tvs) seen r
    = Inr (seen \<union> fst ` set tvs, fold (store_tag required) tvs r)"
  using assms
proof (induction tvs arbitrary: i seen r)
  case (Cons tv tvs)
  then have "parse_element i (tag_text tv) seen = Inr tv" by (intro parse_element_text) auto
  with Cons show ?case by auto
qed simp

text \<open>Conversely, what a run of the loop has read.\<close>

lemma parse_loop_Inr:
  "parse_loop required i pairs seen r = Inr (seen', r') \<Longrightarrow>
   \<exists>tvs. (\<forall>tv \<in> set tvs. valid_pair tv) \<and> distinct (map fst tvs) \<and> seen \<inter> fst ` set tvs = {}
     \<and> seen' = seen \<union> fst ` set tvs \<and> r' = fold (store_tag required) tvs r"
proof (induction required i pairs seen r rule: parse_loop.induct)
  case (1 required i seen r)
  then show ?case by (intro exI [of _ "[]"]) auto
next
  case (2 required i pair rest seen r)
  show ?case
  proof (cases "pair = []")
    case True
    with 2(2) show ?thesis by (intro exI [of _ "[]"]) (auto split: if_splits)
  next
    case False
    with 2(2) obtain tv where tv: "parse_element i pair seen = Inr tv"
      "parse_loop required (Suc i) rest (insert (fst tv) seen) (store_tag required tv r) = Inr (seen', r')"
      by (auto simp: rbind_Inr_iff)
    from 2(1) [OF False tv] obtain tvs where "\<forall>tv \<in> set tvs. valid_pair tv" "distinct (map fst tvs)"
      "insert (fst tv) seen \<inter> fst ` set tvs = {}" "seen' = insert (fst tv) seen \<union> fst ` set tvs"
      "r' = fold (store_tag required) tvs (store_tag required tv r)" by blast
    with parse_element_Inr [OF tv(1)] show ?thesis by (intro exI [of _ "tv # tvs"]) auto
  qed
qed


section \<open>Reading the pairs back\<close>

lemma get_set_tag:
  "get_tag (set_tag t x r) t' = (if t' = t \<and> t \<in> set KNOWN_TAGS then x else get_tag r t')"
proof (cases "t \<in> set KNOWN_TAGS")
  case True
  then show ?thesis by (auto simp: KNOWN_TAGS_def get_tag_def set_tag_def)
next
  case False
  then show ?thesis by (simp add: set_tag_def KNOWN_TAGS_def)
qed

lemma set_tag_keeps [simp]:
  "tr_identity_fqdn (set_tag t x r) = tr_identity_fqdn r"
  "tr_unknown_tags (set_tag t x r) = tr_unknown_tags r"
  "tr_parsed_optional_tags (set_tag t x r) = tr_parsed_optional_tags r"
  by (simp_all add: set_tag_def)

lemma get_tag_update [simp]:
  "get_tag (r\<lparr>tr_parsed_optional_tags := ts\<rparr>) t = get_tag r t"
  "get_tag (r\<lparr>tr_unknown_tags := u\<rparr>) t = get_tag r t"
  by (simp_all add: get_tag_def)

lemma store_tag_effect:
  "get_tag (store_tag req (t, x) r) t' =
     (if t' = t \<and> t \<in> set KNOWN_TAGS \<and> (x \<noteq> [] \<or> t \<in> set req) then x else get_tag r t')"
  "tr_identity_fqdn (store_tag req (t, x) r) = tr_identity_fqdn r"
  "tr_unknown_tags (store_tag req (t, x) r) =
     (if t \<in> set KNOWN_TAGS then tr_unknown_tags r else dict_set t x (tr_unknown_tags r))"
  "tr_parsed_optional_tags (store_tag req (t, x) r) =
     (if t \<in> set KNOWN_TAGS - set req then insert t (tr_parsed_optional_tags r) else tr_parsed_optional_tags r)"
  by (auto simp: store_tag_def Let_def get_set_tag)

lemma fold_store_get:
  "distinct (map fst tvs) \<Longrightarrow> t \<in> set KNOWN_TAGS \<Longrightarrow>
   get_tag (fold (store_tag req) tvs r) t =
     (case map_of tvs t of Some x \<Rightarrow> if x \<noteq> [] \<or> t \<in> set req then x else get_tag r t | None \<Rightarrow> get_tag r t)"
proof (induction tvs arbitrary: r)
  case (Cons tv tvs)
  obtain t' x where tv: "tv = (t', x)" by (cases tv)
  with Cons.prems(1) have "map_of tvs t' = None" by (simp add: map_of_eq_None_iff)
  then show ?case using Cons tv by (auto simp: store_tag_effect split: option.splits)
qed simp

lemma fold_store_rest:
  "distinct (map fst tvs) \<Longrightarrow> fst ` set (tr_unknown_tags r) \<inter> fst ` set tvs = {} \<Longrightarrow>
   tr_unknown_tags (fold (store_tag req) tvs r) = tr_unknown_tags r @ filter (\<lambda>tv. fst tv \<notin> set KNOWN_TAGS) tvs
   \<and> tr_parsed_optional_tags (fold (store_tag req) tvs r)
     = tr_parsed_optional_tags r \<union> (fst ` set tvs \<inter> (set KNOWN_TAGS - set req))
   \<and> tr_identity_fqdn (fold (store_tag req) tvs r) = tr_identity_fqdn r"
proof (induction tvs arbitrary: r)
  case (Cons tv tvs)
  obtain t x where tv: "tv = (t, x)" by (cases tv)
  let ?r = "store_tag req tv r"
  have "fst ` set (tr_unknown_tags ?r) \<inter> fst ` set tvs = {}"
    using Cons.prems tv by (auto simp: store_tag_effect)
  note IH = Cons.IH [OF _ this]
  have "dict_set t x (tr_unknown_tags r) = tr_unknown_tags r @ [(t, x)]"
    using Cons.prems(2) tv by (intro dict_set_new) (auto simp: map_of_eq_None_iff)
  with IH Cons.prems(1) tv show ?case by (auto simp: store_tag_effect)
qed simp

lemma record_eqI:
  assumes "\<And>t. t \<in> set KNOWN_TAGS \<Longrightarrow> get_tag r t = get_tag r' t"
    and "tr_unknown_tags r = tr_unknown_tags r'" "tr_parsed_optional_tags r = tr_parsed_optional_tags r'"
    and "tr_identity_fqdn r = tr_identity_fqdn r'"
  shows "r = r'"
  using assms(2-) assms(1) [of "str ''v''"] assms(1) [of "str ''gi''"] assms(1) [of "str ''ek''"] assms(1) [of "str ''ku''"]
    assms(1) [of "str ''lr''"] assms(1) [of "str ''su''"] assms(1) [of "str ''sg''"] assms(1) [of "str ''fl''"]
    assms(1) [of "str ''ka''"] assms(1) [of "str ''cu''"]
  by (simp add: KNOWN_TAGS_def get_tag_def)


lemma py_strip_id:
  assumes "\<forall>c \<in> set s. \<not> py_space c" shows "py_strip s = s"
proof -
  have "dropWhile py_space s = s" using assms by (simp add: dropWhile_eq_self_iff)
  moreover have "dropWhile py_space (rev s) = rev s" using assms by (cases "s = []") (simp_all add: dropWhile_eq_self_iff hd_rev)
  ultimately show ?thesis by (simp add: py_strip_def py_rstrip_def)
qed

lemma tag_text_strip:
  assumes "valid_pair tv" shows "py_strip (tag_text tv) = tag_text tv"
proof -
  have "\<not> py_space c" if "is_alnum c \<or> c = 95 \<or> c = 61 \<or> (33 \<le> c \<and> c \<le> 126)" for c
    using that by (auto simp: py_space_def is_alnum_def is_alpha_def is_lower_def is_upper_def is_digit_def)
  moreover have "c \<in> set (fst tv) \<Longrightarrow> is_alnum c \<or> c = 95" for c
    using assms by (cases "fst tv") (auto simp: valid_pair_def is_valid_tag_name_def is_alnum_def)
  moreover have "c \<in> set (snd tv) \<Longrightarrow> 33 \<le> c \<and> c \<le> 126" for c
    using assms by (auto simp: valid_pair_def is_valid_tag_value_def)
  ultimately show ?thesis by (intro py_strip_id) (auto simp: tag_text_def)
qed

lemma parse_element_first:
  assumes "parse_element 0 pair seen = Inr tv" shows "pair = tag_text tv"
  using assms partition_char_eq(1) [of 61 pair "fst tv" "snd tv"]
  by (auto simp: parse_element_def Let_def case_prod_beta tag_text_def split: if_splits)

text \<open>The pairs read by a successful \<^verbatim>\<open>parse\<close>.\<close>

definition parsed_from :: "(pystr \<times> pystr) list \<Rightarrow> DnsIdTxtRecord \<Rightarrow> bool" where
  "parsed_from tvs r \<longleftrightarrow>
     (\<forall>tv \<in> set tvs. valid_pair tv) \<and> distinct (map fst tvs) \<and> tvs \<noteq> [] \<and> fst (hd tvs) = str ''v''
     \<and> is_supported_version (snd (hd tvs)) \<and> set DRAFT01_REQUIRED \<subseteq> fst ` set tvs
     \<and> r = fold (store_tag DRAFT01_REQUIRED) tvs empty_record \<and> (\<forall>t \<in> set DRAFT01_REQUIRED. get_tag r t \<noteq> [])"

lemma parse_record_from:
  assumes "parse_record raw = Inr r"
  shows "\<exists>tvs. parsed_from tvs r"
proof -
  obtain p rest where sp: "split_on 59 raw = p # rest" by (meson neq_Nil_conv split_on_not_Nil)
  from assms obtain seen where p: "startswith (py_strip p) (str ''v='')" "is_supported_version (snd (partition_char (py_strip p) 61))"
    and loop: "parse_loop DRAFT01_REQUIRED 0 (p # rest) {} empty_record = Inr (seen, r)"
    and req: "set DRAFT01_REQUIRED \<subseteq> seen" "\<forall>t \<in> set DRAFT01_REQUIRED. get_tag r t \<noteq> []"
    by (auto simp: parse_record_def Let_def sp required_tags_def rbind_Inr_iff split: if_splits)
  have "p \<noteq> []" using p(1) by (auto simp: startswith_def py_strip_def py_rstrip_def)
  with loop obtain tv where tv: "parse_element 0 p {} = Inr tv"
    "parse_loop DRAFT01_REQUIRED (Suc 0) rest (insert (fst tv) {}) (store_tag DRAFT01_REQUIRED tv empty_record) = Inr (seen, r)"
    by (auto simp: rbind_Inr_iff)
  have pt: "p = tag_text tv" and v: "valid_pair tv" using parse_element_first parse_element_Inr tv(1) by blast+
  then have strip: "py_strip p = tag_text tv" using tag_text_strip by simp
  have "fst tv = str ''v''" using p(1) tag_text_starts [OF v, of "str ''v''"] strip by simp
  moreover have "partition_char (tag_text tv) 61 = tv"
    using tag_name_chars(2) v by (simp add: tag_text_def valid_pair_def partition_char_append)
  moreover from parse_loop_Inr [OF tv(2)] obtain tvs where tvs: "\<forall>tv \<in> set tvs. valid_pair tv" "distinct (map fst tvs)"
    "insert (fst tv) {} \<inter> fst ` set tvs = {}" "seen = insert (fst tv) {} \<union> fst ` set tvs"
    "r = fold (store_tag DRAFT01_REQUIRED) tvs (store_tag DRAFT01_REQUIRED tv empty_record)" by blast
  ultimately have "parsed_from (tv # tvs) r" unfolding parsed_from_def using p(2) strip v req by auto
  then show ?thesis by blast
qed

lemma optional_tags: "set KNOWN_TAGS - set DRAFT01_REQUIRED = {str ''fl'', str ''ka'', str ''cu''}"
  by (auto simp: KNOWN_TAGS_def DRAFT01_REQUIRED_def)

lemma required_known: "set DRAFT01_REQUIRED \<subseteq> set KNOWN_TAGS"
  by (auto simp: KNOWN_TAGS_def DRAFT01_REQUIRED_def)

lemma empty_record_get: "get_tag empty_record t = (if t = str ''v'' then V_DRAFT01 else [])"
  by (simp add: get_tag_def empty_record_def IDENTITY_RECORD_VERSION_def)

lemma parsed_from_get:
  assumes "parsed_from tvs r" "t \<in> set KNOWN_TAGS"
  shows "get_tag r t = (case map_of tvs t of Some x \<Rightarrow> x | None \<Rightarrow> [])"
proof -
  have d: "distinct (map fst tvs)" and r: "r = fold (store_tag DRAFT01_REQUIRED) tvs empty_record"
    and req: "set DRAFT01_REQUIRED \<subseteq> fst ` set tvs" using assms(1) by (auto simp: parsed_from_def)
  have "str ''v'' \<in> set DRAFT01_REQUIRED" by (simp add: DRAFT01_REQUIRED_def)
  with req have "map_of tvs (str ''v'') \<noteq> None" by (metis map_of_eq_None_iff subsetD)
  with \<open>str ''v'' \<in> set DRAFT01_REQUIRED\<close> show ?thesis unfolding r fold_store_get [OF d assms(2)]
    by (auto simp: empty_record_get split: option.splits)
qed

lemma parsed_from_rest:
  assumes "parsed_from tvs r"
  shows "tr_unknown_tags r = filter (\<lambda>tv. fst tv \<notin> set KNOWN_TAGS) tvs"
    "tr_parsed_optional_tags r = fst ` set tvs \<inter> {str ''fl'', str ''ka'', str ''cu''}"
    "tr_identity_fqdn r = []"
  using assms fold_store_rest [of tvs empty_record DRAFT01_REQUIRED]
  by (auto simp: parsed_from_def optional_tags empty_record_def)

lemma parsed_wf:
  assumes "parsed_from tvs r" shows "wf_record r"
  unfolding wf_record_def
proof (intro conjI ballI impI)
  have v: "\<forall>tv \<in> set tvs. valid_pair tv" "distinct (map fst tvs)" using assms by (auto simp: parsed_from_def)
  note rest = parsed_from_rest [OF assms]
  show "is_supported_version (tr_v r)"
  proof -
    have "map_of tvs (str ''v'') = Some (snd (hd tvs))" using assms by (cases tvs) (auto simp: parsed_from_def)
    then have "get_tag r (str ''v'') = snd (hd tvs)" using parsed_from_get [OF assms, of "str ''v''"] by (simp add: KNOWN_TAGS_def)
    then show ?thesis using assms by (simp add: get_tag_def parsed_from_def)
  qed
  show "is_valid_tag_value (get_tag r t)" if "t \<in> set KNOWN_TAGS" for t
  proof (cases "map_of tvs t")
    case (Some x)
    then have "valid_pair (t, x)" using v(1) map_of_SomeD by fastforce
    with Some show ?thesis by (simp add: parsed_from_get [OF assms that] valid_pair_def)
  qed (simp add: parsed_from_get [OF assms that] is_valid_tag_value_def)
  show "get_tag r t \<noteq> []" if "t \<in> set DRAFT01_REQUIRED" for t using assms that unfolding parsed_from_def by blast
  show "tr_parsed_optional_tags r \<subseteq> {str ''fl'', str ''ka'', str ''cu''}" using rest by blast
  show "t \<in> tr_parsed_optional_tags r" if "t \<in> {str ''fl'', str ''ka'', str ''cu''}" "get_tag r t \<noteq> []" for t
  proof -
    have "t \<in> set KNOWN_TAGS" using that(1) optional_tags by blast
    then have "map_of tvs t \<noteq> None" using that(2) parsed_from_get [OF assms] by (auto split: option.splits)
    then have "t \<in> fst ` set tvs" by (metis map_of_eq_None_iff)
    then show ?thesis using rest(2) that(1) by blast
  qed
  show "distinct (map fst (tr_unknown_tags r))" using rest v(2) by (simp add: distinct_map_filter)
  show "valid_pair tv" "fst tv \<notin> set KNOWN_TAGS" if "tv \<in> set (tr_unknown_tags r)" for tv
    using that rest v(1) by auto
  show "tr_identity_fqdn r = []" by (rule rest)
qed


section \<open>Round trips\<close>

lemma wf_emitted:
  assumes "wf_record r" "t \<in> set KNOWN_TAGS"
  shows "tag_emitted r t \<longleftrightarrow> t \<in> set DRAFT01_REQUIRED \<or> t \<in> tr_parsed_optional_tags r"
proof -
  have "t \<in> set DRAFT01_REQUIRED \<or> t \<in> {str ''fl'', str ''ka'', str ''cu''}" using assms(2) optional_tags by blast
  with assms(1) show ?thesis unfolding tag_emitted_def wf_record_def by blast
qed

lemma map_of_known:
  "map_of (map (\<lambda>tag. (tag, f tag)) ts) t = (if t \<in> set ts then Some (f t) else None)"
  by (induction ts) auto

lemma map_of_tag_pairs:
  assumes "wf_record r" "t \<in> set KNOWN_TAGS"
  shows "map_of (tag_pairs r) t = (if tag_emitted r t then Some (get_tag r t) else None)"
proof -
  have "map_of (tr_unknown_tags r) t = None" using assms by (auto simp: wf_record_def map_of_eq_None_iff)
  with assms(2) show ?thesis by (auto simp: tag_pairs_def map_add_def map_of_known split: option.splits)
qed

text \<open>Writing the tags of a well-formed record into an empty one, in the order of the pairs, restores it.\<close>

lemma fold_tag_pairs:
  assumes "wf_record r"
  shows "fold (store_tag DRAFT01_REQUIRED) (tag_pairs r) empty_record = r"
proof (rule record_eqI)
  note d = wf_pairs_distinct [OF assms]
  note rest = fold_store_rest [OF d, of empty_record DRAFT01_REQUIRED]
  have e: "tr_unknown_tags empty_record = []" "tr_parsed_optional_tags empty_record = {}" "tr_identity_fqdn empty_record = []"
    by (simp_all add: empty_record_def)
  show "get_tag (fold (store_tag DRAFT01_REQUIRED) (tag_pairs r) empty_record) t = get_tag r t" if t: "t \<in> set KNOWN_TAGS" for t
  proof -
    have "t = str ''v'' \<Longrightarrow> t \<in> set DRAFT01_REQUIRED" by (simp add: DRAFT01_REQUIRED_def)
    then show ?thesis
      using wf_emitted [OF assms t] fold_store_get [OF d t, of DRAFT01_REQUIRED empty_record] map_of_tag_pairs [OF assms t]
      by (auto simp: empty_record_get tag_emitted_def split: if_splits)
  qed
  have "filter (\<lambda>tv. fst tv \<notin> set KNOWN_TAGS) (map (\<lambda>tag. (tag, get_tag r tag)) (filter (tag_emitted r) KNOWN_TAGS)) = []"
    by (auto simp: filter_empty_conv)
  moreover have "filter (\<lambda>tv. fst tv \<notin> set KNOWN_TAGS) (tr_unknown_tags r) = tr_unknown_tags r"
    using assms by (auto simp: wf_record_def filter_id_conv)
  ultimately show "tr_unknown_tags (fold (store_tag DRAFT01_REQUIRED) (tag_pairs r) empty_record) = tr_unknown_tags r"
    using rest e by (simp add: tag_pairs_def)
  have "fst ` set (tag_pairs r) \<inter> {str ''fl'', str ''ka'', str ''cu''} = tr_parsed_optional_tags r" (is "?A = ?B")
  proof
    have k: "t \<in> set KNOWN_TAGS" if "t \<in> {str ''fl'', str ''ka'', str ''cu''}" for t using that optional_tags by blast
    have n: "t \<notin> set DRAFT01_REQUIRED" if "t \<in> {str ''fl'', str ''ka'', str ''cu''}" for t using that optional_tags by blast
    show "?A \<subseteq> ?B"
    proof
      fix t assume t: "t \<in> ?A"
      then have "map_of (tag_pairs r) t \<noteq> None" by (metis IntD1 map_of_eq_None_iff)
      with map_of_tag_pairs [OF assms k] wf_emitted [OF assms k] t n show "t \<in> ?B" by (metis IntD2)
    qed
    show "?B \<subseteq> ?A"
    proof
      fix t assume t: "t \<in> ?B"
      then have o3: "t \<in> {str ''fl'', str ''ka'', str ''cu''}" using assms by (auto simp: wf_record_def)
      then have "map_of (tag_pairs r) t \<noteq> None" using map_of_tag_pairs [OF assms k [OF o3]] t by (simp add: tag_emitted_def)
      then show "t \<in> ?A" using o3 by (metis IntI map_of_eq_None_iff)
    qed
  qed
  then show "tr_parsed_optional_tags (fold (store_tag DRAFT01_REQUIRED) (tag_pairs r) empty_record) = tr_parsed_optional_tags r"
    using rest e by (simp add: optional_tags)
  show "tr_identity_fqdn (fold (store_tag DRAFT01_REQUIRED) (tag_pairs r) empty_record) = tr_identity_fqdn r"
    using rest e assms by (simp add: wf_record_def)
qed

lemma wf_pairs_start:
  assumes "wf_record r"
  shows "\<exists>tvs. tag_pairs r = (str ''v'', tr_v r) # (str ''gi'', tr_gi r) # tvs"
proof -
  have "tag_emitted r (str ''v'')" "tag_emitted r (str ''gi'')" using assms
    by (simp_all add: wf_emitted KNOWN_TAGS_def DRAFT01_REQUIRED_def)
  then show ?thesis by (simp add: tag_pairs_def KNOWN_TAGS_def get_tag_def)
qed

lemma serialize_pairs:
  assumes "wf_record r" shows "serialize r = join_with [59] (map tag_text (tag_pairs r))"
proof -
  from wf_pairs_start [OF assms] obtain tvs where tvs: "tag_pairs r = (str ''v'', tr_v r) # (str ''gi'', tr_gi r) # tvs" by blast
  have v: "valid_pair tv" if "tv \<in> set (tag_pairs r)" for tv using wf_valid_pairs [OF assms that] .
  have s: "startswith (tag_text tv) (str ''v='') \<longleftrightarrow> fst tv = str ''v''" if "tv \<in> set (tag_pairs r)" for tv
    using tag_text_starts [OF v [OF that], of "str ''v''"] by simp
  have "filter (\<lambda>t. \<not> startswith t (str ''v='')) (map tag_text (tag_pairs r))
      = map tag_text (filter (\<lambda>tv. fst tv \<noteq> str ''v'') (tag_pairs r))"
    unfolding filter_map comp_def using s by (intro map_cong filter_cong) auto
  moreover have "filter (\<lambda>tv. fst tv \<noteq> str ''v'') (tag_pairs r) = tl (tag_pairs r)"
    using wf_pairs_distinct [OF assms] by (auto simp: tvs filter_id_conv) (metis fst_conv image_eqI)
  ultimately have "serialize r = tag_text (str ''v'', tr_v r) @ 59 # join_with [59] (map tag_text (tl (tag_pairs r)))"
    by (simp add: serialize_def all_tags_pairs tag_text_def)
  then show ?thesis by (simp add: tvs)
qed

lemma parse_serialize:
  assumes "wf_record r" shows "parse_record (serialize r) = Inr r"
proof -
  from wf_pairs_start [OF assms] obtain tvs where tvs: "tag_pairs r = (str ''v'', tr_v r) # (str ''gi'', tr_gi r) # tvs" by blast
  have v: "\<forall>tv \<in> set (tag_pairs r). valid_pair tv" using wf_valid_pairs [OF assms] by blast
  have sp: "split_on 59 (serialize r) = map tag_text (tag_pairs r)"
    unfolding serialize_pairs [OF assms] using v tvs tag_text_chars by (intro split_join) auto
  have "py_strip (tag_text (str ''v'', tr_v r)) = tag_text (str ''v'', tr_v r)" using v tvs by (simp add: tag_text_strip)
  then have first: "py_strip (hd (split_on 59 (serialize r))) = str ''v='' @ tr_v r" by (simp add: sp tvs tag_text_def)
  have loop: "parse_loop DRAFT01_REQUIRED 0 (split_on 59 (serialize r)) {} empty_record = Inr (fst ` set (tag_pairs r), r)"
    unfolding sp using parse_loop_texts [OF v wf_pairs_distinct [OF assms], of "{}"] fold_tag_pairs [OF assms] by simp
  have "t \<in> fst ` set (tag_pairs r)" if "t \<in> set DRAFT01_REQUIRED" for t
    using map_of_tag_pairs [OF assms, of t] that required_known wf_emitted [OF assms, of t]
    by (metis map_of_eq_None_iff option.distinct(1) subsetD)
  then show ?thesis
    using assms loop first by (auto simp: parse_record_def Let_def required_tags_def wf_record_def partition_char_def startswith_def)
qed


section \<open>What the entity signature covers\<close>

text \<open>Two records with the same content up to the signature and the order of the unknown tags.\<close>

definition same_signed_content :: "DnsIdTxtRecord \<Rightarrow> DnsIdTxtRecord \<Rightarrow> bool" where
  "same_signed_content r r' \<longleftrightarrow>
     (\<forall>t \<in> set KNOWN_TAGS. t \<noteq> str ''sg'' \<longrightarrow> get_tag r t = get_tag r' t)
     \<and> tr_parsed_optional_tags r = tr_parsed_optional_tags r'
     \<and> map_of (tr_unknown_tags r) = map_of (tr_unknown_tags r')"

lemma signed_pairs_set: "set (signed_pairs r) = {tv \<in> set (tag_pairs r). fst tv \<noteq> str ''sg''}"
  by (auto simp: signed_pairs_def)

lemma canonical_eq_pairs:
  assumes "wf_record r" "wf_record r'"
  shows "canonical r = canonical r' \<longleftrightarrow> signed_pairs r = signed_pairs r'"
proof
  assume eq: "canonical r = canonical r'"
  have v: "\<forall>tv \<in> set (tag_pairs q). valid_pair tv" and ne: "signed_pairs q \<noteq> []" if "wf_record q" for q
  proof -
    show "\<forall>tv \<in> set (tag_pairs q). valid_pair tv" using wf_valid_pairs [OF that] by blast
    have "(str ''v'', tr_v q) \<in> set (signed_pairs q)" using wf_pairs_start [OF that] by (auto simp: signed_pairs_set)
    then show "signed_pairs q \<noteq> []" by auto
  qed
  have split: "split_on 59 (canonical q) = map tag_text (signed_pairs q)" if "wf_record q" for q
    unfolding canonical_pairs [OF v [OF that]] using ne [OF that] v [OF that] tag_text_chars
    by (intro split_join) (auto simp: signed_pairs_set)
  have "map tag_text (signed_pairs r) = map tag_text (signed_pairs r')"
    using split [OF assms(1)] split [OF assms(2)] eq by simp
  moreover have "inj_on tag_text (set (signed_pairs r) \<union> set (signed_pairs r'))"
  proof (rule inj_onI)
    fix a b assume "a \<in> set (signed_pairs r) \<union> set (signed_pairs r')" "b \<in> set (signed_pairs r) \<union> set (signed_pairs r')"
      and "tag_text a = tag_text b"
    moreover from this have "valid_pair a" "valid_pair b" using v [OF assms(1)] v [OF assms(2)] unfolding signed_pairs_set by blast+
    ultimately show "a = b" by (intro tag_text_inj)
  qed
  ultimately show "signed_pairs r = signed_pairs r'" by (rule map_inj_on)
next
  assume "signed_pairs r = signed_pairs r'"
  moreover have "\<forall>tv \<in> set (tag_pairs r). valid_pair tv" "\<forall>tv \<in> set (tag_pairs r'). valid_pair tv"
    using assms wf_valid_pairs by blast+
  ultimately show "canonical r = canonical r'" by (simp add: canonical_pairs)
qed

lemma signed_pairs_map:
  assumes "wf_record r" "wf_record r'"
  shows "signed_pairs r = signed_pairs r' \<longleftrightarrow> (\<forall>t. t \<noteq> str ''sg'' \<longrightarrow> map_of (tag_pairs r) t = map_of (tag_pairs r') t)"
    (is "?L \<longleftrightarrow> ?R")
proof -
  have d: "distinct (map fst (tag_pairs r))" "distinct (map fst (tag_pairs r'))" using wf_pairs_distinct assms by auto
  have set: "?R \<longleftrightarrow> set (signed_pairs r) = set (signed_pairs r')"
  proof
    assume ?R
    then have "(t, x) \<in> set (signed_pairs r) \<longleftrightarrow> (t, x) \<in> set (signed_pairs r')" for t x
      using map_of_eq_Some_iff [OF d(1), of t x] map_of_eq_Some_iff [OF d(2), of t x]
      by (cases "t = str ''sg''") (simp_all add: signed_pairs_set)
    then show "set (signed_pairs r) = set (signed_pairs r')" by auto
  next
    assume eq: "set (signed_pairs r) = set (signed_pairs r')"
    show ?R
    proof (intro allI impI)
      fix t assume t: "t \<noteq> str ''sg''"
      have "map_of (tag_pairs r) t = Some x \<longleftrightarrow> map_of (tag_pairs r') t = Some x" for x
      proof -
        have "(t, x) \<in> set (signed_pairs r) \<longleftrightarrow> (t, x) \<in> set (signed_pairs r')" using eq by simp
        then have "(t, x) \<in> set (tag_pairs r) \<longleftrightarrow> (t, x) \<in> set (tag_pairs r')" using t unfolding signed_pairs_set by simp
        then show ?thesis using map_of_eq_Some_iff [OF d(1)] map_of_eq_Some_iff [OF d(2)] by simp
      qed
      then show "map_of (tag_pairs r) t = map_of (tag_pairs r') t" by (metis not_None_eq)
    qed
  qed
  moreover have "signed_pairs r = signed_pairs r'" if eq: "set (signed_pairs r) = set (signed_pairs r')"
  proof -
    let ?f = "\<lambda>q. filter (\<lambda>tv. fst tv \<noteq> str ''sg'') (tag_pairs q)"
    have df: "distinct (map fst (?f r))" "distinct (map fst (?f r'))" using d by (simp_all add: distinct_map_filter)
    have "set (?f r) = set (?f r')" using eq by (simp add: signed_pairs_def)
    then have "mset (?f r) = mset (?f r')" using df [unfolded distinct_map, THEN conjunct1] by (simp only: set_eq_iff_mset_eq_distinct)
    moreover have "inj_on fst (set (?f r))" using df by (simp add: distinct_map)
    ultimately show ?thesis unfolding signed_pairs_def by (intro sort_key_inj_key_eq) simp_all
  qed
  ultimately show ?thesis by metis
qed

lemma map_of_unknown:
  assumes "wf_record r"
  shows "map_of (tr_unknown_tags r) t = (if t \<in> set KNOWN_TAGS then None else map_of (tag_pairs r) t)"
  using assms by (auto simp: wf_record_def map_of_eq_None_iff tag_pairs_def map_add_def map_of_known split: option.splits)

lemma same_signed_map:
  assumes "wf_record r" "wf_record r'"
  shows "same_signed_content r r' \<longleftrightarrow> (\<forall>t. t \<noteq> str ''sg'' \<longrightarrow> map_of (tag_pairs r) t = map_of (tag_pairs r') t)"
    (is "?L \<longleftrightarrow> ?R")
proof
  assume L: ?L
  show ?R
  proof (intro allI impI)
    fix t assume "t \<noteq> str ''sg''"
    with L show "map_of (tag_pairs r) t = map_of (tag_pairs r') t"
      using map_of_tag_pairs [OF assms(1), of t] map_of_tag_pairs [OF assms(2), of t] wf_emitted [OF assms(1), of t]
        wf_emitted [OF assms(2), of t] map_of_unknown [OF assms(1), of t] map_of_unknown [OF assms(2), of t]
      by (cases "t \<in> set KNOWN_TAGS") (simp_all add: same_signed_content_def)
  qed
next
  assume R: ?R
  have sg: "str ''sg'' \<notin> {str ''fl'', str ''ka'', str ''cu''}" by simp
  have known: "get_tag r t = get_tag r' t \<and> (tag_emitted r t \<longleftrightarrow> tag_emitted r' t)"
    if "t \<in> set KNOWN_TAGS" "t \<noteq> str ''sg''" for t
    using R that map_of_tag_pairs [OF assms(1), of t] map_of_tag_pairs [OF assms(2), of t]
    by (auto simp: tag_emitted_def split: if_splits)
  have "t \<in> tr_parsed_optional_tags q \<longleftrightarrow> t \<in> {str ''fl'', str ''ka'', str ''cu''} \<and> tag_emitted q t" if "wf_record q" for q t
    using that by (auto simp: wf_record_def tag_emitted_def)
  with known assms sg optional_tags have "tr_parsed_optional_tags r = tr_parsed_optional_tags r'" by blast
  moreover have "map_of (tr_unknown_tags r) = map_of (tr_unknown_tags r')"
  proof
    fix t
    have "str ''sg'' \<in> set KNOWN_TAGS" by (simp add: KNOWN_TAGS_def)
    then show "map_of (tr_unknown_tags r) t = map_of (tr_unknown_tags r') t"
      using R unfolding map_of_unknown [OF assms(1)] map_of_unknown [OF assms(2)] by metis
  qed
  ultimately show ?L using known by (auto simp: same_signed_content_def)
qed

text \<open>
  C28: The canonical form that the entity signs binds the record. For two records read from TXT texts, the
  canonical forms are equal exactly when the records have the same value for every tag but \<^verbatim>\<open>sg\<close>, the same
  optional tags (an empty one included) and the same unknown tags: no tag can be changed, added or
  dropped under a signature, and the order and spacing of the text do not matter.
\<close>

theorem canonical_binds_record:
  assumes "parse_record raw = Inr r" "parse_record raw' = Inr r'"
  shows "canonical r = canonical r' \<longleftrightarrow> same_signed_content r r'"
proof -
  have wf: "wf_record r" "wf_record r'" using assms parse_record_from parsed_wf by blast+
  show ?thesis unfolding canonical_eq_pairs [OF wf] signed_pairs_map [OF wf] same_signed_map [OF wf] ..
qed

text \<open>
  Serialising a parsed record and parsing the result gives the record back, empty optional tags and
  unknown tags included.
\<close>

theorem parse_serialize_stable:
  assumes "parse_record raw = Inr r"
  shows "parse_record (serialize r) = Inr r"
  using assms parse_record_from parsed_wf parse_serialize by blast


section \<open>The unsigned canonical form\<close>

lemma unsigned_loop_texts:
  assumes "\<forall>tv \<in> set tvs. valid_pair tv \<and> fst tv \<noteq> str ''sg''" "distinct (map fst tvs)" "seen \<inter> fst ` set tvs = {}"
  shows "unsigned_loop i (map tag_text tvs) seen = Inr tvs"
  using assms
proof (induction tvs arbitrary: i seen)
  case (Cons tv tvs)
  then have "parse_element i (tag_text tv) seen = Inr tv" by (intro parse_element_text) auto
  with Cons show ?case by auto
qed simp

definition unsigned_required :: "pystr list" where
  "unsigned_required = filter (\<lambda>t. t \<noteq> str ''sg'') DRAFT01_REQUIRED"

text \<open>The record without its signature and with the unknown tags in the order of the canonical form.\<close>

definition unsigned :: "DnsIdTxtRecord \<Rightarrow> DnsIdTxtRecord" where
  "unsigned r = r\<lparr>tr_sg := [], tr_unknown_tags := filter (\<lambda>tv. fst tv \<notin> set KNOWN_TAGS) (signed_pairs r)\<rparr>"

lemma signed_pairs_wf:
  assumes "wf_record r"
  shows "distinct (map fst (signed_pairs r))" "\<forall>tv \<in> set (signed_pairs r). valid_pair tv \<and> fst tv \<noteq> str ''sg''"
proof -
  have "distinct (map fst (filter (\<lambda>tv. fst tv \<noteq> str ''sg'') (tag_pairs r)))"
    using wf_pairs_distinct [OF assms] by (simp add: distinct_map_filter)
  moreover have "mset (map fst (signed_pairs r)) = mset (map fst (filter (\<lambda>tv. fst tv \<noteq> str ''sg'') (tag_pairs r)))"
    unfolding signed_pairs_def mset_map mset_sort ..
  ultimately show "distinct (map fst (signed_pairs r))" by (metis mset_eq_imp_distinct_iff)
  show "\<forall>tv \<in> set (signed_pairs r). valid_pair tv \<and> fst tv \<noteq> str ''sg''"
    using wf_valid_pairs [OF assms] by (auto simp: signed_pairs_set)
qed

lemma map_of_signed_pairs:
  assumes "wf_record r" "t \<noteq> str ''sg''"
  shows "map_of (signed_pairs r) t = map_of (tag_pairs r) t"
proof -
  have "map_of (signed_pairs r) t = Some x \<longleftrightarrow> map_of (tag_pairs r) t = Some x" for x
    using map_of_eq_Some_iff [OF signed_pairs_wf(1) [OF assms(1)]] map_of_eq_Some_iff [OF wf_pairs_distinct [OF assms(1)]]
      assms(2) unfolding signed_pairs_set by simp
  then show ?thesis by (metis not_None_eq)
qed

lemma map_of_filter_key: "map_of (filter (\<lambda>tv. P (fst tv)) xs) t = (if P t then map_of xs t else None)"
  by (induction xs) auto

lemma inter_insert_eq: "(\<And>t. t \<in> C \<Longrightarrow> t \<in> A \<longleftrightarrow> t \<in> B) \<Longrightarrow> x \<notin> A \<Longrightarrow> B \<subseteq> C \<Longrightarrow> A \<inter> insert x C = B"
  by blast

lemma get_tag_unsigned:
  "get_tag (unsigned r) t = (if t = str ''sg'' then [] else get_tag r t)"
  by (simp add: unsigned_def get_tag_def)

lemma unsigned_keeps:
  "tr_parsed_optional_tags (unsigned r) = tr_parsed_optional_tags r"
  "tr_identity_fqdn (unsigned r) = tr_identity_fqdn r"
  "tr_unknown_tags (unsigned r) = filter (\<lambda>tv. fst tv \<notin> set KNOWN_TAGS) (signed_pairs r)"
  by (simp_all add: unsigned_def)

lemma fold_signed_pairs:
  assumes "wf_record r"
  shows "fold (store_tag unsigned_required) (signed_pairs r) empty_record = unsigned r"
proof (rule record_eqI)
  note d = signed_pairs_wf(1) [OF assms]
  have e: "tr_unknown_tags empty_record = []" "tr_parsed_optional_tags empty_record = {}" "tr_identity_fqdn empty_record = []"
    by (simp_all add: empty_record_def)
  have nosg: "map_of (signed_pairs r) (str ''sg'') = None"
    using signed_pairs_wf(2) [OF assms] by (auto simp: map_of_eq_None_iff)
  show "get_tag (fold (store_tag unsigned_required) (signed_pairs r) empty_record) t = get_tag (unsigned r) t"
    if t: "t \<in> set KNOWN_TAGS" for t
  proof (cases "t = str ''sg''")
    case True
    then show ?thesis using fold_store_get [OF d t, of unsigned_required empty_record] nosg
      by (simp add: empty_record_get get_tag_unsigned)
  next
    case False
    have v: "t = str ''v'' \<Longrightarrow> t \<in> set unsigned_required \<and> t \<in> set DRAFT01_REQUIRED"
      by (simp add: unsigned_required_def DRAFT01_REQUIRED_def)
    have "map_of (signed_pairs r) t = (if tag_emitted r t then Some (get_tag r t) else None)"
      using map_of_signed_pairs [OF assms False] map_of_tag_pairs [OF assms t] by simp
    then show ?thesis
      using fold_store_get [OF d t, of unsigned_required empty_record] wf_emitted [OF assms t] False v
      by (auto simp: get_tag_unsigned empty_record_get tag_emitted_def split: if_splits)
  qed
  note rest = fold_store_rest [OF d, of empty_record unsigned_required]
  show "tr_unknown_tags (fold (store_tag unsigned_required) (signed_pairs r) empty_record) = tr_unknown_tags (unsigned r)"
    using rest e by (simp add: unsigned_keeps)
  show "tr_identity_fqdn (fold (store_tag unsigned_required) (signed_pairs r) empty_record) = tr_identity_fqdn (unsigned r)"
    using rest e assms by (simp add: unsigned_keeps wf_record_def)
  have "set KNOWN_TAGS - set unsigned_required = insert (str ''sg'') {str ''fl'', str ''ka'', str ''cu''}"
    by (auto simp: KNOWN_TAGS_def unsigned_required_def DRAFT01_REQUIRED_def)
  moreover have "fst ` set (signed_pairs r) \<inter> insert (str ''sg'') {str ''fl'', str ''ka'', str ''cu''} = tr_parsed_optional_tags r"
  proof -
    define opts where "opts = {str ''fl'', str ''ka'', str ''cu''}"
    have o3: "t \<in> set KNOWN_TAGS \<and> t \<notin> set DRAFT01_REQUIRED \<and> t \<noteq> str ''sg''" if "t \<in> opts" for t
      using that by (auto simp: opts_def KNOWN_TAGS_def DRAFT01_REQUIRED_def)
    have "t \<in> fst ` set (signed_pairs r) \<longleftrightarrow> t \<in> tr_parsed_optional_tags r" if "t \<in> opts" for t
      using map_of_signed_pairs [OF assms, of t] map_of_tag_pairs [OF assms, of t] wf_emitted [OF assms, of t] o3 [OF that]
      by (metis map_of_eq_None_iff option.distinct(1))
    moreover have "str ''sg'' \<notin> fst ` set (signed_pairs r)" using nosg by (metis map_of_eq_None_iff)
    moreover have "tr_parsed_optional_tags r \<subseteq> opts" using assms by (auto simp: wf_record_def opts_def)
    ultimately show ?thesis unfolding opts_def [symmetric] by (rule inter_insert_eq)
  qed
  ultimately show "tr_parsed_optional_tags (fold (store_tag unsigned_required) (signed_pairs r) empty_record)
      = tr_parsed_optional_tags (unsigned r)"
    using rest e by (simp only: unsigned_keeps) simp
qed


lemma signed_pairs_unsigned:
  assumes "wf_record r" shows "signed_pairs (unsigned r) = signed_pairs r"
proof -
  let ?sg = "\<lambda>tv :: pystr \<times> pystr. fst tv \<noteq> str ''sg''" and ?u = "\<lambda>tv :: pystr \<times> pystr. fst tv \<notin> set KNOWN_TAGS"
  have sgk: "str ''sg'' \<in> set KNOWN_TAGS" by (simp add: KNOWN_TAGS_def)
  have emitted: "tag_emitted (unsigned r) t \<longleftrightarrow> t \<noteq> str ''sg'' \<and> tag_emitted r t" if "t \<in> set KNOWN_TAGS" for t
    using assms by (auto simp: tag_emitted_def get_tag_unsigned unsigned_keeps wf_record_def)
  have known: "map (\<lambda>tag. (tag, get_tag (unsigned r) tag)) (filter (tag_emitted (unsigned r)) KNOWN_TAGS)
      = filter ?sg (map (\<lambda>tag. (tag, get_tag r tag)) (filter (tag_emitted r) KNOWN_TAGS))"
    using emitted by (auto simp: filter_map comp_def get_tag_unsigned conj_commute intro!: map_cong filter_cong)
  have unknown: "filter ?u (filter ?sg (tag_pairs r)) = tr_unknown_tags r"
    using assms sgk by (auto simp: wf_record_def tag_pairs_def filter_empty_conv filter_id_conv)
  have "filter ?sg (tr_unknown_tags r) = tr_unknown_tags r"
    using assms sgk by (auto simp: wf_record_def filter_id_conv)
  moreover have "filter ?sg (filter ?u (signed_pairs r)) = filter ?u (signed_pairs r)"
    unfolding filter_filter using sgk by (intro filter_cong) auto
  ultimately have ids: "filter ?sg (tr_unknown_tags r) = tr_unknown_tags r"
    "filter ?sg (filter ?u (signed_pairs r)) = filter ?u (signed_pairs r)" by auto
  have "mset (filter ?u (signed_pairs r)) = mset (tr_unknown_tags r)"
    unfolding unknown [symmetric] mset_filter signed_pairs_def mset_sort ..
  then have "mset (filter ?sg (tag_pairs (unsigned r))) = mset (filter ?sg (tag_pairs r))"
    unfolding tag_pairs_def unsigned_keeps known filter_append mset_append ids by simp
  moreover have "inj_on fst (set (filter ?sg (tag_pairs r)))"
    using wf_pairs_distinct [OF assms] by (auto simp: distinct_map intro: inj_on_subset)
  ultimately show ?thesis unfolding signed_pairs_def by (intro sort_key_inj_key_eq [symmetric]) simp_all
qed

lemma canonical_unsigned:
  assumes "wf_record r" shows "canonical (unsigned r) = canonical r"
proof -
  have "valid_pair tv" if "tv \<in> set (tag_pairs (unsigned r))" for tv
  proof -
    have "str ''sg'' \<notin> tr_parsed_optional_tags r" using assms by (auto simp: wf_record_def)
    then have "set (tag_pairs (unsigned r)) \<subseteq> set (tag_pairs r)"
      by (auto simp: tag_pairs_def unsigned_keeps signed_pairs_set tag_emitted_def get_tag_unsigned split: if_splits)
    with that wf_valid_pairs [OF assms] show ?thesis by blast
  qed
  then show ?thesis
    using wf_valid_pairs [OF assms] by (simp add: canonical_pairs signed_pairs_unsigned [OF assms])
qed

text \<open>
  The canonical form of a published record is accepted by \<^verbatim>\<open>parse_unsigned_canonical\<close>, and the record
  it returns is the published one without its signature: same signed content, same canonical form.
\<close>

theorem unsigned_canonical_roundtrip:
  assumes "parse_record raw = Inr r"
  shows "\<exists>u. parse_unsigned_canonical idna lower netloc_ok (canonical r) None = Inr u
    \<and> same_signed_content u r \<and> tr_sg u = [] \<and> canonical u = canonical r"
proof -
  have wf: "wf_record r" using assms parse_record_from parsed_wf by blast
  have v: "\<forall>tv \<in> set (tag_pairs r). valid_pair tv" using wf_valid_pairs [OF wf] by blast
  have vin: "(str ''v'', tr_v r) \<in> set (signed_pairs r)" using wf_pairs_start [OF wf] by (auto simp: signed_pairs_set)
  note sp = signed_pairs_wf [OF wf]
  have split: "split_on 59 (canonical r) = map tag_text (signed_pairs r)"
    unfolding canonical_pairs [OF v] using vin sp(2) tag_text_chars by (intro split_join) auto
  have loop: "unsigned_loop 0 (split_on 59 (canonical r)) {} = Inr (signed_pairs r)"
    unfolding split using sp by (intro unsigned_loop_texts) auto
  have version: "map_of (signed_pairs r) (str ''v'') = Some (tr_v r)" using vin sp(1) by simp
  have sup: "is_supported_version (tr_v r)" and "tr_v r \<noteq> []"
    using wf by (auto simp: wf_record_def is_supported_version_def V_DRAFT01_def V_DNSID1_def)
  have "t \<in> fst ` set (signed_pairs r)" if "t \<in> set unsigned_required" for t
  proof -
    have t: "t \<in> set DRAFT01_REQUIRED" "t \<noteq> str ''sg''" using that by (auto simp: unsigned_required_def)
    then have "map_of (signed_pairs r) t \<noteq> None"
      using map_of_signed_pairs [OF wf t(2)] map_of_tag_pairs [OF wf, of t] wf_emitted [OF wf, of t] required_known by auto
    then show ?thesis by (metis map_of_eq_None_iff)
  qed
  then have "parse_unsigned_canonical idna lower netloc_ok (canonical r) None = Inr (unsigned r)"
    using loop version sup \<open>tr_v r \<noteq> []\<close> fold_signed_pairs [OF wf] canonical_unsigned [OF wf]
    by (auto simp: parse_unsigned_canonical_def required_tags_def Let_def unsigned_required_def)
  moreover have "same_signed_content (unsigned r) r"
  proof -
    have "map_of (filter (\<lambda>tv. fst tv \<notin> set KNOWN_TAGS) (signed_pairs r)) t = map_of (tr_unknown_tags r) t" for t
    proof (cases "t \<in> set KNOWN_TAGS")
      case True
      then show ?thesis using map_of_unknown [OF wf, of t] by (simp add: map_of_filter_key [of "\<lambda>x. x \<notin> set KNOWN_TAGS"])
    next
      case False
      then have "t \<noteq> str ''sg''" by (auto simp: KNOWN_TAGS_def)
      with False show ?thesis
        using map_of_unknown [OF wf, of t] map_of_signed_pairs [OF wf, of t]
        by (simp add: map_of_filter_key [of "\<lambda>x. x \<notin> set KNOWN_TAGS"])
    qed
    then show ?thesis by (auto simp: same_signed_content_def get_tag_unsigned unsigned_keeps)
  qed
  moreover have "tr_sg (unsigned r) = []" by (simp add: unsigned_def)
  ultimately show ?thesis using canonical_unsigned [OF wf] by blast
qed


section \<open>Hosts\<close>

lemma split_on_dot: "split_on c (s @ c # t) = split_on c s @ split_on c t"
proof (induction s)
  case (Cons x xs)
  then show ?case by (cases "split_on c xs") (auto split: list.splits)
qed simp

lemma endswith_labels:
  "endswith e (c # b) \<longleftrightarrow> (\<exists>labels. labels \<noteq> [] \<and> split_on c e = labels @ split_on c b)"
proof
  assume "endswith e (c # b)"
  then obtain t where "e = t @ c # b" by (auto simp: endswith_iff)
  then show "\<exists>labels. labels \<noteq> [] \<and> split_on c e = labels @ split_on c b"
    by (intro exI [of _ "split_on c t"]) (simp add: split_on_dot)
next
  assume "\<exists>labels. labels \<noteq> [] \<and> split_on c e = labels @ split_on c b"
  then obtain labels where l: "labels \<noteq> []" "split_on c e = labels @ split_on c b" by blast
  have "join_with [c] (labels @ ls) = join_with [c] labels @ c # join_with [c] ls" if "ls \<noteq> []" for ls
    using l(1) that by (induction "[c]" labels rule: join_with.induct) (auto simp: neq_Nil_conv)
  from this [of "split_on c b"] have "e = join_with [c] labels @ c # b" using l(2) join_split [of c e] by simp
  then show "endswith e (c # b)" by (auto simp: endswith_iff)
qed


text \<open>
  The certificate check is exact. A certificate is accepted for a name if and only if some SAN without
  a wildcard normalises to the name, or some SAN is \<^verbatim>\<open>*.\<close> followed by a name without a wildcard, whose
  normal form has exactly the labels of the expected name but the first: a wildcard stands for one whole
  left-most label.
\<close>

theorem certificate_check_exact:
  "validate_against_fqdn idna cert fqdn = Inr () \<longleftrightarrow>
   (\<exists>expected. normalize_fqdn idna fqdn True = Inr expected \<and> (\<exists>p \<in> set (tls_san_dns_names cert).
      (42 \<notin> set p \<and> normalize_fqdn idna p False = Inr expected)
      \<or> (\<exists>b base label. p = str ''*.'' @ b \<and> 42 \<notin> set b \<and> normalize_fqdn idna b False = Inr base
           \<and> split_on 46 expected = label # split_on 46 base)))"
proof -
  have one: "length (split_on 46 e) = length (split_on 46 base) + 1 \<and> endswith e (46 # base)
      \<longleftrightarrow> (\<exists>label. split_on 46 e = label # split_on 46 base)" for e base :: pystr
    unfolding endswith_labels by (auto simp: length_Suc_conv append_eq_Cons_conv Cons_eq_append_conv)
  have "san_matches idna expected p \<longleftrightarrow> (42 \<notin> set p \<and> normalize_fqdn idna p False = Inr expected)
      \<or> (\<exists>b base label. p = str ''*.'' @ b \<and> 42 \<notin> set b \<and> normalize_fqdn idna b False = Inr base
           \<and> split_on 46 expected = label # split_on 46 base)" for expected p
  proof (cases "startswith p (str ''*.'')")
    case True
    then obtain b where b: "p = 42 # 46 # b" by (auto simp: startswith_iff)
    have "count_list b 42 = 0 \<longleftrightarrow> 42 \<notin> set b" by (simp add: count_list_0_iff)
    then show ?thesis using one by (auto simp: san_matches_def b startswith_def split: sum.splits)
  next
    case False
    then have "p \<noteq> 42 # 46 # b" for b by (auto simp: startswith_def)
    moreover have "p = [] \<Longrightarrow> normalize_fqdn idna p False \<noteq> Inr expected" by (simp add: normalize_fqdn_def)
    ultimately show ?thesis using False by (auto simp: san_matches_def)
  qed
  note m = this
  have "validate_against_fqdn idna cert fqdn = Inr () \<longleftrightarrow>
    (\<exists>expected. normalize_fqdn idna fqdn True = Inr expected \<and> (\<exists>p \<in> set (tls_san_dns_names cert). san_matches idna expected p))"
    by (auto simp: validate_against_fqdn_def rbind_Inr_iff)
  then show ?thesis unfolding m .
qed

section \<open>A sample record\<close>

definition sample_txt_record :: DnsIdTxtRecord where
  "sample_txt_record =
     \<lparr>tr_v = str ''DNSid1'', tr_gi = str ''g'', tr_ek = str ''e'', tr_ku = str ''k'', tr_lr = str ''l'', tr_su = str ''s'',
      tr_sg = str ''A'', tr_fl = [], tr_ka = [], tr_cu = [], tr_identity_fqdn = [],
      tr_unknown_tags = [(str ''z'', str ''1'')], tr_parsed_optional_tags = {str ''fl''}\<rparr>"

lemma sample_txt_wf: "wf_record sample_txt_record" "wf_record (sample_txt_record\<lparr>tr_sg := str ''B''\<rparr>)"
  by code_simp+

lemmas sample_txt_parses = sample_txt_wf [THEN parse_serialize]

lemma sample_txt_text: "serialize sample_txt_record = str ''v=DNSid1;gi=g;ek=e;ku=k;lr=l;su=s;sg=A;fl=;z=1''"
  by code_simp

theorem canonical_binds_record_witness:
  "canonical sample_txt_record = canonical (sample_txt_record\<lparr>tr_sg := str ''B''\<rparr>)"
proof -
  have "same_signed_content sample_txt_record (sample_txt_record\<lparr>tr_sg := str ''B''\<rparr>)"
    by (simp add: same_signed_content_def get_tag_def)
  then show ?thesis using canonical_binds_record [OF sample_txt_parses] by blast
qed

theorem parse_serialize_stable_witness: "parse_record (serialize sample_txt_record) = Inr sample_txt_record"
  by (rule parse_serialize_stable [OF sample_txt_parses(1)])

theorem unsigned_canonical_roundtrip_witness:
  "\<exists>u. parse_unsigned_canonical Some id (\<lambda>_. True) (canonical sample_txt_record) None = Inr u
    \<and> same_signed_content u sample_txt_record \<and> tr_sg u = [] \<and> canonical u = canonical sample_txt_record"
  by (rule unsigned_canonical_roundtrip [OF sample_txt_parses(1)])




end
