(* ===== verification/Log_Reader.thy ===== *)
theory Log_Reader
  imports Checkpoint_Store Policy Stream_Source Txt_Record
begin

text \<open>
  \<^verbatim>\<open>C2spTlogReader\<close> of \<^verbatim>\<open>dnsid/c2sp_tlog/reader.py\<close>, reading by complete scans: loading and caching a verified
  history, the checks \<^verbatim>\<open>verify_domain\<close> relies on (bilateral binding, operational continuity, key age,
  non-revocation), and the bounds on recursive verification of a previous log.

  The state of a reader is its trusted entity key, its history cache and the checkpoint store it
  shares. The source is a function. While a scan runs it asks \<^verbatim>\<open>_verify_prior_history\<close> for the history behind
  a MIGRATION; a load takes what that callback does as an argument of type \<open>answers\<close>: its result for an
  event, and its effect on the budget and on the shared store. The callback is modelled below as
  \<open>verify_prior_history\<close>, which loads the previous log with the answers of its own callback. (In a run that
  returns, no two requests have equal events: the first puts the previous log into \<^verbatim>\<open>budget.seen\<close>, and a
  request that fails ends the scan.) \<open>now\<close> gives the value of \<^verbatim>\<open>_now_ms()\<close> at each place that reads the clock.
  Witness times are whole seconds, so \<^verbatim>\<open>timestamp() * 1000 + skew\<close> is exact in floating point for skews
  below \<open>2 ^ 52\<close> milliseconds.
\<close>

section \<open>Errors at the reader's boundary\<close>

definition log_err :: "string \<Rightarrow> 'a res" where
  "log_err m = Inl (VerificationError LOG_ERROR m False)"

fun is_C2spTlogError :: "exn \<Rightarrow> bool" where
  "is_C2spTlogError (C2spTlogParseError _) = True"
| "is_C2spTlogError (C2spTlogVerificationError _ _ _) = True"
| "is_C2spTlogError (C2spTlogResourceLimitError _) = True"
| "is_C2spTlogError (C2spCheckpointConsistencyError _ _ _ _ _ _ _) = True"
| "is_C2spTlogError (C2spCheckpointStoreError _) = True"
| "is_C2spTlogError (C2spTlogTransportError _ _ _) = True"
| "is_C2spTlogError _ = False"

fun exn_transient :: "exn \<Rightarrow> bool" where
  "exn_transient (C2spTlogTransportError _ t _) = t"
| "exn_transient (VerificationError _ _ t) = t"
| "exn_transient _ = False"

definition adapt_c2sp_error :: "exn \<Rightarrow> exn" where
  "adapt_c2sp_error e = VerificationError LOG_ERROR (''C2SP log verification failed: '' @ exn_text e) (exn_transient e)"

definition verification_boundary :: "'a res \<times> 's \<Rightarrow> 'a res \<times> 's" where
  "verification_boundary m =
     (case m of
        (Inl e, s) \<Rightarrow> (Inl (if is_VerificationError e then e else if is_C2spTlogError e then adapt_c2sp_error e else e), s)
      | (Inr x, s) \<Rightarrow> (Inr x, s))"

section \<open>Migration budgets\<close>

record C2spMigrationVerificationLimits =
  ml_max_depth :: int
  ml_max_history_events :: int
  ml_max_response_bytes :: int

definition migration_limits ::
  "int \<Rightarrow> int \<Rightarrow> int \<Rightarrow> C2spMigrationVerificationLimits res" where
  "migration_limits depth events bytes =
     (if depth < 1 then verif_err ''max_depth must be a positive integer''
      else if events < 1 then verif_err ''max_history_events must be a positive integer''
      else if bytes < 1 then verif_err ''max_response_bytes must be a positive integer''
      else Inr \<lparr>ml_max_depth = depth, ml_max_history_events = events, ml_max_response_bytes = bytes\<rparr>)"

record MigrationBudget =
  mb_limits :: C2spMigrationVerificationLimits
  mb_seen :: "pystr set"
  mb_history_events :: int
  mb_response_bytes :: int
  mb_active :: bool

definition enforce_budget :: "MigrationBudget \<Rightarrow> MigrationBudget res" where
  "enforce_budget b =
     (if \<not> mb_active b then Inr b
      else if mb_history_events b > ml_max_history_events (mb_limits b)
      then invalid_migration ''recursive MIGRATION history exceeds configured event maximum''
      else if mb_response_bytes b > ml_max_response_bytes (mb_limits b)
      then invalid_migration ''recursive MIGRATION responses exceed configured byte maximum''
      else Inr b)"

definition add_response :: "int \<Rightarrow> MigrationBudget \<Rightarrow> MigrationBudget res" where
  "add_response n b = enforce_budget (b\<lparr>mb_response_bytes := mb_response_bytes b + n\<rparr>)"

definition add_events :: "int \<Rightarrow> MigrationBudget \<Rightarrow> MigrationBudget res" where
  "add_events n b = enforce_budget (b\<lparr>mb_history_events := mb_history_events b + n\<rparr>)"

definition activate :: "MigrationBudget \<Rightarrow> MigrationBudget res" where
  "activate b = enforce_budget (b\<lparr>mb_active := True\<rparr>)"

record MigrationContext =
  mc_budget :: MigrationBudget
  mc_depth :: int

definition new_budget :: "C2spMigrationVerificationLimits \<Rightarrow> pystr set \<Rightarrow> MigrationBudget" where
  "new_budget limits seen =
     \<lparr>mb_limits = limits, mb_seen = seen, mb_history_events = 0, mb_response_bytes = 0, mb_active = False\<rparr>"

section \<open>The reader\<close>

record C2spTlogReaderOptions =
  ro_policy :: C2spTlogPolicy
  ro_unchained :: "bool option"
  ro_entity_key :: "JWK option"
  ro_max_clock_skew_ms :: int
  ro_checkpoint_freshness_ms :: "int option"
  ro_max_tree_size :: "int option"
  ro_migration_limits :: C2spMigrationVerificationLimits

record reader =
  rd_parsed :: ParsedC2spTlogLr
  rd_lr :: pystr
  rd_options :: C2spTlogReaderOptions
  rd_load_stream :: "ParsedC2spTlogLr \<Rightarrow> pystr \<Rightarrow> StreamEvidence res"

definition new_reader ::
  "(pystr \<Rightarrow> pystr) \<Rightarrow> (pystr \<Rightarrow> bool) \<Rightarrow> pystr \<Rightarrow> C2spTlogReaderOptions \<Rightarrow>
   (ParsedC2spTlogLr \<Rightarrow> pystr \<Rightarrow> StreamEvidence res) \<Rightarrow> C2spResourceFetchGuarantees option \<Rightarrow> reader res" where
  "new_reader lower netloc_ok lr options source guarantees =
     rbind (parse_c2sp_tlog_lr lower netloc_ok lr) (\<lambda>parsed.
       if lr_entry_index parsed \<noteq> None
       then verif_err ''C2spTlogReader requires a bound log reference without @index''
       else if ro_max_clock_skew_ms options < 0
       then verif_err ''max_clock_skew_ms must be a non-negative integer''
       else if (case ro_checkpoint_freshness_ms options of None \<Rightarrow> False | Some f \<Rightarrow> f < 1)
       then verif_err ''checkpoint_freshness_ms must be a positive integer when supplied''
       else if (case ro_max_tree_size options of None \<Rightarrow> False | Some n \<Rightarrow> n < 1)
       then verif_err ''max_tree_size must be a positive integer when supplied''
       else
         rbind (if lr_scope parsed = str ''public'' then enforce_public_read_guarantees guarantees else Inr ()) (\<lambda>_.
           Inr \<lparr>rd_parsed = parsed, rd_lr = lr_lr parsed, rd_options = options, rd_load_stream = source\<rparr>))"

datatype completeness = ThroughSize int | ThroughRef pystr
datatype checkpoint_evidence = CheckpointBytes bytes | CheckpointObject Checkpoint | NoCheckpoint

record VerifiedHistory =
  vh_events :: "LogEvent list"
  vh_checkpoint_witness_time :: int
  vh_complete_through :: completeness
  vh_completeness_mode :: pystr
  vh_checkpoint :: checkpoint_evidence
  vh_evidence_expires_at :: "int option"
  vh_current_stream_events :: "VerifiedLifecycleEvent list"
  vh_event_refs :: "pystr list"

record reader_state =
  rs_trusted_entity_key :: "JWK option"
  rs_history_cache :: "((pystr \<times> pystr) \<times> VerifiedHistory) list"
  rs_store :: store

datatype clock_read = AtExpiry | AtStale | AtPolicy | AtFresh

definition reader_context :: "reader \<Rightarrow> ParsedC2spTlogLr \<Rightarrow> C2spEventContext" where
  "reader_context rd p =
     no_context\<lparr>cx_scope := Some (lr_scope p), cx_log_origin := Some (lr_origin p),
                cx_stream_id := Some (lr_stream_id p), cx_lr := Some (rd_lr rd)\<rparr>"

definition unchained :: "reader \<Rightarrow> pystr \<Rightarrow> bool res" where
  "unchained rd origin =
     (case ro_unchained (rd_options rd) of
        Some u \<Rightarrow> Inr u
      | None \<Rightarrow> rbind (normalized_origin_policy (ro_policy (rd_options rd)) origin) (\<lambda>p. Inr (np_unchained p)))"

definition verifier_options ::
  "reader \<Rightarrow> ParsedC2spTlogLr \<Rightarrow> JWK \<Rightarrow> int \<Rightarrow> StreamVerifierOptions res" where
  "verifier_options rd parsed signer_key witness_time =
     rbind (unchained rd (lr_origin parsed)) (\<lambda>u.
       Inr (default_options\<lparr>so_context := Some (reader_context rd parsed), so_unchained := u,
              so_signer_key := Some signer_key,
              so_integration_ms := Some (witness_time div 1000 + ro_max_clock_skew_ms (rd_options rd), 0)\<rparr>))"

definition checkpoint_is_stale :: "reader \<Rightarrow> rat \<Rightarrow> int \<Rightarrow> bool" where
  "checkpoint_is_stale rd now_ms witness_time =
     (case ro_checkpoint_freshness_ms (rd_options rd) of
        None \<Rightarrow> False
      | Some freshness \<Rightarrow> now_ms - of_int (witness_time div 1000) > of_int freshness)"

definition assert_fresh :: "reader \<Rightarrow> rat \<Rightarrow> int \<Rightarrow> unit res" where
  "assert_fresh rd now_ms witness_time =
     (if ro_checkpoint_freshness_ms (rd_options rd) = None
      then log_err ''non-revocation verification requires checkpoint_freshness_ms''
      else if checkpoint_is_stale rd now_ms witness_time
      then log_err ''C2SP checkpoint is too stale for non-revocation verification'' else Inr ())"

section \<open>Complete scans\<close>

definition evidence_err :: "string \<Rightarrow> 'a res" where
  "evidence_err m = Inl (C2spTlogVerificationError m (Some INVALID_EVIDENCE) None)"

definition verify_checkpoint_prefix :: "IndexedEntry list \<Rightarrow> int \<Rightarrow> bytes \<Rightarrow> unit res" where
  "verify_checkpoint_prefix entries tree_size root_hash =
     (let pre = take (nat tree_size) entries in
      if int (length pre) \<noteq> tree_size \<or> (\<exists>i < length pre. ie_index (pre ! i) \<noteq> int i)
      then evidence_err ''complete scan does not contain the checkpoint prefix''
      else if merkle_root_from_entries (map ie_data pre) \<noteq> root_hash
      then evidence_err ''complete scan prefix does not match the checkpoint'' else Inr ())"

definition verified_complete_scan_entries :: "StreamEvidence \<Rightarrow> IndexedEntry list res" where
  "verified_complete_scan_entries evidence =
     (if \<not> se_complete evidence
      then evidence_err ''stream bundle consistency fallback requires a complete raw scan''
      else if \<exists>e \<in> set (se_entries evidence). ie_index e < 0
      then evidence_err ''complete raw scan contains an invalid index''
      else
        (let entries = sort_key ie_index (se_entries evidence) in
         if int (length entries) \<noteq> ck_tree_size (se_checkpoint evidence)
         then evidence_err ''complete raw scan length does not match its checkpoint''
         else
           rbind (verify_checkpoint_prefix entries (ck_tree_size (se_checkpoint evidence)) (ck_root_hash (se_checkpoint evidence)))
             (\<lambda>_. Inr entries)))"

definition stream_evidence_bytes :: "StreamEvidence \<Rightarrow> int" where
  "stream_evidence_bytes evidence =
     max (int (length (se_checkpoint_bytes evidence)) + int (sum_list (map (\<lambda>e. length (ie_data e) + 2) (se_entries evidence))))
         (case se_response_bytes evidence of None \<Rightarrow> 0 | Some n \<Rightarrow> n)"

text \<open>\<^verbatim>\<open>exc.category = INVALID_EVIDENCE\<close> on a verification error without a category.\<close>

fun categorised :: "exn \<Rightarrow> exn" where
  "categorised (C2spTlogVerificationError m None i) = C2spTlogVerificationError m (Some INVALID_EVIDENCE) i"
| "categorised e = e"

definition authenticate_checkpoint ::
  "(bytes \<Rightarrow> bytes \<Rightarrow> bytes \<Rightarrow> bool) \<Rightarrow> reader \<Rightarrow> rat \<Rightarrow> Checkpoint \<Rightarrow> CheckpointPolicyResult res" where
  "authenticate_checkpoint ed_verify rd now_ms checkpoint =
     (case enforce_checkpoint_policy ed_verify checkpoint (lr_origin (rd_parsed rd)) (ro_policy (rd_options rd))
             (lr_scope (rd_parsed rd)) now_ms (ro_max_clock_skew_ms (rd_options rd)) of
        Inl e \<Rightarrow> Inl (categorised e)
      | Inr r \<Rightarrow> Inr r)"

definition prepare_scan ::
  "(bytes \<Rightarrow> bytes \<Rightarrow> bytes \<Rightarrow> bool) \<Rightarrow> reader \<Rightarrow> rat \<Rightarrow> StreamEvidence \<Rightarrow> MigrationBudget \<Rightarrow> (int \<times> MigrationBudget) res" where
  "prepare_scan ed_verify rd now_ms evidence budget =
     rbind (add_response (stream_evidence_bytes evidence) budget) (\<lambda>budget'.
       if (case ro_max_tree_size (rd_options rd) of None \<Rightarrow> False | Some n \<Rightarrow> ck_tree_size (se_checkpoint evidence) > n)
       then log_err ''checkpoint tree size exceeds configured maximum''
       else if \<not> se_complete evidence
       then log_err ''C2SP stream source is incomplete for current-state verification''
       else
         rbind (authenticate_checkpoint ed_verify rd now_ms (se_checkpoint evidence)) (\<lambda>policy_result.
           (case pr_checkpoint_witness_time policy_result of
              None \<Rightarrow> log_err ''C2SP lifecycle timestamps require an accepted timestamped witness quorum''
            | Some t \<Rightarrow> rbind (verified_complete_scan_entries evidence) (\<lambda>_. Inr (t, budget')))))"

section \<open>Stitching the history behind a migration\<close>

definition event_ref :: "pystr \<Rightarrow> int \<Rightarrow> pystr" where
  "event_ref lr index = lr @ [64] @ dec_of_int index"

fun max_after :: "Events.pydatetime \<Rightarrow> Events.pydatetime list \<Rightarrow> Events.pydatetime res" where
  "max_after t [] = Inr t"
| "max_after t (u # us) = rbind (time_after u t) (\<lambda>b. max_after (if b then u else t) us)"

definition latest_time :: "LogEvent list \<Rightarrow> Events.pydatetime res" where
  "latest_time events =
     (case map ev_timestamp events of [] \<Rightarrow> Inl (ValueError ''max() iterable argument is empty'') | t # ts \<Rightarrow> max_after t ts)"

definition first_issuance :: "LogEvent list \<Rightarrow> (LogEvent \<times> IssuanceData) option" where
  "first_issuance events =
     (case find (\<lambda>e. is_issuance (ev_body e)) events of
        Some e \<Rightarrow> (case ev_body e of IssuanceEvent d \<Rightarrow> Some (e, d) | _ \<Rightarrow> None)
      | None \<Rightarrow> None)"

definition same_handoff :: "LogEvent \<Rightarrow> LogEvent \<Rightarrow> bool" where
  "same_handoff prior migration =
     (case (ev_body prior, ev_body migration) of
        (MigrationEvent p, MigrationEvent m) \<Rightarrow>
          ev_domain prior = ev_domain migration \<and> mg_previous_log p = mg_previous_log m
          \<and> mg_new_log p = mg_new_log m \<and> mg_final_entry_ref p = mg_final_entry_ref m
      | _ \<Rightarrow> False)"

definition stitch_migration_history ::
  "(LogEvent \<Rightarrow> MigrationVerificationResult option) \<Rightarrow> pystr \<Rightarrow> LogEvent list \<Rightarrow> LogEvent list res" where
  "stitch_migration_history results domain events =
     (if events = [] \<or> \<not> is_migration (ev_body (hd events)) then Inr events
      else
        (case results (hd events) of
           None \<Rightarrow> log_err ''MIGRATION verification did not return complete prior-log history''
         | Some migration \<Rightarrow>
             if mr_prior_events migration = []
             then log_err ''MIGRATION verification did not return complete prior-log history''
             else if \<exists>p \<in> set (mr_prior_events migration). same_handoff p (hd events)
             then log_err ''MIGRATION prior-log history contains the inbound migration''
             else
               rbind (latest_time (mr_prior_events migration)) (\<lambda>prior_snapshot_at.
               rbind (snapshot_at \<lparr>dl_domain = domain, dl_events = mr_prior_events migration\<rparr> prior_snapshot_at) (\<lambda>prior_snapshot.
               rbind (if sn_historical_state prior_snapshot \<noteq> ''ACTIVE'' then Inr True
                      else rbind (thumbprint (mr_operational_key migration)) (\<lambda>t. Inr (sn_active_key_thumbprint prior_snapshot \<noteq> t))) (\<lambda>bad.
                 if bad then log_err ''MIGRATION prior-log history does not establish the recovered active key''
                 else
                   (case first_issuance (mr_prior_events migration) of
                      None \<Rightarrow> log_err ''MIGRATION prior-log history does not establish the recovered entity key''
                    | Some (_, d) \<Rightarrow>
                        (case is_entity_key d of
                           None \<Rightarrow> log_err ''MIGRATION prior-log history does not establish the recovered entity key''
                         | Some k \<Rightarrow>
                             rbind (thumbprint k) (\<lambda>a. rbind (thumbprint (mr_entity_key migration)) (\<lambda>b.
                               if a \<noteq> b then log_err ''MIGRATION prior-log history does not establish the recovered entity key''
                               else Inr (mr_prior_events migration @ events))))))))))"

definition stitched_event_refs ::
  "(LogEvent \<Rightarrow> MigrationVerificationResult option) \<Rightarrow> pystr \<Rightarrow> VerifiedLifecycleEvent list \<Rightarrow> pystr list res" where
  "stitched_event_refs results lr events =
     (let current = map (\<lambda>item. event_ref lr (vl_index item)) events in
      if events = [] \<or> \<not> is_migration (ev_body (vl_event (hd events))) then Inr current
      else
        (case results (vl_event (hd events)) of
           None \<Rightarrow> invalid_migration ''MIGRATION verification did not preserve prior-log event references''
         | Some migration \<Rightarrow>
             if length (mr_prior_event_refs migration) \<noteq> length (mr_prior_events migration)
             then invalid_migration ''MIGRATION verification did not preserve prior-log event references''
             else Inr (mr_prior_event_refs migration @ current)))"

definition assert_cutoff :: "VerifiedLifecycleEvent list \<Rightarrow> int option \<Rightarrow> unit res" where
  "assert_cutoff events cutoff_index =
     (case cutoff_index of
        None \<Rightarrow> Inr ()
      | Some n \<Rightarrow>
          if events = [] \<or> vl_index (last events) \<noteq> n
          then invalid_migration ''MIGRATION prev_ref does not identify the final applied cutoff event'' else Inr ())"


section \<open>Loading a history\<close>

record answers =
  an_result :: "LogEvent \<Rightarrow> MigrationVerificationResult res"
  an_budget :: "MigrationBudget \<Rightarrow> MigrationBudget"
  an_store :: "store \<Rightarrow> store"

definition resolved :: "(LogEvent \<Rightarrow> MigrationVerificationResult res) \<Rightarrow> LogEvent \<Rightarrow> MigrationVerificationResult option" where
  "resolved vm ev = (case vm ev of Inl _ \<Rightarrow> None | Inr r \<Rightarrow> Some r)"

definition scan_options ::
  "reader \<Rightarrow> JWK \<Rightarrow> int \<Rightarrow> (LogEvent \<Rightarrow> MigrationVerificationResult res) \<Rightarrow> int option \<Rightarrow> StreamVerifierOptions res" where
  "scan_options rd trusted witness_time vm cutoff_index =
     rbind (verifier_options rd (rd_parsed rd) trusted witness_time) (\<lambda>opts.
       Inr (opts\<lparr>so_verify_migration := Some vm, so_cutoff_index := cutoff_index\<rparr>))"

definition scan_history ::
  "platform \<Rightarrow> reader \<Rightarrow> StreamEvidence \<Rightarrow> pystr \<Rightarrow> JWK \<Rightarrow> answers \<Rightarrow>
   MigrationBudget \<Rightarrow> int option \<Rightarrow> int \<Rightarrow> (VerifiedHistory \<times> MigrationBudget) res" where
  "scan_history pf rd evidence domain trusted ans budget cutoff_index witness_time =
     rbind (scan_options rd trusted witness_time (an_result ans) cutoff_index) (\<lambda>opts.
       let entries = (case cutoff_index of
                        None \<Rightarrow> se_entries evidence
                      | Some n \<Rightarrow> filter (\<lambda>e. ie_index e \<le> n) (se_entries evidence)) in
     rbind (verify_stream_lifecycle pf entries domain opts) (\<lambda>verified.
     rbind (assert_cutoff verified cutoff_index) (\<lambda>_.
     rbind (add_events (int (length verified)) (an_budget ans budget)) (\<lambda>budget'.
     rbind (stitch_migration_history (resolved (an_result ans)) domain (map vl_event verified)) (\<lambda>events.
     rbind (stitched_event_refs (resolved (an_result ans)) (lr_lr (rd_parsed rd)) verified) (\<lambda>refs.
       Inr (\<lparr>vh_events = events, vh_checkpoint_witness_time = witness_time,
             vh_complete_through = ThroughSize (ck_tree_size (se_checkpoint evidence)),
             vh_completeness_mode =
               (if se_completeness_mode evidence = [] then str ''full-scan'' else se_completeness_mode evidence),
             vh_checkpoint =
               (if se_checkpoint_bytes evidence = [] then CheckpointObject (se_checkpoint evidence)
                else CheckpointBytes (se_checkpoint_bytes evidence)),
             vh_evidence_expires_at = None, vh_current_stream_events = verified, vh_event_refs = refs\<rparr>, budget')))))))"

definition cached_history ::
  "reader \<Rightarrow> (clock_read \<Rightarrow> rat) \<Rightarrow> pystr \<times> pystr \<Rightarrow> bool \<Rightarrow> reader_state \<Rightarrow> VerifiedHistory option \<times> reader_state" where
  "cached_history rd now key require_fresh st =
     (case map_of (rs_history_cache st) key of
        None \<Rightarrow> (None, st)
      | Some cached \<Rightarrow>
          if (case vh_evidence_expires_at cached of None \<Rightarrow> False | Some t \<Rightarrow> now AtExpiry \<ge> of_int t / 1000)
             \<or> (require_fresh \<and> checkpoint_is_stale rd (now AtStale) (vh_checkpoint_witness_time cached))
          then (None, st\<lparr>rs_history_cache := dict_pop key (rs_history_cache st)\<rparr>)
          else (Some cached, st))"

definition trusted_key :: "reader \<Rightarrow> JWK option \<Rightarrow> reader_state \<Rightarrow> JWK res" where
  "trusted_key rd entity_key st =
     (case entity_key of
        Some k \<Rightarrow> Inr k
      | None \<Rightarrow>
          (case ro_entity_key (rd_options rd) of
             Some k \<Rightarrow> Inr k
           | None \<Rightarrow>
               (case rs_trusted_entity_key st of
                  Some k \<Rightarrow> Inr k
                | None \<Rightarrow> log_err ''C2SP lifecycle verification requires a trusted entity key'')))"

text \<open>
  A fresh load: fetch, authenticate the checkpoint, extend the trusted checkpoint of the origin, verify.
  The store keeps the advance even when the later verification fails.
\<close>

definition load_scan ::
  "platform \<Rightarrow> (bytes \<Rightarrow> bytes \<Rightarrow> bytes \<Rightarrow> bool) \<Rightarrow> reader \<Rightarrow> (clock_read \<Rightarrow> rat) \<Rightarrow> answers \<Rightarrow>
   pystr \<Rightarrow> JWK \<Rightarrow> int option \<Rightarrow> MigrationBudget \<Rightarrow> reader_state \<Rightarrow> (VerifiedHistory \<times> MigrationBudget) res \<times> reader_state" where
  "load_scan pf ed_verify rd now ans domain trusted cutoff_index budget st =
     (case rbind (rd_load_stream rd (rd_parsed rd) domain) (\<lambda>evidence.
           rbind (prepare_scan ed_verify rd (now AtPolicy) evidence budget) (\<lambda>wb. Inr (evidence, wb))) of
        Inl e \<Rightarrow> (Inl e, st)
      | Inr (evidence, witness_time, budget') \<Rightarrow>
          (case enforce_append_only_consistency (rs_store st) (lr_origin (rd_parsed rd))
                  (ck_tree_size (se_checkpoint evidence)) (ck_root_hash (se_checkpoint evidence))
                  (map ie_data (sort_key ie_index (se_entries evidence))) (Aware witness_time 0) of
             (Inl e, store) \<Rightarrow> (Inl e, st\<lparr>rs_store := store\<rparr>)
           | (Inr _, store) \<Rightarrow>
               (scan_history pf rd evidence domain trusted ans budget' cutoff_index witness_time,
                st\<lparr>rs_store := an_store ans store\<rparr>)))"

definition load_complete_history ::
  "platform \<Rightarrow> (bytes \<Rightarrow> bytes \<Rightarrow> bytes \<Rightarrow> bool) \<Rightarrow> reader \<Rightarrow> (clock_read \<Rightarrow> rat) \<Rightarrow> answers \<Rightarrow>
   pystr \<Rightarrow> JWK option \<Rightarrow> bool \<Rightarrow> int option \<Rightarrow> MigrationContext option \<Rightarrow> reader_state \<Rightarrow>
   (VerifiedHistory \<times> MigrationBudget) res \<times> reader_state" where
  "load_complete_history pf ed_verify rd now ans domain entity_key require_fresh cutoff_index migration_context st =
     (case rbind (trusted_key rd entity_key st) (\<lambda>k. rbind (thumbprint k) (\<lambda>t. Inr (k, t))) of
        Inl e \<Rightarrow> (Inl e, st)
      | Inr (trusted, t) \<Rightarrow>
          (let use_cache = (cutoff_index = None \<and> migration_context = None);
               budget = (case migration_context of
                           Some c \<Rightarrow> mc_budget c
                         | None \<Rightarrow> new_budget (ro_migration_limits (rd_options rd)) {lr_lr (rd_parsed rd)});
               (cached, st1) = (if use_cache then cached_history rd now (domain, t) require_fresh st else (None, st)) in
           (case cached of
              Some h \<Rightarrow> (Inr (h, budget), st1)
            | None \<Rightarrow>
                (case load_scan pf ed_verify rd now ans domain trusted cutoff_index budget st1 of
                   (Inl e, st2) \<Rightarrow> (Inl e, st2)
                 | (Inr (h, b), st2) \<Rightarrow>
                     (Inr (h, b), if use_cache then st2\<lparr>rs_history_cache := dict_set (domain, t) h (rs_history_cache st2)\<rparr> else st2)))))"

section \<open>The checks of the interface\<close>

record BilateralBindingResult =
  bb_initial_operational_thumbprint :: pystr
  bb_initial_entity_thumbprint :: pystr
  bb_timestamp :: Events.pydatetime

fun introduces :: "pystr \<Rightarrow> LogEvent \<Rightarrow> bool res" where
  "introduces t ev =
     (case ev_body ev of
        IssuanceEvent d \<Rightarrow>
          (case is_operational_key d of None \<Rightarrow> Inr False | Some k \<Rightarrow> rbind (thumbprint k) (\<lambda>u. Inr (u = t)))
      | KeyRotationEvent d \<Rightarrow> Inr (kr_new_thumbprint d = t)
      | _ \<Rightarrow> Inr False)"

fun key_timestamp_in :: "pystr \<Rightarrow> LogEvent list \<Rightarrow> Events.pydatetime res" where
  "key_timestamp_in t [] = log_err ''key thumbprint not found in C2SP lifecycle history''"
| "key_timestamp_in t (ev # evs) =
     rbind (introduces t ev) (\<lambda>b. if b then Inr (ev_timestamp ev) else key_timestamp_in t evs)"

fun recorded_key :: "pystr \<Rightarrow> LogEvent list \<Rightarrow> bool res" where
  "recorded_key t [] = Inr False"
| "recorded_key t (ev # evs) = rbind (introduces t ev) (\<lambda>b. if b then Inr True else recorded_key t evs)"

definition current_snapshot :: "pystr \<Rightarrow> LogEvent list \<Rightarrow> DomainSnapshot res" where
  "current_snapshot domain events =
     rbind (latest_time events) (\<lambda>t. snapshot_at \<lparr>dl_domain = domain, dl_events = events\<rparr> t)"

definition active_snapshot :: "pystr \<Rightarrow> LogEvent list \<Rightarrow> DomainSnapshot res" where
  "active_snapshot domain events =
     rbind (current_snapshot domain events) (\<lambda>sn.
       if sn_historical_state sn \<noteq> ''ACTIVE'' then log_err ''complete lifecycle history is terminal'' else Inr sn)"

definition binding_of ::
  "pystr \<Rightarrow> pystr \<Rightarrow> pystr \<Rightarrow> JWK \<Rightarrow> LogEvent list \<Rightarrow> BilateralBindingResult res" where
  "binding_of domain gi initial_entity_thumbprint operational_key events =
     (case first_issuance events of
        None \<Rightarrow> log_err ''ISSUANCE not found''
      | Some (ev, d) \<Rightarrow>
          (case (is_entity_key d, is_operational_key d) of
             (Some ek, Some ok) \<Rightarrow>
               if ev_domain ev \<noteq> domain \<or> is_governance_id d \<noteq> gi
               then log_err ''ISSUANCE does not match current domain and governance ID''
               else
                 rbind (thumbprint ek) (\<lambda>te.
                   if te \<noteq> initial_entity_thumbprint then log_err ''ISSUANCE entity key does not match current ek key''
                   else
                     rbind (thumbprint operational_key) (\<lambda>current.
                     rbind (recorded_key current events) (\<lambda>recorded.
                       if \<not> recorded then log_err ''current operational key is not recorded in lifecycle history''
                       else
                         rbind (thumbprint ok) (\<lambda>initial.
                           Inr \<lparr>bb_initial_operational_thumbprint = initial,
                                bb_initial_entity_thumbprint = initial_entity_thumbprint,
                                bb_timestamp = ev_timestamp ev\<rparr>))))
           | _ \<Rightarrow> log_err ''ISSUANCE is missing c2sp-tlog key metadata''))"

definition bilateral_binding ::
  "DnsIdTxtRecord \<Rightarrow> JWK \<Rightarrow> JWK \<Rightarrow> pystr \<Rightarrow> VerifiedHistory \<Rightarrow> reader_state \<Rightarrow> BilateralBindingResult res \<times> reader_state" where
  "bilateral_binding rec entity_key operational_key domain verified st =
     (case rbind (thumbprint entity_key) (\<lambda>t. rbind (active_snapshot domain (vh_events verified)) (\<lambda>_. Inr t)) of
        Inl e \<Rightarrow> (Inl e, st)
      | Inr t \<Rightarrow> (binding_of domain (tr_gi rec) t operational_key (vh_events verified), st\<lparr>rs_trusted_entity_key := Some entity_key\<rparr>))"

definition verify_bilateral_binding ::
  "platform \<Rightarrow> (bytes \<Rightarrow> bytes \<Rightarrow> bytes \<Rightarrow> bool) \<Rightarrow> reader \<Rightarrow> (clock_read \<Rightarrow> rat) \<Rightarrow> answers \<Rightarrow>
   DnsIdTxtRecord \<Rightarrow> JWK \<Rightarrow> JWK \<Rightarrow> reader_state \<Rightarrow> BilateralBindingResult res \<times> reader_state" where
  "verify_bilateral_binding pf ed_verify rd now ans rec entity_key operational_key st =
     verification_boundary
       (let domain = tr_identity_fqdn rec in
        if domain = [] then (log_err ''cannot infer domain for bilateral binding'', st)
        else
          (case load_complete_history pf ed_verify rd now ans domain (Some entity_key) False None None st of
             (Inl e, st1) \<Rightarrow> (Inl e, st1)
           | (Inr (verified, _), st1) \<Rightarrow> bilateral_binding rec entity_key operational_key domain verified st1))"

definition operational_continuity :: "pystr \<Rightarrow> pystr \<Rightarrow> pystr \<Rightarrow> LogEvent list \<Rightarrow> unit res" where
  "operational_continuity domain initial_thumb current events =
     rbind (case first_issuance events of
              Some (_, d) \<Rightarrow>
                (case is_operational_key d of Some k \<Rightarrow> rbind (thumbprint k) (\<lambda>t. Inr (t = initial_thumb)) | None \<Rightarrow> Inr False)
            | None \<Rightarrow> Inr False) (\<lambda>same.
       if \<not> same then log_err ''initial operational key mismatch''
       else
         rbind (active_snapshot domain events) (\<lambda>sn.
           if sn_active_key_thumbprint sn \<noteq> current then log_err ''current operational key mismatch'' else Inr ()))"

text \<open>The methods that load the history and then look at it.\<close>

definition with_history ::
  "platform \<Rightarrow> (bytes \<Rightarrow> bytes \<Rightarrow> bytes \<Rightarrow> bool) \<Rightarrow> reader \<Rightarrow> (clock_read \<Rightarrow> rat) \<Rightarrow> answers \<Rightarrow>
   pystr \<Rightarrow> bool \<Rightarrow> (VerifiedHistory \<Rightarrow> 'a res) \<Rightarrow> reader_state \<Rightarrow> 'a res \<times> reader_state" where
  "with_history pf ed_verify rd now ans domain require_fresh f st =
     verification_boundary
       (case load_complete_history pf ed_verify rd now ans domain None require_fresh None None st of
          (Inl e, st1) \<Rightarrow> (Inl e, st1)
        | (Inr (verified, _), st1) \<Rightarrow> (f verified, st1))"

definition verify_operational_continuity ::
  "platform \<Rightarrow> (bytes \<Rightarrow> bytes \<Rightarrow> bytes \<Rightarrow> bool) \<Rightarrow> reader \<Rightarrow> (clock_read \<Rightarrow> rat) \<Rightarrow> answers \<Rightarrow>
   pystr \<Rightarrow> pystr \<Rightarrow> pystr \<Rightarrow> reader_state \<Rightarrow> unit res \<times> reader_state" where
  "verify_operational_continuity pf ed_verify rd now ans domain initial_thumb current =
     with_history pf ed_verify rd now ans domain False (\<lambda>h. operational_continuity domain initial_thumb current (vh_events h))"

definition key_timestamp ::
  "platform \<Rightarrow> (bytes \<Rightarrow> bytes \<Rightarrow> bytes \<Rightarrow> bool) \<Rightarrow> reader \<Rightarrow> (clock_read \<Rightarrow> rat) \<Rightarrow> answers \<Rightarrow>
   pystr \<Rightarrow> pystr \<Rightarrow> reader_state \<Rightarrow> Events.pydatetime res \<times> reader_state" where
  "key_timestamp pf ed_verify rd now ans domain t =
     with_history pf ed_verify rd now ans domain False (\<lambda>h. key_timestamp_in t (vh_events h))"

definition rebuild_history ::
  "platform \<Rightarrow> (bytes \<Rightarrow> bytes \<Rightarrow> bytes \<Rightarrow> bool) \<Rightarrow> reader \<Rightarrow> (clock_read \<Rightarrow> rat) \<Rightarrow> answers \<Rightarrow>
   pystr \<Rightarrow> reader_state \<Rightarrow> LogEvent list res \<times> reader_state" where
  "rebuild_history pf ed_verify rd now ans domain =
     with_history pf ed_verify rd now ans domain False (\<lambda>h. Inr (vh_events h))"

record LoggedStateEvidence =
  le_log_reference :: pystr
  le_logged_state :: string
  le_history_start :: pystr
  le_history_end :: pystr
  le_complete_through :: completeness
  le_completeness_mode :: pystr
  le_checkpoint :: checkpoint_evidence
  le_freshness_time :: int

definition non_revocation ::
  "reader \<Rightarrow> rat \<Rightarrow> pystr \<Rightarrow> Events.pydatetime \<Rightarrow> VerifiedHistory \<Rightarrow> LoggedStateEvidence res" where
  "non_revocation rd now_ms domain moment verified =
     rbind (assert_fresh rd now_ms (vh_checkpoint_witness_time verified)) (\<lambda>_.
     rbind (snapshot_at \<lparr>dl_domain = domain, dl_events = vh_events verified\<rparr> moment) (\<lambda>sn.
       if sn_historical_state sn = ''REVOKED'' \<or> sn_historical_state sn = ''RETIRED''
       then log_err ''domain was revoked or retired''
       else if length (vh_event_refs verified) \<noteq> length (vh_events verified)
       then log_err ''C2SP verified history is missing event references''
       else
         Inr \<lparr>le_log_reference = lr_lr (rd_parsed rd), le_logged_state = sn_historical_state sn,
              le_history_start = hd (vh_event_refs verified),
              le_history_end = vh_event_refs verified ! (length (sn_events sn) - 1),
              le_complete_through = vh_complete_through verified, le_completeness_mode = vh_completeness_mode verified,
              le_checkpoint = vh_checkpoint verified, le_freshness_time = vh_checkpoint_witness_time verified\<rparr>))"

definition verify_non_revocation ::
  "platform \<Rightarrow> (bytes \<Rightarrow> bytes \<Rightarrow> bytes \<Rightarrow> bool) \<Rightarrow> reader \<Rightarrow> (clock_read \<Rightarrow> rat) \<Rightarrow> answers \<Rightarrow>
   pystr \<Rightarrow> Events.pydatetime \<Rightarrow> reader_state \<Rightarrow> LoggedStateEvidence res \<times> reader_state" where
  "verify_non_revocation pf ed_verify rd now ans domain moment =
     with_history pf ed_verify rd now ans domain True (non_revocation rd (now AtFresh) domain moment)"


section \<open>Histories through a cutoff\<close>

record VerifiedCutoffHistory =
  vc_events :: "LogEvent list"
  vc_event_refs :: "pystr list"
  vc_response_bytes :: int

definition cutoff_context ::
  "(pystr \<Rightarrow> pystr) \<Rightarrow> (pystr \<Rightarrow> bool) \<Rightarrow> reader \<Rightarrow> pystr \<Rightarrow> int \<Rightarrow> int \<Rightarrow> int \<Rightarrow> pystr set \<Rightarrow> (int \<times> MigrationContext) res" where
  "cutoff_context lower netloc_ok rd final_entry_ref max_depth max_events max_response_bytes seen =
     rbind (parse_c2sp_tlog_lr lower netloc_ok final_entry_ref) (\<lambda>cutoff.
       (case lr_entry_index cutoff of
          None \<Rightarrow> invalid_migration ''MIGRATION prev_ref must exactly identify an entry in prev_lr''
        | Some n \<Rightarrow>
            if lr_lr cutoff \<noteq> lr_lr (rd_parsed rd) \<or> final_entry_ref \<noteq> event_ref (lr_lr (rd_parsed rd)) n
            then invalid_migration ''MIGRATION prev_ref must exactly identify an entry in prev_lr''
            else
              rbind (migration_limits max_depth max_events max_response_bytes) (\<lambda>limits.
              rbind (activate (new_budget limits (seen \<union> {lr_lr (rd_parsed rd)}))) (\<lambda>b.
                Inr (n, \<lparr>mc_budget = b, mc_depth = 0\<rparr>)))))"

definition cutoff_result :: "VerifiedHistory \<Rightarrow> pystr \<Rightarrow> MigrationBudget \<Rightarrow> VerifiedCutoffHistory res" where
  "cutoff_result history final_entry_ref budget =
     (if vh_event_refs history = [] \<or> last (vh_event_refs history) \<noteq> final_entry_ref
      then invalid_migration ''MIGRATION prior history does not end at the signed cutoff''
      else Inr \<lparr>vc_events = vh_events history, vc_event_refs = vh_event_refs history,
                vc_response_bytes = mb_response_bytes budget\<rparr>)"

definition rebuild_history_through ::
  "(pystr \<Rightarrow> pystr) \<Rightarrow> (pystr \<Rightarrow> bool) \<Rightarrow> platform \<Rightarrow> (bytes \<Rightarrow> bytes \<Rightarrow> bytes \<Rightarrow> bool) \<Rightarrow> reader \<Rightarrow> (clock_read \<Rightarrow> rat) \<Rightarrow>
   answers \<Rightarrow> pystr \<Rightarrow> pystr \<Rightarrow> JWK \<Rightarrow> int \<Rightarrow> int \<Rightarrow> int \<Rightarrow> pystr set \<Rightarrow> reader_state \<Rightarrow>
   VerifiedCutoffHistory res \<times> reader_state" where
  "rebuild_history_through lower netloc_ok pf ed_verify rd now ans domain final_entry_ref entity_key
     max_depth max_events max_response_bytes seen st =
     verification_boundary
       (case cutoff_context lower netloc_ok rd final_entry_ref max_depth max_events max_response_bytes seen of
          Inl e \<Rightarrow> (Inl e, st)
        | Inr (n, context) \<Rightarrow>
            (case load_complete_history pf ed_verify rd now ans domain (Some entity_key) False (Some n) (Some context) st of
               (Inl e, st1) \<Rightarrow> (Inl e, st1)
             | (Inr (h, b), st1) \<Rightarrow> (cutoff_result h final_entry_ref b, st1)))"

section \<open>Predecessor logs\<close>

text \<open>The reader of the previous log, as the factory returns it: one of this class, or any other.\<close>

datatype prior =
    C2spPrior reader
  | OtherPrior "pystr \<Rightarrow> pystr \<Rightarrow> JWK \<Rightarrow> int \<Rightarrow> int \<Rightarrow> int \<Rightarrow> pystr set \<Rightarrow> VerifiedCutoffHistory res"

text \<open>The checks of \<^verbatim>\<open>_prior_reader\<close> before the factory is asked for the reader of the previous log.\<close>

definition prior_reader ::
  "reader \<Rightarrow> (pystr \<Rightarrow> prior) option \<Rightarrow> MigrationData \<Rightarrow> MigrationContext \<Rightarrow> (prior \<times> MigrationContext) res" where
  "prior_reader rd factory d context =
     rbind (activate (mc_budget context)) (\<lambda>b.
       if mg_new_log d \<noteq> lr_lr (rd_parsed rd)
       then invalid_migration ''MIGRATION new_lr does not match the current C2SP stream''
       else
         (case rbind (parse_ledger_ref (mg_previous_log d)) (\<lambda>p.
               rbind (parse_ledger_ref (mg_final_entry_ref d)) (\<lambda>c. Inr (fst p, fst c))) of
            Inl _ \<Rightarrow> invalid_migration ''MIGRATION previous-log reference is invalid''
          | Inr (previous_method, cutoff_method) \<Rightarrow>
              if previous_method \<noteq> cutoff_method
              then invalid_migration ''MIGRATION prev_ref must identify an entry in prev_lr''
              else if mc_depth context \<ge> ml_max_depth (mb_limits b)
              then invalid_migration ''MIGRATION recursion exceeds configured depth maximum''
              else if mg_previous_log d \<in> mb_seen b
              then invalid_migration ''MIGRATION cycle''
              else
                (case factory of
                   None \<Rightarrow> invalid_migration ''MIGRATION requires a registered previous-log reader''
                 | Some f \<Rightarrow>
                     Inr (f (mg_previous_log d),
                          context\<lparr>mc_budget := b\<lparr>mb_seen := insert (mg_previous_log d) (mb_seen b)\<rparr>\<rparr>))))"

definition prior_cutoff ::
  "(pystr \<Rightarrow> pystr) \<Rightarrow> (pystr \<Rightarrow> bool) \<Rightarrow> MigrationData \<Rightarrow> reader \<Rightarrow> int res" where
  "prior_cutoff lower netloc_ok d prior =
     (case rbind (parse_c2sp_tlog_lr lower netloc_ok (mg_previous_log d)) (\<lambda>previous.
           rbind (parse_c2sp_tlog_lr lower netloc_ok (mg_final_entry_ref d)) (\<lambda>cutoff. Inr (previous, cutoff))) of
        Inl e \<Rightarrow> if is_C2spTlogError e then invalid_migration ''MIGRATION previous-log reference is invalid'' else Inl e
      | Inr (previous, cutoff) \<Rightarrow>
          (case (lr_entry_index previous, lr_entry_index cutoff) of
             (None, Some n) \<Rightarrow>
               if mg_previous_log d \<noteq> lr_lr previous \<or> lr_lr cutoff \<noteq> lr_lr previous
                  \<or> mg_final_entry_ref d \<noteq> event_ref (lr_lr previous) n \<or> lr_lr (rd_parsed prior) \<noteq> lr_lr previous
               then invalid_migration ''MIGRATION prev_ref must exactly identify an entry in prev_lr''
               else Inr n
           | _ \<Rightarrow> invalid_migration ''MIGRATION prev_ref must exactly identify an entry in prev_lr''))"

definition MAX_TIME :: Events.pydatetime where
  "MAX_TIME = \<lparr>dt_aware = True, dt_us = 253402300799999999\<rparr>"

definition prior_result ::
  "pystr \<Rightarrow> JWK \<Rightarrow> LogEvent list \<Rightarrow> pystr list \<Rightarrow> MigrationVerificationResult res" where
  "prior_result domain trusted events refs =
     rbind (snapshot_at \<lparr>dl_domain = domain, dl_events = events\<rparr> MAX_TIME) (\<lambda>sn.
       (case (sn_active_key sn, first_issuance events) of
          (Some active_key, Some (_, d)) \<Rightarrow>
            (case is_entity_key d of
               Some entity_key \<Rightarrow>
                 if sn_historical_state sn \<noteq> ''ACTIVE'' \<or> is_governance_id d \<noteq> sn_governance_id sn
                 then invalid_migration ''MIGRATION previous history must preserve an ACTIVE identity''
                 else
                   rbind (thumbprint entity_key) (\<lambda>a. rbind (thumbprint trusted) (\<lambda>b.
                     if a \<noteq> b then invalid_migration ''MIGRATION entity-key continuity mismatch''
                     else Inr \<lparr>mr_entity_key = entity_key, mr_operational_key = active_key,
                               mr_prior_events = events, mr_prior_event_refs = refs\<rparr>))
             | None \<Rightarrow> invalid_migration ''MIGRATION previous history must preserve an ACTIVE identity'')
        | _ \<Rightarrow> invalid_migration ''MIGRATION previous history must preserve an ACTIVE identity''))"

text \<open>The loop over the migrations of a predecessor history: \<open>current\<close> is the log the last one moved to.\<close>

fun handoffs :: "MigrationData list \<Rightarrow> pystr set \<Rightarrow> pystr option \<Rightarrow> (pystr set \<times> pystr option) res" where
  "handoffs [] seen current = Inr (seen, current)"
| "handoffs (d # ds) seen current =
     (case current of
        None \<Rightarrow>
          if mg_previous_log d \<in> seen then invalid_migration ''MIGRATION cycle''
          else
            (let seen = insert (mg_previous_log d) seen in
             if mg_new_log d \<in> seen then invalid_migration ''MIGRATION cycle''
             else handoffs ds (insert (mg_new_log d) seen) (Some (mg_new_log d)))
      | Some l \<Rightarrow>
          if mg_previous_log d \<noteq> l then invalid_migration ''MIGRATION previous history is not a continuous log handoff''
          else if mg_new_log d \<in> seen then invalid_migration ''MIGRATION cycle''
          else handoffs ds (insert (mg_new_log d) seen) (Some (mg_new_log d)))"

definition migrations_of :: "LogEvent list \<Rightarrow> MigrationData list" where
  "migrations_of events = List.map_filter (\<lambda>e. case ev_body e of MigrationEvent d \<Rightarrow> Some d | _ \<Rightarrow> None) events"

definition validate_predecessor_history ::
  "MigrationData \<Rightarrow> VerifiedCutoffHistory \<Rightarrow> MigrationContext \<Rightarrow> int \<Rightarrow> int \<Rightarrow> MigrationContext res" where
  "validate_predecessor_history d history context max_events max_response_bytes =
     (if vc_events history = [] \<or> int (length (vc_events history)) > max_events
         \<or> length (vc_event_refs history) \<noteq> length (vc_events history) \<or> [] \<in> set (vc_event_refs history)
         \<or> last (vc_event_refs history) \<noteq> mg_final_entry_ref d
         \<or> vc_response_bytes history < 0 \<or> vc_response_bytes history > max_response_bytes
      then invalid_migration ''MIGRATION previous reader did not preserve the exact cutoff or bounds''
      else
        (let migrations = migrations_of (vc_events history); b = mc_budget context in
         if mc_depth context + 1 + int (length migrations) > ml_max_depth (mb_limits b)
         then invalid_migration ''MIGRATION recursion exceeds configured depth maximum''
         else
           rbind (handoffs migrations (mb_seen b - {mg_previous_log d}) None) (\<lambda>(seen, current).
             if (case current of None \<Rightarrow> False | Some l \<Rightarrow> l \<noteq> mg_previous_log d)
             then invalid_migration ''MIGRATION previous history does not end in prev_lr''
             else Inr (context\<lparr>mc_budget := b\<lparr>mb_seen := mb_seen b \<union> seen\<rparr>\<rparr>))))"

definition external_prior ::
  "MigrationData \<Rightarrow> VerifiedCutoffHistory \<Rightarrow> MigrationContext \<Rightarrow> int \<Rightarrow> int \<Rightarrow> (VerifiedHistory \<times> MigrationBudget) res" where
  "external_prior d history context remaining_events remaining_bytes =
     rbind (validate_predecessor_history d history context remaining_events remaining_bytes) (\<lambda>context'.
     rbind (add_response (vc_response_bytes history) (mc_budget context')) (\<lambda>b.
     rbind (add_events (int (length (vc_events history))) b) (\<lambda>b'.
       Inr (\<lparr>vh_events = vc_events history, vh_checkpoint_witness_time = dt_us ZERO_TIME,
             vh_complete_through = ThroughRef (mg_final_entry_ref d), vh_completeness_mode = str ''verified-cutoff'',
             vh_checkpoint = NoCheckpoint, vh_evidence_expires_at = None, vh_current_stream_events = [],
             vh_event_refs = vc_event_refs history\<rparr>, b'))))"

text \<open>
  \<^verbatim>\<open>_verify_prior_history\<close>. \<open>st\<close> and \<open>ans\<close> belong to the reader of the previous log and its own callback.
\<close>

definition verify_prior_history ::
  "(pystr \<Rightarrow> pystr) \<Rightarrow> (pystr \<Rightarrow> bool) \<Rightarrow> platform \<Rightarrow> (bytes \<Rightarrow> bytes \<Rightarrow> bytes \<Rightarrow> bool) \<Rightarrow> reader \<Rightarrow> (pystr \<Rightarrow> prior) option \<Rightarrow>
   (clock_read \<Rightarrow> rat) \<Rightarrow> answers \<Rightarrow> MigrationData \<Rightarrow> pystr \<Rightarrow> JWK \<Rightarrow> MigrationContext \<Rightarrow> reader_state \<Rightarrow>
   (MigrationVerificationResult \<times> MigrationBudget) res \<times> reader_state" where
  "verify_prior_history lower netloc_ok pf ed_verify rd factory now ans d domain trusted context st =
     (case prior_reader rd factory d context of
        Inl e \<Rightarrow> (Inl e, st)
      | Inr (C2spPrior prior, context') \<Rightarrow>
          (case prior_cutoff lower netloc_ok d prior of
             Inl e \<Rightarrow> (Inl e, st)
           | Inr n \<Rightarrow>
               (case load_complete_history pf ed_verify prior now ans domain (Some trusted) False (Some n)
                       (Some (context'\<lparr>mc_depth := mc_depth context' + 1\<rparr>)) st of
                  (Inl e, st1) \<Rightarrow> (Inl e, st1)
                | (Inr (h, b), st1) \<Rightarrow>
                    (rbind (prior_result domain trusted (vh_events h) (vh_event_refs h)) (\<lambda>r. Inr (r, b)), st1)))
      | Inr (OtherPrior rebuild, context') \<Rightarrow>
          (let b = mc_budget context'; limits = mb_limits b;
               remaining_events = ml_max_history_events limits - mb_history_events b;
               remaining_bytes = ml_max_response_bytes limits - mb_response_bytes b in
           (rbind (rebuild domain (mg_final_entry_ref d) trusted (ml_max_depth limits - mc_depth context')
                     remaining_events remaining_bytes (mb_seen b)) (\<lambda>history.
            rbind (external_prior d history context' remaining_events remaining_bytes) (\<lambda>(h, b').
            rbind (prior_result domain trusted (vh_events h) (vh_event_refs h)) (\<lambda>r. Inr (r, b')))), st)))"

section \<open>What a load establishes\<close>

text \<open>The entries of a complete scan are those the checkpoint commits to.\<close>

lemma scan_entries_committed:
  assumes "verified_complete_scan_entries evidence = Inr entries"
  shows "se_complete evidence" "entries = sort_key ie_index (se_entries evidence)"
    "map ie_index entries = map int [0..<length entries]"
    "int (length entries) = ck_tree_size (se_checkpoint evidence)"
    "ck_root_hash (se_checkpoint evidence) = mth (map ie_data entries)"
proof -
  show c: "se_complete evidence" "entries = sort_key ie_index (se_entries evidence)"
    using assms by (auto simp: verified_complete_scan_entries_def evidence_err_def rbind_Inr_iff Let_def split: if_splits)
  from assms have n: "int (length entries) = ck_tree_size (se_checkpoint evidence)"
    and p: "verify_checkpoint_prefix entries (ck_tree_size (se_checkpoint evidence)) (ck_root_hash (se_checkpoint evidence)) = Inr ()"
    by (auto simp: verified_complete_scan_entries_def evidence_err_def rbind_Inr_iff Let_def split: if_splits)
  have "take (nat (ck_tree_size (se_checkpoint evidence))) entries = entries" using n by simp
  with p have i: "\<forall>i < length entries. ie_index (entries ! i) = int i"
    and "merkle_root_from_entries (map ie_data entries) = ck_root_hash (se_checkpoint evidence)"
    by (auto simp: verify_checkpoint_prefix_def evidence_err_def Let_def split: if_splits)
  then show "ck_root_hash (se_checkpoint evidence) = mth (map ie_data entries)" by (simp add: merkle_root_eq_mth)
  show "map ie_index entries = map int [0..<length entries]" using i by (intro nth_equalityI) auto
  show "int (length entries) = ck_tree_size (se_checkpoint evidence)" by (rule n)
qed

lemma prepared_scan:
  assumes "prepare_scan ed_verify rd now_ms evidence budget = Inr (t, budget')"
  obtains res where
    "enforce_checkpoint_policy ed_verify (se_checkpoint evidence) (lr_origin (rd_parsed rd)) (ro_policy (rd_options rd))
       (lr_scope (rd_parsed rd)) now_ms (ro_max_clock_skew_ms (rd_options rd)) = Inr res"
    "pr_checkpoint_witness_time res = Some t" "is_ok (verified_complete_scan_entries evidence)"
    "\<forall>n. ro_max_tree_size (rd_options rd) = Some n \<longrightarrow> ck_tree_size (se_checkpoint evidence) \<le> n"
    "add_response (stream_evidence_bytes evidence) budget = Inr budget'"
  using assms
  by (auto simp: prepare_scan_def authenticate_checkpoint_def log_err_def rbind_Inr_iff is_ok_iff
      split: if_splits option.splits sum.splits)

lemma stitched_history:
  assumes "stitch_migration_history results domain events = Inr hist"
  shows "hist = events \<or> (\<exists>r. is_migration (ev_body (hd events)) \<and> results (hd events) = Some r \<and> hist = mr_prior_events r @ events)"
  using assms
  by (auto simp: stitch_migration_history_def log_err_def rbind_Inr_iff split: if_splits option.splits)


text \<open>
  A history \<open>h\<close> of a domain is justified for an entity key thumbprint \<open>t\<close>: some complete evidence with a
  checkpoint that the local policy accepts, whose root commits to its entries in index order, has a
  lifecycle for the domain under the trusted key made of those entries; the events are those of the
  lifecycle, behind the history of the previous log if the stream starts with a MIGRATION, and every
  event has its reference.
\<close>

definition justified ::
  "platform \<Rightarrow> (bytes \<Rightarrow> bytes \<Rightarrow> bytes \<Rightarrow> bool) \<Rightarrow> reader \<Rightarrow> pystr \<Rightarrow> pystr \<Rightarrow> VerifiedHistory \<Rightarrow> bool" where
  "justified pf ed_verify rd domain t h \<longleftrightarrow>
     (\<exists>trusted (evidence :: StreamEvidence) (entries :: IndexedEntry list) now_ms res vm opts ek ok s.
        thumbprint trusted = Inr t
        \<and> enforce_checkpoint_policy ed_verify (se_checkpoint evidence) (lr_origin (rd_parsed rd)) (ro_policy (rd_options rd))
            (lr_scope (rd_parsed rd)) now_ms (ro_max_clock_skew_ms (rd_options rd)) = Inr res
        \<and> pr_checkpoint_witness_time res = Some (vh_checkpoint_witness_time h)
        \<and> se_complete evidence \<and> entries = sort_key ie_index (se_entries evidence)
        \<and> map ie_index entries = map int [0..<length entries]
        \<and> vh_complete_through h = ThroughSize (int (length entries))
        \<and> int (length entries) = ck_tree_size (se_checkpoint evidence)
        \<and> ck_root_hash (se_checkpoint evidence) = mth (map ie_data entries)
        \<and> scan_options rd trusted (vh_checkpoint_witness_time h) vm None = Inr opts
        \<and> lifecycle pf opts (vh_current_stream_events h) ek ok s
        \<and> (\<forall>v \<in> set (vh_current_stream_events h). \<exists>e \<in> set entries. from_entry pf domain opts e v)
        \<and> (vh_events h = map vl_event (vh_current_stream_events h)
           \<or> (\<exists>r. is_migration (ev_body (vl_event (hd (vh_current_stream_events h))))
                \<and> vm (vl_event (hd (vh_current_stream_events h))) = Inr r
                \<and> vh_events h = mr_prior_events r @ map vl_event (vh_current_stream_events h)))
        \<and> length (vh_event_refs h) = length (vh_events h) \<and> vh_evidence_expires_at h = None)"

lemma stitched_refs_length:
  assumes "stitched_event_refs results lr items = Inr refs"
    and "stitch_migration_history results domain (map vl_event items) = Inr hist"
  shows "length refs = length hist"
  using assms
  by (auto simp: stitched_event_refs_def stitch_migration_history_def log_err_def invalid_migration_def Let_def rbind_Inr_iff hd_map
      split: if_splits option.splits)

lemma scanned_history_justified:
  assumes prep: "prepare_scan ed_verify rd now_ms evidence budget = Inr (t, budget')"
    and scan: "scan_history pf rd evidence domain trusted ans budget' None t = Inr (h, b)"
    and thumb: "thumbprint trusted = Inr tp"
  shows "justified pf ed_verify rd domain tp h"
proof -
  obtain res where pol: "enforce_checkpoint_policy ed_verify (se_checkpoint evidence) (lr_origin (rd_parsed rd)) (ro_policy (rd_options rd))
       (lr_scope (rd_parsed rd)) now_ms (ro_max_clock_skew_ms (rd_options rd)) = Inr res"
    "pr_checkpoint_witness_time res = Some t" "is_ok (verified_complete_scan_entries evidence)"
    using prep by (rule prepared_scan)
  then obtain entries where en: "verified_complete_scan_entries evidence = Inr entries" by (auto simp: is_ok_iff)
  from scan obtain opts verified events refs where o: "scan_options rd trusted t (an_result ans) None = Inr opts"
    and v: "verify_stream_lifecycle pf (se_entries evidence) domain opts = Inr verified"
    and st: "stitch_migration_history (resolved (an_result ans)) domain (map vl_event verified) = Inr events"
    "stitched_event_refs (resolved (an_result ans)) (lr_lr (rd_parsed rd)) verified = Inr refs"
    and h: "vh_events h = events" "vh_event_refs h = refs" "vh_current_stream_events h = verified"
    "vh_checkpoint_witness_time h = t" "vh_complete_through h = ThroughSize (ck_tree_size (se_checkpoint evidence))"
    "vh_evidence_expires_at h = None"
    by (auto simp: scan_history_def rbind_Inr_iff Let_def)
  from o have "so_cutoff_index opts = None" by (auto simp: scan_options_def rbind_Inr_iff)
  with stream_lifecycle_selected [OF v] obtain ek ok s where L: "lifecycle pf opts verified ek ok s"
    "\<forall>v \<in> set verified. \<exists>e \<in> set (se_entries evidence). from_entry pf domain opts e v" by auto
  from stitched_history [OF st(1)] have "events = map vl_event verified
      \<or> (\<exists>r. is_migration (ev_body (vl_event (hd verified))) \<and> an_result ans (vl_event (hd verified)) = Inr r
           \<and> events = mr_prior_events r @ map vl_event verified)"
    using lifecycle_nonempty [OF L(1)] by (auto simp: hd_map resolved_def split: sum.splits)
  moreover note en' = scan_entries_committed [OF en]
  ultimately show ?thesis
    unfolding justified_def h
    using thumb pol(1,2) o L stitched_refs_length [OF st(2,1)] en'
    by (intro exI [of _ trusted] exI [of _ evidence] exI [of _ entries] exI [of _ now_ms] exI [of _ res]
        exI [of _ "an_result ans"] exI [of _ opts] exI [of _ ek] exI [of _ ok] exI [of _ s]) auto
qed


definition histories_justified ::
  "platform \<Rightarrow> (bytes \<Rightarrow> bytes \<Rightarrow> bytes \<Rightarrow> bool) \<Rightarrow> reader \<Rightarrow> reader_state \<Rightarrow> bool" where
  "histories_justified pf ed_verify rd st \<longleftrightarrow>
     (\<forall>domain t h. map_of (rs_history_cache st) (domain, t) = Some h \<longrightarrow> justified pf ed_verify rd domain t h)"

lemma load_scan_justified:
  assumes "load_scan pf ed_verify rd now ans domain trusted None budget st = (Inr (h, b), st')" "thumbprint trusted = Inr t"
  shows "justified pf ed_verify rd domain t h"
  using assms
  by (auto simp: load_scan_def rbind_Inr_iff split: sum.splits prod.splits intro: scanned_history_justified)

lemma load_scan_cache:
  "load_scan pf ed_verify rd now ans domain trusted cutoff budget st = (r, st') \<Longrightarrow>
   rs_history_cache st' = rs_history_cache st \<and> rs_trusted_entity_key st' = rs_trusted_entity_key st"
  by (auto simp: load_scan_def split: sum.splits prod.splits)

lemma cached_history_state:
  assumes "cached_history rd now key require_fresh st = (c, st')"
  shows "rs_trusted_entity_key st' = rs_trusted_entity_key st"
    "c = Some h \<Longrightarrow> map_of (rs_history_cache st) key = Some h \<and> st' = st
       \<and> (require_fresh \<longrightarrow> \<not> checkpoint_is_stale rd (now AtStale) (vh_checkpoint_witness_time h))"
    "histories_justified pf ed_verify rd st \<Longrightarrow> histories_justified pf ed_verify rd st'"
  using assms by (auto simp: cached_history_def histories_justified_def split: option.splits if_splits)

text \<open>
  Loading keeps every cached history justified, and the history it returns is justified for the key it
  was loaded with; a history that was just stored is the one found under its key.
\<close>

lemma load_history_step:
  assumes inv: "histories_justified pf ed_verify rd st" and k: "trusted_key rd entity_key st = Inr trusted" "thumbprint trusted = Inr t"
    and load: "load_complete_history pf ed_verify rd now ans domain entity_key require_fresh None None st = (r, st')"
  shows "histories_justified pf ed_verify rd st'" "rs_trusted_entity_key st' = rs_trusted_entity_key st"
    "r = Inr (h, b) \<Longrightarrow> justified pf ed_verify rd domain t h \<and> map_of (rs_history_cache st') (domain, t) = Some h"
proof -
  define budget where "budget = new_budget (ro_migration_limits (rd_options rd)) {lr_lr (rd_parsed rd)}"
  obtain c st1 where c: "cached_history rd now (domain, t) require_fresh st = (c, st1)" by fastforce
  note ch = cached_history_state [OF c]
  have load': "(case c of Some h \<Rightarrow> (Inr (h, budget), st1)
      | None \<Rightarrow>
          (case load_scan pf ed_verify rd now ans domain trusted None budget st1 of
             (Inl e, st2) \<Rightarrow> (Inl e, st2)
           | (Inr (h, b), st2) \<Rightarrow> (Inr (h, b), st2\<lparr>rs_history_cache := dict_set (domain, t) h (rs_history_cache st2)\<rparr>))) = (r, st')"
    using load k c
    by (simp add: load_complete_history_def budget_def Let_def cong: option.case_cong sum.case_cong prod.case_cong)
  have "histories_justified pf ed_verify rd st' \<and> rs_trusted_entity_key st' = rs_trusted_entity_key st
      \<and> (r = Inr (h, b) \<longrightarrow> justified pf ed_verify rd domain t h \<and> map_of (rs_history_cache st') (domain, t) = Some h)"
  proof (cases c)
    case (Some h')
    with load' ch(2) [OF Some] inv show ?thesis by (auto simp: histories_justified_def)
  next
    case None
    obtain x st2 where l: "load_scan pf ed_verify rd now ans domain trusted None budget st1 = (x, st2)" by fastforce
    note k2 = load_scan_cache [OF l] and i1 = ch(3) [OF inv] and k1 = ch(1)
    show ?thesis
    proof (cases x)
      case (Inl e)
      with load' None l k2 k1 i1 show ?thesis by (auto simp: histories_justified_def)
    next
      case (Inr y)
      obtain h' b' where y: "y = (h', b')" by fastforce
      from load_scan_justified [OF l [unfolded Inr y] k(2)] have "justified pf ed_verify rd domain t h'" .
      with load' None l Inr y k2 k1 i1 show ?thesis by (auto simp: histories_justified_def split: if_splits)
    qed
  qed
  then show "histories_justified pf ed_verify rd st'" "rs_trusted_entity_key st' = rs_trusted_entity_key st"
    "r = Inr (h, b) \<Longrightarrow> justified pf ed_verify rd domain t h \<and> map_of (rs_history_cache st') (domain, t) = Some h" by auto
qed

lemma load_history_key:
  assumes "load_complete_history pf ed_verify rd now ans domain entity_key require_fresh None None st = (Inr x, st')"
  obtains trusted t where "trusted_key rd entity_key st = Inr trusted" "thumbprint trusted = Inr t"
  using assms by (auto simp: load_complete_history_def rbind_Inr_iff rbind_Inl_iff split: sum.splits prod.splits)


section \<open>What the checks establish\<close>

lemma boundary_Inr: "verification_boundary m = (Inr x, s) \<longleftrightarrow> m = (Inr x, s)"
  by (auto simp: verification_boundary_def split: prod.splits sum.splits)








lemma with_history_Inr:
  assumes "with_history pf ed_verify rd now ans domain require_fresh f st = (Inr x, st')"
  obtains h b where
    "load_complete_history pf ed_verify rd now ans domain None require_fresh None None st = (Inr (h, b), st')" "f h = Inr x"
  using assms by (auto simp: with_history_def boundary_Inr split: prod.splits sum.splits)






section \<open>Sequences of calls\<close>

text \<open>What the calls on one reader do to its state, whatever they return.\<close>

inductive reader_call ::
  "platform \<Rightarrow> (bytes \<Rightarrow> bytes \<Rightarrow> bytes \<Rightarrow> bool) \<Rightarrow> reader \<Rightarrow> reader_state \<Rightarrow> reader_state \<Rightarrow> bool"
  for pf :: platform and ed_verify :: "bytes \<Rightarrow> bytes \<Rightarrow> bytes \<Rightarrow> bool" and rd :: reader
where
  binding: "verify_bilateral_binding pf ed_verify rd now ans rec entity_key operational_key st = (r, st') \<Longrightarrow>
    reader_call pf ed_verify rd st st'"
| continuity: "verify_operational_continuity pf ed_verify rd now ans domain first current st = (r1, st') \<Longrightarrow>
    reader_call pf ed_verify rd st st'"
| timestamp: "key_timestamp pf ed_verify rd now ans domain t st = (r2, st') \<Longrightarrow> reader_call pf ed_verify rd st st'"
| rebuild: "rebuild_history pf ed_verify rd now ans domain st = (r3, st') \<Longrightarrow> reader_call pf ed_verify rd st st'"
| revocation: "verify_non_revocation pf ed_verify rd now ans domain moment st = (r4, st') \<Longrightarrow> reader_call pf ed_verify rd st st'"
| through: "rebuild_history_through lower netloc_ok pf ed_verify rd now ans domain final_ref entity_key depth events bytes seen st = (r5, st') \<Longrightarrow>
    reader_call pf ed_verify rd st st'"

lemma load_keeps_justified:
  assumes "histories_justified pf ed_verify rd st"
    and "load_complete_history pf ed_verify rd now ans domain entity_key require_fresh None None st = (r, st')"
  shows "histories_justified pf ed_verify rd st'"
proof (cases "rbind (trusted_key rd entity_key st) (\<lambda>k. rbind (thumbprint k) (\<lambda>t. Inr (k, t)))")
  case (Inl e)
  with assms show ?thesis by (auto simp: load_complete_history_def)
next
  case (Inr kt)
  with assms load_history_step(1) show ?thesis by (auto simp: rbind_Inr_iff)
qed

lemma load_through_cutoff:
  "load_complete_history pf ed_verify rd now ans domain entity_key require_fresh (Some n) c st = (r, st') \<Longrightarrow>
   histories_justified pf ed_verify rd st \<Longrightarrow> histories_justified pf ed_verify rd st'"
  by (auto simp: load_complete_history_def Let_def histories_justified_def split: sum.splits prod.splits option.splits
      dest!: load_scan_cache)

lemma with_history_justified:
  "with_history pf ed_verify rd now ans domain require_fresh f st = (r, st') \<Longrightarrow>
   histories_justified pf ed_verify rd st \<Longrightarrow> histories_justified pf ed_verify rd st'"
  by (auto simp: with_history_def verification_boundary_def split: prod.splits sum.splits dest: load_keeps_justified)

lemma reader_call_justified:
  "reader_call pf ed_verify rd st st' \<Longrightarrow> histories_justified pf ed_verify rd st \<Longrightarrow> histories_justified pf ed_verify rd st'"
proof (induction rule: reader_call.induct)
  case (binding now ans rec entity_key operational_key st r st')
  then show ?case
    by (auto simp: verify_bilateral_binding_def verification_boundary_def Let_def bilateral_binding_def histories_justified_def
        split: prod.splits sum.splits if_splits dest!: load_keeps_justified [unfolded histories_justified_def, rotated])
next
  case (through lower netloc_ok now ans domain final_ref entity_key depth events bytes seen st r st')
  then show ?case
    by (auto simp: rebuild_history_through_def verification_boundary_def split: prod.splits sum.splits dest!: load_through_cutoff)
qed (auto simp: verify_operational_continuity_def key_timestamp_def rebuild_history_def verify_non_revocation_def
    intro: with_history_justified)


lemma reachable_justified:
  assumes "(reader_call pf ed_verify rd)\<^sup>*\<^sup>* st0 st" "rs_history_cache st0 = []"
  shows "histories_justified pf ed_verify rd st"
  using assms
proof (induction rule: rtranclp_induct)
  case base
  then show ?case by (simp add: histories_justified_def)
next
  case (step y z)
  then show ?case using reader_call_justified by blast
qed

lemma snapshot_prefix:
  assumes "snapshot_at history moment = Inr sn"
  shows "sn_historical_state sn \<in> {''ACTIVE'', ''REVOKED'', ''RETIRED''}" "length (sn_events sn) \<le> length (dl_events history)"
proof -
  from assms obtain st where loop: "snapshot_loop (dl_domain history) moment 0 (dl_events history) snapshot_init = Inr st"
    and ne: "ss_events_up_to st \<noteq> []" "ss_state st \<noteq> ''''" and sn: "sn_events sn = ss_events_up_to st"
    "sn_historical_state sn = ss_state st"
    by (auto simp: snapshot_at_def rbind_Inr_iff log_error_def split: if_splits)
  have "keys_bound snapshot_init" by (simp add: keys_bound_def snapshot_init_def)
  with loop have "keys_bound st" by (rule snapshot_loop_keys)
  then show "sn_historical_state sn \<in> {''ACTIVE'', ''REVOKED'', ''RETIRED''}" using ne sn by (auto simp: keys_bound_def)
  show "length (sn_events sn) \<le> length (dl_events history)"
    using snapshot_loop_prefix [OF loop] sn by (auto simp: snapshot_init_def)
qed

text \<open>
  C7: Every history a reader works with is justified. After any sequence of calls on a reader that started
  with an empty cache, whatever their results, a complete history that loading returns, from the cache
  or fetched, rests on a checkpoint that the local policy accepted, on all entries that this checkpoint
  commits to, and on a lifecycle of the domain under the trusted entity key made of those entries; every
  event has its log reference.
\<close>

theorem reader_histories_justified:
  assumes "(reader_call pf ed_verify rd)\<^sup>*\<^sup>* st0 st" "rs_history_cache st0 = []"
    and "load_complete_history pf ed_verify rd now ans domain entity_key require_fresh None None st = (Inr (h, b), st')"
  shows "\<exists>trusted t. trusted_key rd entity_key st = Inr trusted \<and> thumbprint trusted = Inr t
    \<and> justified pf ed_verify rd domain t h"
proof -
  obtain trusted t where k: "trusted_key rd entity_key st = Inr trusted" "thumbprint trusted = Inr t"
    using assms(3) by (rule load_history_key)
  with load_history_step(3) [OF reachable_justified [OF assms(1,2)] k assms(3) refl] show ?thesis by blast
qed


text \<open>
  C33: Non-revocation is a statement about a fresh, justified history. When \<^verbatim>\<open>verify_non_revocation\<close> returns,
  the reader has a configured freshness bound, the witness time of the checkpoint is within it at the last
  clock reading, the snapshot at the asked moment is ACTIVE, and the evidence names the log, the
  references of the first and of the last event considered, and the size up to which the log was read.
\<close>

theorem non_revocation_is_fresh:
  assumes "(reader_call pf ed_verify rd)\<^sup>*\<^sup>* st0 st" "rs_history_cache st0 = []"
    and "verify_non_revocation pf ed_verify rd now ans domain moment st = (Inr evidence, st')"
  shows "\<exists>trusted t h sn freshness. trusted_key rd None st = Inr trusted \<and> thumbprint trusted = Inr t
    \<and> justified pf ed_verify rd domain t h
    \<and> ro_checkpoint_freshness_ms (rd_options rd) = Some freshness
    \<and> now AtFresh - of_int (le_freshness_time evidence div 1000) \<le> of_int freshness
    \<and> le_freshness_time evidence = vh_checkpoint_witness_time h
    \<and> snapshot_at \<lparr>dl_domain = domain, dl_events = vh_events h\<rparr> moment = Inr sn
    \<and> sn_historical_state sn = ''ACTIVE'' \<and> le_logged_state evidence = ''ACTIVE''
    \<and> le_log_reference evidence = lr_lr (rd_parsed rd) \<and> le_complete_through evidence = vh_complete_through h
    \<and> le_history_end evidence = vh_event_refs h ! (length (sn_events sn) - 1) \<and> length (sn_events sn) \<le> length (vh_event_refs h)"
proof -
  obtain h b where load: "load_complete_history pf ed_verify rd now ans domain None True None None st = (Inr (h, b), st')"
    and n: "non_revocation rd (now AtFresh) domain moment h = Inr evidence"
    using assms(3) unfolding verify_non_revocation_def by (rule with_history_Inr)
  obtain trusted t where k: "trusted_key rd None st = Inr trusted" "thumbprint trusted = Inr t"
    using load by (rule load_history_key)
  have j: "justified pf ed_verify rd domain t h"
    using load_history_step(3) [OF reachable_justified [OF assms(1,2)] k load refl] by blast
  from n obtain sn where fresh: "assert_fresh rd (now AtFresh) (vh_checkpoint_witness_time h) = Inr ()"
    and sn: "snapshot_at \<lparr>dl_domain = domain, dl_events = vh_events h\<rparr> moment = Inr sn"
    "sn_historical_state sn \<noteq> ''REVOKED''" "sn_historical_state sn \<noteq> ''RETIRED''" "length (vh_event_refs h) = length (vh_events h)"
    and e: "le_freshness_time evidence = vh_checkpoint_witness_time h" "le_logged_state evidence = sn_historical_state sn"
    "le_log_reference evidence = lr_lr (rd_parsed rd)" "le_complete_through evidence = vh_complete_through h"
    "le_history_end evidence = vh_event_refs h ! (length (sn_events sn) - 1)"
    by (auto simp: non_revocation_def rbind_Inr_iff log_err_def split: if_splits)
  have "sn_historical_state sn = ''ACTIVE''" and "length (sn_events sn) \<le> length (vh_events h)"
    using snapshot_prefix [OF sn(1)] sn(2,3) by auto
  then show ?thesis
    using j k sn e fresh
    by (auto simp: assert_fresh_def checkpoint_is_stale_def log_err_def not_less split: if_splits option.splits
        intro!: exI [of _ h])
qed


section \<open>Bounds on the recursion through previous logs\<close>







text \<open>The logs that a list of migrations passes through, in order.\<close>

fun log_chain :: "MigrationData list \<Rightarrow> pystr list" where
  "log_chain [] = []"
| "log_chain (d # ds) = mg_previous_log d # map mg_new_log (d # ds)"

lemma handoffs_Some:
  "handoffs ds seen (Some l) = Inr (seen', cur) \<Longrightarrow>
   (\<forall>i < length ds. mg_previous_log (ds ! i) = (l # map mg_new_log ds) ! i)
   \<and> distinct (map mg_new_log ds) \<and> set (map mg_new_log ds) \<inter> seen = {} \<and> seen' = seen \<union> set (map mg_new_log ds)
   \<and> cur = Some (last (l # map mg_new_log ds))"
proof (induction ds arbitrary: seen l)
  case (Cons d ds)
  from Cons.prems have d: "mg_previous_log d = l" "mg_new_log d \<notin> seen"
    "handoffs ds (insert (mg_new_log d) seen) (Some (mg_new_log d)) = Inr (seen', cur)"
    by (auto simp: invalid_migration_def split: if_splits)
  from Cons.IH [OF d(3)] d(1,2) show ?case by (auto simp: nth_Cons split: nat.splits)
qed simp

lemma handoffs_None:
  assumes "handoffs ds seen None = Inr (seen', cur)"
  shows "(\<forall>i < length ds. mg_previous_log (ds ! i) = log_chain ds ! i \<and> mg_new_log (ds ! i) = log_chain ds ! Suc i)
    \<and> distinct (log_chain ds) \<and> set (log_chain ds) \<inter> seen = {} \<and> seen' = seen \<union> set (log_chain ds)
    \<and> cur = (if ds = [] then None else Some (mg_new_log (last ds)))"
proof (cases ds)
  case (Cons d es)
  from assms Cons have d: "mg_previous_log d \<notin> seen" "mg_new_log d \<notin> insert (mg_previous_log d) seen"
    "handoffs es (insert (mg_new_log d) (insert (mg_previous_log d) seen)) (Some (mg_new_log d)) = Inr (seen', cur)"
    by (auto simp: invalid_migration_def Let_def split: if_splits)
  from handoffs_Some [OF d(3)] d(1,2) Cons show ?thesis by (auto simp: nth_Cons last_map split: nat.splits)
qed (use assms in simp)

text \<open>
  C35: A history taken from another reader fits the migration. If \<^verbatim>\<open>_validate_predecessor_history\<close> accepts it, it
  ends at the signed cutoff, has a reference for every event and stays within the remaining events and
  bytes; the migrations in it form one unbroken chain of distinct logs, none of them visited before,
  which leads to the previous log of the migration, and the total depth stays within the limit.
\<close>

theorem predecessor_history_continuous:
  assumes "validate_predecessor_history d history c max_events max_bytes = Inr c'" "ms = migrations_of (vc_events history)"
  shows "(\<forall>i < length ms. mg_previous_log (ms ! i) = log_chain ms ! i \<and> mg_new_log (ms ! i) = log_chain ms ! Suc i)
    \<and> distinct (log_chain ms) \<and> set (log_chain ms) \<inter> mb_seen (mc_budget c) \<subseteq> {mg_previous_log d}
    \<and> (ms \<noteq> [] \<longrightarrow> mg_new_log (last ms) = mg_previous_log d)
    \<and> mc_depth c + 1 + int (length ms) \<le> ml_max_depth (mb_limits (mc_budget c))
    \<and> vc_events history \<noteq> [] \<and> length (vc_event_refs history) = length (vc_events history)
    \<and> last (vc_event_refs history) = mg_final_entry_ref d
    \<and> int (length (vc_events history)) \<le> max_events \<and> vc_response_bytes history \<in> {0..max_bytes}"
proof -
  from assms obtain seen cur where h: "handoffs ms (mb_seen (mc_budget c) - {mg_previous_log d}) None = Inr (seen, cur)"
    and cur: "case cur of None \<Rightarrow> True | Some l \<Rightarrow> l = mg_previous_log d"
    by (auto simp: validate_predecessor_history_def invalid_migration_def Let_def rbind_Inr_iff
        split: if_splits prod.splits option.splits)
  have g: "vc_events history \<noteq> [] \<and> length (vc_event_refs history) = length (vc_events history)
      \<and> last (vc_event_refs history) = mg_final_entry_ref d
      \<and> int (length (vc_events history)) \<le> max_events \<and> vc_response_bytes history \<in> {0..max_bytes}
      \<and> mc_depth c + 1 + int (length ms) \<le> ml_max_depth (mb_limits (mc_budget c))"
    using assms by (auto simp: validate_predecessor_history_def invalid_migration_def Let_def split: if_splits)
  from handoffs_None [OF h] cur g show ?thesis by (auto split: if_splits)
qed

section \<open>A sample reader\<close>

text \<open>A log of one entry, the ISSUANCE of \<^verbatim>\<open>a.example\<close>, under a checkpoint that one of two witnesses has cosigned.\<close>

definition demo_parsed :: ParsedC2spTlogLr where
  "demo_parsed = \<lparr>lr_method = str ''c2sp-tlog'', lr_scope = str ''testnet'', lr_log_prefix = str ''https://log.example/a'',
     lr_stream_id = str ''s1'', lr_origin = str ''log.example/a'', lr_lr = str ''c2sp-tlog:testnet:https://log.example/a#s1'',
     lr_entry_index = None\<rparr>"

definition demo_policy :: C2spTlogPolicy where
  "demo_policy =
     \<lparr>pol_origins = [(str ''log.example/a'',
        \<lparr>op_log_keys = [Key (Policy.sample_key (str ''log.example/a'') 1 1)],
         op_witness_keys = [Key (Policy.sample_key (str ''w1'') 2 4), Key (Policy.sample_key (str ''w2'') 3 4)],
         op_quorum = Some 1, op_quorum_rule = None, op_unchained = False\<rparr>)],
      pol_scope = None\<rparr>"

definition demo_checkpoint :: Checkpoint where
  "demo_checkpoint =
     \<lparr>ck_origin = str ''log.example/a'', ck_tree_size = 1, ck_root_hash = mth [sample_issuance_entry],
      ck_signatures =
        [\<lparr>ns_name = str ''log.example/a'', ns_signature = replicate 64 0, ns_key_hash = None, ns_raw = []\<rparr>,
         \<lparr>ns_name = str ''w2'', ns_signature = replicate 72 0, ns_key_hash = None, ns_raw = []\<rparr>],
      ck_signed_text = str ''log''\<rparr>"

definition demo_evidence :: StreamEvidence where
  "demo_evidence = \<lparr>se_checkpoint = demo_checkpoint, se_entries = [sample_indexed], se_complete = True,
     se_checkpoint_bytes = [], se_completeness_mode = [], se_complete_through_size = Some 1, se_response_bytes = None\<rparr>"

definition demo_reader :: reader where
  "demo_reader = \<lparr>rd_parsed = demo_parsed, rd_lr = lr_lr demo_parsed,
     rd_options = \<lparr>ro_policy = demo_policy, ro_unchained = None, ro_entity_key = None, ro_max_clock_skew_ms = 17000,
       ro_checkpoint_freshness_ms = Some 1000, ro_max_tree_size = Some 10,
       ro_migration_limits = \<lparr>ml_max_depth = 8, ml_max_history_events = 100, ml_max_response_bytes = 100000\<rparr>\<rparr>,
     rd_load_stream = (\<lambda>_ _. Inr demo_evidence)\<rparr>"

definition demo_answers :: answers where
  "demo_answers = \<lparr>an_result = (\<lambda>_. verif_err ''no previous log''), an_budget = id, an_store = id\<rparr>"

definition demo_state :: reader_state where
  "demo_state = \<lparr>rs_trusted_entity_key = Some sample_ek, rs_history_cache = [], rs_store = []\<rparr>"

definition demo_rule :: C2spTlogQuorumRule where
  "demo_rule =
     QuorumRule KThreshold None 1
       [QuorumRule KWitness (Some (Key (Policy.sample_key (str ''w1'') 2 4))) 0 [],
        QuorumRule KWitness (Some (Key (Policy.sample_key (str ''w2'') 3 4))) 0 []]"

lemma demo_normalized:
  "normalized_origin_policy demo_policy (str ''log.example/a'') =
     Inr \<lparr>np_log_keys = [Policy.sample_key (str ''log.example/a'') 1 1],
          np_witness_keys = [Policy.sample_key (str ''w1'') 2 4, Policy.sample_key (str ''w2'') 3 4],
          np_quorum = 1, np_quorum_rule = demo_rule, np_unchained = False\<rparr>"
  by (simp add: normalized_origin_policy_def demo_policy_def as_key_def check_keys_def check_rule_keys_def
      flat_quorum_rule_def demo_rule_def top_level_threshold_def assert_distinct_underlying_keys_def
      key_identity_eq bad_log_type_def Policy.sample_key_def)

lemma demo_enforced:
  "enforce_checkpoint_policy (\<lambda>_ _ _. True) demo_checkpoint (str ''log.example/a'') demo_policy
     (str ''testnet'') 0 17000 = Inr \<lparr>pr_accepted_witness_timestamps = [0], pr_checkpoint_witness_time = Some 0\<rparr>"
proof -
  have z: "from_bytes_be (replicate 8 0) = 0" by (simp add: from_bytes_be_def eval_nat_numeral)
  have "verified_cosignature_timestamp (\<lambda>_ _ _. True) demo_checkpoint (Policy.sample_key (str ''w1'') 2 4) = None"
    "verified_cosignature_timestamp (\<lambda>_ _ _. True) demo_checkpoint (Policy.sample_key (str ''w2'') 3 4) = Some 0"
    using z by (simp_all add: verified_cosignature_timestamp_def demo_checkpoint_def Policy.sample_key_def
      key_id_matches_def verify_note_signature_def verify_text_def cosignature_message_def
      MAX_COSIG_TIMESTAMP_def dec_of_int_def utf8_char_def)
  then have "evaluate_quorum (verified_cosignature_timestamp (\<lambda>_ _ _. True) demo_checkpoint) demo_rule 0 17000 = Inr (Some [0])"
    by (simp add: demo_rule_def map_filter_simps)
  moreover have "verify_checkpoint_signature (\<lambda>_ _ _. True) demo_checkpoint (Policy.sample_key (str ''log.example/a'') 1 1)"
    by (simp add: verify_checkpoint_signature_def demo_checkpoint_def Policy.sample_key_def
        key_id_matches_def verify_note_signature_def verify_text_def utf8_char_def)
  moreover have "pol_scope demo_policy = None" "ck_origin demo_checkpoint = str ''log.example/a''" "ck_tree_size demo_checkpoint = 1"
    by (simp_all add: demo_policy_def demo_checkpoint_def)
  ultimately show ?thesis
    by (simp add: enforce_checkpoint_policy_def demo_normalized [simplified] fromtimestamp_def)
qed

lemma demo_prepared:
  "prepare_scan (\<lambda>_ _ _. True) demo_reader 0 demo_evidence budget =
     rbind (add_response (stream_evidence_bytes demo_evidence) budget) (\<lambda>b. Inr (0, b))"
proof -
  have "verified_complete_scan_entries demo_evidence = Inr [sample_indexed]"
    by (simp add: verified_complete_scan_entries_def demo_evidence_def sample_indexed_def demo_checkpoint_def
        verify_checkpoint_prefix_def merkle_root_eq_mth)
  with demo_enforced show ?thesis
    by (simp add: prepare_scan_def authenticate_checkpoint_def demo_reader_def demo_parsed_def demo_evidence_def
        demo_checkpoint_def) (simp add: demo_checkpoint_def)?
qed

definition demo_options :: StreamVerifierOptions where
  "demo_options = default_options\<lparr>so_context := Some (reader_context demo_reader demo_parsed), so_unchained := False,
     so_signer_key := Some sample_ek, so_integration_ms := Some (17000, 0),
     so_verify_migration := Some (an_result demo_answers), so_cutoff_index := None\<rparr>"

lemma demo_scan_options: "scan_options demo_reader sample_ek 0 (an_result demo_answers) None = Inr demo_options"
proof -
  have "unchained demo_reader (lr_origin demo_parsed) = Inr False"
    using demo_normalized by (simp add: unchained_def demo_reader_def demo_parsed_def)
  then show ?thesis
    by (simp add: scan_options_def verifier_options_def demo_options_def demo_reader_def)
qed

lemma demo_fields_valid: "validate_public_fields sample_platform (JObj sample_obj) (so_ctx demo_options) = Inr ()"
proof -
  let ?c = "no_context\<lparr>cx_scope := Some (str ''testnet''), cx_log_origin := Some (str ''log.example/a''),
    cx_stream_id := Some (str ''s1''), cx_lr := Some (str ''c2sp-tlog:testnet:https://log.example/a#s1'')\<rparr>"
  have "so_ctx demo_options = ?c"
    by (simp add: so_ctx_def demo_options_def reader_context_def demo_reader_def demo_parsed_def)
  moreover have "validate_public_fields sample_platform (JObj sample_obj) ?c = Inr ()" by code_simp
  ultimately show ?thesis by simp
qed

lemma demo_from_entry: "from_entry sample_platform (str ''a.example'') demo_options sample_indexed sample_item"
proof -
  have "parse_c2sp_event_entry sample_platform sample_issuance_entry (so_ctx demo_options) True = Inr sample_issuance"
    by (simp add: parse_c2sp_event_entry_def sample_read demo_fields_valid sample_envelope)
  then show ?thesis using sample_from_entry by (auto simp: from_entry_def sample_item_def sample_indexed_def)
qed

lemma demo_not_noise: "\<not> noise sample_platform (str ''a.example'') demo_options sample_indexed"
proof -
  have "field_of sample_obj ''fqdn'' = JStr (str ''a.example'')" by code_simp
  moreover have "read_candidate sample_platform sample_issuance_entry demo_options = Inr r \<Longrightarrow> fst r = sample_obj" for r
    using sample_read by (cases r) (auto simp: read_candidate_Inr read_entry_def rbind_Inr_iff)
  moreover obtain p where p: "signed_c2sp_entry_bytes sample_platform sample_issuance_entry = Inr p"
    using sample_signed by (auto simp: is_ok_iff)
  then have "\<exists>r. read_candidate sample_platform sample_issuance_entry demo_options = Inr r"
    using sample_read demo_fields_valid
    by (auto simp: read_candidate_def read_entry_def rbind_Inr_iff c2sp_event_id_def)
  ultimately show ?thesis by (fastforce simp: noise_def sample_indexed_def)
qed

lemma demo_lifecycle:
  assumes "so_integration_ms opts = Some (17000, 0)" "so_signer_key opts = Some sample_ek"
  shows "\<exists>s. lifecycle sample_platform opts [sample_item] sample_ek sample_ok s"
proof -
  obtain s where s: "active_state (ev_domain (vl_event sample_item)) sample_ek sample_ok = Inr s"
    using sample_keys_separate by (auto simp: separate_keys_def active_state_def state_dict_def)
  have "\<not> later_than (ev_timestamp sample_issuance) (17000, 0)" by code_simp
  then have "Lifecycle.timely opts sample_issuance"
    by (simp add: Lifecycle.timely_def assms)
  moreover have "trusted_entity opts sample_ek"
    using sample_keys_separate by (auto simp: trusted_entity_def separate_keys_def assms)
  ultimately have "lifecycle sample_platform opts [sample_item] sample_ek sample_ok s"
    by (intro lifecycle.issued [OF _ _ _ sample_kids _ _ sample_keys_separate _ _ _ s])
       (simp_all only: sample_fields sample_signed_by IssuanceData.simps,
        simp_all add: first_in_chain_def sample_item_def)
  then show ?thesis ..
qed

lemma demo_selected:
  "\<exists>result. verify_stream_lifecycle sample_platform [sample_indexed] (str ''a.example'') demo_options = Inr result
    \<and> list_all2 same_item [sample_item] result"
proof -
  obtain s where L: "lifecycle sample_platform demo_options [sample_item] sample_ek sample_ok s"
    using demo_lifecycle [of demo_options] by (auto simp: demo_options_def)
  show ?thesis
    by (rule honest_stream [OF L])
       (use demo_from_entry demo_not_noise sample_fields sample_sizes in
         \<open>simp_all add: demo_options_def default_options_def sample_item_def sample_indexed_def\<close>)
qed


lemma demo_history:
  "\<exists>h b. scan_history sample_platform demo_reader demo_evidence (str ''a.example'') sample_ek demo_answers budget None 0 = Inr (h, b)
     \<and> vh_events h = [sample_issuance] \<and> vh_checkpoint_witness_time h = 0
     \<and> length (vh_event_refs h) = 1 \<and> (\<exists>r. vh_current_stream_events h = [r] \<and> same_item sample_item r)"
  if "\<not> mb_active budget"
proof -
  obtain r where r: "verify_stream_lifecycle sample_platform [sample_indexed] (str ''a.example'') demo_options = Inr [r]"
    "same_item sample_item r"
    using demo_selected by (auto simp: list_all2_Cons1)
  moreover have "is_migration (ev_body sample_issuance) = False" by (simp add: sample_fields)
  moreover have "vl_event r = sample_issuance" using same_item_fields [OF r(2)] by (simp add: sample_fields)
  ultimately show ?thesis
    using that demo_scan_options
    by (simp add: scan_history_def demo_evidence_def assert_cutoff_def add_events_def enforce_budget_def demo_answers_def
        stitch_migration_history_def stitched_event_refs_def Let_def)
qed

lemma demo_consistent:
  "\<exists>s. enforce_append_only_consistency [] (lr_origin (rd_parsed demo_reader))
     (ck_tree_size (se_checkpoint demo_evidence)) (ck_root_hash (se_checkpoint demo_evidence))
     (map ie_data (sort_key ie_index (se_entries demo_evidence))) (Aware 0 0) = (Inr (), s)"
proof -
  define c where "c = \<lparr>tc_origin = lr_origin (rd_parsed demo_reader), tc_tree_size = ck_tree_size (se_checkpoint demo_evidence),
    tc_root_hash = ck_root_hash (se_checkpoint demo_evidence), tc_witness_time = Aware 0 0\<rparr>"
  have "checkpoint_snapshot c = Inr c"
    by (simp add: checkpoint_snapshot_def c_def demo_evidence_def demo_checkpoint_def demo_reader_def demo_parsed_def
        validate_origin_def datetime_range_def py_strip_def py_rstrip_def py_space_def)
  then show ?thesis
    unfolding enforce_append_only_consistency_def Let_def c_def [symmetric]
    by (simp add: verify_and_advance_check check_stored_def append_only_verify_def stored_checkpoint_def advance_locked_def)
qed

lemma demo_load:
  assumes "rs_store st = []" "rs_history_cache st = []" "trusted_key demo_reader k st = Inr sample_ek" "now AtPolicy = 0"
  obtains h b st' where
    "load_complete_history sample_platform (\<lambda>_ _ _. True) demo_reader now demo_answers (str ''a.example'') k rf None None st
       = (Inr (h, b), st')"
    "vh_events h = [sample_issuance]" "vh_checkpoint_witness_time h = 0" "length (vh_event_refs h) = 1"
proof -
  let ?b = "new_budget (ro_migration_limits (rd_options demo_reader)) {lr_lr (rd_parsed demo_reader)}"
  let ?b1 = "?b\<lparr>mb_response_bytes := mb_response_bytes ?b + stream_evidence_bytes demo_evidence\<rparr>"
  obtain t where t: "thumbprint sample_ek = Inr t" using sample_keys_separate by (auto simp: separate_keys_def)
  have r: "add_response (stream_evidence_bytes demo_evidence) ?b = Inr ?b1"
    by (simp add: add_response_def enforce_budget_def new_budget_def)
  have "\<not> mb_active ?b1" by (simp add: new_budget_def)
  from demo_history [OF this] obtain h b where h: "scan_history sample_platform demo_reader demo_evidence (str ''a.example'') sample_ek
      demo_answers ?b1 None 0 = Inr (h, b)" "vh_events h = [sample_issuance]" "vh_checkpoint_witness_time h = 0"
    "length (vh_event_refs h) = 1" by blast
  obtain s where s: "enforce_append_only_consistency [] (lr_origin (rd_parsed demo_reader))
     (ck_tree_size (se_checkpoint demo_evidence)) (ck_root_hash (se_checkpoint demo_evidence))
     (map ie_data (sort_key ie_index (se_entries demo_evidence))) (Aware 0 0) = (Inr (), s)" using demo_consistent by blast
  have "rd_load_stream demo_reader (rd_parsed demo_reader) (str ''a.example'') = Inr demo_evidence" by (simp add: demo_reader_def)
  then have "load_scan sample_platform (\<lambda>_ _ _. True) demo_reader now demo_answers (str ''a.example'') sample_ek None ?b st
      = (Inr (h, b), st\<lparr>rs_store := an_store demo_answers s\<rparr>)"
    using assms(1,4) r h(1) s by (simp add: load_scan_def demo_prepared)
  then show ?thesis
    using that h assms(2,3) t by (simp add: load_complete_history_def cached_history_def Let_def)
qed

lemma demo_snapshot:
  assumes "at_or_before moment sample_issuance"
  shows "\<exists>sn. snapshot_at \<lparr>dl_domain = str ''a.example'', dl_events = [sample_issuance]\<rparr> moment = Inr sn
    \<and> sn_historical_state sn = ''ACTIVE'' \<and> thumbprint sample_ok = Inr (sn_active_key_thumbprint sn)"
proof -
  obtain s where L: "lifecycle sample_platform sample_options [sample_item] sample_ek sample_ok s" using sample_lifecycle by blast
  have "\<forall>v \<in> set [sample_item]. ev_domain (vl_event v) = str ''a.example'' \<and> at_or_before moment (vl_event v)"
    using assms by (simp add: sample_fields)
  from lifecycle_reduced [OF L _ this] obtain st where
    "reduced (str ''a.example'') moment (map vl_event [sample_item]) sample_ek sample_ok s st" by (auto simp: sample_fields)
  then show ?thesis by (auto simp: reduced_def snapshot_at_def sample_fields)
qed

theorem reader_histories_justified_witness:
  "\<exists>h b st' t. load_complete_history sample_platform (\<lambda>_ _ _. True) demo_reader (\<lambda>_. 0) demo_answers (str ''a.example'')
       None False None None demo_state = (Inr (h, b), st')
     \<and> justified sample_platform (\<lambda>_ _ _. True) demo_reader (str ''a.example'') t h"
proof -
  have k: "trusted_key demo_reader None demo_state = Inr sample_ek"
    by (simp add: trusted_key_def demo_reader_def demo_state_def)
  obtain h b st' where l: "load_complete_history sample_platform (\<lambda>_ _ _. True) demo_reader (\<lambda>_. 0) demo_answers (str ''a.example'')
       None False None None demo_state = (Inr (h, b), st')"
    by (rule demo_load [of demo_state None "\<lambda>_. 0" False]) (use k in \<open>auto simp: demo_state_def\<close>)
  from reader_histories_justified [OF rtranclp.rtrancl_refl _ l] l show ?thesis by (auto simp: demo_state_def)
qed

theorem non_revocation_is_fresh_witness:
  "\<exists>evidence st'. verify_non_revocation sample_platform (\<lambda>_ _ _. True) demo_reader (\<lambda>_. 0) demo_answers (str ''a.example'')
       (utc_seconds 20) demo_state = (Inr evidence, st') \<and> le_logged_state evidence = ''ACTIVE''"
proof -
  have k: "trusted_key demo_reader None demo_state = Inr sample_ek"
    by (simp add: trusted_key_def demo_reader_def demo_state_def)
  obtain h b st' where l: "load_complete_history sample_platform (\<lambda>_ _ _. True) demo_reader (\<lambda>_. 0) demo_answers (str ''a.example'')
       None True None None demo_state = (Inr (h, b), st')"
    and h: "vh_events h = [sample_issuance]" "vh_checkpoint_witness_time h = 0" "length (vh_event_refs h) = 1"
    by (rule demo_load [of demo_state None "\<lambda>_. 0" True]) (use k in \<open>auto simp: demo_state_def\<close>)
  obtain sn where "snapshot_at \<lparr>dl_domain = str ''a.example'', dl_events = [sample_issuance]\<rparr> (utc_seconds 20) = Inr sn"
    "sn_historical_state sn = ''ACTIVE''"
    using demo_snapshot sample_before(1) by (auto simp: sample_fields)
  then obtain e where "verify_non_revocation sample_platform (\<lambda>_ _ _. True) demo_reader (\<lambda>_. 0) demo_answers (str ''a.example'')
       (utc_seconds 20) demo_state = (Inr e, st')"
    using l h by (simp add: verify_non_revocation_def with_history_def non_revocation_def verification_boundary_def
        assert_fresh_def checkpoint_is_stale_def demo_reader_def)
  from this non_revocation_is_fresh [OF rtranclp.rtrancl_refl _ this] show ?thesis by (auto simp: demo_state_def)
qed







definition demo_handoff :: MigrationData where
  "demo_handoff = \<lparr>mg_previous_log = str ''c:o'', mg_new_log = str ''c:p'', mg_final_entry_ref = str ''c:o@4''\<rparr>"

theorem predecessor_history_continuous_witness:
  "\<exists>ms. ms = [demo_handoff] \<and> log_chain ms = [str ''c:o'', str ''c:p''] \<and> distinct (log_chain ms)
    \<and> mg_new_log (last ms) = str ''c:p''"
proof -
  let ?c = "\<lparr>mc_budget = new_budget \<lparr>ml_max_depth = 8, ml_max_history_events = 100, ml_max_response_bytes = 100000\<rparr> {str ''l'', str ''c:p''},
     mc_depth = 0\<rparr>"
  let ?d = "\<lparr>mg_previous_log = str ''c:p'', mg_new_log = str ''c:q'', mg_final_entry_ref = str ''c:p@1''\<rparr>"
  let ?h = "\<lparr>vc_events = [sample_issuance, sample_issuance\<lparr>ev_body := MigrationEvent demo_handoff\<rparr>],
    vc_event_refs = [str ''c:o@4'', str ''c:p@1''], vc_response_bytes = 10\<rparr>"
  have m: "migrations_of (vc_events ?h) = [demo_handoff]" by (simp add: migrations_of_def map_filter_simps sample_fields)
  then obtain c' where "validate_predecessor_history ?d ?h ?c 100 100 = Inr c'"
    by (simp add: validate_predecessor_history_def new_budget_def demo_handoff_def)
  from predecessor_history_continuous [OF this m [symmetric]] show ?thesis by (simp add: demo_handoff_def)
qed

end
