(* ===== verification/Verified_Domain.thy ===== *)
theory Verified_Domain
  imports Log_Reader
begin

text \<open>
  The result of a verification and the cache that keeps it: \<^verbatim>\<open>VerifiedDomain\<close> of \<^verbatim>\<open>dnsid/models.py\<close>, the two
  caches of \<^verbatim>\<open>dnsid/manager.py\<close>, the registry of log methods (\<^verbatim>\<open>dnsid/registry.py\<close>) and the reader that stands
  for an unknown method (\<^verbatim>\<open>dnsid/interfaces.py\<close>).

  The manager is a function on \<open>manager_state\<close>. Everything it reads from outside (the clock, DNS, HTTPS, the
  methods of a log reader) is numbered by \<open>ms_reads\<close>, so two reads may give different answers. A log reader
  is an object with an identity: the result holds a handle, and what the readers remember is the state \<open>'w\<close>.
\<close>

section \<open>Operations that may fail and change state\<close>

definition sret :: "'a \<Rightarrow> 's \<Rightarrow> 'a res \<times> 's" where
  "sret x s = (Inr x, s)"

definition slift :: "'a res \<Rightarrow> 's \<Rightarrow> 'a res \<times> 's" where
  "slift r s = (r, s)"

definition sbind :: "('s \<Rightarrow> 'a res \<times> 's) \<Rightarrow> ('a \<Rightarrow> 's \<Rightarrow> 'b res \<times> 's) \<Rightarrow> 's \<Rightarrow> 'b res \<times> 's" where
  "sbind m f s = (case m s of (Inl e, s') \<Rightarrow> (Inl e, s') | (Inr x, s') \<Rightarrow> f x s')"

lemma sret_Inr [simp]: "sret x s = (Inr y, s') \<longleftrightarrow> x = y \<and> s = s'"
  by (simp add: sret_def)

lemma slift_Inr [simp]: "slift r s = (Inr y, s') \<longleftrightarrow> r = Inr y \<and> s = s'"
  by (simp add: slift_def)

lemma sbind_Inr: "sbind m f s = (Inr y, s') \<longleftrightarrow> (\<exists>x s1. m s = (Inr x, s1) \<and> f x s1 = (Inr y, s'))"
  by (auto simp: sbind_def split: prod.splits sum.splits)

lemma sbind_cong [fundef_cong]:
  "s = s' \<Longrightarrow> m s' = m' s' \<Longrightarrow> (\<And>x s1. m' s' = (Inr x, s1) \<Longrightarrow> f x s1 = f' x s1) \<Longrightarrow> sbind m f s = sbind m' f' s'"
  by (auto simp: sbind_def split: prod.splits sum.splits)

section \<open>Times\<close>

definition DAY :: int where
  "DAY = 86400000000"

text \<open>\<^verbatim>\<open>a >= b\<close>, and \<^verbatim>\<open>a + timedelta(microseconds=us)\<close>, whose result must lie in the years 1 to 9999.\<close>

definition time_ge :: "Events.pydatetime \<Rightarrow> Events.pydatetime \<Rightarrow> bool res" where
  "time_ge a b =
     (if dt_aware a \<noteq> dt_aware b then Inl (TypeError ''can't compare offset-naive and offset-aware datetimes'')
      else Inr (dt_us a \<ge> dt_us b))"

definition add_us :: "Events.pydatetime \<Rightarrow> int \<Rightarrow> Events.pydatetime res" where
  "add_us t us =
     (if dt_us t + us < dt_us ZERO_TIME \<or> (MAX_DATE_SECONDS + 1) * 1000000 \<le> dt_us t + us
      then Inl (OverflowError ''date value out of range'')
      else Inr (t\<lparr>dt_us := dt_us t + us\<rparr>))"

definition key_age_limit :: "pystr \<Rightarrow> int res" where
  "key_age_limit ka = rbind (parse_ka_duration ka) (\<lambda>days. Inr (days * DAY))"

text \<open>\<^verbatim>\<open>min\<close> of a non-empty list, which keeps the first of equal elements.\<close>

fun min_time :: "Events.pydatetime \<Rightarrow> Events.pydatetime list \<Rightarrow> Events.pydatetime res" where
  "min_time t [] = Inr t"
| "min_time t (u # us) = rbind (time_after t u) (\<lambda>b. min_time (if b then u else t) us)"

section \<open>Log readers\<close>

datatype 'h log_handle = NoopLogReader pystr | BoundReader 'h

text \<open>
  The methods of a reader. \<^verbatim>\<open>getattr(log_reader, name, None)\<close> finds the last three only on some readers; the
  first argument of each is the number of the read.
\<close>

record 'w log_methods =
  lm_key_timestamp :: "nat \<Rightarrow> pystr \<Rightarrow> pystr \<Rightarrow> 'w \<Rightarrow> Events.pydatetime res \<times> 'w"
  lm_verify_non_revocation :: "nat \<Rightarrow> pystr \<Rightarrow> Events.pydatetime \<Rightarrow> 'w \<Rightarrow> LoggedStateEvidence res \<times> 'w"
  lm_rebuild_history :: "nat \<Rightarrow> pystr \<Rightarrow> 'w \<Rightarrow> LogEvent list res \<times> 'w"
  lm_preload_history :: "(nat \<Rightarrow> pystr \<Rightarrow> JWK \<Rightarrow> 'w \<Rightarrow> unit res \<times> 'w) option"
  lm_verify_bilateral_binding ::
    "(nat \<Rightarrow> DnsIdTxtRecord \<Rightarrow> JWK \<Rightarrow> JWK \<Rightarrow> 'w \<Rightarrow> BilateralBindingResult res \<times> 'w) option"
  lm_verify_operational_continuity :: "(nat \<Rightarrow> pystr \<Rightarrow> pystr \<Rightarrow> pystr \<Rightarrow> 'w \<Rightarrow> unit res \<times> 'w) option"

definition noop_raise :: "'w \<Rightarrow> 'a res \<times> 'w" where
  "noop_raise w = (log_err ''no LogReader registered for log method'', w)"

definition noop_methods :: "'w log_methods" where
  "noop_methods =
     \<lparr>lm_key_timestamp = \<lambda>_ _ _. noop_raise, lm_verify_non_revocation = \<lambda>_ _ _. noop_raise,
      lm_rebuild_history = \<lambda>_ _. noop_raise, lm_preload_history = None,
      lm_verify_bilateral_binding = None, lm_verify_operational_continuity = None\<rparr>"

definition methods_of :: "('h \<Rightarrow> 'w log_methods) \<Rightarrow> 'h log_handle \<Rightarrow> 'w log_methods" where
  "methods_of readers h = (case h of NoopLogReader _ \<Rightarrow> noop_methods | BoundReader b \<Rightarrow> readers b)"

definition require_log_method :: "'m option \<Rightarrow> 'm res" where
  "require_log_method m =
     (case m of None \<Rightarrow> log_err ''log method does not support a check required by draft 01 verification'' | Some f \<Rightarrow> Inr f)"

text \<open>\<^verbatim>\<open>LogRegistry\<close>: one factory for each method name.\<close>

type_synonym ('h, 'w) registry = "(pystr \<times> (pystr \<Rightarrow> 'w \<Rightarrow> 'h res \<times> 'w)) list"

definition method_name :: "pystr \<Rightarrow> bool" where
  "method_name s \<longleftrightarrow> s \<noteq> [] \<and> is_lower (hd s) \<and> (\<forall>c \<in> set s. is_lower c \<or> is_digit c \<or> c = 45)"

definition register :: "pystr \<Rightarrow> (pystr \<Rightarrow> 'w \<Rightarrow> 'h res \<times> 'w) \<Rightarrow> ('h, 'w) registry \<Rightarrow> ('h, 'w) registry res" where
  "register method factory reg =
     (if \<not> method_name method then Inl (ArgumentError ''log method must match [a-z][a-z0-9-]*'')
      else Inr (dict_set method factory reg))"

definition registry_new_reader :: "('h, 'w) registry \<Rightarrow> pystr \<Rightarrow> 'w \<Rightarrow> 'h log_handle res \<times> 'w" where
  "registry_new_reader reg lr w =
     (case parse_ledger_ref lr of
        Inl e \<Rightarrow> (Inl e, w)
      | Inr (method, _) \<Rightarrow>
          (case map_of reg method of
             None \<Rightarrow> (Inr (NoopLogReader method), w)
           | Some factory \<Rightarrow>
               (case factory lr w of
                  (Inl e, w') \<Rightarrow> (Inl e, w')
                | (Inr h, w') \<Rightarrow> (Inr (BoundReader h), w'))))"

section \<open>Verified domains\<close>

record 'h VerifiedDomain =
  vd_domain :: pystr
  vd_record :: DnsIdTxtRecord
  vd_jwks :: JWKS
  vd_signing_key :: JWK
  vd_tls_cert :: TLSCertificate
  vd_registry_status :: AgentStatus
  vd_verified_at :: Events.pydatetime
  vd_dns_ttl :: int
  vd_key_bound_at :: Events.pydatetime
  vd_last_status_check_at :: Events.pydatetime
  vd_dnssec_state :: "DNSSECState option"
  vd_log_reader :: "'h log_handle"
  vd_record_signing_jwks :: "JWKS option"
  vd_record_signing_tls_cert :: "TLSCertificate option"
  vd_dns_expires_at :: "Events.pydatetime option"

definition signing_key_thumbprint :: "'h VerifiedDomain \<Rightarrow> pystr res" where
  "signing_key_thumbprint vd = thumbprint (vd_signing_key vd)"

definition cached_state :: "'h VerifiedDomain \<Rightarrow> pystr" where
  "cached_state vd = as_state (vd_registry_status vd)"

definition requires_log_check :: "'h VerifiedDomain \<Rightarrow> bool" where
  "requires_log_check vd \<longleftrightarrow> str ''logchk'' \<in> policy_flags (vd_record vd)"

definition dns_expiry :: "'h VerifiedDomain \<Rightarrow> Events.pydatetime res" where
  "dns_expiry vd =
     (case vd_dns_expires_at vd of Some t \<Rightarrow> Inr t | None \<Rightarrow> add_us (vd_verified_at vd) (vd_dns_ttl vd * 1000000))"

text \<open>The certificates of the two key fetches that carry an expiry.\<close>

definition cert_bounds :: "'h VerifiedDomain \<Rightarrow> Events.pydatetime list" where
  "cert_bounds vd =
     filter (\<lambda>t. t \<noteq> ZERO_TIME)
       (tls_not_after (vd_tls_cert vd) # (case vd_record_signing_tls_cert vd of None \<Rightarrow> [] | Some c \<Rightarrow> [tls_not_after c]))"

definition expiry :: "'h VerifiedDomain \<Rightarrow> Events.pydatetime res" where
  "expiry vd =
     rbind (dns_expiry vd) (\<lambda>dns.
     rbind (if tr_ka (vd_record vd) \<in> set PERMITTED_KA_VALUES \<and> vd_key_bound_at vd \<noteq> ZERO_TIME
            then rbind (key_age_limit (tr_ka (vd_record vd))) (\<lambda>d. rbind (add_us (vd_key_bound_at vd) d) (\<lambda>t. Inr [t]))
            else Inr []) (\<lambda>age.
       min_time dns (cert_bounds vd @ age)))"

fun any_reached :: "Events.pydatetime \<Rightarrow> Events.pydatetime list \<Rightarrow> bool res" where
  "any_reached now [] = Inr False"
| "any_reached now (t # ts) = rbind (time_ge now t) (\<lambda>b. rbind (any_reached now ts) (\<lambda>c. Inr (b \<or> c)))"

definition expired_code :: "'h VerifiedDomain \<Rightarrow> Events.pydatetime \<Rightarrow> bool \<Rightarrow> VerificationCode option res" where
  "expired_code vd now fresh_dns_lookup =
     rbind (any_reached now (cert_bounds vd)) (\<lambda>tls.
     rbind (if tr_ka (vd_record vd) = [] then Inr False
            else rbind (key_age_limit (tr_ka (vd_record vd))) (\<lambda>d. rbind (add_us (vd_key_bound_at vd) d) (time_ge now))) (\<lambda>age.
     rbind (dns_expiry vd) (\<lambda>dns.
       if age then Inr (Some KEY_AGE_EXCEEDED)
       else if tls then Inr (Some TLS_ERROR)
       else if fresh_dns_lookup \<and> vd_dns_ttl vd = 0 then Inr None
       else rbind (time_ge now dns) (\<lambda>b. Inr (if b then Some DNS_RESOLUTION else None)))))"

definition vd_require_fresh_evidence :: "'h VerifiedDomain \<Rightarrow> Events.pydatetime \<Rightarrow> bool \<Rightarrow> unit res" where
  "vd_require_fresh_evidence vd now fresh_dns_lookup =
     rbind (expired_code vd now fresh_dns_lookup) (\<lambda>c.
       (case c of
          None \<Rightarrow> Inr ()
        | Some code \<Rightarrow> Inl (VerificationError code ''identity evidence expired during verification'' (code = DNS_RESOLUTION))))"

section \<open>The caches\<close>

record ('h, 'w) manager_state =
  ms_reads :: nat
  ms_cache :: "(pystr \<times> 'h VerifiedDomain) list"
  ms_world :: 'w
  ms_closed :: bool

definition read_clock :: "(nat \<Rightarrow> int) \<Rightarrow> ('h, 'w) manager_state \<Rightarrow> Events.pydatetime res \<times> ('h, 'w) manager_state" where
  "read_clock clock st =
     (Inr \<lparr>dt_aware = True, dt_us = clock (ms_reads st)\<rparr>, st\<lparr>ms_reads := Suc (ms_reads st)\<rparr>)"

text \<open>\<^verbatim>\<open>entry.dns_ttl <= 0 or _now() >= entry.expiry()\<close>, the condition of both caches.\<close>

definition entry_expired :: "(nat \<Rightarrow> int) \<Rightarrow> 'h VerifiedDomain \<Rightarrow> ('h, 'w) manager_state \<Rightarrow> bool res \<times> ('h, 'w) manager_state" where
  "entry_expired clock vd =
     (if vd_dns_ttl vd \<le> 0 then sret True
      else sbind (read_clock clock) (\<lambda>now. slift (rbind (expiry vd) (time_ge now))))"

definition mem_evict :: "pystr \<Rightarrow> ('h, 'w) manager_state \<Rightarrow> unit res \<times> ('h, 'w) manager_state" where
  "mem_evict key st = (Inr (), st\<lparr>ms_cache := dict_pop key (ms_cache st)\<rparr>)"

definition mem_get ::
  "(nat \<Rightarrow> int) \<Rightarrow> pystr \<Rightarrow> ('h, 'w) manager_state \<Rightarrow> 'h VerifiedDomain option res \<times> ('h, 'w) manager_state" where
  "mem_get clock key st =
     (case map_of (ms_cache st) key of
        None \<Rightarrow> sret None st
      | Some entry \<Rightarrow>
          sbind (entry_expired clock entry) (\<lambda>b.
            if b then sbind (mem_evict key) (\<lambda>_. sret None) else sret (Some entry)) st)"

definition mem_put ::
  "(nat \<Rightarrow> int) \<Rightarrow> pystr \<Rightarrow> 'h VerifiedDomain \<Rightarrow> ('h, 'w) manager_state \<Rightarrow> unit res \<times> ('h, 'w) manager_state" where
  "mem_put clock key vd =
     sbind (entry_expired clock vd) (\<lambda>b.
       if b then mem_evict key else (\<lambda>st. (Inr (), st\<lparr>ms_cache := dict_set key vd (ms_cache st)\<rparr>)))"

text \<open>\<^verbatim>\<open>_PrivateCache\<close>: the keys of one manager carry its random prefix.\<close>

definition cache_evict :: "pystr \<Rightarrow> pystr \<Rightarrow> ('h, 'w) manager_state \<Rightarrow> unit res \<times> ('h, 'w) manager_state" where
  "cache_evict pre domain = mem_evict (pre @ domain)"

definition cache_get ::
  "(nat \<Rightarrow> int) \<Rightarrow> pystr \<Rightarrow> pystr \<Rightarrow> ('h, 'w) manager_state \<Rightarrow> 'h VerifiedDomain option res \<times> ('h, 'w) manager_state" where
  "cache_get clock pre domain =
     sbind (mem_get clock (pre @ domain)) (\<lambda>found.
       (case found of
          None \<Rightarrow> sret None
        | Some vd \<Rightarrow>
            sbind (entry_expired clock vd) (\<lambda>b.
              if b then sbind (cache_evict pre domain) (\<lambda>_. sret None) else sret (Some vd))))"

definition cache_put ::
  "(nat \<Rightarrow> int) \<Rightarrow> pystr \<Rightarrow> pystr \<Rightarrow> 'h VerifiedDomain \<Rightarrow> ('h, 'w) manager_state \<Rightarrow> unit res \<times> ('h, 'w) manager_state" where
  "cache_put clock pre domain vd =
     sbind (entry_expired clock vd) (\<lambda>b.
       if b then cache_evict pre domain else mem_put clock (pre @ domain) vd)"

lemma entry_expired_state:
  "entry_expired clock vd st = (r, st') \<Longrightarrow>
   ms_cache st' = ms_cache st \<and> ms_world st' = ms_world st \<and> ms_closed st' = ms_closed st \<and> ms_reads st \<le> ms_reads st'"
  by (auto simp: entry_expired_def read_clock_def sbind_def sret_def slift_def split: if_splits)

lemma mem_get_Some:
  assumes "mem_get clock key st = (Inr (Some vd), st')"
  shows "map_of (ms_cache st) key = Some vd \<and> ms_cache st' = ms_cache st \<and> ms_world st' = ms_world st"
  using assms by (auto simp: mem_get_def sbind_Inr split: option.splits if_splits dest: entry_expired_state)

lemma cache_get_Some:
  assumes "cache_get clock pre domain st = (Inr (Some vd), st')"
  shows "map_of (ms_cache st) (pre @ domain) = Some vd" "ms_cache st' = ms_cache st" "ms_world st' = ms_world st"
  using assms
  by (auto simp: cache_get_def sbind_Inr split: option.splits if_splits dest!: entry_expired_state mem_get_Some)

end
