(* ===== verification/Domain_Verifier.thy ===== *)
theory Domain_Verifier
  imports Verified_Domain
begin

text \<open>
  The verification of a domain, \<^verbatim>\<open>verify_domain\<close> and \<^verbatim>\<open>refresh_domain\<close> of \<^verbatim>\<open>dnsid/manager.py\<close>: the TXT record and
  its DNSSEC state, the entity key and the signature of the record, the operational key, the checks against the
  lifecycle log, key age, status, the cache, and the acceptance of the counterparty.

  The model is one caller on a manager with an injected resolver, HTTPS fetcher and registry, the interfaces that
  the record \<open>env\<close> holds. The two branches that run concurrently share no state; \<open>en_preempt\<close> says whether the
  failure of the second stops the first, and what the stopped branch had done to the log readers. The budget of a
  call is the number of rounds that a retry loop may take.
\<close>

section \<open>Configuration and environment\<close>

record TrustedEntity =
  te_governance_id :: pystr
  te_entity_key_thumbprints :: "pystr list option"

record VerificationConfig =
  cf_status_check_interval :: int
  cf_dnssec_mode :: "DNSSECMode option"
  cf_trusted_entities :: "TrustedEntity list option"

text \<open>\<^verbatim>\<open>isinstance(pin, str) and len(b64url_decode_strict(pin)) == 32\<close>, a \<^verbatim>\<open>ValueError\<close> meaning no.\<close>

definition valid_pin :: "pystr \<Rightarrow> bool" where
  "valid_pin pin \<longleftrightarrow> (case b64url_decode_strict pin of Inl _ \<Rightarrow> False | Inr b \<Rightarrow> length b = 32)"

definition check_pins :: "pystr list option \<Rightarrow> unit res" where
  "check_pins pins =
     (case pins of
        None \<Rightarrow> Inr ()
      | Some ps \<Rightarrow>
          if ps = [] then Inl (ArgumentError ''entity_key_thumbprints must be a non-empty list'')
          else if \<not> distinct ps then Inl (ArgumentError ''duplicate entity_key_thumbprints'')
          else if \<exists>p \<in> set ps. \<not> valid_pin p then Inl (ArgumentError ''invalid entity key thumbprint'')
          else Inr ())"

fun normalize_entities :: "(pystr \<Rightarrow> pystr option) \<Rightarrow> TrustedEntity list \<Rightarrow> pystr set \<Rightarrow> TrustedEntity list res" where
  "normalize_entities idna [] seen = Inr []"
| "normalize_entities idna (e # es) seen =
     (case normalize_fqdn idna (te_governance_id e) False of
        Inl _ \<Rightarrow> Inl (ArgumentError ''invalid trusted entity governance_id'')
      | Inr gi \<Rightarrow>
          if gi \<in> seen then Inl (ArgumentError ''duplicate trusted entity'')
          else
            rbind (check_pins (te_entity_key_thumbprints e)) (\<lambda>_.
            rbind (normalize_entities idna es (insert gi seen)) (\<lambda>r.
              Inr (\<lparr>te_governance_id = gi, te_entity_key_thumbprints = te_entity_key_thumbprints e\<rparr> # r))))"

definition validate_verification_config ::
  "(pystr \<Rightarrow> pystr option) \<Rightarrow> VerificationConfig \<Rightarrow> VerificationConfig res" where
  "validate_verification_config idna cfg =
     (if cf_status_check_interval cfg < 0
      then Inl (ArgumentError ''status_check_interval must be a non-negative timedelta'')
      else
        (let cfg' = cfg\<lparr>cf_dnssec_mode := Some (case cf_dnssec_mode cfg of None \<Rightarrow> AUTO | Some m \<Rightarrow> m)\<rparr> in
         (case cf_trusted_entities cfg of
            None \<Rightarrow> Inr cfg'
          | Some es \<Rightarrow>
              rbind (normalize_entities idna es {}) (\<lambda>r. Inr (cfg'\<lparr>cf_trusted_entities := Some r\<rparr>)))))"

text \<open>What a DNS lookup does: it answers, reports that there is no such record, or raises.\<close>

datatype dns_outcome =
    DnsAnswer "TXTRecord list" "DNSSECState option"
  | DnsNotFound
  | DnsValidationFailure
  | DnsRaises exn

record ('h, 'w) env =
  en_platform :: platform
  en_clock :: "nat \<Rightarrow> int"
  en_fetch_txt :: "nat \<Rightarrow> pystr \<Rightarrow> dns_outcome"
  en_fetch_strict_json :: "nat \<Rightarrow> pystr \<Rightarrow> pystr option \<Rightarrow> bool \<Rightarrow> bool \<Rightarrow> (jdict \<times> TLSCertificate) res"
  en_fromisoformat :: "pystr \<Rightarrow> Events.pydatetime option"
  en_registry :: "('h, 'w) registry option"
  en_readers :: "'h \<Rightarrow> 'w log_methods"
  en_preempt :: "nat \<Rightarrow> ('w \<Rightarrow> 'w) option"
  en_prefix :: pystr
  en_config :: VerificationConfig

section \<open>Reads from outside\<close>

definition en_now :: "('h, 'w) env \<Rightarrow> ('h, 'w) manager_state \<Rightarrow> Events.pydatetime res \<times> ('h, 'w) manager_state" where
  "en_now en = read_clock (en_clock en)"

definition next_read :: "(nat \<Rightarrow> 'a res) \<Rightarrow> ('h, 'w) manager_state \<Rightarrow> 'a res \<times> ('h, 'w) manager_state" where
  "next_read f st = (f (ms_reads st), st\<lparr>ms_reads := Suc (ms_reads st)\<rparr>)"

definition on_readers :: "(nat \<Rightarrow> 'w \<Rightarrow> 'a res \<times> 'w) \<Rightarrow> ('h, 'w) manager_state \<Rightarrow> 'a res \<times> ('h, 'w) manager_state" where
  "on_readers f st =
     (let (r, w) = f (ms_reads st) (ms_world st) in (r, st\<lparr>ms_reads := Suc (ms_reads st), ms_world := w\<rparr>))"

definition lookup_txt ::
  "('h, 'w) env \<Rightarrow> pystr \<Rightarrow> ('h, 'w) manager_state \<Rightarrow> (TXTRecord list \<times> DNSSECState option) res \<times> ('h, 'w) manager_state" where
  "lookup_txt en domain =
     next_read (\<lambda>n.
       (case en_fetch_txt en n (str ''_dnsid.'' @ domain) of
          DnsAnswer records dnssec \<Rightarrow> Inr (records, dnssec)
        | DnsNotFound \<Rightarrow> Inr ([], Some UNKNOWN)
        | DnsValidationFailure \<Rightarrow> Inr ([], Some FAILED)
        | DnsRaises e \<Rightarrow>
            if is_VerificationError e then Inl e else Inl (VerificationError DNS_RESOLUTION ''DNS lookup failed'' True)))"

text \<open>\<^verbatim>\<open>[jwk_from_dict(k) for k in raw.get("keys", [])]\<close>; iterating a string or a dictionary gives strings.\<close>

definition jwks_from_json :: "jdict \<Rightarrow> JWKS res" where
  "jwks_from_json raw =
     (let no_get = AttributeError ''object has no attribute get'' in
      (case dget raw ''keys'' (JArr []) of
         JArr ks \<Rightarrow> mapR (\<lambda>k. case k of JObj d \<Rightarrow> Inr (jwk_from_dict d) | _ \<Rightarrow> Inl no_get) ks
       | JObj d \<Rightarrow> if d = [] then Inr [] else Inl no_get
       | JStr s \<Rightarrow> if s = [] then Inr [] else Inl no_get
       | _ \<Rightarrow> Inl (TypeError ''object is not iterable'')))"

definition fetch_key_set ::
  "('h, 'w) env \<Rightarrow> pystr \<Rightarrow> pystr \<Rightarrow> bool \<Rightarrow> bool \<Rightarrow> ('h, 'w) manager_state \<Rightarrow> (JWKS \<times> TLSCertificate) res \<times> ('h, 'w) manager_state" where
  "fetch_key_set en uri allowed_host domain_boundary revalidate =
     next_read (\<lambda>n.
       rbind (en_fetch_strict_json en n uri (Some allowed_host) domain_boundary revalidate) (\<lambda>(raw, cert).
       rbind (jwks_from_json raw) (\<lambda>jwks. Inr (jwks, cert))))"

section \<open>Status documents\<close>

record StatusDocument =
  sd_state :: json
  sd_last_transition_at :: Events.pydatetime
  sd_revocation_reason :: json

text \<open>\<^verbatim>\<open>d.get(a) or d.get(b, "")\<close>\<close>

definition get_or :: "jdict \<Rightarrow> string \<Rightarrow> string \<Rightarrow> json" where
  "get_or d a b = (let x = dget d a JNull in if falsy x then dget d b (JStr []) else x)"

text \<open>\<^verbatim>\<open>s.replace("Z", "+00:00")\<close>\<close>

definition replace_zulu :: "pystr \<Rightarrow> pystr" where
  "replace_zulu s = concat (map (\<lambda>c. if c = 90 then str ''+00:00'' else [c]) s)"

definition parse_agent_status_from_dict :: "(pystr \<Rightarrow> Events.pydatetime option) \<Rightarrow> jdict \<Rightarrow> StatusDocument" where
  "parse_agent_status_from_dict fromisoformat raw =
     (let d = (case dget raw ''protocolStatus'' JNull of JObj p \<Rightarrow> p | _ \<Rightarrow> raw);
          last_transition_raw = get_or d ''lastTransitionAt'' ''updated_at'' in
      \<lparr>sd_state = get_or d ''state'' ''status'',
       sd_last_transition_at =
         (case fromisoformat (case last_transition_raw of JStr s \<Rightarrow> replace_zulu s | _ \<Rightarrow> []) of
            None \<Rightarrow> ZERO_TIME
          | Some t \<Rightarrow> t),
       sd_revocation_reason = get_or d ''revocationReason'' ''revocation_reason''\<rparr>)"

text \<open>\<^verbatim>\<open>AgentStatus.validate\<close> on the parsed document; an accepted document has string members.\<close>

definition validate_status_document :: "StatusDocument \<Rightarrow> AgentStatus res" where
  "validate_status_document d =
     (case sd_state d of
        JStr s \<Rightarrow>
          if s \<notin> set AgentState then Inl (ValidationError ''unknown agent status state'')
          else if sd_last_transition_at d = ZERO_TIME then Inl (ValidationError ''lastTransitionAt is required'')
          else (case sd_revocation_reason d of
                  JStr r \<Rightarrow>
                    (let a = \<lparr>as_state = s, as_last_transition_at = sd_last_transition_at d, as_revocation_reason = r\<rparr> in
                     rbind (status_validate a) (\<lambda>_. Inr a))
                | _ \<Rightarrow> Inl (ValidationError ''revocationReason must be a string''))
      | _ \<Rightarrow> Inl (ValidationError ''unknown agent status state''))"

fun exn_code :: "exn \<Rightarrow> VerificationCode option" where
  "exn_code (VerificationError c _ _) = Some c"
| "exn_code (LifecycleVerificationError _ _ _) = Some LOG_ERROR"
| "exn_code _ = None"

fun is_ValidationError :: "exn \<Rightarrow> bool" where
  "is_ValidationError (ValidationError _) = True"
| "is_ValidationError _ = False"

definition status_fetch_boundary :: "'a res \<Rightarrow> 'a res" where
  "status_fetch_boundary m =
     (case m of
        Inr x \<Rightarrow> Inr x
      | Inl e \<Rightarrow>
          if is_VerificationError e then
            (if exn_code e = Some DEADLINE_EXCEEDED then Inl e
             else if exn_transient e \<or> exn_code e = Some DNS_RESOLUTION
             then Inl (VerificationError STATUS_UNAVAILABLE (''status endpoint unavailable: '' @ exn_text e) True)
             else Inl e)
          else if is_ValidationError e
          then Inl (VerificationError RECORD_INVALID ''invalid agent status document'' False)
          else Inl e)"

definition fetch_status ::
  "('h, 'w) env \<Rightarrow> pystr \<Rightarrow> bool \<Rightarrow> ('h, 'w) manager_state \<Rightarrow> AgentStatus res \<times> ('h, 'w) manager_state" where
  "fetch_status en su revalidate =
     next_read (\<lambda>n.
       status_fetch_boundary
         (rbind (en_fetch_strict_json en n su None False revalidate) (\<lambda>(raw, cert).
           validate_status_document (parse_agent_status_from_dict (en_fromisoformat en) raw))))"

definition not_active :: "'a res" where
  "not_active = Inl (VerificationError STATUS_NOT_ACTIVE ''identity is not ACTIVE'' False)"

definition require_active_status :: "AgentStatus \<Rightarrow> AgentStatus res" where
  "require_active_status status = (if as_state status \<noteq> str ''ACTIVE'' then not_active else Inr status)"

definition fetch_active_status ::
  "('h, 'w) env \<Rightarrow> pystr \<Rightarrow> bool \<Rightarrow> ('h, 'w) manager_state \<Rightarrow> AgentStatus res \<times> ('h, 'w) manager_state" where
  "fetch_active_status en su revalidate =
     sbind (fetch_status en su revalidate) (\<lambda>status. slift (require_active_status status))"

section \<open>The record\<close>

definition record_from_dns ::
  "('h, 'w) env \<Rightarrow> pystr \<Rightarrow> TXTRecord list \<Rightarrow> DNSSECState option \<Rightarrow> Events.pydatetime \<Rightarrow>
   (DnsIdTxtRecord \<times> int \<times> Events.pydatetime) res" where
  "record_from_dns en domain records dnssec acquired_at =
     (let mode = cf_dnssec_mode (en_config en); pf = en_platform en in
      if dnssec = None
      then Inl (VerificationError DNSSEC_FAILED ''DNS resolver returned an invalid DNSSEC state'' False)
      else if dnssec = Some FAILED then Inl (VerificationError DNSSEC_FAILED ''DNSSEC validation failed'' False)
      else if mode = Some VALIDATED \<and> dnssec = Some UNKNOWN
      then Inl (VerificationError DNSSEC_FAILED ''DNSSEC validation status is unknown'' False)
      else if mode = Some REQUIRED \<and> dnssec \<noteq> Some VALID
      then Inl (VerificationError DNSSEC_FAILED ''DNSSEC required'' False)
      else if records = [] then Inl (VerificationError RECORD_NOT_FOUND ''no _dnsid TXT record found'' False)
      else if length records \<noteq> 1
      then record_invalid ''expected exactly one _dnsid TXT record''
      else
        rbind (concatenate_strings (hd records)) (\<lambda>raw.
          let ttl = tx_ttl (hd records) in
          if ttl < 0 then Inl (VerificationError DNS_RESOLUTION ''invalid DNS TTL'' False)
          else
            (case add_us acquired_at (ttl * 1000000) of
               Inl _ \<Rightarrow> Inl (VerificationError DNS_RESOLUTION ''invalid DNS TTL'' False)
             | Inr expires_at \<Rightarrow>
                 (case parse_record raw of
                    Inl _ \<Rightarrow> record_invalid ''TXT record parse failed''
                  | Inr r \<Rightarrow>
                      (let rec = r\<lparr>tr_identity_fqdn := domain\<rparr> in
                       (case validate_record (pf_idna pf) (pf_lower pf) (pf_netloc_ok pf) rec of
                          Inl _ \<Rightarrow> record_invalid ''TXT record validation failed''
                        | Inr _ \<Rightarrow> Inr (rec, ttl, expires_at)))))))"

definition extract_host :: "platform \<Rightarrow> pystr \<Rightarrow> pystr res" where
  "extract_host pf uri =
     rbind (urlsplit (pf_netloc_ok pf) uri) (\<lambda>parsed.
       Inr (case url_hostname (pf_lower pf) parsed of None \<Rightarrow> [] | Some h \<Rightarrow> h))"

definition ek_pinning_host :: "platform \<Rightarrow> pystr \<Rightarrow> pystr \<Rightarrow> pystr res" where
  "ek_pinning_host pf gi ek_uri =
     rbind (extract_host pf ek_uri) (\<lambda>host.
     rbind (normalize_fqdn (pf_idna pf) host False) (\<lambda>ek_host.
       if \<not> is_domain_name gi then record_invalid ''draft 01 gi must be a lowercase ASCII DNS domain''
       else
         rbind (normalize_fqdn (pf_idna pf) gi False) (\<lambda>gi_domain.
           if ek_host \<noteq> gi_domain \<and> \<not> endswith ek_host (46 # gi_domain)
           then record_invalid ''ek host must equal or be beneath gi''
           else Inr gi_domain)))"

definition ascii_encode :: "pystr \<Rightarrow> bytes res" where
  "ascii_encode s =
     (if \<exists>c \<in> set s. c \<ge> 128 then Inl (ValueError ''ascii codec cannot encode character'') else Inr (map of_nat s))"

definition signature_invalid :: "string \<Rightarrow> 'a res" where
  "signature_invalid m = Inl (VerificationError SIGNATURE_INVALID m False)"

definition authenticate_record :: "platform \<Rightarrow> DnsIdTxtRecord \<Rightarrow> JWKS \<Rightarrow> JWK res" where
  "authenticate_record pf rec ek_jwks =
     rbind (current_protocol_signing_key (pf_float_int pf) ek_jwks (Some (tr_v rec))) (\<lambda>signing_key.
     rbind (ascii_encode (canonical rec)) (\<lambda>canonical_bytes.
       if find_sub (tr_sg rec) (str ''..'') \<noteq> None \<or> 58 \<in> set (tr_sg rec)
       then signature_invalid ''draft 01 sg must be bare unpadded base64url raw signature bytes''
       else
         (case b64url_decode_strict (tr_sg rec) of
            Inl _ \<Rightarrow> signature_invalid ''sg= value is not valid base64url''
          | Inr sig \<Rightarrow>
              rbind (jwk_verify pf signing_key canonical_bytes sig) (\<lambda>valid.
                if \<not> valid then signature_invalid ''_dnsid record signature invalid'' else Inr signing_key))))"

section \<open>The identity evidence\<close>

text \<open>
  \<^verbatim>\<open>run_concurrently\<close>. The failure of the secondary branch may stop the primary one at its next look at the
  budget; otherwise the failure of the primary branch comes first. An abandoned branch runs to its end.
\<close>

definition run_concurrently ::
  "('h, 'w) env \<Rightarrow> (('h, 'w) manager_state \<Rightarrow> 'a res \<times> ('h, 'w) manager_state) \<Rightarrow>
   (('h, 'w) manager_state \<Rightarrow> 'b res \<times> ('h, 'w) manager_state) \<Rightarrow>
   ('h, 'w) manager_state \<Rightarrow> ('a \<times> 'b) res \<times> ('h, 'w) manager_state" where
  "run_concurrently en primary secondary st =
     (let (s, st1) = secondary st in
      (case (s, en_preempt en (ms_reads st)) of
         (Inl e, Some partial) \<Rightarrow> (Inl e, st1\<lparr>ms_world := partial (ms_world st1)\<rparr>)
       | _ \<Rightarrow>
           (case primary st1 of
              (Inl e, st2) \<Rightarrow> (Inl e, st2)
            | (Inr x, st2) \<Rightarrow> (case s of Inl e \<Rightarrow> (Inl e, st2) | Inr y \<Rightarrow> (Inr (x, y), st2)))))"

definition identity_log_reader ::
  "('h, 'w) env \<Rightarrow> pystr \<Rightarrow> DnsIdTxtRecord \<Rightarrow> ('h, 'w) manager_state \<Rightarrow> 'h log_handle res \<times> ('h, 'w) manager_state" where
  "identity_log_reader en domain rec =
     sbind (slift (rbind (extract_host (en_platform en) (tr_ku rec)) (\<lambda>h. normalize_fqdn (pf_idna (en_platform en)) h False))) (\<lambda>ku_host.
       if ku_host \<noteq> domain then slift (record_invalid ''ku host does not match identity domain'')
       else
         (case en_registry en of
            Some reg \<Rightarrow> on_readers (\<lambda>n. registry_new_reader reg (tr_lr rec))
          | None \<Rightarrow> slift (rbind (parse_ledger_ref (tr_lr rec)) (\<lambda>(method, _). Inr (NoopLogReader method)))))"

definition separate_operational_key :: "platform \<Rightarrow> DnsIdTxtRecord \<Rightarrow> JWKS \<Rightarrow> JWKS \<Rightarrow> JWK \<Rightarrow> JWK res" where
  "separate_operational_key pf rec ek_jwks jwks signing_key =
     rbind (current_protocol_signing_key (pf_float_int pf) jwks (Some (tr_v rec))) (\<lambda>operational_key.
     rbind (mapR thumbprint ek_jwks) (\<lambda>ek_thumbprints.
     rbind (mapR thumbprint jwks) (\<lambda>ku_thumbprints.
       if set ek_thumbprints \<inter> set ku_thumbprints \<noteq> {}
       then record_invalid ''ek and ku JWK Sets share a key (RFC 7638 thumbprint collision)''
       else
         rbind (thumbprint signing_key) (\<lambda>a.
         rbind (thumbprint operational_key) (\<lambda>b.
           if a = b then record_invalid ''draft 01 ek and ku keys must be distinct'' else Inr operational_key)))))"

definition check_key_age :: "DnsIdTxtRecord \<Rightarrow> Events.pydatetime \<Rightarrow> Events.pydatetime \<Rightarrow> unit res" where
  "check_key_age rec key_bound_at now =
     (if \<not> dt_aware key_bound_at
      then Inl (TypeError ''can't subtract offset-naive and offset-aware datetimes'')
      else
        rbind (key_age_limit (tr_ka rec)) (\<lambda>limit.
          if dt_us now - dt_us key_bound_at > limit
          then Inl (VerificationError KEY_AGE_EXCEEDED ''signing key exceeds maximum key age'' False)
          else Inr ()))"

definition verify_identity_evidence ::
  "('h, 'w) env \<Rightarrow> pystr \<Rightarrow> DnsIdTxtRecord \<Rightarrow> JWKS \<Rightarrow> JWK \<Rightarrow> bool \<Rightarrow> ('h, 'w) manager_state \<Rightarrow>
   (JWKS \<times> TLSCertificate \<times> 'h log_handle \<times> Events.pydatetime) res \<times> ('h, 'w) manager_state" where
  "verify_identity_evidence en domain rec ek_jwks signing_key revalidate =
     sbind (identity_log_reader en domain rec) (\<lambda>log_reader.
       let lm = methods_of (en_readers en) log_reader in
     sbind (run_concurrently en (fetch_key_set en (tr_ku rec) domain False revalidate)
              (case lm_preload_history lm of
                 None \<Rightarrow> sret ()
               | Some preload \<Rightarrow> on_readers (\<lambda>n. preload n domain signing_key))) (\<lambda>((jwks, tls_cert), _).
     sbind (slift (separate_operational_key (en_platform en) rec ek_jwks jwks signing_key)) (\<lambda>operational_key.
     sbind (slift (require_log_method (lm_verify_bilateral_binding lm))) (\<lambda>bind.
     sbind (on_readers (\<lambda>n. bind n rec signing_key operational_key)) (\<lambda>binding.
     sbind (slift (require_log_method (lm_verify_operational_continuity lm))) (\<lambda>continuity.
     sbind (slift (thumbprint operational_key)) (\<lambda>current.
     sbind (on_readers (\<lambda>n. continuity n domain (bb_initial_operational_thumbprint binding) current)) (\<lambda>_.
       if tr_ka rec = [] then sret (jwks, tls_cert, log_reader, ZERO_TIME)
       else
         sbind (on_readers (\<lambda>n. lm_key_timestamp lm n domain current)) (\<lambda>key_bound_at.
         sbind (en_now en) (\<lambda>now.
         sbind (slift (check_key_age rec key_bound_at now)) (\<lambda>_.
           sret (jwks, tls_cert, log_reader, key_bound_at))))))))))))"

section \<open>Verification without the cache\<close>

definition require_fresh_evidence ::
  "('h, 'w) env \<Rightarrow> 'h VerifiedDomain \<Rightarrow> bool \<Rightarrow> ('h, 'w) manager_state \<Rightarrow> unit res \<times> ('h, 'w) manager_state" where
  "require_fresh_evidence en vd fresh_dns_lookup =
     sbind (en_now en) (\<lambda>now.
       (case vd_require_fresh_evidence vd now fresh_dns_lookup of
          Inr u \<Rightarrow> sret u
        | Inl e \<Rightarrow>
            if is_VerificationError e then sbind (cache_evict (en_prefix en) (vd_domain vd)) (\<lambda>_. slift (Inl e))
            else slift (Inl e)))"

definition cache_verification ::
  "('h, 'w) env \<Rightarrow> 'h VerifiedDomain \<Rightarrow> bool \<Rightarrow> ('h, 'w) manager_state \<Rightarrow> 'h VerifiedDomain res \<times> ('h, 'w) manager_state" where
  "cache_verification en vd cache_result =
     sbind (require_fresh_evidence en vd True) (\<lambda>_.
       if \<not> cache_result then sret vd
       else
         sbind (if vd_dns_ttl vd > 0 then cache_put (en_clock en) (en_prefix en) (vd_domain vd) vd
                else cache_evict (en_prefix en) (vd_domain vd)) (\<lambda>_. sret vd))"

text \<open>\<^verbatim>\<open>_verify_domain_uncached\<close> up to the result it builds, and with the last line that stores it.\<close>

definition collect_evidence ::
  "('h, 'w) env \<Rightarrow> pystr \<Rightarrow> bool \<Rightarrow> ('h, 'w) manager_state \<Rightarrow> 'h VerifiedDomain res \<times> ('h, 'w) manager_state" where
  "collect_evidence en domain revalidate =
     sbind (en_now en) (\<lambda>acquired_at.
     sbind (lookup_txt en domain) (\<lambda>(records, dnssec).
     sbind (slift (record_from_dns en domain records dnssec acquired_at)) (\<lambda>(rec, ttl, expires_at).
     sbind (slift (ek_pinning_host (en_platform en) (tr_gi rec) (tr_ek rec))) (\<lambda>host.
     sbind (fetch_key_set en (tr_ek rec) host True revalidate) (\<lambda>(ek_jwks, ek_cert).
     sbind (slift (authenticate_record (en_platform en) rec ek_jwks)) (\<lambda>signing_key.
     sbind (run_concurrently en (verify_identity_evidence en domain rec ek_jwks signing_key revalidate)
              (fetch_active_status en (tr_su rec) revalidate)) (\<lambda>((jwks, cert, log_reader, key_bound_at), status).
     sbind (en_now en) (\<lambda>verified_at.
     sbind (en_now en) (\<lambda>checked_at.
       sret \<lparr>vd_domain = domain, vd_record = rec, vd_jwks = jwks, vd_signing_key = signing_key, vd_tls_cert = cert,
          vd_registry_status = status, vd_verified_at = verified_at, vd_dns_ttl = ttl, vd_key_bound_at = key_bound_at,
          vd_last_status_check_at = checked_at, vd_dnssec_state = dnssec, vd_log_reader = log_reader,
          vd_record_signing_jwks = Some ek_jwks, vd_record_signing_tls_cert = Some ek_cert,
          vd_dns_expires_at = Some expires_at\<rparr>)))))))))"

definition verify_domain_uncached ::
  "('h, 'w) env \<Rightarrow> pystr \<Rightarrow> bool \<Rightarrow> ('h, 'w) manager_state \<Rightarrow> 'h VerifiedDomain res \<times> ('h, 'w) manager_state" where
  "verify_domain_uncached en domain revalidate =
     sbind (collect_evidence en domain revalidate) (\<lambda>vd. cache_verification en vd True)"

section \<open>Verification with the cache\<close>

text \<open>\<^verbatim>\<open>_finish_verification\<close>: evidence of an identity that turned out not to be active is dropped.\<close>

definition finish_verification ::
  "('h, 'w) env \<Rightarrow> pystr \<Rightarrow> (('h, 'w) manager_state \<Rightarrow> 'a res \<times> ('h, 'w) manager_state) \<Rightarrow>
   ('h, 'w) manager_state \<Rightarrow> 'a res \<times> ('h, 'w) manager_state" where
  "finish_verification en domain work st =
     (case work st of
        (Inr x, st1) \<Rightarrow> (Inr x, st1)
      | (Inl e, st1) \<Rightarrow>
          (Inl e, if exn_code e = Some STATUS_NOT_ACTIVE then snd (cache_evict (en_prefix en) domain st1) else st1))"

definition cache_refreshed_status ::
  "('h, 'w) env \<Rightarrow> pystr \<Rightarrow> 'h VerifiedDomain \<Rightarrow> AgentStatus \<Rightarrow> ('h, 'w) manager_state \<Rightarrow>
   'h VerifiedDomain res \<times> ('h, 'w) manager_state" where
  "cache_refreshed_status en domain cached status =
     (if as_state status \<noteq> str ''ACTIVE'' then sbind (cache_evict (en_prefix en) domain) (\<lambda>_. slift not_active)
      else
        sbind (en_now en) (\<lambda>now.
          let refreshed = cached\<lparr>vd_registry_status := status, vd_last_status_check_at := now\<rparr> in
        sbind (require_fresh_evidence en refreshed False) (\<lambda>_.
        sbind (cache_get (en_clock en) (en_prefix en) domain) (\<lambda>current.
          (case current of
             None \<Rightarrow> slift (Inl (VerificationError STATUS_UNAVAILABLE ''identity invalidated during status refresh'' True))
           | Some c \<Rightarrow>
               if c \<noteq> cached then sret c
               else sbind (cache_put (en_clock en) (en_prefix en) domain refreshed) (\<lambda>_. sret refreshed))))))"

text \<open>
  \<^verbatim>\<open>_refresh_status\<close> as \<^verbatim>\<open>_complete_verification\<close> runs it: evidence from a lookup that it made itself, because the
  cached entry is gone, is discarded if its TTL is zero, and the work is submitted again. Each round looks at the
  deadline; \<open>rounds\<close> is how many start before it.
\<close>

fun refresh_status ::
  "('h, 'w) env \<Rightarrow> nat \<Rightarrow> pystr \<Rightarrow> 'h VerifiedDomain \<Rightarrow> ('h, 'w) manager_state \<Rightarrow> 'h VerifiedDomain res \<times> ('h, 'w) manager_state" where
  "refresh_status en 0 domain cached =
     slift (Inl (VerificationError DEADLINE_EXCEEDED ''verification deadline exceeded or cancelled'' True))"
| "refresh_status en (Suc rounds) domain cached =
     sbind (cache_get (en_clock en) (en_prefix en) domain) (\<lambda>latest.
       (case latest of
          None \<Rightarrow>
            sbind (finish_verification en domain (verify_domain_uncached en domain False)) (\<lambda>vd.
              if vd_dns_ttl vd = 0 then refresh_status en rounds domain cached else sret vd)
        | Some l \<Rightarrow>
            sbind (slift (time_after (vd_last_status_check_at l) (vd_last_status_check_at cached))) (\<lambda>newer.
              if newer then sret l
              else
                sbind (fetch_status en (tr_su (vd_record l)) False) (\<lambda>status.
                  cache_refreshed_status en domain l status))))"

definition reusable_verification ::
  "('h, 'w) env \<Rightarrow> nat \<Rightarrow> pystr \<Rightarrow> ('h, 'w) manager_state \<Rightarrow> 'h VerifiedDomain res \<times> ('h, 'w) manager_state" where
  "reusable_verification en rounds domain =
     sbind (cache_get (en_clock en) (en_prefix en) domain) (\<lambda>cached.
       (case cached of
          None \<Rightarrow> finish_verification en domain (verify_domain_uncached en domain False)
        | Some c \<Rightarrow>
            sbind (en_now en) (\<lambda>now.
              if dt_us now - dt_us (vd_last_status_check_at c) < cf_status_check_interval (en_config en) then sret c
              else finish_verification en domain (refresh_status en rounds domain c))))"

section \<open>Acceptance\<close>

definition enforce_mtls_policy :: "platform \<Rightarrow> DnsIdTxtRecord \<Rightarrow> pystr \<Rightarrow> TLSCertificate option \<Rightarrow> unit res" where
  "enforce_mtls_policy pf rec domain peer_cert =
     (if str ''mtls'' \<notin> policy_flags rec then Inr ()
      else
        (case peer_cert of
           None \<Rightarrow> Inl (VerificationError TLS_ERROR ''fl=mtls requires a peer certificate but none was supplied'' False)
         | Some cert \<Rightarrow>
             (case validate_against_fqdn (pf_idna pf) cert domain of
                Inl _ \<Rightarrow> Inl (VerificationError TLS_ERROR ''fl=mtls peer certificate does not match'' False)
              | Inr _ \<Rightarrow> Inr ())))"

definition not_accepted :: "string \<Rightarrow> 'a res" where
  "not_accepted m = Inl (VerificationError COUNTERPARTY_NOT_ACCEPTED m False)"

fun match_entity :: "pystr \<Rightarrow> pystr \<Rightarrow> TrustedEntity list \<Rightarrow> unit res" where
  "match_entity gi t [] = not_accepted ''governance ID is not in the configured allowlist''"
| "match_entity gi t (e # es) =
     (if te_governance_id e \<noteq> gi then match_entity gi t es
      else (case te_entity_key_thumbprints e of
              None \<Rightarrow> Inr ()
            | Some pins \<Rightarrow>
                if t \<in> set pins then Inr () else not_accepted ''entity key does not match a configured pin''))"

definition enforce_counterparty_acceptance :: "VerificationConfig \<Rightarrow> 'h VerifiedDomain \<Rightarrow> unit res" where
  "enforce_counterparty_acceptance cfg vd =
     (case cf_trusted_entities cfg of
        None \<Rightarrow> Inr ()
      | Some es \<Rightarrow> rbind (signing_key_thumbprint vd) (\<lambda>t. match_entity (tr_gi (vd_record vd)) t es))"

definition accept_verification ::
  "('h, 'w) env \<Rightarrow> pystr \<Rightarrow> 'h VerifiedDomain \<Rightarrow> TLSCertificate option \<Rightarrow> bool \<Rightarrow> ('h, 'w) manager_state \<Rightarrow>
   'h VerifiedDomain res \<times> ('h, 'w) manager_state" where
  "accept_verification en domain vd peer_cert acceptance =
     sbind (slift (if acceptance then
                     rbind (enforce_mtls_policy (en_platform en) (vd_record vd) domain peer_cert) (\<lambda>_.
                       enforce_counterparty_acceptance (en_config en) vd)
                   else Inr ())) (\<lambda>_.
     sbind (require_fresh_evidence en vd (vd_dns_ttl vd = 0)) (\<lambda>_. sret vd))"

definition verify ::
  "('h, 'w) env \<Rightarrow> nat \<Rightarrow> pystr \<Rightarrow> TLSCertificate option \<Rightarrow> bool \<Rightarrow> bool \<Rightarrow> ('h, 'w) manager_state \<Rightarrow>
   'h VerifiedDomain res \<times> ('h, 'w) manager_state" where
  "verify en rounds name peer_cert acceptance refresh st =
     (if ms_closed st then (Inl (RuntimeError ''IdentityManager is closing or closed''), st)
      else
        sbind (slift (normalize_fqdn (pf_idna (en_platform en)) name False)) (\<lambda>domain.
        sbind (if refresh then finish_verification en domain (verify_domain_uncached en domain True)
               else reusable_verification en rounds domain) (\<lambda>vd.
          accept_verification en domain vd peer_cert acceptance)) st)"

definition verify_domain ::
  "('h, 'w) env \<Rightarrow> nat \<Rightarrow> pystr \<Rightarrow> TLSCertificate option \<Rightarrow> ('h, 'w) manager_state \<Rightarrow>
   'h VerifiedDomain res \<times> ('h, 'w) manager_state" where
  "verify_domain en rounds name peer_cert = verify en rounds name peer_cert True False"

definition refresh_domain ::
  "('h, 'w) env \<Rightarrow> pystr \<Rightarrow> TLSCertificate option \<Rightarrow> ('h, 'w) manager_state \<Rightarrow>
   'h VerifiedDomain res \<times> ('h, 'w) manager_state" where
  "refresh_domain en name peer_cert = verify en 0 name peer_cert True True"

definition verify_publication_evidence ::
  "('h, 'w) env \<Rightarrow> nat \<Rightarrow> pystr \<Rightarrow> bool \<Rightarrow> ('h, 'w) manager_state \<Rightarrow> 'h VerifiedDomain res \<times> ('h, 'w) manager_state" where
  "verify_publication_evidence en rounds name refresh = verify en rounds name None False refresh"

definition evict_domain :: "('h, 'w) env \<Rightarrow> pystr \<Rightarrow> ('h, 'w) manager_state \<Rightarrow> unit res \<times> ('h, 'w) manager_state" where
  "evict_domain en name =
     sbind (slift (normalize_fqdn (pf_idna (en_platform en)) name False)) (\<lambda>domain. cache_evict (en_prefix en) domain)"

definition verify_log_evidence ::
  "('h, 'w) env \<Rightarrow> 'h VerifiedDomain \<Rightarrow> Events.pydatetime option \<Rightarrow> ('h, 'w) manager_state \<Rightarrow>
   LoggedStateEvidence res \<times> ('h, 'w) manager_state" where
  "verify_log_evidence en vd moment =
     sbind (case moment of Some t \<Rightarrow> sret t | None \<Rightarrow> en_now en) (\<lambda>t.
       on_readers (\<lambda>n. lm_verify_non_revocation (methods_of (en_readers en) (vd_log_reader vd)) n (vd_domain vd) t))"

definition load_domain_log ::
  "('h, 'w) env \<Rightarrow> 'h VerifiedDomain \<Rightarrow> ('h, 'w) manager_state \<Rightarrow> DomainLog res \<times> ('h, 'w) manager_state" where
  "load_domain_log en vd =
     sbind (on_readers (\<lambda>n. lm_rebuild_history (methods_of (en_readers en) (vd_log_reader vd)) n (vd_domain vd))) (\<lambda>events.
       sret \<lparr>dl_domain = vd_domain vd, dl_events = events\<rparr>)"

end
