(* ===== verification/Verified_Identity.thy ===== *)
theory Verified_Identity
  imports Domain_Verifier
begin

text \<open>
  What the verifier of \<open>Domain_Verifier\<close> establishes. First one lemma per step, which says what a result of that
  step shows; then the evidence behind a verified domain (\<open>evidence_ok\<close>, \<open>logged_evidence\<close>) and the invariant of the
  cache; then two interfaces: \<open>lifecycle_log\<close> is what the manager relies on from log readers, and \<open>verifier_env\<close> adds
  what it relies on from the factories that make them. The lemmas of \<open>verifier_env\<close> carry the invariant through every
  public call of the manager and to every sequence of calls (\<open>manager_call\<close>).
\<close>

section \<open>What each step establishes\<close>

definition signing_subset :: "JWKS \<Rightarrow> JWKS" where
  "signing_subset ks = filter (\<lambda>k. falsy (jwk_use k) \<or> jwk_use k = JStr (str ''sig'')) ks"

lemma current_key_Inr:
  "current_protocol_signing_key fi ks profile = Inr k \<Longrightarrow> signing_subset ks = [k]"
  by (auto simp: current_protocol_signing_key_def signing_subset_def Let_def rbind_Inr_iff length_Suc_conv
      split: if_splits option.splits)

definition dnssec_accepted :: "DNSSECMode option \<Rightarrow> DNSSECState option \<Rightarrow> bool" where
  "dnssec_accepted mode s \<longleftrightarrow>
     (case s of None \<Rightarrow> False
      | Some d \<Rightarrow> d \<noteq> FAILED \<and> (mode = Some VALIDATED \<longrightarrow> d \<noteq> UNKNOWN) \<and> (mode = Some REQUIRED \<longrightarrow> d = VALID))"

lemma record_from_dns_Inr:
  assumes "record_from_dns en domain records dnssec acquired_at = Inr (rec, ttl, expires_at)"
  obtains tx raw r where "records = [tx]" "concatenate_strings tx = Inr raw" "parse_record raw = Inr r"
    "rec = r\<lparr>tr_identity_fqdn := domain\<rparr>"
    "validate_record (pf_idna (en_platform en)) (pf_lower (en_platform en)) (pf_netloc_ok (en_platform en)) rec = Inr ()"
    "ttl = tx_ttl tx" "0 \<le> ttl" "add_us acquired_at (ttl * 1000000) = Inr expires_at"
    "dnssec_accepted (cf_dnssec_mode (en_config en)) dnssec"
  using assms
  by (auto simp: record_from_dns_def Let_def rbind_Inr_iff dnssec_accepted_def length_Suc_conv
      split: if_splits sum.splits option.splits)

definition record_signed_by :: "platform \<Rightarrow> DnsIdTxtRecord \<Rightarrow> JWK \<Rightarrow> bool" where
  "record_signed_by pf rec k \<longleftrightarrow>
     (\<forall>c \<in> set (canonical rec). c < 128)
     \<and> (\<exists>sig. b64url_decode_strict (tr_sg rec) = Inr sig \<and> jwk_verify pf k (map of_nat (canonical rec)) sig = Inr True)"

lemma authenticate_Inr:
  "authenticate_record pf rec ek_jwks = Inr k \<Longrightarrow> signing_subset ek_jwks = [k] \<and> record_signed_by pf rec k"
  by (auto simp: authenticate_record_def rbind_Inr_iff signature_invalid_def ascii_encode_def record_signed_by_def not_le
      split: if_splits sum.splits dest: current_key_Inr)

definition keys_disjoint :: "JWKS \<Rightarrow> JWKS \<Rightarrow> bool" where
  "keys_disjoint ek ku \<longleftrightarrow> (\<exists>ts us. mapR thumbprint ek = Inr ts \<and> mapR thumbprint ku = Inr us \<and> set ts \<inter> set us = {})"

lemma separate_Inr:
  assumes "separate_operational_key pf rec ek_jwks jwks k = Inr op"
  shows "signing_subset jwks = [op]" "keys_disjoint ek_jwks jwks"
  using assms
  by (auto simp: separate_operational_key_def rbind_Inr_iff keys_disjoint_def split: if_splits dest: current_key_Inr)

lemma run_concurrently_Inr:
  "run_concurrently en primary secondary st = (Inr (x, y), st') \<longleftrightarrow>
     (\<exists>st1. secondary st = (Inr y, st1) \<and> primary st1 = (Inr x, st'))"
  by (auto simp: run_concurrently_def Let_def split: prod.splits sum.splits option.splits)

lemma next_read_Inr [simp]:
  "next_read f st = (r, st') \<longleftrightarrow> f (ms_reads st) = r \<and> st' = st\<lparr>ms_reads := Suc (ms_reads st)\<rparr>"
  by (auto simp: next_read_def)

lemma en_now_Inr [simp]:
  "en_now en st = (Inr t, st') \<longleftrightarrow>
     t = \<lparr>dt_aware = True, dt_us = en_clock en (ms_reads st)\<rparr> \<and> st' = st\<lparr>ms_reads := Suc (ms_reads st)\<rparr>"
  by (auto simp: en_now_def read_clock_def)

lemma sbind_now:
  "sbind (en_now en) f st =
     f \<lparr>dt_aware = True, dt_us = en_clock en (ms_reads st)\<rparr> (st\<lparr>ms_reads := Suc (ms_reads st)\<rparr>)"
  by (simp add: sbind_def en_now_def read_clock_def)

lemma on_readers_Inr:
  "on_readers f st = (r, st') \<longleftrightarrow>
     (\<exists>w. f (ms_reads st) (ms_world st) = (r, w) \<and> st' = st\<lparr>ms_reads := Suc (ms_reads st), ms_world := w\<rparr>)"
  by (auto simp: on_readers_def Let_def split: prod.splits)

lemma active_status_Inr:
  "fetch_active_status en su rv st = (Inr s, st') \<Longrightarrow> as_state s = str ''ACTIVE''"
  by (auto simp: fetch_active_status_def sbind_Inr require_active_status_def not_active_def split: if_splits)

section \<open>Effects on the state\<close>

text \<open>Reads are numbered upwards, and a call on valid readers leaves them valid, at a later point.\<close>

definition moved :: "('w \<Rightarrow> bool) \<Rightarrow> ('w \<Rightarrow> 'w \<Rightarrow> bool) \<Rightarrow> ('h, 'w) manager_state \<Rightarrow> ('h, 'w) manager_state \<Rightarrow> bool" where
  "moved valid later st st' \<longleftrightarrow>
     ms_reads st \<le> ms_reads st' \<and> ms_closed st' = ms_closed st
     \<and> (valid (ms_world st) \<longrightarrow> valid (ms_world st') \<and> later (ms_world st) (ms_world st'))"

definition quiet ::
  "('w \<Rightarrow> bool) \<Rightarrow> ('w \<Rightarrow> 'w \<Rightarrow> bool) \<Rightarrow> (('h, 'w) manager_state \<Rightarrow> 'a \<times> ('h, 'w) manager_state) \<Rightarrow> bool" where
  "quiet valid later m \<longleftrightarrow>
     (\<forall>st r st'. m st = (r, st') \<longrightarrow> moved valid later st st' \<and> map_of (ms_cache st') \<subseteq>\<^sub>m map_of (ms_cache st))"

definition keeps :: "('w \<Rightarrow> bool) \<Rightarrow> ('w \<Rightarrow> 'w \<Rightarrow> bool) \<Rightarrow> ('w \<Rightarrow> 'a \<times> 'w) \<Rightarrow> bool" where
  "keeps valid later f \<longleftrightarrow> (\<forall>w r w'. valid w \<longrightarrow> f w = (r, w') \<longrightarrow> valid w' \<and> later w w')"

section \<open>What a verified domain is\<close>

text \<open>
  What a verified domain carries: a validated record for the domain, signed by the one signing key of the entity
  key set, an operational key set that shares no key with it and has one signing key, an ACTIVE status, a DNSSEC
  state that the mode accepts and a log reader that could check the record.
\<close>

definition evidence_ok :: "('h, 'w) env \<Rightarrow> 'h VerifiedDomain \<Rightarrow> bool" where
  "evidence_ok en vd \<longleftrightarrow>
     (\<exists>raw r. parse_record raw = Inr r \<and> vd_record vd = r\<lparr>tr_identity_fqdn := vd_domain vd\<rparr>)
     \<and> validate_record (pf_idna (en_platform en)) (pf_lower (en_platform en)) (pf_netloc_ok (en_platform en)) (vd_record vd) = Inr ()
     \<and> (\<exists>ek_jwks op. vd_record_signing_jwks vd = Some ek_jwks \<and> signing_subset ek_jwks = [vd_signing_key vd]
          \<and> signing_subset (vd_jwks vd) = [op] \<and> keys_disjoint ek_jwks (vd_jwks vd))
     \<and> record_signed_by (en_platform en) (vd_record vd) (vd_signing_key vd)
     \<and> as_state (vd_registry_status vd) = str ''ACTIVE''
     \<and> dnssec_accepted (cf_dnssec_mode (en_config en)) (vd_dnssec_state vd)
     \<and> 0 \<le> vd_dns_ttl vd \<and> (\<exists>h. vd_log_reader vd = BoundReader h)"

definition logged_evidence ::
  "('w \<Rightarrow> 'h \<Rightarrow> DnsIdTxtRecord \<Rightarrow> JWK \<Rightarrow> pystr \<Rightarrow> bool) \<Rightarrow> 'w \<Rightarrow> 'h VerifiedDomain \<Rightarrow> bool" where
  "logged_evidence log_binds w vd \<longleftrightarrow>
     (\<exists>h op t. vd_log_reader vd = BoundReader h \<and> signing_subset (vd_jwks vd) = [op] \<and> thumbprint op = Inr t
        \<and> log_binds w h (vd_record vd) (vd_signing_key vd) t)"

text \<open>The invariant of the cache, and what an operation of the verifier keeps and returns.\<close>

definition cache_ok ::
  "('h, 'w) env \<Rightarrow> ('w \<Rightarrow> 'h \<Rightarrow> DnsIdTxtRecord \<Rightarrow> JWK \<Rightarrow> pystr \<Rightarrow> bool) \<Rightarrow> ('h, 'w) manager_state \<Rightarrow> bool" where
  "cache_ok en log_binds st \<longleftrightarrow>
     (\<forall>k vd. map_of (ms_cache st) k = Some vd \<longrightarrow>
        k = en_prefix en @ vd_domain vd \<and> evidence_ok en vd \<and> logged_evidence log_binds (ms_world st) vd)"

definition sound_result ::
  "('h, 'w) env \<Rightarrow> ('w \<Rightarrow> bool) \<Rightarrow> ('w \<Rightarrow> 'w \<Rightarrow> bool) \<Rightarrow> ('w \<Rightarrow> 'h \<Rightarrow> DnsIdTxtRecord \<Rightarrow> JWK \<Rightarrow> pystr \<Rightarrow> bool) \<Rightarrow> pystr \<Rightarrow>
   ('h, 'w) manager_state \<Rightarrow> 'h VerifiedDomain res \<Rightarrow> ('h, 'w) manager_state \<Rightarrow> bool" where
  "sound_result en valid later log_binds domain st r st' \<longleftrightarrow>
     moved valid later st st' \<and> cache_ok en log_binds st'
     \<and> (\<forall>vd. r = Inr vd \<longrightarrow> vd_domain vd = domain \<and> evidence_ok en vd \<and> logged_evidence log_binds (ms_world st') vd)"

definition sound_op ::
  "('h, 'w) env \<Rightarrow> ('w \<Rightarrow> bool) \<Rightarrow> ('w \<Rightarrow> 'w \<Rightarrow> bool) \<Rightarrow> ('w \<Rightarrow> 'h \<Rightarrow> DnsIdTxtRecord \<Rightarrow> JWK \<Rightarrow> pystr \<Rightarrow> bool) \<Rightarrow> pystr \<Rightarrow>
   (('h, 'w) manager_state \<Rightarrow> 'h VerifiedDomain res \<times> ('h, 'w) manager_state) \<Rightarrow> bool" where
  "sound_op en valid later log_binds domain m \<longleftrightarrow>
     (\<forall>st r st'. m st = (r, st') \<longrightarrow> valid (ms_world st) \<longrightarrow> cache_ok en log_binds st \<longrightarrow>
        sound_result en valid later log_binds domain st r st')"

section \<open>The interface to the log\<close>

text \<open>The calls on one manager.\<close>

inductive manager_call :: "('h, 'w) env \<Rightarrow> ('h, 'w) manager_state \<Rightarrow> ('h, 'w) manager_state \<Rightarrow> bool" for en where
  verify: "verify en rounds name peer_cert acceptance refresh st = (r, st') \<Longrightarrow> manager_call en st st'"
| evict: "evict_domain en name st = (r1, st') \<Longrightarrow> manager_call en st st'"
| log_evidence: "verify_log_evidence en vd moment st = (r2, st') \<Longrightarrow> manager_call en st st'"
| domain_log: "load_domain_log en vd st = (r3, st') \<Longrightarrow> manager_call en st st'"
| closing: "manager_call en st (st\<lparr>ms_closed := True\<rparr>)"

text \<open>
  The interface between the verifier and the log readers. \<open>log_binds w h rec k t\<close> says that the log of reader \<open>h\<close>
  binds the record's domain and governance domain to the entity key \<open>k\<close> and has \<open>t\<close> as its current operational
  key; a reader promises it when it was opened for the record's log and has accepted the binding and then the
  continuity of the key.
\<close>

locale lifecycle_log =
  fixes readers :: "'h \<Rightarrow> 'w log_methods" and valid :: "'w \<Rightarrow> bool" and later :: "'w \<Rightarrow> 'w \<Rightarrow> bool"
    and log_binds :: "'w \<Rightarrow> 'h \<Rightarrow> DnsIdTxtRecord \<Rightarrow> JWK \<Rightarrow> pystr \<Rightarrow> bool" and opened :: "'w \<Rightarrow> 'h \<Rightarrow> pystr \<Rightarrow> bool"
  assumes later_refl: "later w w"
    and later_trans: "later w w' \<Longrightarrow> later w' w'' \<Longrightarrow> later w w''"
    and logged_later: "log_binds w h rec k t \<Longrightarrow> later w w' \<Longrightarrow> log_binds w' h rec k t"
    and opened_later: "opened w h lr \<Longrightarrow> later w w' \<Longrightarrow> opened w' h lr"
    and timestamp_keeps: "keeps valid later (lm_key_timestamp (readers h) n domain t)"
    and revocation_keeps: "keeps valid later (lm_verify_non_revocation (readers h) n domain moment)"
    and rebuild_keeps: "keeps valid later (lm_rebuild_history (readers h) n domain)"
    and preload_keeps: "lm_preload_history (readers h) = Some preload \<Longrightarrow> keeps valid later (preload n domain k)"
    and binding_keeps: "lm_verify_bilateral_binding (readers h) = Some bind \<Longrightarrow> keeps valid later (bind n rec k op)"
    and continuity_keeps:
      "lm_verify_operational_continuity (readers h) = Some continuity \<Longrightarrow> keeps valid later (continuity n domain first current)"
    and checked_keys:
      "valid w \<Longrightarrow> opened w h (tr_lr rec) \<Longrightarrow> lm_verify_bilateral_binding (readers h) = Some bind \<Longrightarrow> bind n rec k op w = (Inr b, w1) \<Longrightarrow>
       lm_verify_operational_continuity (readers h) = Some continuity \<Longrightarrow>
       continuity n' (tr_identity_fqdn rec) (bb_initial_operational_thumbprint b) current w1 = (Inr (), w2) \<Longrightarrow>
       log_binds w2 h rec k current"
begin

lemma logged_evidence_later: "logged_evidence log_binds w vd \<Longrightarrow> later w w' \<Longrightarrow> logged_evidence log_binds w' vd"
  unfolding logged_evidence_def using logged_later by blast

end

text \<open>What the verifier adds: its factories and an interrupted branch are calls on the readers, too.\<close>

locale verifier_env = lifecycle_log "en_readers en" valid later log_binds opened
  for en :: "('h, 'w) env" and valid :: "'w \<Rightarrow> bool" and later :: "'w \<Rightarrow> 'w \<Rightarrow> bool"
    and log_binds :: "'w \<Rightarrow> 'h \<Rightarrow> DnsIdTxtRecord \<Rightarrow> JWK \<Rightarrow> pystr \<Rightarrow> bool" and opened :: "'w \<Rightarrow> 'h \<Rightarrow> pystr \<Rightarrow> bool" +
  assumes factory_keeps: "en_registry en = Some reg \<Longrightarrow> map_of reg method = Some factory \<Longrightarrow> keeps valid later (factory lr)"
    and factory_opens: "en_registry en = Some reg \<Longrightarrow> map_of reg method = Some factory \<Longrightarrow> valid w \<Longrightarrow>
      factory lr w = (Inr h, w') \<Longrightarrow> opened w' h lr"
    and preempt_keeps: "en_preempt en n = Some partial \<Longrightarrow> valid w \<Longrightarrow> valid (partial w) \<and> later w (partial w)"
begin

lemma moved_refl: "moved valid later st st"
  by (simp add: moved_def later_refl)

lemma moved_trans: "moved valid later st st1 \<Longrightarrow> moved valid later st1 st2 \<Longrightarrow> moved valid later st st2"
  by (auto simp: moved_def intro: later_trans)

lemma quietD: "quiet valid later m \<Longrightarrow> m st = (r, st') \<Longrightarrow> moved valid later st st'"
  by (simp add: quiet_def)

lemma quiet_pure:
  "quiet valid later (sret x)" "quiet valid later (slift r)"
  by (auto simp: quiet_def sret_def slift_def moved_refl)

lemma quiet_reads:
  "quiet valid later (next_read f)" "quiet valid later (en_now en)"
  by (auto simp: quiet_def en_now_def read_clock_def moved_def later_refl)

lemma quiet_readers: "(\<And>n. keeps valid later (f n)) \<Longrightarrow> quiet valid later (on_readers f)"
  unfolding quiet_def on_readers_Inr moved_def keeps_def by fastforce

lemma quiet_sbind: "quiet valid later m \<Longrightarrow> (\<And>x. quiet valid later (f x)) \<Longrightarrow> quiet valid later (sbind m f)"
  unfolding quiet_def sbind_def
  by (fastforce split: prod.splits sum.splits intro: moved_trans map_le_trans)

lemma quiet_concurrently:
  assumes p: "quiet valid later p" and s: "quiet valid later s"
  shows "quiet valid later (run_concurrently en p s)"
  unfolding quiet_def
proof (intro allI impI)
  fix st r st'
  assume run: "run_concurrently en p s st = (r, st')"
  obtain y st1 where y: "s st = (y, st1)" by fastforce
  obtain x st2 where x: "p st1 = (x, st2)" by fastforce
  have 1: "moved valid later st st1" "map_of (ms_cache st1) \<subseteq>\<^sub>m map_of (ms_cache st)"
    using s y by (auto simp: quiet_def)
  have 2: "moved valid later st1 st2" "map_of (ms_cache st2) \<subseteq>\<^sub>m map_of (ms_cache st1)"
    using p x by (auto simp: quiet_def)
  have 3: "moved valid later st1 (st1\<lparr>ms_world := partial (ms_world st1)\<rparr>)" if "en_preempt en (ms_reads st) = Some partial" for partial
    using preempt_keeps [OF that] by (simp add: moved_def)
  have "st' = st2 \<or> (\<exists>partial. en_preempt en (ms_reads st) = Some partial \<and> st' = st1\<lparr>ms_world := partial (ms_world st1)\<rparr>)"
    using run x y by (auto simp: run_concurrently_def Let_def split: sum.splits option.splits)
  then show "moved valid later st st' \<and> map_of (ms_cache st') \<subseteq>\<^sub>m map_of (ms_cache st)"
    using 1 2 3 by (auto intro: moved_trans map_le_trans)
qed


lemma quiet_lookup:
  "quiet valid later (lookup_txt en domain)" "quiet valid later (fetch_key_set en uri host boundary rv)"
  "quiet valid later (fetch_status en su rv)" "quiet valid later (fetch_active_status en su rv)"
  by (simp_all add: lookup_txt_def fetch_key_set_def fetch_status_def fetch_active_status_def quiet_reads quiet_sbind quiet_pure)

lemma registry_keeps: "en_registry en = Some reg \<Longrightarrow> keeps valid later (registry_new_reader reg lr)"
  using factory_keeps [of reg]
  by (auto simp: registry_new_reader_def keeps_def later_refl split: sum.splits option.splits prod.splits)

lemma quiet_identity_log_reader: "quiet valid later (identity_log_reader en domain rec)"
  by (auto simp: identity_log_reader_def intro!: quiet_sbind quiet_pure quiet_readers registry_keeps split: option.splits)

lemma noop_keeps: "keeps valid later noop_raise"
  by (auto simp: keeps_def noop_raise_def later_refl)

lemma methods_keep:
  "keeps valid later (lm_key_timestamp (methods_of (en_readers en) h) n domain t)"
  "keeps valid later (lm_verify_non_revocation (methods_of (en_readers en) h) n domain moment)"
  "keeps valid later (lm_rebuild_history (methods_of (en_readers en) h) n domain)"
  "lm_preload_history (methods_of (en_readers en) h) = Some preload \<Longrightarrow> keeps valid later (preload n domain k)"
  "lm_verify_bilateral_binding (methods_of (en_readers en) h) = Some bind \<Longrightarrow> keeps valid later (bind n rec k op)"
  "lm_verify_operational_continuity (methods_of (en_readers en) h) = Some continuity \<Longrightarrow>
     keeps valid later (continuity n domain first current)"
  by (auto simp: methods_of_def noop_methods_def noop_keeps timestamp_keeps revocation_keeps rebuild_keeps preload_keeps binding_keeps continuity_keeps
      split: log_handle.splits)

lemma quiet_sbind_slift: "(\<And>x. r = Inr x \<Longrightarrow> quiet valid later (f x)) \<Longrightarrow> quiet valid later (sbind (slift r) f)"
  by (cases r) (auto simp: quiet_def sbind_def slift_def moved_refl)

lemma require_method_Inr: "require_log_method m = Inr f \<longleftrightarrow> m = Some f"
  by (auto simp: require_log_method_def log_err_def split: option.splits)

lemma quiet_preload:
  "quiet valid later (case lm_preload_history (methods_of (en_readers en) h) of
     None \<Rightarrow> sret () | Some preload \<Rightarrow> on_readers (\<lambda>n. preload n domain k))"
  by (auto simp: methods_keep(4) intro!: quiet_pure quiet_readers split: option.splits)

lemma quiet_key_age:
  "quiet valid later (if tr_ka rec = [] then sret (f ZERO_TIME)
     else sbind (on_readers (\<lambda>n. lm_key_timestamp (methods_of (en_readers en) h) n domain t)) (\<lambda>key_bound_at.
       sbind (en_now en) (\<lambda>now. sbind (slift (check_key_age rec key_bound_at now)) (\<lambda>_. sret (f key_bound_at)))))"
  by (simp add: quiet_pure quiet_sbind quiet_readers quiet_reads methods_keep(1))

lemma quiet_identity_evidence: "quiet valid later (verify_identity_evidence en domain rec ek_jwks k rv)"
  unfolding verify_identity_evidence_def Let_def
  by (intro quiet_sbind quiet_identity_log_reader quiet_concurrently quiet_lookup quiet_preload)
    (auto intro!: quiet_sbind quiet_sbind_slift quiet_readers quiet_pure
      simp: require_method_Inr methods_keep(5,6) quiet_key_age [where f = "\<lambda>t. (_, _, _, t)"] split: prod.splits)

lemma quiet_collect: "quiet valid later (collect_evidence en domain rv)"
  unfolding collect_evidence_def
  by (auto intro!: quiet_sbind quiet_pure quiet_reads quiet_lookup quiet_concurrently quiet_identity_evidence split: prod.splits)

lemma opened_reader:
  "identity_log_reader en domain rec st = (Inr (BoundReader h), st1) \<Longrightarrow> valid (ms_world st) \<Longrightarrow> opened (ms_world st1) h (tr_lr rec)"
  by (auto simp: identity_log_reader_def sbind_Inr on_readers_Inr registry_new_reader_def rbind_Inr_iff
      split: if_splits option.splits sum.splits prod.splits intro: factory_opens)

lemma identity_evidence_Inr:
  assumes e: "verify_identity_evidence en domain rec ek_jwks k rv st = (Inr (jwks, cert, handle, bound), st')"
    and v: "valid (ms_world st)" and d: "tr_identity_fqdn rec = domain"
  obtains h op t where "handle = BoundReader h" "signing_subset jwks = [op]" "keys_disjoint ek_jwks jwks"
    "thumbprint op = Inr t" "log_binds (ms_world st') h rec k t"
proof -
  let ?lm = "methods_of (en_readers en) handle"
  from e obtain st1 st2 st3 st4 op bind b continuity t where
    1: "identity_log_reader en domain rec st = (Inr handle, st1)"
    and 2: "run_concurrently en (fetch_key_set en (tr_ku rec) domain False rv)
        (case lm_preload_history ?lm of None \<Rightarrow> sret () | Some preload \<Rightarrow> on_readers (\<lambda>n. preload n domain k)) st1
        = (Inr ((jwks, cert), ()), st2)"
    and 3: "separate_operational_key (en_platform en) rec ek_jwks jwks k = Inr op"
    and 4: "lm_verify_bilateral_binding ?lm = Some bind" "on_readers (\<lambda>n. bind n rec k op) st2 = (Inr b, st3)"
    and 5: "lm_verify_operational_continuity ?lm = Some continuity" "thumbprint op = Inr t"
      "on_readers (\<lambda>n. continuity n domain (bb_initial_operational_thumbprint b) t) st3 = (Inr (), st4)"
    and 6: "(if tr_ka rec = [] then sret (jwks, cert, handle, ZERO_TIME)
       else sbind (on_readers (\<lambda>n. lm_key_timestamp ?lm n domain t)) (\<lambda>key_bound_at.
         sbind (en_now en) (\<lambda>now. sbind (slift (check_key_age rec key_bound_at now)) (\<lambda>_.
           sret (jwks, cert, handle, key_bound_at))))) st4 = (Inr (jwks, cert, handle, bound), st')"
    by (auto simp: verify_identity_evidence_def Let_def sbind_Inr require_method_Inr split: if_splits)
  from 4(1) obtain h where h: "handle = BoundReader h" by (cases handle) (auto simp: methods_of_def noop_methods_def)
  have o: "opened (ms_world st1) h (tr_lr rec)"
    using opened_reader 1 v by (simp add: h)
  have "moved valid later st st2"
    using quietD [OF quiet_identity_log_reader 1] quietD [OF quiet_concurrently [OF quiet_lookup(2) quiet_preload] 2]
    by (rule moved_trans)
  then have "valid (ms_world st2)" using v by (auto simp: moved_def)
  moreover have "opened (ms_world st2) h (tr_lr rec)"
    using quietD [OF quiet_identity_log_reader 1] quietD [OF quiet_concurrently [OF quiet_lookup(2) quiet_preload] 2] v opened_later o
    by (auto simp: moved_def)
  moreover have "moved valid later st2 st3" by (rule quietD [OF quiet_readers 4(2)]) (rule methods_keep(5) [OF 4(1)])
  moreover have "moved valid later st3 st4" by (rule quietD [OF quiet_readers 5(3)]) (rule methods_keep(6) [OF 5(1)])
  ultimately have "valid (ms_world st4)" "log_binds (ms_world st4) h rec k t"
    using 4 5 by (auto simp: h methods_of_def on_readers_Inr d moved_def intro: checked_keys)
  moreover from this(1) have "later (ms_world st4) (ms_world st')"
    using quietD [OF quiet_key_age [where f = "\<lambda>t. (jwks, cert, handle, t)"] 6] by (simp add: moved_def)
  ultimately show ?thesis using that h separate_Inr [OF 3] 5(2) logged_later by blast
qed

text \<open>The collected evidence.\<close>

lemma collect_Inr:
  assumes "collect_evidence en domain rv st = (Inr vd, st')" and v: "valid (ms_world st)"
  shows "evidence_ok en vd" "vd_domain vd = domain" "logged_evidence log_binds (ms_world st') vd"
proof -
  from assms(1) obtain records dnssec rec ttl expires_at host ek_jwks ek_cert k jwks cert handle bound status st1 st2 n m where
    1: "record_from_dns en domain records dnssec \<lparr>dt_aware = True, dt_us = en_clock en (ms_reads st)\<rparr> = Inr (rec, ttl, expires_at)"
    and 2: "authenticate_record (en_platform en) rec ek_jwks = Inr k"
    and 3: "fetch_active_status en (tr_su rec) rv (st\<lparr>ms_reads := n\<rparr>) = (Inr status, st1)"
    "verify_identity_evidence en domain rec ek_jwks k rv st1 = (Inr (jwks, cert, handle, bound), st2)"
    and vd: "st' = st2\<lparr>ms_reads := Suc (Suc (ms_reads st2))\<rparr>" "vd_domain vd = domain" "vd_record vd = rec" "vd_jwks vd = jwks" "vd_signing_key vd = k"
    "vd_registry_status vd = status" "vd_dnssec_state vd = dnssec" "vd_log_reader vd = handle"
    "vd_record_signing_jwks vd = Some ek_jwks" "vd_dns_ttl vd = ttl"
    by (auto simp: collect_evidence_def sbind_Inr run_concurrently_Inr lookup_txt_def fetch_key_set_def)
  show "vd_domain vd = domain" by (fact vd)
  from 1 obtain tx raw r where r: "parse_record raw = Inr r" "rec = r\<lparr>tr_identity_fqdn := domain\<rparr>" "0 \<le> ttl"
    "validate_record (pf_idna (en_platform en)) (pf_lower (en_platform en)) (pf_netloc_ok (en_platform en)) rec = Inr ()"
    "dnssec_accepted (cf_dnssec_mode (en_config en)) dnssec" by (rule record_from_dns_Inr)
  have "valid (ms_world st1)" using quietD [OF quiet_lookup(4) 3(1)] v by (simp add: moved_def)
  with 3(2) obtain h op t where h: "handle = BoundReader h" "signing_subset jwks = [op]" "keys_disjoint ek_jwks jwks"
    "thumbprint op = Inr t" "log_binds (ms_world st2) h rec k t"
    by (rule identity_evidence_Inr) (simp add: r(2))
  then show "logged_evidence log_binds (ms_world st') vd" by (auto simp: logged_evidence_def vd)
  show "evidence_ok en vd"
    using r h authenticate_Inr [OF 2] active_status_Inr [OF 3(1)] by (auto simp: evidence_ok_def vd)
qed

section \<open>The cache\<close>

lemma quiet_entry_expired: "quiet valid later (entry_expired clock vd)"
  by (auto simp: entry_expired_def quiet_def read_clock_def sbind_def sret_def slift_def moved_def later_refl
      split: sum.splits)

lemma quiet_evict: "quiet valid later (mem_evict key)" "quiet valid later (cache_evict pre domain)"
  by (auto simp: cache_evict_def mem_evict_def quiet_def moved_def later_refl map_le_def)

lemma quiet_mem_get: "quiet valid later (mem_get clock key)"
proof -
  have "quiet valid later (sbind (entry_expired clock e) (\<lambda>b. if b then sbind (mem_evict key) (\<lambda>_. sret None) else sret (Some e)))" for e
    by (simp add: quiet_sbind quiet_entry_expired quiet_evict quiet_pure)
  then show ?thesis by (auto simp: mem_get_def quiet_def sret_def moved_refl split: option.splits)
qed

lemma quiet_cache_get: "quiet valid later (cache_get clock pre domain)"
  by (auto simp: cache_get_def quiet_evict quiet_pure quiet_entry_expired intro!: quiet_sbind quiet_mem_get split: option.splits)

lemma quiet_require_fresh: "quiet valid later (require_fresh_evidence en vd fresh)"
  by (auto simp: require_fresh_evidence_def quiet_evict quiet_pure intro!: quiet_sbind quiet_reads split: sum.splits)

lemma cache_put_cases:
  assumes "cache_put clock pre domain vd st = (r, st')"
  shows "moved valid later st st'" "map_of (ms_cache st') k = Some x \<Longrightarrow> map_of (ms_cache st) k = Some x \<or> k = pre @ domain \<and> x = vd"
  using assms
  by (auto simp: cache_put_def mem_put_def sbind_def mem_evict_def cache_evict_def moved_def later_refl
      split: if_splits sum.splits prod.splits dest!: entry_expired_state)

lemma cache_ok_quiet:
  "quiet valid later m \<Longrightarrow> m st = (r, st') \<Longrightarrow> valid (ms_world st) \<Longrightarrow> cache_ok en log_binds st \<Longrightarrow> cache_ok en log_binds st'"
  unfolding quiet_def cache_ok_def moved_def map_le_def using logged_evidence_later by (fastforce simp: dom_def)

lemma logged_moved:
  "moved valid later st st' \<Longrightarrow> valid (ms_world st) \<Longrightarrow> logged_evidence log_binds (ms_world st) vd \<Longrightarrow>
   logged_evidence log_binds (ms_world st') vd"
  using logged_evidence_later by (auto simp: moved_def)

lemma cache_ok_put:
  assumes "cache_put (en_clock en) (en_prefix en) domain vd st = (r, st')" "valid (ms_world st)" "cache_ok en log_binds st"
    and "evidence_ok en vd" "logged_evidence log_binds (ms_world st) vd" "vd_domain vd = domain"
  shows "cache_ok en log_binds st'"
  using assms cache_put_cases [OF assms(1)] logged_evidence_later unfolding cache_ok_def moved_def by metis

section \<open>The operations\<close>

abbreviation (input) ok_result where
  "ok_result \<equiv> sound_result en valid later log_binds"

abbreviation (input) ok_op where
  "ok_op \<equiv> sound_op en valid later log_binds"

lemma sound_sbind_quiet:
  assumes q: "quiet valid later m"
    and f: "\<And>x st1. m st = (Inr x, st1) \<Longrightarrow> valid (ms_world st1) \<Longrightarrow> cache_ok en log_binds st1 \<Longrightarrow>
      f x st1 = (r, st2) \<Longrightarrow> ok_result domain st1 r st2"
    and run: "sbind m f st = (r, st2)" and v: "valid (ms_world st)" "cache_ok en log_binds st"
  shows "ok_result domain st r st2"
proof -
  obtain x st1 where x: "m st = (x, st1)" by fastforce
  have 1: "moved valid later st st1" "cache_ok en log_binds st1" using quietD [OF q x] cache_ok_quiet [OF q x v] by auto
  then have 2: "valid (ms_world st1)" using v by (simp add: moved_def)
  show ?thesis
  proof (cases x)
    case (Inl e)
    with run x 1 show ?thesis by (auto simp: sbind_def sound_result_def)
  next
    case (Inr y)
    with run x f [OF _ 2 1(2), of y] 1(1) show ?thesis by (auto simp: sbind_def sound_result_def intro: moved_trans)
  qed
qed

lemma sound_op_sbind:
  assumes "quiet valid later m" "\<And>x. ok_op domain (f x)"
  shows "ok_op domain (sbind m f)"
  unfolding sound_op_def
proof (intro allI impI)
  fix st r st'
  assume run: "sbind m f st = (r, st')" and v: "valid (ms_world st)" "cache_ok en log_binds st"
  show "ok_result domain st r st'"
    by (rule sound_sbind_quiet [OF assms(1) _ run v]) (use assms(2) in \<open>simp add: sound_op_def\<close>)
qed

lemma sound_op_error: "ok_op domain (slift (Inl e))"
  by (auto simp: sound_op_def sound_result_def slift_def moved_refl)

lemma sound_sret:
  "evidence_ok en vd \<Longrightarrow> logged_evidence log_binds (ms_world st) vd \<Longrightarrow> vd_domain vd = domain \<Longrightarrow> cache_ok en log_binds st \<Longrightarrow>
   sret vd st = (r, st') \<Longrightarrow> ok_result domain st r st'"
  by (auto simp: sret_def sound_result_def moved_refl)

lemma cache_verification_sound:
  assumes run: "cache_verification en vd c st = (r, st')" and v: "valid (ms_world st)" "cache_ok en log_binds st"
    and good: "evidence_ok en vd" "logged_evidence log_binds (ms_world st) vd"
  shows "ok_result (vd_domain vd) st r st'"
proof (rule sound_sbind_quiet [OF quiet_require_fresh _ run [unfolded cache_verification_def] v])
  fix u st1
  assume u: "require_fresh_evidence en vd True st = (Inr u, st1)" and 1: "valid (ms_world st1)" "cache_ok en log_binds st1"
    and rest: "(if \<not> c then sret vd
       else sbind (if vd_dns_ttl vd > 0 then cache_put (en_clock en) (en_prefix en) (vd_domain vd) vd
         else cache_evict (en_prefix en) (vd_domain vd)) (\<lambda>_. sret vd)) st1 = (r, st')"
  have 2: "logged_evidence log_binds (ms_world st1) vd" by (rule logged_moved [OF quietD [OF quiet_require_fresh u] v(1) good(2)])
  obtain x st2 where x: "(if vd_dns_ttl vd > 0 then cache_put (en_clock en) (en_prefix en) (vd_domain vd) vd
      else cache_evict (en_prefix en) (vd_domain vd)) st1 = (x, st2)" by fastforce
  have 3: "moved valid later st1 st2 \<and> cache_ok en log_binds st2"
    using x cache_put_cases(1) cache_ok_put [OF _ 1 good(1) 2 refl] quietD [OF quiet_evict(2)]
      cache_ok_quiet [OF quiet_evict(2) _ 1]
    by (cases "vd_dns_ttl vd > 0") auto
  then have "logged_evidence log_binds (ms_world st2) vd" using logged_moved 1(1) 2 by blast
  with 3 good(1) have "ok_result (vd_domain vd) st1 (Inr vd) st2" "ok_result (vd_domain vd) st1 (Inl e) st2" for e
    by (simp_all add: sound_result_def)
  moreover have "c = False \<and> r = Inr vd \<and> st' = st1 \<or> st' = st2 \<and> (r = Inr vd \<or> (\<exists>e. r = Inl e))"
    using rest x by (auto simp: sbind_def sret_def split: if_splits sum.splits)
  ultimately show "ok_result (vd_domain vd) st1 r st'"
    using sound_sret [OF good(1) 2 refl 1(2)] by (auto simp: sret_def)
qed

lemma sound_uncached: "ok_op domain (verify_domain_uncached en domain rv)"
  unfolding sound_op_def
proof (intro allI impI)
  fix st r st'
  assume run: "verify_domain_uncached en domain rv st = (r, st')" and v: "valid (ms_world st)" "cache_ok en log_binds st"
  show "ok_result domain st r st'"
  proof (rule sound_sbind_quiet [OF quiet_collect _ run [unfolded verify_domain_uncached_def] v])
    fix vd s1
    assume c: "collect_evidence en domain rv st = (Inr vd, s1)" "valid (ms_world s1)"
      "cache_ok en log_binds s1" "cache_verification en vd True s1 = (r, st')"
    from cache_verification_sound [OF c(4,2,3)] collect_Inr [OF c(1) v(1)] show "ok_result domain s1 r st'" by auto
  qed
qed

lemma sound_finish:
  assumes "ok_op domain m"
  shows "ok_op domain (finish_verification en domain m)"
  unfolding sound_op_def
proof (intro allI impI)
  fix st r st'
  assume run: "finish_verification en domain m st = (r, st')" and v: "valid (ms_world st)" "cache_ok en log_binds st"
  obtain x st1 where x: "m st = (x, st1)" by fastforce
  have 1: "ok_result domain st x st1" using assms x v by (auto simp: sound_op_def)
  then have "valid (ms_world st1)" using v by (simp add: sound_result_def moved_def)
  moreover obtain u st2 where u: "cache_evict (en_prefix en) domain st1 = (u, st2)" by fastforce
  ultimately have "moved valid later st st2" "cache_ok en log_binds st2"
    using cache_ok_quiet [OF quiet_evict(2) u] quietD [OF quiet_evict(2) u] 1 moved_trans
    unfolding sound_result_def by blast+
  then show "ok_result domain st r st'"
    using run x 1 u by (auto simp: finish_verification_def sound_result_def split: if_splits sum.splits)
qed

lemma sound_cached:
  assumes "map_of (ms_cache st) (en_prefix en @ domain) = Some vd" "cache_ok en log_binds st"
  shows "evidence_ok en vd" "logged_evidence log_binds (ms_world st) vd" "vd_domain vd = domain"
  using assms by (auto simp: cache_ok_def)

lemma sound_stored:
  assumes run: "sbind (cache_put (en_clock en) (en_prefix en) domain vd) (\<lambda>_. sret vd) st = (r, st')"
    and v: "valid (ms_world st)" "cache_ok en log_binds st"
    and good: "evidence_ok en vd" "logged_evidence log_binds (ms_world st) vd" "vd_domain vd = domain"
  shows "ok_result domain st r st'"
proof -
  obtain x st1 where x: "cache_put (en_clock en) (en_prefix en) domain vd st = (x, st1)" by fastforce
  note p = cache_put_cases(1) [OF x] cache_ok_put [OF x v good]
  have "logged_evidence log_binds (ms_world st1) vd" by (rule logged_moved [OF p(1) v(1) good(2)])
  with run x p good show ?thesis by (auto simp: sbind_def sret_def sound_result_def split: sum.splits)
qed

lemma sound_refreshed:
  assumes run: "sbind (require_fresh_evidence en vd False) (\<lambda>_.
        sbind (cache_get (en_clock en) (en_prefix en) domain) (\<lambda>current.
          (case current of
             None \<Rightarrow> slift (Inl e)
           | Some c \<Rightarrow> if c \<noteq> cached then sret c
               else sbind (cache_put (en_clock en) (en_prefix en) domain vd) (\<lambda>_. sret vd)))) st = (r, st')"
    and v: "valid (ms_world st)" "cache_ok en log_binds st"
    and good: "evidence_ok en vd" "logged_evidence log_binds (ms_world st) vd" "vd_domain vd = domain"
  shows "ok_result domain st r st'"
proof (rule sound_sbind_quiet [OF quiet_require_fresh _ run v], rule sound_sbind_quiet [OF quiet_cache_get])
  fix u st1 current st2
  assume u: "require_fresh_evidence en vd False st = (Inr u, st1)" and v1: "valid (ms_world st1)"
    and c: "cache_get (en_clock en) (en_prefix en) domain st1 = (Inr current, st2)"
    and v2: "valid (ms_world st2)" "cache_ok en log_binds st2"
    and rest: "(case current of None \<Rightarrow> slift (Inl e)
       | Some c \<Rightarrow> if c \<noteq> cached then sret c
               else sbind (cache_put (en_clock en) (en_prefix en) domain vd) (\<lambda>_. sret vd)) st2 = (r, st')"
  have l: "logged_evidence log_binds (ms_world st2) vd"
    by (rule logged_moved [OF moved_trans [OF quietD [OF quiet_require_fresh u] quietD [OF quiet_cache_get c]] v(1) good(2)])
  show "ok_result domain st2 r st'"
  proof (cases current)
    case None
    with rest v2(2) show ?thesis by (auto simp: slift_def sound_result_def moved_refl)
  next
    case (Some x)
    with cache_get_Some [of _ _ _ st1 x st2] c have "map_of (ms_cache st2) (en_prefix en @ domain) = Some x" by auto
    note x = sound_cached [OF this v2(2)]
    show ?thesis
    proof (cases "x = cached")
      case True
      with rest Some show ?thesis by (intro sound_stored [OF _ v2 good(1) l good(3)]) simp
    next
      case False
      with rest Some show ?thesis by (intro sound_sret [OF x v2(2)]) simp
    qed
  qed
qed

lemma sound_refreshed_status:
  assumes run: "cache_refreshed_status en domain cached status st = (r, st')"
    and v: "valid (ms_world st)" "cache_ok en log_binds st"
    and good: "evidence_ok en cached" "logged_evidence log_binds (ms_world st) cached" "vd_domain cached = domain"
  shows "ok_result domain st r st'"
proof (cases "as_state status = str ''ACTIVE''")
  case False
  have "ok_op domain (sbind (cache_evict (en_prefix en) domain) (\<lambda>_. slift not_active))"
    unfolding not_active_def by (intro sound_op_sbind quiet_evict sound_op_error)
  with False run v show ?thesis by (simp add: cache_refreshed_status_def sound_op_def)
next
  case True
  define now where "now = \<lparr>dt_aware = True, dt_us = en_clock en (ms_reads st)\<rparr>"
  define st1 where "st1 = st\<lparr>ms_reads := Suc (ms_reads st)\<rparr>"
  have run': "sbind (require_fresh_evidence en (cached\<lparr>vd_registry_status := status, vd_last_status_check_at := now\<rparr>) False) (\<lambda>_.
        sbind (cache_get (en_clock en) (en_prefix en) domain) (\<lambda>current.
          (case current of
             None \<Rightarrow> slift (Inl (VerificationError STATUS_UNAVAILABLE ''identity invalidated during status refresh'' True))
           | Some c \<Rightarrow> if c \<noteq> cached then sret c
               else sbind (cache_put (en_clock en) (en_prefix en) domain
                  (cached\<lparr>vd_registry_status := status, vd_last_status_check_at := now\<rparr>))
                 (\<lambda>_. sret (cached\<lparr>vd_registry_status := status, vd_last_status_check_at := now\<rparr>))))) st1 = (r, st')"
    using run True unfolding cache_refreshed_status_def sbind_now Let_def now_def st1_def by simp
  have "ok_result domain st1 r st'"
    by (rule sound_refreshed [OF run'])
      (use v good True in \<open>simp_all add: st1_def cache_ok_def evidence_ok_def logged_evidence_def\<close>)
  then show ?thesis by (auto simp: sound_result_def moved_def st1_def)
qed

lemma sound_latest:
  assumes run: "sbind (slift newer) (\<lambda>b. if b then sret l
      else sbind (fetch_status en su False) (cache_refreshed_status en domain l)) st = (r, st')"
    and v: "valid (ms_world st)" "cache_ok en log_binds st"
    and l: "evidence_ok en l" "logged_evidence log_binds (ms_world st) l" "vd_domain l = domain"
  shows "ok_result domain st r st'"
proof (rule sound_sbind_quiet [OF quiet_pure(2) _ run v])
  fix b st1
  assume b: "slift newer st = (Inr b, st1)" and run1: "(if b then sret l
      else sbind (fetch_status en su False) (cache_refreshed_status en domain l)) st1 = (r, st')"
  then have st1: "st1 = st" by simp
  show "ok_result domain st1 r st'"
  proof (cases b)
    case True
    with run1 v(2) l show ?thesis by (simp add: st1 sound_sret)
  next
    case False
    with run1 have "sbind (fetch_status en su False) (cache_refreshed_status en domain l) st = (r, st')" by (simp add: st1)
    from sound_sbind_quiet [OF quiet_lookup(3) _ this v] show ?thesis unfolding st1
      using logged_moved [OF quietD [OF quiet_lookup(3)] v(1) l(2)] sound_refreshed_status l(1,3) by blast
  qed
qed

lemma sound_refresh_status: "ok_op domain (refresh_status en rounds domain cached)"
proof (induction rounds)
  case 0
  show ?case by (simp add: sound_op_error)
next
  case (Suc rounds)
  show ?case
    unfolding sound_op_def refresh_status.simps
  proof (intro allI impI, rule sound_sbind_quiet [OF quiet_cache_get])
    fix st r st' latest st1
    assume c: "cache_get (en_clock en) (en_prefix en) domain st = (Inr latest, st1)"
      and v: "valid (ms_world st1)" "cache_ok en log_binds st1"
      and rest: "(case latest of
          None \<Rightarrow> sbind (finish_verification en domain (verify_domain_uncached en domain False))
             (\<lambda>vd. if vd_dns_ttl vd = 0 then refresh_status en rounds domain cached else sret vd)
        | Some l \<Rightarrow> sbind (slift (time_after (vd_last_status_check_at l) (vd_last_status_check_at cached))) (\<lambda>newer.
              if newer then sret l
              else sbind (fetch_status en (tr_su (vd_record l)) False) (cache_refreshed_status en domain l))) st1 = (r, st')"
    show "ok_result domain st1 r st'"
    proof (cases latest)
      case None
      obtain x st2 where x: "finish_verification en domain (verify_domain_uncached en domain False) st1 = (x, st2)" by fastforce
      have 2: "ok_result domain st1 x st2" using sound_finish [OF sound_uncached] x v by (auto simp: sound_op_def)
      then have "valid (ms_world st2)" "cache_ok en log_binds st2" using v by (auto simp: sound_result_def moved_def)
      with Suc.IH 2 x rest None show ?thesis
        by (auto simp: sbind_def sret_def sound_op_def sound_result_def intro: moved_trans split: sum.splits if_splits)
    next
      case (Some l)
      with cache_get_Some [of _ _ _ st l st1] c have "map_of (ms_cache st1) (en_prefix en @ domain) = Some l" by auto
      note l = sound_cached [OF this v(2)]
      from rest Some show ?thesis by (simp add: sound_latest [OF _ v l])
    qed
  qed auto
qed

lemma sound_reusable: "ok_op domain (reusable_verification en rounds domain)"
  unfolding sound_op_def reusable_verification_def
proof (intro allI impI, rule sound_sbind_quiet [OF quiet_cache_get])
  fix st r st' cached st1
  assume c: "cache_get (en_clock en) (en_prefix en) domain st = (Inr cached, st1)"
    and v: "valid (ms_world st1)" "cache_ok en log_binds st1"
    and rest: "(case cached of
          None \<Rightarrow> finish_verification en domain (verify_domain_uncached en domain False)
        | Some c \<Rightarrow> sbind (en_now en) (\<lambda>now.
              if dt_us now - dt_us (vd_last_status_check_at c) < cf_status_check_interval (en_config en) then sret c
              else finish_verification en domain (refresh_status en rounds domain c))) st1 = (r, st')"
  show "ok_result domain st1 r st'"
  proof (cases cached)
    case None
    with rest v sound_finish [OF sound_uncached] show ?thesis by (simp add: sound_op_def)
  next
    case (Some x)
    with cache_get_Some [of _ _ _ st x st1] c have "map_of (ms_cache st1) (en_prefix en @ domain) = Some x" by auto
    note x = sound_cached [OF this v(2)]
    let ?st2 = "st1\<lparr>ms_reads := Suc (ms_reads st1)\<rparr>"
    have v2: "valid (ms_world ?st2)" "cache_ok en log_binds ?st2" "moved valid later st1 ?st2"
      using v by (simp_all add: cache_ok_def moved_def later_refl)
    have "ok_result domain ?st2 r st'"
      using rest Some x v2(1,2) sound_finish [OF sound_refresh_status] sound_sret [OF x(1) _ x(3) v2(2)]
      by (auto simp: sbind_now sound_op_def split: if_splits)
    with v2(3) show ?thesis by (auto simp: sound_result_def intro: moved_trans)
  qed
qed auto

lemma sound_accept:
  assumes run: "accept_verification en domain vd peer_cert acceptance st = (r, st')"
    and v: "valid (ms_world st)" "cache_ok en log_binds st"
    and good: "evidence_ok en vd" "logged_evidence log_binds (ms_world st) vd" "vd_domain vd = domain"
  shows "ok_result domain st r st'"
proof (rule sound_sbind_quiet [OF quiet_pure(2) _ run [unfolded accept_verification_def] v], rule sound_sbind_quiet [OF quiet_require_fresh])
  fix a st1 u st2
  assume 1: "slift (if acceptance then rbind (enforce_mtls_policy (en_platform en) (vd_record vd) domain peer_cert)
      (\<lambda>_. enforce_counterparty_acceptance (en_config en) vd) else Inr ()) st = (Inr a, st1)"
    and 2: "require_fresh_evidence en vd (vd_dns_ttl vd = 0) st1 = (Inr u, st2)" "cache_ok en log_binds st2" "sret vd st2 = (r, st')"
  have "logged_evidence log_binds (ms_world st2) vd"
    using logged_moved [OF quietD [OF quiet_require_fresh 2(1)]] 1 v(1) good(2) by simp
  then show "ok_result domain st2 r st'" by (rule sound_sret [OF good(1) _ good(3) 2(2,3)])
qed auto

lemma sound_verify:
  assumes run: "verify en rounds name peer_cert acceptance refresh st = (r, st')"
    and v: "valid (ms_world st)" "cache_ok en log_binds st"
  shows "moved valid later st st' \<and> cache_ok en log_binds st'
    \<and> (\<forall>vd. r = Inr vd \<longrightarrow> normalize_fqdn (pf_idna (en_platform en)) name False = Inr (vd_domain vd)
         \<and> evidence_ok en vd \<and> logged_evidence log_binds (ms_world st') vd)"
proof (cases "\<not> ms_closed st \<and> is_ok (normalize_fqdn (pf_idna (en_platform en)) name False)")
  case False
  then have "st' = st" "\<exists>e. r = Inl e" using run
    by (cases "normalize_fqdn (pf_idna (en_platform en)) name False"; auto simp: verify_def sbind_def slift_def split: if_splits)+
  then show ?thesis using v by (auto simp: moved_refl)
next
  case True
  then obtain domain where d: "normalize_fqdn (pf_idna (en_platform en)) name False = Inr domain" by (auto simp: is_ok_iff)
  obtain x st1 where x: "(if refresh then finish_verification en domain (verify_domain_uncached en domain True)
      else reusable_verification en rounds domain) st = (x, st1)" by fastforce
  have 1: "ok_result domain st x st1"
    using x v sound_finish [OF sound_uncached] sound_reusable by (auto simp: sound_op_def split: if_splits)
  then have v1: "valid (ms_world st1)" "cache_ok en log_binds st1" using v by (auto simp: sound_result_def moved_def)
  have run': "(case x of Inl e \<Rightarrow> (Inl e, st1) | Inr vd \<Rightarrow> accept_verification en domain vd peer_cert acceptance st1) = (r, st')"
    using run True d x by (simp add: verify_def sbind_def slift_def split: sum.splits)
  have "ok_result domain st r st'"
  proof (cases x)
    case (Inl e)
    with run' 1 show ?thesis by (auto simp: sound_result_def)
  next
    case (Inr vd)
    with run' sound_accept [OF _ v1, of domain vd] 1 have "ok_result domain st1 r st'" by (auto simp: sound_result_def)
    with 1 show ?thesis by (auto simp: sound_result_def intro: moved_trans)
  qed
  then show ?thesis using d by (auto simp: sound_result_def)
qed

lemma sound_call:
  assumes "manager_call en st st'" "valid (ms_world st)" "cache_ok en log_binds st"
  shows "valid (ms_world st') \<and> cache_ok en log_binds st'"
  using assms
proof cases
  case (verify rounds name peer_cert acceptance refresh r)
  from sound_verify [OF this assms(2,3)] assms(2) show ?thesis by (auto simp: moved_def)
next
  case (evict name r)
  have "quiet valid later (evict_domain en name)"
    by (simp add: evict_domain_def quiet_sbind quiet_pure quiet_evict)
  from quietD [OF this evict] cache_ok_quiet [OF this evict assms(2,3)] assms(2) show ?thesis by (simp add: moved_def)
next
  case (log_evidence vd moment r)
  have "quiet valid later (verify_log_evidence en vd moment)"
    by (auto simp: verify_log_evidence_def quiet_readers methods_keep(2) quiet_pure quiet_reads intro!: quiet_sbind split: option.splits)
  from quietD [OF this log_evidence] cache_ok_quiet [OF this log_evidence assms(2,3)] assms(2) show ?thesis by (simp add: moved_def)
next
  case (domain_log vd r)
  have "quiet valid later (load_domain_log en vd)"
    by (simp add: load_domain_log_def quiet_sbind quiet_readers methods_keep(3) quiet_pure)
  from quietD [OF this domain_log] cache_ok_quiet [OF this domain_log assms(2,3)] assms(2) show ?thesis by (simp add: moved_def)
next
  case closing
  with assms show ?thesis by (simp add: cache_ok_def)
qed

lemma sound_calls:
  assumes "(manager_call en)\<^sup>*\<^sup>* st0 st" "valid (ms_world st0)" "ms_cache st0 = []"
  shows "valid (ms_world st) \<and> cache_ok en log_binds st"
  using assms
proof (induction rule: rtranclp_induct)
  case base
  then show ?case by (simp add: cache_ok_def)
next
  case (step y z)
  then show ?case using sound_call by blast
qed

end

end
