(* ===== verification/Identity_Claims.thy ===== *)
theory Identity_Claims
  imports Verified_Identity
begin

text \<open>
  The properties of the identity manager that hold whatever the log does: the evidence behind every verified domain, how
  long it is used, what a refresh uses, what an inactive status does to the cache, which counterparties are accepted,
  and two calls whose behaviour differs from what they promise. They rest on the interpretation \<open>plain\<close> of
  \<open>verifier_env\<close>, and their witnesses run the verifier on a sample domain.
\<close>

section \<open>Times\<close>

text \<open>Whatever the log does, the invariant without it holds.\<close>

interpretation plain: verifier_env en "\<lambda>_. True" "\<lambda>_ _. True" "\<lambda>_ _ _ _ _. True" "\<lambda>_ _ _. True" for en :: "('h, 'w) env"
  by unfold_locales (simp_all add: keeps_def)

definition fresh_at :: "'h VerifiedDomain \<Rightarrow> int \<Rightarrow> bool" where
  "fresh_at vd now \<longleftrightarrow>
     (\<forall>t \<in> set (cert_bounds vd). now < dt_us t)
     \<and> (tr_ka (vd_record vd) \<noteq> [] \<longrightarrow>
          (\<exists>limit. key_age_limit (tr_ka (vd_record vd)) = Inr limit \<and> now < dt_us (vd_key_bound_at vd) + limit))
     \<and> (vd_dns_ttl vd \<noteq> 0 \<longrightarrow> (\<exists>t. dns_expiry vd = Inr t \<and> now < dt_us t))"

lemma any_reached_False: "any_reached now ts = Inr False \<Longrightarrow> \<forall>t \<in> set ts. dt_us now < dt_us t"
  by (induction ts) (auto simp: rbind_Inr_iff time_ge_def split: if_splits)

lemma require_fresh_Inr:
  assumes "vd_require_fresh_evidence vd now (vd_dns_ttl vd = 0) = Inr ()"
  shows "fresh_at vd (dt_us now)"
proof -
  from assms obtain tls age dns where e: "any_reached now (cert_bounds vd) = Inr tls" "dns_expiry vd = Inr dns"
    "(if tr_ka (vd_record vd) = [] then Inr False
      else rbind (key_age_limit (tr_ka (vd_record vd))) (\<lambda>d. rbind (add_us (vd_key_bound_at vd) d) (time_ge now))) = Inr age"
    "\<not> age" "\<not> tls" "vd_dns_ttl vd \<noteq> 0 \<Longrightarrow> time_ge now dns = Inr False"
    by (auto simp: vd_require_fresh_evidence_def expired_code_def rbind_Inr_iff split: if_splits option.splits)
  have "now_ok < dt_us t" if "time_ge n t = Inr False" "now_ok = dt_us n" for n t now_ok
    using that by (auto simp: time_ge_def split: if_splits)
  with e any_reached_False show ?thesis
    by (auto simp: fresh_at_def rbind_Inr_iff add_us_def split: if_splits) force+
qed

lemma accept_Inr:
  assumes "accept_verification en domain vd peer_cert acceptance st = (Inr x, st')"
  shows "x = vd" "fresh_at vd (en_clock en (ms_reads st))" "ms_reads st' = Suc (ms_reads st)"
    "acceptance \<Longrightarrow> enforce_mtls_policy (en_platform en) (vd_record vd) domain peer_cert = Inr ()
       \<and> enforce_counterparty_acceptance (en_config en) vd = Inr ()"
  using assms
  by (auto simp: accept_verification_def require_fresh_evidence_def sbind_Inr rbind_Inr_iff
      split: sum.splits if_splits dest!: require_fresh_Inr)

text \<open>A time that was read during a call.\<close>

definition during ::
  "('h, 'w) env \<Rightarrow> ('h, 'w) manager_state \<Rightarrow> ('h, 'w) manager_state \<Rightarrow> Events.pydatetime \<Rightarrow> bool" where
  "during en st st' t \<longleftrightarrow> (\<exists>n. ms_reads st \<le> n \<and> n < ms_reads st' \<and> t = \<lparr>dt_aware = True, dt_us = en_clock en n\<rparr>)"

lemma during_mono:
  "during en st1 st2 t \<Longrightarrow> ms_reads st \<le> ms_reads st1 \<Longrightarrow> ms_reads st2 \<le> ms_reads st' \<Longrightarrow> during en st st' t"
  unfolding during_def by (elim exE conjE, rule exI, intro conjI) (rule order_trans, assumption+, rule order.strict_trans2, assumption+)

lemma duringI: "ms_reads st \<le> n \<Longrightarrow> n < ms_reads st' \<Longrightarrow> during en st st' \<lparr>dt_aware = True, dt_us = en_clock en n\<rparr>"
  unfolding during_def by (intro exI conjI) simp_all

lemma reads_up: "quiet (\<lambda>_. True) (\<lambda>_ _. True) m \<Longrightarrow> m st = (r, st') \<Longrightarrow> ms_reads st \<le> ms_reads st'"
  by (auto simp: quiet_def moved_def)

definition collected_during ::
  "('h, 'w) env \<Rightarrow> ('h, 'w) manager_state \<Rightarrow> ('h, 'w) manager_state \<Rightarrow> 'h VerifiedDomain \<Rightarrow> bool" where
  "collected_during en st st' vd \<longleftrightarrow>
     during en st st' (vd_verified_at vd) \<and> during en st st' (vd_last_status_check_at vd)
     \<and> (\<exists>a e. during en st st' a \<and> add_us a (vd_dns_ttl vd * 1000000) = Inr e \<and> vd_dns_expires_at vd = Some e)"

lemma collected_mono:
  "collected_during en st1 st2 vd \<Longrightarrow> ms_reads st \<le> ms_reads st1 \<Longrightarrow> ms_reads st2 \<le> ms_reads st' \<Longrightarrow> collected_during en st st' vd"
  unfolding collected_during_def using during_mono by blast

lemma collect_times:
  assumes "collect_evidence en domain rv st = (Inr vd, st')"
  shows "collected_during en st st' vd"
proof -
  from assms obtain records dnssec rec ttl expires_at ek_jwks k x n st1 st2 where
    1: "record_from_dns en domain records dnssec \<lparr>dt_aware = True, dt_us = en_clock en (ms_reads st)\<rparr> = Inr (rec, ttl, expires_at)"
    and 2: "run_concurrently en (verify_identity_evidence en domain rec ek_jwks k rv)
        (fetch_active_status en (tr_su rec) rv) st1 = (Inr x, st2)" "ms_reads st \<le> ms_reads st1"
    and vd: "ms_reads st' = Suc (Suc (ms_reads st2))" "vd_dns_ttl vd = ttl" "vd_dns_expires_at vd = Some expires_at"
    "vd_verified_at vd = \<lparr>dt_aware = True, dt_us = en_clock en (ms_reads st2)\<rparr>"
    "vd_last_status_check_at vd = \<lparr>dt_aware = True, dt_us = en_clock en (Suc (ms_reads st2))\<rparr>"
    by (auto simp: collect_evidence_def sbind_Inr lookup_txt_def fetch_key_set_def)
  have "ms_reads st1 \<le> ms_reads st2"
    using plain.quiet_concurrently [OF plain.quiet_identity_evidence plain.quiet_lookup(4)] 2(1) by (rule reads_up)
  then have "ms_reads st \<le> ms_reads st2" using 2(2) by simp
  moreover from 1 have "add_us \<lparr>dt_aware = True, dt_us = en_clock en (ms_reads st)\<rparr> (ttl * 1000000) = Inr expires_at"
    by (rule record_from_dns_Inr)
  ultimately show ?thesis
    unfolding collected_during_def vd(2-5)
    by (intro conjI exI [of _ expires_at] exI [of _ "\<lparr>dt_aware = True, dt_us = en_clock en (ms_reads st)\<rparr>"] duringI) (simp_all add: vd(1))
qed

lemma uncached_times:
  assumes "verify_domain_uncached en domain rv st = (Inr vd, st')"
  shows "collected_during en st st' vd" "vd_dns_ttl vd = 0 \<Longrightarrow> map_of (ms_cache st') (en_prefix en @ domain) = None"
proof -
  from assms obtain st1 u st2 where c: "collect_evidence en domain rv st = (Inr vd, st1)"
    and f: "require_fresh_evidence en vd True st1 = (Inr u, st2)"
    and p: "(if vd_dns_ttl vd > 0 then cache_put (en_clock en) (en_prefix en) (vd_domain vd) vd
       else cache_evict (en_prefix en) (vd_domain vd)) st2 = (Inr (), st')"
    by (auto simp: verify_domain_uncached_def cache_verification_def sbind_Inr split: if_splits)
  have "moved (\<lambda>_. True) (\<lambda>_ _. True) st1 st2" by (rule plain.quietD [OF plain.quiet_require_fresh f])
  moreover have "moved (\<lambda>_. True) (\<lambda>_ _. True) st2 st'"
    using p plain.cache_put_cases(1) plain.quietD [OF plain.quiet_evict(2)] by (auto split: if_splits)
  ultimately have "ms_reads st1 \<le> ms_reads st'" by (auto simp: moved_def)
  then show "collected_during en st st' vd" using collected_mono [OF collect_times [OF c] order_refl] by simp
  show "map_of (ms_cache st') (en_prefix en @ domain) = None" if "vd_dns_ttl vd = 0"
    using p that plain.collect_Inr(2) [OF c] by (auto simp: cache_evict_def mem_evict_def)
qed

lemma finish_Inr [simp]: "finish_verification en domain m st = (Inr x, st') \<longleftrightarrow> m st = (Inr x, st')"
  by (auto simp: finish_verification_def split: prod.splits sum.splits)







section \<open>The allowlist\<close>

lemma normalized_entities:
  assumes "normalize_entities idna es seen = Inr ns"
  shows "list_all2 (\<lambda>e n. normalize_fqdn idna (te_governance_id e) False = Inr (te_governance_id n)
      \<and> te_entity_key_thumbprints n = te_entity_key_thumbprints e) es ns"
    "distinct (map te_governance_id ns)" "set (map te_governance_id ns) \<inter> seen = {}"
  using assms
  by (induction es arbitrary: seen ns) (auto simp: rbind_Inr_iff split: sum.splits if_splits, fastforce+)

lemma match_entity_Inr:
  assumes "distinct (map te_governance_id ns)"
  shows "match_entity gi t ns = Inr () \<longleftrightarrow>
    (\<exists>n \<in> set ns. te_governance_id n = gi \<and> (case te_entity_key_thumbprints n of None \<Rightarrow> True | Some pins \<Rightarrow> t \<in> set pins))"
  using assms by (induction ns) (auto simp: not_accepted_def image_iff split: option.splits)

section \<open>Errors\<close>

lemma thumbprint_code: "thumbprint k = Inl e \<Longrightarrow> exn_code e = None"
  by (auto simp: thumbprint_def compute_thumbprint_def thumbprint_input_def rbind_Inl_iff Let_def split: if_splits option.splits)

lemma time_codes:
  "time_ge a b = Inl e \<Longrightarrow> exn_code e = None" "add_us a us = Inl e \<Longrightarrow> exn_code e = None"
  "key_age_limit ka = Inl e \<Longrightarrow> exn_code e = None" "time_after a b = Inl e \<Longrightarrow> exn_code e = None"
  by (auto simp: time_ge_def add_us_def key_age_limit_def parse_ka_duration_def time_after_def rbind_Inl_iff split: if_splits)

lemma any_reached_code: "any_reached now ts = Inl e \<Longrightarrow> exn_code e = None"
  by (induction ts) (auto simp: rbind_Inl_iff dest: time_codes)

lemma min_time_code: "min_time t ts = Inl e \<Longrightarrow> exn_code e = None"
  by (induction ts arbitrary: t) (auto simp: rbind_Inl_iff dest: time_codes)

lemma expiry_code: "expiry vd = Inl e \<Longrightarrow> exn_code e = None"
  by (auto simp: expiry_def dns_expiry_def rbind_Inl_iff dest: time_codes min_time_code split: option.splits if_splits)

lemma dns_expiry_code: "dns_expiry vd = Inl e \<Longrightarrow> exn_code e = None"
  by (auto simp: dns_expiry_def dest: time_codes split: option.splits)

lemma expired_code_code:
  assumes "expired_code vd now fresh = Inl e"
  shows "exn_code e = None"
proof -
  have "exn_code e = None" if "(if tr_ka (vd_record vd) = [] then Inr False
      else rbind (key_age_limit (tr_ka (vd_record vd))) (\<lambda>d. rbind (add_us (vd_key_bound_at vd) d) (time_ge now))) = Inl e"
    using that by (auto simp: rbind_Inl_iff dest: time_codes split: if_splits)
  with assms any_reached_code dns_expiry_code time_codes(1) show ?thesis
    unfolding expired_code_def rbind_Inl_iff by (auto simp: rbind_Inl_iff split: if_splits)
qed

lemma fresh_code:
  assumes "vd_require_fresh_evidence vd now fresh = Inl e"
  shows "exn_code e \<noteq> Some STATUS_NOT_ACTIVE"
proof -
  have "c \<noteq> STATUS_NOT_ACTIVE" if "expired_code vd now fresh = Inr (Some c)" for c
    using that by (auto simp: expired_code_def rbind_Inr_iff split: if_splits)
  with assms show ?thesis
    by (auto simp: vd_require_fresh_evidence_def rbind_Inl_iff split: option.splits dest: expired_code_code)
qed

lemma accept_code:
  assumes "accept_verification en domain vd peer_cert acceptance st = (Inl e, st')"
  shows "exn_code e \<noteq> Some STATUS_NOT_ACTIVE"
proof -
  have m: "match_entity gi t es = Inl e \<Longrightarrow> exn_code e \<noteq> Some STATUS_NOT_ACTIVE" for gi t es
    by (induction es) (auto simp: not_accepted_def split: if_splits option.splits)
  show ?thesis
    using assms
    by (auto simp: accept_verification_def sbind_def slift_def sret_def require_fresh_evidence_def en_now_def read_clock_def
        cache_evict_def mem_evict_def enforce_mtls_policy_def enforce_counterparty_acceptance_def signing_key_thumbprint_def rbind_Inl_iff
        split: sum.splits if_splits prod.splits option.splits dest!: fresh_code thumbprint_code m)
qed

lemma cache_get_code:
  assumes "cache_get clock pre domain st = (Inl e, st')"
  shows "exn_code e = None"
proof -
  have x: "entry_expired clock vd s = (Inl e, s') \<Longrightarrow> exn_code e = None" for vd and s s' :: "('a, 'b) manager_state"
    by (auto simp: entry_expired_def sbind_def read_clock_def slift_def sret_def rbind_Inl_iff split: if_splits dest: expiry_code time_codes)
  show ?thesis
    using assms
    by (auto simp: cache_get_def mem_get_def sbind_def sret_def cache_evict_def mem_evict_def
        split: option.splits prod.splits sum.splits if_splits dest: x)
qed

lemma uncached_inactive:
  assumes "finish_verification en domain m st = (Inl e, st')" "exn_code e = Some STATUS_NOT_ACTIVE"
  shows "map_of (ms_cache st') (en_prefix en @ domain) = None"
  using assms by (auto simp: finish_verification_def cache_evict_def mem_evict_def split: prod.splits sum.splits)

section \<open>What verification guarantees\<close>

text \<open>
  C2: A verified domain. After any calls on a manager that started with an empty cache, whatever the log readers, the
  resolver and the fetcher return, a domain that \<^verbatim>\<open>verify_domain\<close> returns, from the cache or not, is the
  normalised name; its record was parsed and validated for that name and is signed by the only signing key of the
  entity key set; the operational key set has one signing key and shares no key with the other set; the status is
  ACTIVE, the DNSSEC state is one the mode accepts and a registered log reader checked the record; the counterparty
  is accepted, and the peer certificate matches the name where the record asks for mTLS.
\<close>

theorem verified_identity_evidence:
  assumes "(manager_call en)\<^sup>*\<^sup>* st0 st" "ms_cache st0 = []" "verify_domain en rounds name peer_cert st = (Inr vd, st')"
  shows "normalize_fqdn (pf_idna (en_platform en)) name False = Inr (vd_domain vd) \<and> evidence_ok en vd
    \<and> enforce_counterparty_acceptance (en_config en) vd = Inr ()
    \<and> (str ''mtls'' \<in> policy_flags (vd_record vd) \<longrightarrow>
         (\<exists>cert. peer_cert = Some cert \<and> validate_against_fqdn (pf_idna (en_platform en)) cert (vd_domain vd) = Inr ()))"
proof -
  have run: "verify en rounds name peer_cert True False st = (Inr vd, st')" using assms(3) by (simp add: verify_domain_def)
  then obtain domain st1 where d: "normalize_fqdn (pf_idna (en_platform en)) name False = Inr domain"
    and a: "accept_verification en domain vd peer_cert True st1 = (Inr vd, st')"
    by (auto simp: verify_def sbind_Inr split: if_splits dest: accept_Inr(1))
  have c: "cache_ok en (\<lambda>_ _ _ _ _. True) st" using plain.sound_calls [OF assms(1) _ assms(2)] by simp
  note acc = accept_Inr(4) [OF a]
  from plain.sound_verify [OF run _ c] d acc show ?thesis
    by (auto simp: enforce_mtls_policy_def split: if_splits option.splits sum.splits)
qed



text \<open>
  C38: An inactive identity leaves the cache. When verification fails with STATUS\_NOT\_ACTIVE, on whatever path, no
  evidence of the domain is cached afterwards.
\<close>

theorem inactive_status_evicts:
  assumes "verify en rounds name peer_cert acceptance refresh st = (Inl e, st')" "exn_code e = Some STATUS_NOT_ACTIVE"
    and d: "normalize_fqdn (pf_idna (en_platform en)) name False = Inr domain"
  shows "map_of (ms_cache st') (en_prefix en @ domain) = None"
proof -
  have open_state: "\<not> ms_closed st" using assms(1,2) by (auto simp: verify_def)
  obtain x st1 where x: "(if refresh then finish_verification en domain (verify_domain_uncached en domain True)
      else reusable_verification en rounds domain) st = (x, st1)" by fastforce
  have "x = Inl e \<and> st1 = st'"
    using assms(1,2) d x open_state by (auto simp: verify_def sbind_def slift_def split: sum.splits dest: accept_code)
  then show ?thesis
    using x assms(2)
    by (auto simp: reusable_verification_def sbind_def [of "cache_get _ _ _"] sbind_now sret_def
        split: if_splits prod.splits sum.splits option.splits dest: cache_get_code uncached_inactive)
qed

text \<open>
  C39: Acceptance is membership in the allowlist. With a configuration that passed validation, a verified domain is
  accepted exactly when no allowlist is configured, or an entry of it normalises to the governance domain of the
  record and, if it pins keys, pins the key that signed the record; the order of the entries does not matter.
\<close>

theorem acceptance_is_allowlist:
  assumes "validate_verification_config idna cfg = Inr cfg'" "thumbprint (vd_signing_key vd) = Inr t"
  shows "enforce_counterparty_acceptance cfg' vd = Inr () \<longleftrightarrow>
    (case cf_trusted_entities cfg of
       None \<Rightarrow> True
     | Some es \<Rightarrow> \<exists>e \<in> set es. normalize_fqdn idna (te_governance_id e) False = Inr (tr_gi (vd_record vd))
         \<and> (case te_entity_key_thumbprints e of None \<Rightarrow> True | Some pins \<Rightarrow> t \<in> set pins))"
proof (cases "cf_trusted_entities cfg")
  case None
  with assms(1) show ?thesis
    by (auto simp: validate_verification_config_def Let_def enforce_counterparty_acceptance_def split: if_splits)
next
  case (Some es)
  with assms(1) obtain ns where n: "normalize_entities idna es {} = Inr ns" "cf_trusted_entities cfg' = Some ns"
    by (auto simp: validate_verification_config_def Let_def rbind_Inr_iff split: if_splits)
  note l = normalized_entities(1) [OF n(1)]
  have "(\<exists>e \<in> set es. normalize_fqdn idna (te_governance_id e) False = Inr gi
      \<and> (case te_entity_key_thumbprints e of None \<Rightarrow> True | Some pins \<Rightarrow> t \<in> set pins)) \<longleftrightarrow>
    (\<exists>n \<in> set ns. te_governance_id n = gi \<and> (case te_entity_key_thumbprints n of None \<Rightarrow> True | Some pins \<Rightarrow> t \<in> set pins))" for gi
    using l by (induction rule: list_all2_induct) auto
  with Some n(2) assms(2) match_entity_Inr [OF normalized_entities(2) [OF n(1)]] show ?thesis
    by (simp add: enforce_counterparty_acceptance_def signing_key_thumbprint_def)
qed

text \<open>
  C40: A status refresh livelocks on zero TTLs. When the cached entry of a domain is gone by the time its status is
  refreshed, and every lookup of the domain now succeeds with a TTL of zero, \<^verbatim>\<open>_refresh_status\<close> ends with
  DEADLINE\_EXCEEDED however many rounds the deadline leaves, because it discards the evidence it collected itself;
  a verification that starts without a cached entry returns the same evidence at once.
\<close>

theorem zero_ttl_refresh_never_returns:
  assumes ok: "\<And>s. \<exists>vd s'. verify_domain_uncached en domain False s = (Inr vd, s') \<and> vd_dns_ttl vd = 0"
    and gone: "map_of (ms_cache st) (en_prefix en @ domain) = None"
  shows "(\<exists>st' m. refresh_status en rounds domain cached st = (Inl (VerificationError DEADLINE_EXCEEDED m True), st'))
    \<and> (\<exists>vd st'. reusable_verification en rounds domain st = (Inr vd, st'))"
proof -
  have g: "cache_get (en_clock en) (en_prefix en) domain s = (Inr None, s)" if "map_of (ms_cache s) (en_prefix en @ domain) = None" for s
    using that by (simp add: cache_get_def mem_get_def sbind_def sret_def)
  have "\<exists>st' m. refresh_status en rounds domain cached st = (Inl (VerificationError DEADLINE_EXCEEDED m True), st')"
    using gone
  proof (induction rounds arbitrary: st)
    case 0
    show ?case by (auto simp: slift_def)
  next
    case (Suc rounds)
    obtain vd s' where vd: "verify_domain_uncached en domain False st = (Inr vd, s')" "vd_dns_ttl vd = 0" using ok by blast
    from Suc.IH [OF uncached_times(2) [OF vd]] g [OF Suc.prems] vd show ?case
      by (simp add: sbind_def finish_verification_def)
  qed
  moreover obtain vd s' where "verify_domain_uncached en domain False st = (Inr vd, s')" using ok by blast
  ultimately show ?thesis using g [OF gone] by (simp add: reusable_verification_def sbind_def finish_verification_def)
qed

text \<open>
  A TXT record with a byte outside ASCII escapes the error taxonomy. The strings are decoded outside the handlers
  that turn a malformed record into RECORD\_INVALID, so verification raises the decoder's error, which is not a
  \<^verbatim>\<open>VerificationError\<close>.
\<close>

theorem non_ascii_txt_escapes:
  assumes "en_fetch_txt en (Suc (ms_reads st)) (str ''_dnsid.'' @ domain) = DnsAnswer [tx] dnssec"
    and "dnssec_accepted (cf_dnssec_mode (en_config en)) dnssec" "b \<in> set (concat (tx_strings tx))" "128 \<le> unat b"
  shows "\<exists>e st'. verify_domain_uncached en domain rv st = (Inl e, st') \<and> \<not> is_VerificationError e"
proof -
  have "lookup_txt en domain (st\<lparr>ms_reads := Suc (ms_reads st)\<rparr>) = (Inr ([tx], dnssec), st\<lparr>ms_reads := Suc (Suc (ms_reads st))\<rparr>)"
    using assms(1) by (simp add: lookup_txt_def)
  moreover have "record_from_dns en domain [tx] dnssec now = Inl (ValueError ''ascii codec cannot decode byte'')" for now
  proof -
    have "concatenate_strings tx = Inl (ValueError ''ascii codec cannot decode byte'')"
      using assms(3,4) unfolding concatenate_strings_def Let_def by auto
    then show ?thesis using assms(2) by (auto simp: record_from_dns_def Let_def dnssec_accepted_def split: option.splits)
  qed
  ultimately show ?thesis
    by (simp add: verify_domain_uncached_def collect_evidence_def sbind_now sbind_def [of "lookup_txt _ _"] sbind_def [of "slift _"]
        sbind_def [of "sbind _ _"] slift_def)
qed

section \<open>A sample verification\<close>

definition demo_txt :: DnsIdTxtRecord where
  "demo_txt =
     \<lparr>tr_v = str ''DNSid1'', tr_gi = str ''g'', tr_ek = str ''https://g/e'', tr_ku = str ''https://a.example/k'',
      tr_lr = str ''c2sp-tlog:testnet:https://log.example/a#s1'', tr_su = str ''https://s.io'', tr_sg = sample_ek_x,
      tr_fl = [], tr_ka = [], tr_cu = [], tr_identity_fqdn = [], tr_unknown_tags = [], tr_parsed_optional_tags = {}\<rparr>"

definition demo_domain :: pystr where
  "demo_domain = str ''a.example''"

definition demo_rec :: DnsIdTxtRecord where
  "demo_rec = demo_txt\<lparr>tr_identity_fqdn := demo_domain\<rparr>"

definition no_cert :: TLSCertificate where
  "no_cert = \<lparr>tls_not_after = ZERO_TIME, tls_san_dns_names = [], tls_der = []\<rparr>"

definition demo_json :: "pystr \<Rightarrow> (jdict \<times> TLSCertificate) res" where
  "demo_json url =
     (if url = tr_ek demo_txt then Inr ([(str ''keys'', JArr [JObj (jwk_raw sample_ek)])], no_cert)
      else if url = tr_ku demo_txt then Inr ([(str ''keys'', JArr [JObj (jwk_raw sample_ok)])], no_cert)
      else Inr ([(str ''state'', JStr (str ''ACTIVE'')), (str ''lastTransitionAt'', JStr (str ''t''))], no_cert))"

definition demo_config :: VerificationConfig where
  "demo_config = \<lparr>cf_status_check_interval = 0, cf_dnssec_mode = Some AUTO,
     cf_trusted_entities = Some [\<lparr>te_governance_id = str ''g'', te_entity_key_thumbprints = None\<rparr>]\<rparr>"

definition demo_env :: "int \<Rightarrow> (pystr \<Rightarrow> 'w \<Rightarrow> 'h res \<times> 'w) \<Rightarrow> ('h \<Rightarrow> 'w log_methods) \<Rightarrow> ('h, 'w) env" where
  "demo_env ttl factory readers =
     \<lparr>en_platform = sample_platform, en_clock = \<lambda>_. 20000000,
      en_fetch_txt = \<lambda>_ _. DnsAnswer [\<lparr>tx_strings = [map of_nat (serialize demo_txt)], tx_ttl = ttl\<rparr>] (Some UNSIGNED),
      en_fetch_strict_json = \<lambda>_ url _ _ _. demo_json url, en_fromisoformat = \<lambda>_. Some (utc_seconds 1),
      en_registry = Some [(str ''c2sp-tlog'', factory)], en_readers = readers, en_preempt = \<lambda>_. None,
      en_prefix = str ''p:'', en_config = demo_config\<rparr>"

lemma demo_wf: "wf_record demo_txt"
  by code_simp

lemma demo_parses: "parse_record (serialize demo_txt) = Inr demo_txt"
  using demo_wf by (rule parse_serialize)

lemma demo_bytes: "concatenate_strings \<lparr>tx_strings = [map of_nat (serialize demo_txt)], tx_ttl = ttl\<rparr> = Inr (serialize demo_txt)"
  by code_simp

lemma demo_valid: "validate_record Some id (\<lambda>_. True) demo_rec = Inr ()"
  by code_simp

lemma demo_pinning: "ek_pinning_host sample_platform (str ''g'') (str ''https://g/e'') = Inr (str ''g'')"
  by code_simp

lemma demo_ek_keys: "jwks_from_json [(str ''keys'', JArr [JObj (jwk_raw sample_ek)])] = Inr [sample_ek]"
  by code_simp

lemma demo_ku_keys: "jwks_from_json [(str ''keys'', JArr [JObj (jwk_raw sample_ok)])] = Inr [sample_ok]"
  by code_simp

lemma demo_current_keys:
  "current_protocol_signing_key (\<lambda>_. None) [sample_ek] (Some (str ''DNSid1'')) = Inr sample_ek"
  "current_protocol_signing_key (\<lambda>_. None) [sample_ok] (Some (str ''DNSid1'')) = Inr sample_ok"
  by code_simp+

lemma demo_sg: "b64url_decode_strict sample_ek_x = Inr (replicate 31 0 @ [1])"
  by code_simp

lemma demo_sg_bare: "find_sub sample_ek_x (str ''..'') = None" "58 \<notin> set sample_ek_x"
  by code_simp+

lemma demo_canonical: "\<not> (\<exists>c \<in> set (canonical demo_rec). c \<ge> 128)"
  by code_simp

lemma demo_host: "rbind (extract_host sample_platform (str ''https://a.example/k'')) (\<lambda>h. normalize_fqdn Some h False) = Inr demo_domain"
  by code_simp

lemma demo_method: "parse_ledger_ref (tr_lr demo_rec) = Inr (str ''c2sp-tlog'', drop 10 (tr_lr demo_rec))"
  by code_simp

lemma demo_name: "normalize_fqdn Some demo_domain False = Inr demo_domain"
  by code_simp

lemma demo_rec_fields:
  "tr_v demo_rec = str ''DNSid1''" "tr_gi demo_rec = str ''g''" "tr_ek demo_rec = str ''https://g/e''"
  "tr_ku demo_rec = str ''https://a.example/k''" "tr_su demo_rec = str ''https://s.io''" "tr_sg demo_rec = sample_ek_x"
  "tr_ka demo_rec = []" "tr_fl demo_rec = []" "tr_identity_fqdn demo_rec = demo_domain"
  by (simp_all add: demo_rec_def demo_txt_def)

definition demo_now :: Events.pydatetime where
  "demo_now = \<lparr>dt_aware = True, dt_us = 20000000\<rparr>"

lemma demo_from_dns:
  assumes "0 \<le> ttl" "ttl < 1000"
  shows "record_from_dns (demo_env ttl factory readers) demo_domain
      [\<lparr>tx_strings = [map of_nat (serialize demo_txt)], tx_ttl = ttl\<rparr>] (Some UNSIGNED) demo_now
     = Inr (demo_rec, ttl, demo_now\<lparr>dt_us := 20000000 + ttl * 1000000\<rparr>)"
  using assms demo_valid
  unfolding record_from_dns_def list.sel demo_bytes rbind_simps Let_def demo_parses demo_rec_def [symmetric] sum.case
  by (simp add: demo_env_def demo_config_def sample_platform_def add_us_def demo_now_def ZERO_TIME_def MAX_DATE_SECONDS_def)

lemma demo_authenticated: "authenticate_record sample_platform demo_rec [sample_ek] = Inr sample_ek"
proof -
  have pf: "pf_float_int sample_platform = (\<lambda>_. None)" by (simp add: sample_platform_def)
  have "ascii_encode (canonical demo_rec) = Inr (map of_nat (canonical demo_rec))"
    using demo_canonical by (simp only: ascii_encode_def if_False)
  then show ?thesis
    unfolding authenticate_record_def demo_rec_fields pf demo_current_keys(1) rbind_simps
    by (simp only: demo_sg_bare demo_sg sum.case sample_accepts(1) rbind_simps simp_thms if_False if_True)
qed

lemma demo_separated:
  assumes "thumbprint sample_ok = Inr t"
  shows "separate_operational_key sample_platform demo_rec [sample_ek] [sample_ok] sample_ek = Inr sample_ok"
proof -
  have pf: "pf_float_int sample_platform = (\<lambda>_. None)" by (simp add: sample_platform_def)
  obtain te where te: "thumbprint sample_ek = Inr te" "te \<noteq> t"
    using sample_keys_separate assms by (auto simp: separate_keys_def)
  then show ?thesis
    using assms by (simp only: separate_operational_key_def demo_rec_fields pf demo_current_keys(2) rbind_simps mapR.simps) simp
qed

lemma demo_urls: "tr_ek demo_txt = str ''https://g/e''" "tr_ku demo_txt = str ''https://a.example/k''"
  "str ''https://g/e'' \<noteq> str ''https://a.example/k''" "str ''https://s.io'' \<noteq> str ''https://g/e''"
  "str ''https://s.io'' \<noteq> str ''https://a.example/k''"
  by (simp_all add: demo_txt_def)

definition demo_status :: AgentStatus where
  "demo_status = \<lparr>as_state = str ''ACTIVE'', as_last_transition_at = utc_seconds 1, as_revocation_reason = []\<rparr>"

lemma demo_status_read:
  "validate_status_document (parse_agent_status_from_dict (\<lambda>_. Some (utc_seconds 1))
     [(str ''state'', JStr (str ''ACTIVE'')), (str ''lastTransitionAt'', JStr (str ''t''))]) = Inr demo_status"
  by code_simp

lemma demo_fetches:
  fixes st :: "('h, 'w) manager_state"
  shows "fetch_key_set (demo_env ttl factory readers) (tr_ek demo_rec) host boundary rv st
      = (Inr ([sample_ek], no_cert), st\<lparr>ms_reads := Suc (ms_reads st)\<rparr>)"
    "fetch_key_set (demo_env ttl factory readers) (tr_ku demo_rec) host boundary rv st
      = (Inr ([sample_ok], no_cert), st\<lparr>ms_reads := Suc (ms_reads st)\<rparr>)"
    "fetch_active_status (demo_env ttl factory readers) (tr_su demo_rec) rv st
      = (Inr demo_status, st\<lparr>ms_reads := Suc (ms_reads st)\<rparr>)"
    "fetch_status (demo_env ttl factory readers) (tr_su demo_rec) rv st
      = (Inr demo_status, st\<lparr>ms_reads := Suc (ms_reads st)\<rparr>)"
proof -
  have j: "demo_json (str ''https://g/e'') = Inr ([(str ''keys'', JArr [JObj (jwk_raw sample_ek)])], no_cert)"
    "demo_json (str ''https://a.example/k'') = Inr ([(str ''keys'', JArr [JObj (jwk_raw sample_ok)])], no_cert)"
    "demo_json (str ''https://s.io'') = Inr ([(str ''state'', JStr (str ''ACTIVE'')), (str ''lastTransitionAt'', JStr (str ''t''))], no_cert)"
    using demo_urls by (simp_all only: demo_json_def if_True if_False simp_thms) auto
  have e: "en_fetch_strict_json (demo_env ttl factory readers) = (\<lambda>_ url _ _ _. demo_json url)"
    "en_fromisoformat (demo_env ttl factory readers) = (\<lambda>_. Some (utc_seconds 1))" by (simp_all add: demo_env_def)
  show "fetch_key_set (demo_env ttl factory readers) (tr_ek demo_rec) host boundary rv st
      = (Inr ([sample_ek], no_cert), st\<lparr>ms_reads := Suc (ms_reads st)\<rparr>)"
    by (simp only: fetch_key_set_def next_read_Inr demo_rec_fields e j rbind_simps prod.case demo_ek_keys simp_thms)
  show "fetch_key_set (demo_env ttl factory readers) (tr_ku demo_rec) host boundary rv st
      = (Inr ([sample_ok], no_cert), st\<lparr>ms_reads := Suc (ms_reads st)\<rparr>)"
    by (simp only: fetch_key_set_def next_read_Inr demo_rec_fields e j rbind_simps prod.case demo_ku_keys simp_thms)
  show s: "fetch_status (demo_env ttl factory readers) (tr_su demo_rec) rv st
      = (Inr demo_status, st\<lparr>ms_reads := Suc (ms_reads st)\<rparr>)"
    by (simp only: fetch_status_def next_read_Inr demo_rec_fields e j rbind_simps prod.case demo_status_read simp_thms
        status_fetch_boundary_def sum.case)
  show "fetch_active_status (demo_env ttl factory readers) (tr_su demo_rec) rv st
      = (Inr demo_status, st\<lparr>ms_reads := Suc (ms_reads st)\<rparr>)"
    by (simp add: fetch_active_status_def sbind_def s slift_def require_active_status_def demo_status_def)
qed

text \<open>A reader that accepts the record and the keys.\<close>

definition accepting :: "(pystr \<Rightarrow> 'w \<Rightarrow> 'h res \<times> 'w) \<Rightarrow> ('h \<Rightarrow> 'w log_methods) \<Rightarrow> 'h \<Rightarrow> 'w \<Rightarrow> 'w \<Rightarrow> bool" where
  "accepting factory readers h w w' \<longleftrightarrow>
     (\<exists>w1 w2 w3 bind continuity b t. factory (tr_lr demo_rec) w = (Inr h, w1)
        \<and> (case lm_preload_history (readers h) of
             None \<Rightarrow> w2 = w1 | Some preload \<Rightarrow> \<forall>n. preload n demo_domain sample_ek w1 = (Inr (), w2))
        \<and> lm_verify_bilateral_binding (readers h) = Some bind \<and> (\<forall>n. bind n demo_rec sample_ek sample_ok w2 = (Inr b, w3))
        \<and> lm_verify_operational_continuity (readers h) = Some continuity \<and> thumbprint sample_ok = Inr t
        \<and> (\<forall>n. continuity n demo_domain (bb_initial_operational_thumbprint b) t w3 = (Inr (), w')))"

definition demo_vd :: "int \<Rightarrow> 'h \<Rightarrow> 'h VerifiedDomain" where
  "demo_vd ttl h =
     \<lparr>vd_domain = demo_domain, vd_record = demo_rec, vd_jwks = [sample_ok], vd_signing_key = sample_ek,
      vd_tls_cert = no_cert, vd_registry_status = demo_status, vd_verified_at = demo_now, vd_dns_ttl = ttl,
      vd_key_bound_at = ZERO_TIME, vd_last_status_check_at = demo_now, vd_dnssec_state = Some UNSIGNED,
      vd_log_reader = BoundReader h, vd_record_signing_jwks = Some [sample_ek],
      vd_record_signing_tls_cert = Some no_cert, vd_dns_expires_at = Some (demo_now\<lparr>dt_us := 20000000 + ttl * 1000000\<rparr>)\<rparr>"

lemma demo_env_fields:
  "en_platform (demo_env ttl factory readers) = sample_platform" "en_readers (demo_env ttl factory readers) = readers"
  "en_registry (demo_env ttl factory readers) = Some [(str ''c2sp-tlog'', factory)]"
  "en_preempt (demo_env ttl factory readers) n = None" "en_clock (demo_env ttl factory readers) n = 20000000"
  "en_config (demo_env ttl factory readers) = demo_config" "en_prefix (demo_env ttl factory readers) = str ''p:''"
  by (simp_all add: demo_env_def)

lemma demo_pinning_eq: "ek_pinning_host sample_platform (tr_gi demo_rec) (tr_ek demo_rec) = Inr (str ''g'')"
  unfolding demo_rec_fields by (rule demo_pinning)

lemma demo_log_reader:
  assumes "factory (tr_lr demo_rec) (ms_world st) = (Inr h, w)"
  shows "identity_log_reader (demo_env ttl factory readers) demo_domain demo_rec st
     = (Inr (BoundReader h), st\<lparr>ms_reads := Suc (ms_reads st), ms_world := w\<rparr>)"
proof -
  have pf: "pf_idna sample_platform = Some" by (simp add: sample_platform_def)
  have "registry_new_reader [(str ''c2sp-tlog'', factory)] (tr_lr demo_rec) (ms_world st) = (Inr (BoundReader h), w)"
    unfolding registry_new_reader_def demo_method using assms by simp
  then show ?thesis
    by (simp only: identity_log_reader_def demo_env_fields demo_rec_fields demo_host pf sbind_def slift_def prod.case sum.case
        on_readers_def Let_def option.case simp_thms if_False)
qed

lemma demo_evidence_branch:
  assumes "accepting factory readers h (ms_world st) w"
  shows "\<exists>n. verify_identity_evidence (demo_env ttl factory readers) demo_domain demo_rec [sample_ek] sample_ek rv st
    = (Inr ([sample_ok], no_cert, BoundReader h, ZERO_TIME), st\<lparr>ms_reads := n, ms_world := w\<rparr>)"
proof -
  from assms obtain w1 w2 w3 bind continuity b t where f: "factory (tr_lr demo_rec) (ms_world st) = (Inr h, w1)"
    and p: "case lm_preload_history (readers h) of
             None \<Rightarrow> w2 = w1 | Some preload \<Rightarrow> \<forall>n. preload n demo_domain sample_ek w1 = (Inr (), w2)"
    and b: "lm_verify_bilateral_binding (readers h) = Some bind" "\<forall>n. bind n demo_rec sample_ek sample_ok w2 = (Inr b, w3)"
    and c: "lm_verify_operational_continuity (readers h) = Some continuity" "thumbprint sample_ok = Inr t"
     "\<forall>n. continuity n demo_domain (bb_initial_operational_thumbprint b) t w3 = (Inr (), w)"
    unfolding accepting_def by blast
  obtain m where pre: "(case lm_preload_history (readers h) of
       None \<Rightarrow> sret () | Some preload \<Rightarrow> on_readers (\<lambda>n. preload n demo_domain sample_ek))
       (st\<lparr>ms_reads := Suc (ms_reads st), ms_world := w1\<rparr>) = (Inr (), st\<lparr>ms_reads := m, ms_world := w2\<rparr>)"
    using p by (cases "lm_preload_history (readers h)") (auto simp: on_readers_def sret_def)
  have lm: "methods_of readers (BoundReader h) = readers h" by (simp add: methods_of_def)
  have run: "run_concurrently (demo_env ttl factory readers)
      (fetch_key_set (demo_env ttl factory readers) (tr_ku demo_rec) demo_domain False rv)
      (case lm_preload_history (readers h) of
         None \<Rightarrow> sret () | Some preload \<Rightarrow> on_readers (\<lambda>n. preload n demo_domain sample_ek))
       (st\<lparr>ms_reads := Suc (ms_reads st), ms_world := w1\<rparr>) = (Inr (([sample_ok], no_cert), ()), st\<lparr>ms_reads := Suc m, ms_world := w2\<rparr>)"
    unfolding run_concurrently_Inr using pre by (simp add: demo_fetches(2))
  have lr: "identity_log_reader (demo_env ttl factory readers) demo_domain demo_rec st
     = (Inr (BoundReader h), st\<lparr>ms_reads := Suc (ms_reads st), ms_world := w1\<rparr>)" by (rule demo_log_reader) (rule f)
  have "verify_identity_evidence (demo_env ttl factory readers) demo_domain demo_rec [sample_ek] sample_ek rv st
    = (Inr ([sample_ok], no_cert, BoundReader h, ZERO_TIME), st\<lparr>ms_reads := Suc (Suc (Suc m)), ms_world := w\<rparr>)"
    unfolding verify_identity_evidence_def sbind_def [of "identity_log_reader _ _ _"] lr prod.case sum.case Let_def
      demo_env_fields lm
    unfolding sbind_def [of "run_concurrently _ _ _"] run prod.case sum.case
    using b c by (simp add: sbind_def slift_def demo_separated [OF c(2)] require_log_method_def on_readers_def demo_rec_fields sret_def)
  then show ?thesis ..
qed

lemma demo_collect:
  assumes "accepting factory readers h (ms_world st) w" "0 \<le> ttl" "ttl < 1000"
  shows "\<exists>n. collect_evidence (demo_env ttl factory readers) demo_domain rv st
    = (Inr (demo_vd ttl h), st\<lparr>ms_reads := n, ms_world := w\<rparr>)"
proof -
  let ?en = "demo_env ttl factory readers"
  have now: "en_now ?en s = (Inr demo_now, s\<lparr>ms_reads := Suc (ms_reads s)\<rparr>)" for s
    by (simp add: en_now_def read_clock_def demo_env_fields demo_now_def)
  have look: "lookup_txt ?en demo_domain s = (Inr ([\<lparr>tx_strings = [map of_nat (serialize demo_txt)], tx_ttl = ttl\<rparr>], Some UNSIGNED),
      s\<lparr>ms_reads := Suc (ms_reads s)\<rparr>)" for s
    by (simp add: lookup_txt_def demo_env_def)
  let ?st = "st\<lparr>ms_reads := Suc (Suc (Suc (Suc (ms_reads st))))\<rparr>"
  have "accepting factory readers h (ms_world ?st) w" using assms(1) by simp
  from demo_evidence_branch [OF this] obtain n where
    e: "verify_identity_evidence ?en demo_domain demo_rec [sample_ek] sample_ek rv ?st
      = (Inr ([sample_ok], no_cert, BoundReader h, ZERO_TIME), ?st\<lparr>ms_reads := n, ms_world := w\<rparr>)" by blast
  have run: "run_concurrently ?en (verify_identity_evidence ?en demo_domain demo_rec [sample_ek] sample_ek rv)
      (fetch_active_status ?en (tr_su demo_rec) rv) (st\<lparr>ms_reads := Suc (Suc (Suc (ms_reads st)))\<rparr>)
      = (Inr (([sample_ok], no_cert, BoundReader h, ZERO_TIME), demo_status), st\<lparr>ms_reads := n, ms_world := w\<rparr>)"
    unfolding run_concurrently_Inr using e by (simp add: demo_fetches(3))
  have "collect_evidence ?en demo_domain rv st
    = (Inr (demo_vd ttl h), st\<lparr>ms_reads := Suc (Suc n), ms_world := w\<rparr>)"
    using run
    by (simp add: collect_evidence_def sbind_def now look slift_def demo_from_dns [OF assms(2,3)] demo_env_fields
        demo_pinning_eq demo_fetches(1) demo_authenticated sret_def demo_vd_def)
  then show ?thesis ..
qed

lemma demo_vd_fields:
  "vd_domain (demo_vd ttl h) = demo_domain" "vd_record (demo_vd ttl h) = demo_rec" "vd_dns_ttl (demo_vd ttl h) = ttl"
  "cert_bounds (demo_vd ttl h) = []" "dns_expiry (demo_vd ttl h) = Inr (demo_now\<lparr>dt_us := 20000000 + ttl * 1000000\<rparr>)"
  "vd_signing_key (demo_vd ttl h) = sample_ek" "vd_last_status_check_at (demo_vd ttl h) = demo_now"
  by (simp_all add: demo_vd_def cert_bounds_def dns_expiry_def no_cert_def)

lemma demo_fresh:
  assumes "0 \<le> ttl"
  shows "require_fresh_evidence (demo_env ttl factory readers) (demo_vd ttl h) (fresh \<or> ttl = 0) st
    = (Inr (), st\<lparr>ms_reads := Suc (ms_reads st)\<rparr>)"
  using assms
  by (auto simp: require_fresh_evidence_def sbind_now demo_env_fields vd_require_fresh_evidence_def expired_code_def demo_vd_fields
      demo_rec_fields time_ge_def demo_now_def sret_def)

lemma demo_entry:
  assumes "0 < ttl"
  shows "entry_expired (en_clock (demo_env ttl factory readers)) (demo_vd ttl h) st = (Inr False, st\<lparr>ms_reads := Suc (ms_reads st)\<rparr>)"
  using assms
  by (simp add: entry_expired_def sbind_def read_clock_def demo_env_fields slift_def expiry_def demo_vd_fields demo_rec_fields
      PERMITTED_KA_VALUES_def time_ge_def demo_now_def)

text \<open>A cold verification of the sample domain succeeds and is stored when its TTL is positive.\<close>

lemma demo_uncached:
  assumes "accepting factory readers h (ms_world st) w" "0 \<le> ttl" "ttl < 1000"
  shows "\<exists>n. verify_domain_uncached (demo_env ttl factory readers) demo_domain rv st
    = (Inr (demo_vd ttl h), st\<lparr>ms_reads := n, ms_world := w,
         ms_cache := (if ttl = 0 then dict_pop (str ''p:'' @ demo_domain) (ms_cache st)
                      else dict_set (str ''p:'' @ demo_domain) (demo_vd ttl h) (ms_cache st))\<rparr>)"
proof -
  obtain n where c: "collect_evidence (demo_env ttl factory readers) demo_domain rv st
    = (Inr (demo_vd ttl h), st\<lparr>ms_reads := n, ms_world := w\<rparr>)" using demo_collect [OF assms] by blast
  show ?thesis
  proof (cases "ttl = 0")
    case True
    have "verify_domain_uncached (demo_env ttl factory readers) demo_domain rv st = (Inr (demo_vd ttl h), st\<lparr>ms_reads := Suc n, ms_world := w,
        ms_cache := dict_pop (str ''p:'' @ demo_domain) (ms_cache st)\<rparr>)"
      using True demo_fresh [OF assms(2), of factory readers h True]
      by (simp add: verify_domain_uncached_def sbind_def c [unfolded True] cache_verification_def demo_vd_fields cache_evict_def mem_evict_def demo_env_fields sret_def)
    with True show ?thesis by auto
  next
    case False
    then have ttl: "0 < ttl" using assms(2) by simp
    have "verify_domain_uncached (demo_env ttl factory readers) demo_domain rv st = (Inr (demo_vd ttl h),
        st\<lparr>ms_reads := Suc (Suc (Suc n)), ms_world := w, ms_cache := dict_set (str ''p:'' @ demo_domain) (demo_vd ttl h) (ms_cache st)\<rparr>)"
      using ttl demo_fresh [OF assms(2), of factory readers h True]
      by (simp add: verify_domain_uncached_def sbind_def c cache_verification_def demo_vd_fields cache_put_def mem_put_def demo_entry
          demo_env_fields(7) sret_def)
    with False show ?thesis by auto
  qed
qed

lemma demo_accept:
  assumes "0 \<le> ttl"
  shows "accept_verification (demo_env ttl factory readers) demo_domain (demo_vd ttl h) None acceptance st
    = (Inr (demo_vd ttl h), st\<lparr>ms_reads := Suc (ms_reads st)\<rparr>)"
proof -
  obtain t where "thumbprint sample_ek = Inr t" using sample_keys_separate by (auto simp: separate_keys_def)
  then show ?thesis
    using demo_fresh [OF assms, of factory readers h False]
    by (simp add: accept_verification_def sbind_def slift_def enforce_mtls_policy_def demo_vd_fields policy_flags_def demo_rec_fields
        enforce_counterparty_acceptance_def signing_key_thumbprint_def demo_env_fields demo_config_def sret_def)
qed

lemma demo_verify:
  assumes "accepting factory readers h (ms_world st) w" "0 \<le> ttl" "ttl < 1000" "\<not> ms_closed st" "ms_cache st = []"
  shows "\<exists>st'. verify (demo_env ttl factory readers) rounds demo_domain None acceptance refresh st = (Inr (demo_vd ttl h), st')
    \<and> ms_world st' = w"
proof -
  let ?en = "demo_env ttl factory readers"
  have pf: "pf_idna sample_platform = Some" by (simp add: sample_platform_def)
  have nm: "normalize_fqdn Some demo_domain False = Inr demo_domain" by code_simp
  obtain n where u: "verify_domain_uncached ?en demo_domain rv st
    = (Inr (demo_vd ttl h), st\<lparr>ms_reads := n rv, ms_world := w,
         ms_cache := (if ttl = 0 then dict_pop (str ''p:'' @ demo_domain) (ms_cache st)
                      else dict_set (str ''p:'' @ demo_domain) (demo_vd ttl h) (ms_cache st))\<rparr>)" for rv
    using demo_uncached [OF assms(1-3)] by metis
  have "cache_get (en_clock ?en) (en_prefix ?en) demo_domain st = (Inr None, st)"
    using assms(5) by (simp add: cache_get_def mem_get_def sbind_def sret_def)
  then have "reusable_verification ?en rounds demo_domain st = finish_verification ?en demo_domain (verify_domain_uncached ?en demo_domain False) st"
    by (simp add: reusable_verification_def sbind_def)
  then show ?thesis
    using assms(4) by (cases refresh) (simp_all add: verify_def sbind_def slift_def demo_env_fields pf nm finish_verification_def u demo_accept [OF assms(2)])
qed

definition yes_methods :: "unit log_methods" where
  "yes_methods =
     \<lparr>lm_key_timestamp = \<lambda>_ _ _ w. (Inr demo_now, w), lm_verify_non_revocation = \<lambda>_ _ _. noop_raise,
      lm_rebuild_history = \<lambda>_ _ w. (Inr [], w), lm_preload_history = None,
      lm_verify_bilateral_binding = Some (\<lambda>_ _ _ _ w.
        (Inr \<lparr>bb_initial_operational_thumbprint = [], bb_initial_entity_thumbprint = [], bb_timestamp = demo_now\<rparr>, w)),
      lm_verify_operational_continuity = Some (\<lambda>_ _ _ _ w. (Inr (), w))\<rparr>"

definition yes_env :: "int \<Rightarrow> (unit, unit) env" where
  "yes_env ttl = demo_env ttl (\<lambda>_ w. (Inr (), w)) (\<lambda>_. yes_methods)"

definition yes_start :: "(unit, unit) manager_state" where
  "yes_start = \<lparr>ms_reads = 0, ms_cache = [], ms_world = (), ms_closed = False\<rparr>"

lemma yes_accepting: "accepting (\<lambda>_ w. (Inr (), w)) (\<lambda>_. yes_methods) () w w'"
proof -
  obtain t where "thumbprint sample_ok = Inr t" using sample_keys_separate by (auto simp: separate_keys_def)
  then show ?thesis by (simp add: accepting_def yes_methods_def)
qed

lemma yes_verify: "\<exists>st'. verify (yes_env 300) rounds demo_domain None acceptance refresh yes_start = (Inr (demo_vd 300 ()), st')"
  using demo_verify [where st = yes_start and ttl = 300 and rounds = rounds and acceptance = acceptance and refresh = refresh, OF yes_accepting]
  by (auto simp: yes_env_def yes_start_def)

theorem verified_identity_evidence_witness:
  "evidence_ok (yes_env 300) (demo_vd 300 ()) \<and> enforce_counterparty_acceptance (en_config (yes_env 300)) (demo_vd 300 ()) = Inr ()"
proof -
  obtain st' where "verify_domain (yes_env 300) 0 demo_domain None yes_start = (Inr (demo_vd 300 ()), st')"
    using yes_verify [of 0 True False] by (auto simp: verify_domain_def)
  from verified_identity_evidence [OF rtranclp.rtrancl_refl _ this] show ?thesis by (simp add: yes_start_def)
qed



text \<open>The sample domain is cached; its status endpoint now says RETIRED.\<close>

definition retired_env :: "(unit, unit) env" where
  "retired_env = (yes_env 300)\<lparr>en_fetch_strict_json := \<lambda>_ _ _ _ _.
     Inr ([(str ''state'', JStr (str ''RETIRED'')), (str ''lastTransitionAt'', JStr (str ''t''))], no_cert)\<rparr>"

definition cached_start :: "(unit, unit) manager_state" where
  "cached_start = yes_start\<lparr>ms_cache := [(str ''p:'' @ demo_domain, demo_vd 300 ())]\<rparr>"

lemma retired_status:
  "fetch_status retired_env su rv st
     = (Inr \<lparr>as_state = str ''RETIRED'', as_last_transition_at = utc_seconds 1, as_revocation_reason = []\<rparr>, st\<lparr>ms_reads := Suc (ms_reads st)\<rparr>)"
proof -
  have "validate_status_document (parse_agent_status_from_dict (\<lambda>_. Some (utc_seconds 1))
     [(str ''state'', JStr (str ''RETIRED'')), (str ''lastTransitionAt'', JStr (str ''t''))])
     = Inr \<lparr>as_state = str ''RETIRED'', as_last_transition_at = utc_seconds 1, as_revocation_reason = []\<rparr>" by code_simp
  moreover have "en_fetch_strict_json retired_env = (\<lambda>_ _ _ _ _.
     Inr ([(str ''state'', JStr (str ''RETIRED'')), (str ''lastTransitionAt'', JStr (str ''t''))], no_cert))"
    "en_fromisoformat retired_env = (\<lambda>_. Some (utc_seconds 1))"
    by (simp_all add: retired_env_def yes_env_def demo_env_def)
  ultimately show ?thesis
    by (simp only: fetch_status_def next_read_Inr rbind_simps prod.case status_fetch_boundary_def sum.case simp_thms)
qed

lemma retired_get:
  fixes st :: "(unit, unit) manager_state"
  assumes "ms_cache st = [(str ''p:'' @ demo_domain, demo_vd 300 ())]"
  shows "cache_get (en_clock retired_env) (en_prefix retired_env) demo_domain st
    = (Inr (Some (demo_vd 300 ())), st\<lparr>ms_reads := Suc (Suc (ms_reads st))\<rparr>)"
proof -
  have c: "en_clock retired_env = en_clock (demo_env 300 (\<lambda>_ w. (Inr (), w)) (\<lambda>_. yes_methods))"
    by (simp add: retired_env_def yes_env_def)
  have p: "en_prefix retired_env = str ''p:''" by (simp add: retired_env_def yes_env_def demo_env_def)
  have e: "entry_expired (en_clock retired_env) (demo_vd 300 ()) s = (Inr False, s\<lparr>ms_reads := Suc (ms_reads s)\<rparr>)"
    for s :: "(unit, unit) manager_state" unfolding c by (rule demo_entry) simp
  have m: "map_of (ms_cache st) (str ''p:'' @ demo_domain) = Some (demo_vd 300 ())" using assms by simp
  show ?thesis by (simp only: cache_get_def mem_get_def p m option.case sbind_def e prod.case sum.case if_False sret_def) simp
qed

theorem inactive_status_evicts_witness:
  "\<exists>st'. verify retired_env (Suc 0) demo_domain None True False cached_start = (not_active, st') \<and> ms_cache st' = []"
proof -
  let ?st = "cached_start\<lparr>ms_reads := 3\<rparr>"
  have f: "pf_idna (en_platform retired_env) = Some" "cf_status_check_interval (en_config retired_env) = 0"
    "en_clock retired_env n = 20000000" "en_prefix retired_env = str ''p:''" for n
    by (simp_all add: retired_env_def yes_env_def demo_env_def sample_platform_def demo_config_def)
  have g: "cache_get (en_clock retired_env) (en_prefix retired_env) demo_domain cached_start = (Inr (Some (demo_vd 300 ())), cached_start\<lparr>ms_reads := 2\<rparr>)"
    using retired_get [of cached_start] by (simp add: cached_start_def yes_start_def)
  have g2: "cache_get (en_clock retired_env) (en_prefix retired_env) demo_domain ?st = (Inr (Some (demo_vd 300 ())), cached_start\<lparr>ms_reads := 5\<rparr>)"
    using retired_get [of ?st] by (simp add: cached_start_def)
  have r: "refresh_status retired_env (Suc 0) demo_domain (demo_vd 300 ()) ?st
      = (not_active, cached_start\<lparr>ms_reads := 6, ms_cache := []\<rparr>)"
    unfolding refresh_status.simps sbind_def [of "cache_get _ _ _"] g2 prod.case sum.case option.case
    by (simp add: sbind_def slift_def time_after_def demo_vd_fields retired_status cache_refreshed_status_def cache_evict_def mem_evict_def
        not_active_def cached_start_def f dict_pop_def)
  have nm: "normalize_fqdn Some demo_domain False = Inr demo_domain" by code_simp
  have "reusable_verification retired_env (Suc 0) demo_domain cached_start = (not_active, cached_start\<lparr>ms_reads := 6, ms_cache := []\<rparr>)"
    unfolding reusable_verification_def sbind_def [of "cache_get _ _ _"] g prod.case sum.case option.case
    using r by (simp add: sbind_now f demo_vd_fields demo_now_def finish_verification_def not_active_def cache_evict_def mem_evict_def dict_pop_def)
  then have v: "verify retired_env (Suc 0) demo_domain None True False cached_start = (not_active, cached_start\<lparr>ms_reads := 6, ms_cache := []\<rparr>)"
    by (simp add: verify_def sbind_def slift_def f nm not_active_def) (simp add: cached_start_def yes_start_def)
  have "map_of (ms_cache (cached_start\<lparr>ms_reads := 6, ms_cache := []\<rparr>)) (en_prefix retired_env @ demo_domain) = None"
    by (rule inactive_status_evicts [OF v [unfolded not_active_def]]) (simp_all add: f nm)
  with v show ?thesis by auto
qed

theorem acceptance_is_allowlist_witness:
  "enforce_counterparty_acceptance demo_config (demo_vd 300 ()) = Inr ()"
proof -
  obtain t where "thumbprint (vd_signing_key (demo_vd 300 ())) = Inr t"
    using sample_keys_separate by (auto simp: separate_keys_def demo_vd_fields)
  moreover have "normalize_fqdn Some (str ''g'') False = Inr (str ''g'')" by code_simp
  then have "validate_verification_config Some demo_config = Inr demo_config"
    by (simp add: validate_verification_config_def demo_config_def check_pins_def)
  ultimately show ?thesis
    using acceptance_is_allowlist [of Some demo_config demo_config "demo_vd 300 ()" t] \<open>normalize_fqdn Some (str ''g'') False = Inr (str ''g'')\<close>
    by (simp add: demo_config_def demo_vd_fields demo_rec_fields)
qed

theorem zero_ttl_refresh_never_returns_witness:
  "\<exists>st' m. refresh_status (yes_env 0) 1000 demo_domain (demo_vd 300 ()) yes_start = (Inl (VerificationError DEADLINE_EXCEEDED m True), st')"
proof -
  have "\<exists>vd s'. verify_domain_uncached (yes_env 0) demo_domain False s = (Inr vd, s') \<and> vd_dns_ttl vd = 0" for s
    using demo_uncached [where st = s and ttl = 0 and rv = False, OF yes_accepting] by (auto simp: yes_env_def demo_vd_fields)
  from zero_ttl_refresh_never_returns [OF this, of yes_start 1000 "demo_vd 300 ()"] show ?thesis by (simp add: yes_start_def)
qed

theorem non_ascii_txt_escapes_witness:
  "\<exists>e st'. verify_domain_uncached ((yes_env 300)\<lparr>en_fetch_txt := \<lambda>_ _. DnsAnswer [\<lparr>tx_strings = [[200]], tx_ttl = 300\<rparr>] (Some UNSIGNED)\<rparr>)
     demo_domain False yes_start = (Inl e, st') \<and> \<not> is_VerificationError e"
  by (rule non_ascii_txt_escapes [where b = 200 and tx = "\<lparr>tx_strings = [[200]], tx_ttl = 300\<rparr>" and dnssec = "Some UNSIGNED"])
    (simp_all add: dnssec_accepted_def yes_env_def demo_env_fields demo_config_def)

end
