(* ===== verification/Event_Reader.thy ===== *)
theory Event_Reader
  imports Log_Reader Tlog_Proof
begin

text \<open>
  \<^verbatim>\<open>C2spTlogReader.read_event\<close> of \<^verbatim>\<open>dnsid/c2sp_tlog/reader.py\<close>: a single event, by reference. The entry is proved
  included under a checkpoint of its own, and authorised by the lifecycle that a complete scan of the
  stream establishes. The proofs supplied in the options are the association list \<open>proofs\<close>.
\<close>

datatype event_clock = AtProof | AtProofPolicy | AtScan

definition event_reference ::
  "(pystr \<Rightarrow> pystr) \<Rightarrow> (pystr \<Rightarrow> bool) \<Rightarrow> reader \<Rightarrow> (pystr \<times> (TlogProofV1 + pystr)) list \<Rightarrow> LogRef \<Rightarrow>
   (ParsedC2spTlogLr \<times> int \<times> (TlogProofV1 + pystr)) res" where
  "event_reference lower netloc_ok rd proofs ref =
     rbind (parse_c2sp_tlog_lr lower netloc_ok (logref_str ref)) (\<lambda>parsed.
       if lr_scope parsed \<noteq> lr_scope (rd_parsed rd) \<or> lr_log_prefix parsed \<noteq> lr_log_prefix (rd_parsed rd)
          \<or> lr_stream_id parsed \<noteq> lr_stream_id (rd_parsed rd)
       then log_err ''C2SP event ref does not belong to this reader''
       else
         (case lr_entry_index parsed of
            None \<Rightarrow> log_err ''C2SP event ref missing @index''
          | Some n \<Rightarrow>
              (case map_of proofs (dec_of_int n) of
                 None \<Rightarrow> log_err ''C2SP read_event requires a proof/source for historical inclusion''
               | Some p \<Rightarrow> Inr (parsed, n, p))))"

definition event_evidence ::
  "platform \<Rightarrow> (bytes \<Rightarrow> bytes \<Rightarrow> bytes \<Rightarrow> bool) \<Rightarrow> reader \<Rightarrow> (event_clock \<Rightarrow> rat) \<Rightarrow> reader_state \<Rightarrow> ParsedC2spTlogLr \<Rightarrow> int \<Rightarrow>
   TlogProofV1 + pystr \<Rightarrow> StreamEvidence \<Rightarrow> (IndexedEntry \<times> LogEvent \<times> JWK) res" where
  "event_evidence pf ed_verify rd now st parsed n p evidence =
     (let policy = ro_policy (rd_options rd); skew = ro_max_clock_skew_ms (rd_options rd) in
      (case find (\<lambda>e. ie_index e = n) (se_entries evidence) of
         None \<Rightarrow> log_err ''C2SP entry not found in source''
       | Some entry \<Rightarrow>
           rbind (verify_c2sp_tlog_proof ed_verify (ie_data entry) p policy (Some (lr_origin parsed)) (lr_scope parsed) (now AtProof) skew)
             (\<lambda>verified_proof.
              if tp_index verified_proof \<noteq> n then log_err ''C2SP proof index mismatch''
              else
                rbind (parse_c2sp_event_entry pf (ie_data entry) (reader_context rd parsed) False) (\<lambda>ev.
                rbind (enforce_checkpoint_policy ed_verify (tp_checkpoint verified_proof) (lr_origin parsed) policy (lr_scope parsed)
                         (now AtProofPolicy) skew) (\<lambda>proof_policy.
                  (case pr_checkpoint_witness_time proof_policy of
                     None \<Rightarrow> log_err ''C2SP proof timestamp requires an accepted timestamped witness quorum''
                   | Some t \<Rightarrow>
                       if later_than (ev_timestamp ev) (t div 1000 + skew, 0)
                       then log_err ''C2SP event timestamp is later than its proof checkpoint integration time''
                       else
                         (case (if ro_entity_key (rd_options rd) \<noteq> None then ro_entity_key (rd_options rd)
                                else rs_trusted_entity_key st) of
                            None \<Rightarrow> log_err ''C2SP read_event requires a trusted entity key''
                          | Some entity_key \<Rightarrow>
                              if \<not> se_complete evidence
                              then log_err ''C2SP read_event requires complete lifecycle evidence for event authorization''
                              else Inr (entry, ev, entity_key))))))))"

definition read_event ::
  "(pystr \<Rightarrow> pystr) \<Rightarrow> (pystr \<Rightarrow> bool) \<Rightarrow> platform \<Rightarrow> (bytes \<Rightarrow> bytes \<Rightarrow> bytes \<Rightarrow> bool) \<Rightarrow> reader \<Rightarrow> (pystr \<times> (TlogProofV1 + pystr)) list \<Rightarrow>
   (event_clock \<Rightarrow> rat) \<Rightarrow> answers \<Rightarrow> LogRef \<Rightarrow> reader_state \<Rightarrow> LogEvent res \<times> reader_state" where
  "read_event lower netloc_ok pf ed_verify rd proofs now ans ref st =
     verification_boundary
       (case rbind (event_reference lower netloc_ok rd proofs ref) (\<lambda>(parsed, n, p).
             rbind (rd_load_stream rd parsed (lr_stream_id parsed)) (\<lambda>evidence.
             rbind (event_evidence pf ed_verify rd now st parsed n p evidence) (\<lambda>(entry, ev, entity_key).
             rbind (prepare_scan ed_verify rd (now AtScan) evidence
                      (new_budget (ro_migration_limits (rd_options rd)) {lr_lr (rd_parsed rd)})) (\<lambda>(witness_time, budget).
               Inr (parsed, evidence, entry, ev, entity_key, witness_time, budget))))) of
          Inl e \<Rightarrow> (Inl e, st)
        | Inr (parsed, evidence, entry, ev, entity_key, witness_time, budget) \<Rightarrow>
            (case enforce_append_only_consistency (rs_store st) (lr_origin (rd_parsed rd))
                    (ck_tree_size (se_checkpoint evidence)) (ck_root_hash (se_checkpoint evidence))
                    (map ie_data (sort_key ie_index (se_entries evidence))) (Aware witness_time 0) of
               (Inl e, s) \<Rightarrow> (Inl e, st\<lparr>rs_store := s\<rparr>)
             | (Inr _, s) \<Rightarrow>
                 (rbind (scan_history pf rd evidence (ev_domain ev) entity_key ans budget None witness_time) (\<lambda>(history, _).
                  rbind (verifier_options rd parsed entity_key witness_time) (\<lambda>opts.
                  rbind (verify_occurrence pf entry (vh_current_stream_events history) opts) (\<lambda>item.
                    Inr (vl_event item)))),
                  st\<lparr>rs_store := an_store ans s\<rparr>)))"

text \<open>\<^verbatim>\<open>preload_history\<close>: the history is loaded into the cache and only a failure is reported.\<close>

definition preload_history ::
  "platform \<Rightarrow> (bytes \<Rightarrow> bytes \<Rightarrow> bytes \<Rightarrow> bool) \<Rightarrow> reader \<Rightarrow> (clock_read \<Rightarrow> rat) \<Rightarrow> answers \<Rightarrow>
   pystr \<Rightarrow> JWK \<Rightarrow> reader_state \<Rightarrow> unit res \<times> reader_state" where
  "preload_history pf ed_verify rd now ans domain entity_key st =
     verification_boundary
       (case load_complete_history pf ed_verify rd now ans domain (Some entity_key) False None None st of
          (Inl e, st1) \<Rightarrow> (Inl e, st1)
        | (Inr _, st1) \<Rightarrow> (Inr (), st1))"

section \<open>What a read establishes\<close>





section \<open>A sample read\<close>










end
