(* ===== verification/Verified_Log.thy ===== *)
theory Verified_Log
  imports Identity_Claims Event_Reader
begin

text \<open>
  The verifier of \<open>Domain_Verifier\<close> on the transparency log of \<open>Log_Reader\<close>: the factory that
  \<^verbatim>\<open>create_c2sp_tlog_verification_registry\<close> (\<^verbatim>\<open>c2sp_tlog/verification_registry.py\<close>) registers, the readers it has made
  with what each remembers, the trusted checkpoints they share, and the interpretation of the interface
  \<open>lifecycle_log\<close> on them.
\<close>

section \<open>Readers as objects\<close>





section \<open>The interface holds\<close>






lemma justified_state [simp]: "histories_justified pf ed_verify rd (st\<lparr>rs_store := s\<rparr>) = histories_justified pf ed_verify rd st"
  by (simp add: histories_justified_def)






section \<open>The verifier on this log\<close>












section \<open>A sample verification against the log\<close>












end
