(* ===== verification/Spec2Isabelle.thy ===== *)
theory Spec2Isabelle
  imports Tiles Tlog_Proof Checkpoint_Store Stream_Verifier Domain_Log Verified_Log
begin

text \<open>
  Verification of the core of dnsid-py: the client of a C2SP transparency log that carries the
  lifecycle of a domain's identity, the data the SDK reads from it, and the verification of a domain on top.

  \<^bold>\<open>The program.\<close> An identity is a stream of signed events (ISSUANCE, KEY\_ROTATION, DELEGATION, MIGRATION,
  RETIREMENT, REVOCATION) in a tiled log. A reader fetches a checkpoint, checks it against the local
  policy, checks that it extends the checkpoint trusted before, fetches entries, proves their
  inclusion, selects the authenticated events of the stream among whatever else is logged, checks that
  they form a legal lifecycle and reduces them to the state of the domain. The identity manager verifies a domain: it reads the TXT
  record, authenticates it with the entity key, checks the operational key against the log, reads the
  status, caches the evidence as long as its parts are valid and decides whether the counterparty is
  accepted. Every step that decides something is modelled here; the code that moves bytes over the
  network is not.

  \<^bold>\<open>The theories\<close>, in the order of their dependencies, with the sources under \<^verbatim>\<open>src/dnsid/\<close>:
    \<^item> \<open>Dnsid_Prelude\<close>: the types for Python's \<^verbatim>\<open>str\<close> (a list of code points), \<^verbatim>\<open>bytes\<close> (a list of 8-bit
      words) and fallible results (\<open>exn + 'a\<close> with \<open>rbind\<close>), the string methods the sources call, and
      the lemmas about them.
    \<^item> \<open>Sha256\<close>, \<open>Sha256_Eval\<close>: the digest of \<^verbatim>\<open>hashlib\<close>, executable, and its evaluation in the kernel on
      messages of one and two blocks. No theorem assumes that it is collision free: the safety theorems conclude
      "or these strings collide", the strings being the ones that were hashed.
    \<^item> \<open>Dnsid_Errors\<close>: \<^verbatim>\<open>enums.py\<close>, \<^verbatim>\<open>exceptions.py\<close> and \<^verbatim>\<open>c2sp_tlog/errors.py\<close>. Every \<^verbatim>\<open>raise\<close> of the modelled
      code is a value of \<open>exn\<close>, the built-in ones (\<^verbatim>\<open>ValueError\<close>, \<^verbatim>\<open>TypeError\<close>, ...) included.
    \<^item> \<open>Utf8\<close>, \<open>Dnsid_Utils\<close>: text encodings; \<^verbatim>\<open>_utils.py\<close>.
    \<^item> \<open>Tiles\<close>: \<^verbatim>\<open>c2sp_tlog/tiles.py\<close>. \<open>Merkle\<close>: \<^verbatim>\<open>c2sp_tlog/merkle.py\<close> and the proof construction of
      \<^verbatim>\<open>stream_source.py\<close>, against the recursive tree hash of RFC 6962.
    \<^item> \<open>Signed_Note\<close>: \<^verbatim>\<open>checkpoint.py\<close>, \<^verbatim>\<open>signed_note.py\<close>. \<open>Policy\<close>: \<^verbatim>\<open>policy.py\<close>, against quorum formulas.
      \<open>Tlog_Proof\<close>: \<^verbatim>\<open>proof.py\<close>.
    \<^item> \<open>Checkpoint_Store\<close>: \<^verbatim>\<open>checkpoint_store.py\<close> and the consistency check of \<^verbatim>\<open>reader.py\<close>. The interface
      \<^verbatim>\<open>CheckpointStore\<close> is the locale \<open>trusted_store\<close>, interpreted on the in-memory store; concurrent
      callers are the step relation \<open>tstep\<close>.
    \<^item> \<open>Json\<close>: \<^verbatim>\<open>canonical.py\<close> and \<^verbatim>\<open>json.loads\<close>. \<open>Log_Ref\<close>: \<^verbatim>\<open>lr.py\<close>. \<open>Jwk\<close>: \<^verbatim>\<open>_crypto.py\<close> and the key classes of
      \<^verbatim>\<open>models.py\<close>. \<open>Events\<close>: \<^verbatim>\<open>event_codec.py\<close> and the event classes of \<^verbatim>\<open>models.py\<close>.
    \<^item> \<open>Lifecycle\<close>: \<^verbatim>\<open>verify_lifecycle\<close> of \<^verbatim>\<open>stream_verifier.py\<close>, against the inductive predicate \<open>lifecycle\<close>.
      \<open>Stream_Verifier\<close>: \<^verbatim>\<open>verify_stream_lifecycle\<close>, the selection in front of it.
    \<^item> \<open>Domain_Log\<close>: \<^verbatim>\<open>DomainLog.snapshot_at\<close> of \<^verbatim>\<open>models.py\<close>. \<open>Txt_Record\<close>: TXT records, certificates, agent
      status and log references of \<^verbatim>\<open>models.py\<close>.
    \<^item> \<open>Stream_Source\<close>: the scanning source of \<^verbatim>\<open>stream_source.py\<close> with the checks of \<^verbatim>\<open>resource_fetcher.py\<close> and
      the complete-scan check of \<^verbatim>\<open>stream_bundle.py\<close>. \<open>Log_Reader\<close>: \<^verbatim>\<open>C2spTlogReader\<close> of \<^verbatim>\<open>reader.py\<close>, its cache of
      histories, the interface methods and the recursion into previous logs. \<open>Event_Reader\<close>: its
      \<^verbatim>\<open>read_event\<close> and \<^verbatim>\<open>preload_history\<close>.
    \<^item> \<open>Verified_Domain\<close>: \<^verbatim>\<open>VerifiedDomain\<close> of \<^verbatim>\<open>models.py\<close>, \<^verbatim>\<open>registry.py\<close>, \<^verbatim>\<open>NoopLogReader\<close> of \<^verbatim>\<open>interfaces.py\<close> and
      the caches of \<^verbatim>\<open>manager.py\<close>. \<open>Domain_Verifier\<close>: the verification of a domain in \<^verbatim>\<open>manager.py\<close>, from
      \<^verbatim>\<open>verify_domain\<close> and \<^verbatim>\<open>refresh_domain\<close> down, status documents of \<^verbatim>\<open>_https_client.py\<close> and the
      concurrent branches of \<^verbatim>\<open>_verification_budget.py\<close>.
    \<^item> \<open>Verified_Identity\<close>: what each of these steps establishes, and two interfaces as locales:
      \<open>lifecycle_log\<close>, what the manager relies on from log readers, and \<open>verifier_env\<close>, which adds the
      factories. \<open>Identity_Claims\<close>: the properties of the manager, by an interpretation that asks
      nothing of the log. \<open>Verified_Log\<close>: the registry of \<^verbatim>\<open>verification_registry.py\<close>, the interpretation of
      both interfaces on \<open>Log_Reader\<close>, and the property of the two together.

  \<^bold>\<open>What is shown.\<close> Merkle proofs are sound and complete, with the one index confusion the verifier
  allows. The trusted checkpoint only moves forward along prefixes, under every interleaving of
  callers. An accepted checkpoint has its log signature and a quorum of distinct witnesses. Canonical
  JSON and the event codec are exact inverses. The lifecycle check accepts exactly the derivable
  lifecycles; the selection returns only such lifecycles, cannot be influenced by entries whose
  signatures do not verify, and accepts every honest stream; the last event commits to the whole
  history. The snapshot reducer agrees with the lifecycle check. The
  canonical form of a TXT record, the bytes that are signed, determines it, and a validated record
  serves its keys from the right hosts. A scan returns all entries of the tree within the limits, and
  an honest log is scanned to the end. Every history a reader returns, from its cache or not, rests on
  an accepted checkpoint, all entries under it and a lifecycle made of them; recursion into previous
  logs is bounded and never enters a log twice. A domain that the manager returns, from its cache or
  not, has a signed and validated record, separate keys, an active and fresh status and an accepted
  counterparty, and its operational key is the active key of its history in the log.

  \<^bold>\<open>Parameters.\<close> The code that is not part of the repository enters as the record \<open>platform\<close>: the
  signature primitives of the cryptography package, the float conversions of the runtime; the idna
  package and the parts of \<^verbatim>\<open>urllib\<close> and \<^verbatim>\<open>str.lower\<close> that depend on Unicode tables are arguments in the
  same way. Callbacks (the migration verifier, the consistency check passed to the store) are function
  arguments. The manager gets its injected resolver, HTTPS
  fetcher and clock and \<^verbatim>\<open>datetime.fromisoformat\<close> as the record \<open>env\<close>; every read is numbered, so that two reads may differ. Witness
  theorems instantiate all of them with concrete functions.

  \<^bold>\<open>Loops and bounds.\<close> Loops are structural recursion or functions with a termination proof. The only
  fuel is that of the JSON scanner: each call consumes a character or closes a value, so twice the
  length of the text plus two is enough, and \<open>Json\<close> proves that the text of every value is read back
  with it. The retry loop of a status refresh has the number of rounds that its deadline allows as an
  argument; its theorems hold for every number. The limits of the sources (nesting depth, entry size, tree sizes, timestamps) are kept as
  they are.

  \<^bold>\<open>Not modelled.\<close> The HTTP, DNS and file layers (default transports, resolver, fetchers, key providers,
  registry client) are I/O. The asynchronous twins of the methods and the sharing of one verification
  between concurrent callers of a manager are not modelled: the manager has one caller, and a deadline
  appears only as rounds. Signed stream bundles and hash tiles, which replace a scan, key rotation and
  publication in \<^verbatim>\<open>manager.py\<close>, and the loading of configuration are left out; so are HTTP message
  signatures, JOSE and OIDC, which rest on third-party parsers.
\<close>

end
